(* ===== verification/Prelude.thy ===== *)
theory Prelude
  imports Main "HOL-Library.Signed_Division" "HOL-Library.Multiset"
begin

text \<open>
  Shared vocabulary of the development.

  \<^item> \<open>btree\<close>: the ordered map (Rust's \<^verbatim>\<open>BTreeMap\<close>) as a key-sorted association list, so that
    iteration order is the code's iteration order and every operation computes.  Its contract
    is the locale \<open>ordered_map\<close>, interpreted below on the operations the models use.
  \<^item> \<open>max_by_key\<close>: the iterator method of that name; on ties the \emph{last} maximum wins, as the
    Rust documentation promises.
  \<^item> \<open>as_i32\<close>, \<open>sat_add_u64\<close>, \<open>sat_mul_u64\<close>, \<open>clamp\<close>: the integer casts and saturating operations of the
    source, written out on \<open>int\<close>/\<open>nat\<close>.
  \<^item> the collection \<open>rust_simps\<close> gathers the unfolding facts the component proofs share.
\<close>

named_theorems rust_simps \<open>unfolding facts of the shared Rust vocabulary\<close>

section \<open>Ordered maps\<close>

text \<open>
  The interface a component sees: a well-formedness predicate, the partial-function view
  \<open>get\<close>, the three updates the code performs and the list of entries that iteration visits.
\<close>

locale ordered_map =
  fixes wf :: "'m \<Rightarrow> bool"
    and get :: "'m \<Rightarrow> 'k \<Rightarrow> 'v option"
    and put :: "'k \<Rightarrow> 'v \<Rightarrow> 'm \<Rightarrow> 'm"
    and adj :: "'k \<Rightarrow> ('v \<Rightarrow> 'v) \<Rightarrow> 'm \<Rightarrow> 'm"
    and del :: "'k \<Rightarrow> 'm \<Rightarrow> 'm"
    and entries :: "'m \<Rightarrow> ('k \<times> 'v) list"
  assumes distinct_entries: "wf m \<Longrightarrow> distinct (map fst (entries m))"
    and get_entries: "wf m \<Longrightarrow> get m = map_of (entries m)"
    and wf_put: "wf m \<Longrightarrow> wf (put k v m)"
    and get_put: "wf m \<Longrightarrow> get (put k v m) = (get m)(k \<mapsto> v)"
    and wf_adj: "wf m \<Longrightarrow> wf (adj k f m)"
    and get_adj: "wf m \<Longrightarrow> get (adj k f m) = (get m)(k := map_option f (get m k))"
    and wf_del: "wf m \<Longrightarrow> wf (del k m)"
    and get_del: "wf m \<Longrightarrow> get (del k m) = (get m)(k := None)"
begin

text \<open>The total weight of the values under a measure \<open>w\<close> of a single value.\<close>

lemma finite_dom_get: "wf m \<Longrightarrow> finite (dom (get m))"
  by (simp add: get_entries finite_dom_map_of)

lemma weight_dom:
  fixes w :: "'v \<Rightarrow> 'w :: comm_monoid_add"
  assumes "wf m"
  shows "(\<Sum>e\<leftarrow>entries m. w (snd e)) = (\<Sum>k\<in>dom (get m). w (the (get m k)))"
proof -
  have d: "distinct (map fst (entries m))" using assms by (rule distinct_entries)
  have "(\<Sum>e\<leftarrow>entries m. w (snd e)) = (\<Sum>e\<in>set (entries m). w (snd e))"
    using d by (simp add: sum_list_distinct_conv_sum_set distinct_map)
  also have "\<dots> = (\<Sum>k\<in>fst ` set (entries m). w (the (map_of (entries m) k)))"
    using d by (subst sum.reindex) (auto simp: distinct_map intro!: sum.cong)
  finally show ?thesis using assms by (simp add: get_entries dom_map_of_conv_image_fst)
qed

lemma weight_put:
  fixes w :: "'v \<Rightarrow> 'w :: comm_monoid_add"
  assumes "wf m" and "get m k = None"
  shows "(\<Sum>e\<leftarrow>entries (put k v m). w (snd e)) = w v + (\<Sum>e\<leftarrow>entries m. w (snd e))"
proof -
  have k: "k \<notin> dom (get m)" using assms(2) by auto
  have "(\<Sum>e\<leftarrow>entries (put k v m). w (snd e))
      = (\<Sum>x\<in>insert k (dom (get m)). w (the (((get m)(k \<mapsto> v)) x)))"
    using assms by (simp add: weight_dom wf_put get_put)
  also have "\<dots> = w v + (\<Sum>x\<in>dom (get m). w (the (((get m)(k \<mapsto> v)) x)))"
    using k assms by (simp add: finite_dom_get)
  also have "(\<Sum>x\<in>dom (get m). w (the (((get m)(k \<mapsto> v)) x))) = (\<Sum>x\<in>dom (get m). w (the (get m x)))"
    using k by (intro sum.cong) auto
  finally show ?thesis using assms by (simp add: weight_dom)
qed

lemma weight_adj:
  fixes w :: "'v \<Rightarrow> 'w :: ab_group_add"
  assumes "wf m" and "get m k = Some v"
  shows "(\<Sum>e\<leftarrow>entries (adj k f m). w (snd e)) = (\<Sum>e\<leftarrow>entries m. w (snd e)) - w v + w (f v)"
proof -
  let ?g = "(get m)(k := Some (f v))"
  have k: "k \<in> dom (get m)" and fin: "finite (dom (get m))"
    using assms by (auto simp: finite_dom_get)
  have "(\<Sum>e\<leftarrow>entries (adj k f m). w (snd e)) = (\<Sum>x\<in>dom (get m). w (the (?g x)))"
    using assms by (simp add: weight_dom wf_adj get_adj insert_absorb domI)
  also have "\<dots> = w (f v) + (\<Sum>x\<in>dom (get m) - {k}. w (the (?g x)))"
    using k fin by (subst sum.remove[of _ k]) auto
  also have "(\<Sum>x\<in>dom (get m) - {k}. w (the (?g x))) = (\<Sum>x\<in>dom (get m) - {k}. w (the (get m x)))"
    by (intro sum.cong) auto
  also have "\<dots> = (\<Sum>e\<leftarrow>entries m. w (snd e)) - w v"
    using k fin assms by (simp add: weight_dom sum_diff1)
  finally show ?thesis by (simp add: algebra_simps)
qed

lemma weight_del:
  fixes w :: "'v \<Rightarrow> 'w :: ab_group_add"
  assumes "wf m" and "get m k = Some v"
  shows "(\<Sum>e\<leftarrow>entries (del k m). w (snd e)) = (\<Sum>e\<leftarrow>entries m. w (snd e)) - w v"
proof -
  have k: "k \<in> dom (get m)" and fin: "finite (dom (get m))"
    using assms by (auto simp: finite_dom_get)
  have "(\<Sum>e\<leftarrow>entries (del k m). w (snd e)) = (\<Sum>x\<in>dom (get m) - {k}. w (the (((get m)(k := None)) x)))"
    using assms by (simp add: weight_dom wf_del get_del)
  also have "\<dots> = (\<Sum>x\<in>dom (get m) - {k}. w (the (get m x)))"
    by (intro sum.cong) auto
  finally show ?thesis using k fin assms by (simp add: weight_dom sum_diff1)
qed

lemma in_entries: "wf m \<Longrightarrow> (k, v) \<in> set (entries m) \<longleftrightarrow> get m k = Some v"
  by (simp add: get_entries distinct_entries)

lemma in_entries_put:
  assumes "wf m"
  shows "(k', v') \<in> set (entries (put k v m))
    \<longleftrightarrow> (k' = k \<and> v' = v) \<or> (k' \<noteq> k \<and> (k', v') \<in> set (entries m))"
  using assms by (auto simp: in_entries wf_put get_put)

lemma in_entries_adj:
  assumes "wf m"
  shows "(k', v') \<in> set (entries (adj k f m))
    \<longleftrightarrow> (k' = k \<and> (\<exists>v. (k, v) \<in> set (entries m) \<and> v' = f v)) \<or> (k' \<noteq> k \<and> (k', v') \<in> set (entries m))"
  using assms by (auto simp: in_entries wf_adj get_adj)

lemma in_entries_del:
  assumes "wf m"
  shows "(k', v') \<in> set (entries (del k m)) \<longleftrightarrow> k' \<noteq> k \<and> (k', v') \<in> set (entries m)"
  using assms by (auto simp: in_entries wf_del get_del)

end

subsection \<open>The model of \<open>BTreeMap\<close>\<close>

type_synonym ('k, 'v) btree = "('k \<times> 'v) list"

definition bt_wf :: "('k :: linorder, 'v) btree \<Rightarrow> bool" where
  "bt_wf m \<longleftrightarrow> sorted_wrt (<) (map fst m)"

fun bt_get :: "('k, 'v) btree \<Rightarrow> 'k \<Rightarrow> 'v option" where
  "bt_get [] k = None"
| "bt_get ((k', v) # m) k = (if k' = k then Some v else bt_get m k)"

fun bt_insert :: "'k :: linorder \<Rightarrow> 'v \<Rightarrow> ('k, 'v) btree \<Rightarrow> ('k, 'v) btree" where
  "bt_insert k v [] = [(k, v)]"
| "bt_insert k v ((k', v') # m) =
     (if k < k' then (k, v) # (k', v') # m
      else if k = k' then (k, v) # m
      else (k', v') # bt_insert k v m)"

text \<open>\<open>if let Some(x) = m.get_mut(&k) { f(x) }\<close>\<close>

definition bt_adjust :: "'k \<Rightarrow> ('v \<Rightarrow> 'v) \<Rightarrow> ('k, 'v) btree \<Rightarrow> ('k, 'v) btree" where
  "bt_adjust k f m = map (\<lambda>(k', v). (k', if k' = k then f v else v)) m"

definition bt_remove :: "'k \<Rightarrow> ('k, 'v) btree \<Rightarrow> ('k, 'v) btree" where
  "bt_remove k m = filter (\<lambda>(k', v). k' \<noteq> k) m"

definition bt_values :: "('k, 'v) btree \<Rightarrow> 'v list" where
  "bt_values m = map snd m"

lemma bt_wf_Cons: "bt_wf ((k, v) # m) \<longleftrightarrow> (\<forall>k' \<in> fst ` set m. k < k') \<and> bt_wf m"
  by (auto simp: bt_wf_def)

lemma bt_get_map_of: "bt_get m = map_of m"
proof
  show "bt_get m k = map_of m k" for k by (induction m) auto
qed

lemma keys_bt_insert: "fst ` set (bt_insert k v m) = insert k (fst ` set m)"
  by (induction k v m rule: bt_insert.induct) auto

lemma bt_wf_insert: "bt_wf m \<Longrightarrow> bt_wf (bt_insert k v m)"
  by (induction k v m rule: bt_insert.induct) (auto simp: bt_wf_Cons keys_bt_insert bt_wf_def[of "[]"])

lemma map_of_bt_insert: "bt_wf m \<Longrightarrow> map_of (bt_insert k v m) = (map_of m)(k \<mapsto> v)"
  by (induction k v m rule: bt_insert.induct) (auto simp: bt_wf_Cons fun_eq_iff)

lemma keys_bt_adjust: "map fst (bt_adjust k f m) = map fst m"
  by (auto simp: bt_adjust_def)

lemma bt_wf_adjust: "bt_wf m \<Longrightarrow> bt_wf (bt_adjust k f m)"
  by (simp add: bt_wf_def keys_bt_adjust)

lemma map_of_bt_adjust: "map_of (bt_adjust k f m) = (map_of m)(k := map_option f (map_of m k))"
  by (induction m) (auto simp: bt_adjust_def fun_eq_iff)

lemma bt_wf_remove: "bt_wf m \<Longrightarrow> bt_wf (bt_remove k m)"
  by (induction m) (auto simp: bt_remove_def bt_wf_Cons bt_wf_def[of "[]"])

lemma map_of_bt_remove: "map_of (bt_remove k m) = (map_of m)(k := None)"
  by (induction m) (auto simp: bt_remove_def fun_eq_iff)

lemma bt_get_insert: "bt_wf m \<Longrightarrow> bt_get (bt_insert k v m) x = (if x = k then Some v else bt_get m x)"
  by (simp add: bt_get_map_of map_of_bt_insert)

lemma bt_get_remove: "bt_get (bt_remove k m) x = (if x = k then None else bt_get m x)"
  by (simp add: bt_get_map_of map_of_bt_remove)

interpretation bt: ordered_map bt_wf bt_get bt_insert bt_adjust bt_remove "\<lambda>m. m"
proof unfold_locales
  fix m :: "('a :: linorder, 'b) btree"
  assume "bt_wf m"
  then show "distinct (map fst m)"
    unfolding bt_wf_def by (simp add: strict_sorted_iff)
qed (simp_all add: bt_get_map_of bt_wf_insert map_of_bt_insert bt_wf_adjust map_of_bt_adjust
       bt_wf_remove map_of_bt_remove)

section \<open>Iterators\<close>

text \<open>\<^verbatim>\<open>Iterator::max_by_key\<close>: the last of several equal maxima is returned.\<close>

fun max_by_key :: "('a \<Rightarrow> 'b :: linorder) \<Rightarrow> 'a list \<Rightarrow> 'a option" where
  "max_by_key f [] = None"
| "max_by_key f (x # xs) = Some (foldl (\<lambda>b y. if f b \<le> f y then y else b) x xs)"

lemma foldl_max_in: "foldl (\<lambda>b y. if f b \<le> f y then y else b) x xs \<in> insert x (set xs)"
proof (induction xs arbitrary: x)
  case (Cons y ys)
  then show ?case by (cases "f x \<le> f y") (use Cons in fastforce)+
qed simp

lemma foldl_max_ge:
  fixes f :: "'a \<Rightarrow> 'b :: linorder"
  assumes "z \<in> insert x (set xs)"
  shows "f z \<le> f (foldl (\<lambda>b y. if f b \<le> f y then y else b) x xs)"
  using assms
proof (induction xs arbitrary: x z)
  case (Cons y ys)
  let ?b = "if f x \<le> f y then y else x"
  have "f ?b \<le> f (foldl (\<lambda>b y. if f b \<le> f y then y else b) ?b ys)"
    by (rule Cons.IH) simp
  moreover have "f x \<le> f ?b" "f y \<le> f ?b" by auto
  ultimately show ?case using Cons.prems Cons.IH[of z ?b] by (auto intro: order_trans)
qed simp

lemma max_by_key_Some:
  assumes "max_by_key f xs = Some x"
  shows "x \<in> set xs" and "y \<in> set xs \<Longrightarrow> f y \<le> f x"
proof -
  from assms obtain a ys where *: "xs = a # ys" "x = foldl (\<lambda>b y. if f b \<le> f y then y else b) a ys"
    by (cases xs) auto
  show "x \<in> set xs" using foldl_max_in[of f a ys] * by simp
  show "f y \<le> f x" if "y \<in> set xs" using foldl_max_ge[of y a ys f] that * by simp
qed

lemma max_by_key_None: "max_by_key f xs = None \<longleftrightarrow> xs = []"
  by (cases xs) auto

section \<open>Sorted lists\<close>

lemma sorted_hd_last: "xs \<noteq> [] \<Longrightarrow> sorted (map f xs) \<Longrightarrow> f (hd xs) \<le> f (last xs)"
  by (cases xs) (auto dest: last_in_set)

lemma sum_list_sort_key: "(\<Sum>x\<leftarrow>sort_key k xs. f x) = (\<Sum>x\<leftarrow>xs. (f x :: 'a :: comm_monoid_add))"
  by (metis mset_map mset_sort sum_mset_sum_list)

lemma map_of_rev_distinct: "distinct (map fst xs) \<Longrightarrow> map_of (rev xs) = map_of xs"
  by (subst map_of_inject_set) (simp_all flip: rev_map)

lemma in_map_filter: "y \<in> set (List.map_filter f xs) \<longleftrightarrow> (\<exists>x \<in> set xs. f x = Some y)"
  by (induction xs) (auto simp: List.map_filter_def split: option.splits)

section \<open>Machine integers\<close>

text \<open>\<^verbatim>\<open>x as i32\<close> for a wider integer: the low 32 bits, read as two's complement.\<close>

definition as_i32 :: "int \<Rightarrow> int" where
  "as_i32 x = (x + 2 ^ 31) mod 2 ^ 32 - 2 ^ 31"

lemma as_i32_id: "- (2 ^ 31) \<le> x \<Longrightarrow> x < 2 ^ 31 \<Longrightarrow> as_i32 x = x"
  by (simp add: as_i32_def)

lemma as_i32_range: "- (2 ^ 31) \<le> as_i32 x \<and> as_i32 x < 2 ^ 31"
  by (simp add: as_i32_def)

definition u64_max :: nat where "u64_max = 2 ^ 64 - 1"

definition sat_add_u64 :: "nat \<Rightarrow> nat \<Rightarrow> nat" where
  "sat_add_u64 a b = min (a + b) u64_max"

definition sat_mul_u64 :: "nat \<Rightarrow> nat \<Rightarrow> nat" where
  "sat_mul_u64 a b = min (a * b) u64_max"

text \<open>\<^verbatim>\<open>x.clamp(lo, hi)\<close>, with \<open>lo \<le> hi\<close> at every call of the source.\<close>

definition clamp :: "'a :: linorder \<Rightarrow> 'a \<Rightarrow> 'a \<Rightarrow> 'a" where
  "clamp lo hi x = (if x < lo then lo else if x > hi then hi else x)"

lemma clamp_bounds: "lo \<le> hi \<Longrightarrow> lo \<le> clamp lo hi x \<and> clamp lo hi x \<le> hi"
  by (auto simp: clamp_def)

text \<open>Truncating division agrees with \<open>div\<close> on non-negative operands.\<close>

lemma sdiv_nonneg: "0 \<le> (a :: int) \<Longrightarrow> 0 \<le> b \<Longrightarrow> a sdiv b = a div b"
  by (cases "a = 0 \<or> b = 0") (auto simp: signed_divide_int_def sgn_if)

declare sdiv_nonneg [rust_simps] bt_values_def [rust_simps]

end
