(* ===== verification/Segments.thy ===== *)
theory Segments
  imports Prelude
begin

text \<open>
  The segment layout of one coordinated HTTP download
  (\<^verbatim>\<open>native/engine/src/segment_coordinator.rs\<close>): the live segments in a \<^verbatim>\<open>BTreeMap\<close> keyed by
  segment index, the construction of a fresh layout, the coverage check run before a download
  starts and before it is declared complete, work assignment and in-half splitting, the
  absorption of pending segments into an open-ended stream, and the two-way exchange of progress
  with the worker-owned shared state.  Byte offsets are the source's \<^verbatim>\<open>i64\<close>, modelled as \<open>int\<close>;
  every offset computed from a layout lies inside it (\<open>split_point_inside\<close>), so no operation here
  overflows on a file whose size is an \<^verbatim>\<open>i64\<close>.  Logging is left out.
\<close>

section \<open>State\<close>

datatype seg_state = Pending | Active | Completed

record live_segment =
  index :: int
  start_byte :: int
  end_byte :: int
  downloaded_bytes :: int
  lstate :: seg_state

type_synonym segments = "(int, live_segment) btree"

definition seg_size :: "live_segment \<Rightarrow> int" where
  "seg_size s = max (end_byte s - start_byte s + 1) 0"

definition seg_remaining :: "live_segment \<Rightarrow> int" where
  "seg_remaining s = max (seg_size s - downloaded_bytes s) 0"

record worker_assignment =
  wa_index :: int
  wa_start :: int
  wa_actual_start :: int
  wa_end :: int
  wa_open_ended :: bool
  wa_no_range :: bool

record next_work =
  assignment :: worker_assignment
  split_parent :: "int option"

definition max_segments :: int where "max_segments = 64"

definition tail_min_split_bytes :: int where "tail_min_split_bytes = 64 * 1024"

section \<open>A fresh layout\<close>

text \<open>
  \<open>None\<close> is the panic of the source: \<^verbatim>\<open>total_bytes / count_i64\<close> divides by zero for \<open>n_segs = 0\<close>,
  and \<^verbatim>\<open>Vec::with_capacity(count as usize)\<close> overflows for a negative \<open>n_segs\<close>.
\<close>

definition fresh_segment :: "int \<Rightarrow> int \<Rightarrow> int \<Rightarrow> live_segment" where
  "fresh_segment n_segs total_bytes i =
     (let chunk = total_bytes sdiv n_segs in
      \<lparr> index = i, start_byte = i * chunk,
        end_byte = (if i = n_segs - 1 then total_bytes - 1 else (i + 1) * chunk - 1),
        downloaded_bytes = 0, lstate = Pending \<rparr>)"

definition build_fresh_segments ::
  "int \<Rightarrow> int \<Rightarrow> (segments \<times> (int \<times> int \<times> int) list) option" where
  "build_fresh_segments n_segs total_bytes =
     (if n_segs \<le> 0 then None
      else Some
        (foldl (\<lambda>m i. bt_insert i (fresh_segment n_segs total_bytes i) m) [] [0..n_segs - 1],
         map (\<lambda>i. let s = fresh_segment n_segs total_bytes i in (i, start_byte s, end_byte s))
           [0..n_segs - 1]))"

section \<open>The coverage check\<close>

datatype coverage_error =
    NoSegments
  | FirstStart int
  | LastEnd int int
  | GapOrOverlap int int int int
  | TotalMismatch int int

fun check_contiguous :: "live_segment list \<Rightarrow> coverage_error option" where
  "check_contiguous (p # c # rest) =
     (if start_byte c \<noteq> end_byte p + 1
      then Some (GapOrOverlap (index p) (end_byte p) (index c) (start_byte c))
      else check_contiguous (c # rest))"
| "check_contiguous _ = None"

definition validate_coverage :: "segments \<Rightarrow> int \<Rightarrow> coverage_error + unit" where
  "validate_coverage segs total_bytes =
     (if segs = [] then Inl NoSegments
      else let sorted = sort_key start_byte (bt_values segs) in
        if start_byte (hd sorted) \<noteq> 0 then Inl (FirstStart (start_byte (hd sorted)))
        else if end_byte (last sorted) \<noteq> total_bytes - 1
          then Inl (LastEnd (end_byte (last sorted)) (total_bytes - 1))
        else case check_contiguous sorted of
            Some e \<Rightarrow> Inl e
          | None \<Rightarrow>
              (let total_coverage = (\<Sum>s\<leftarrow>bt_values segs. seg_size s) in
               if total_coverage \<noteq> total_bytes then Inl (TotalMismatch total_coverage total_bytes)
               else Inr ()))"

section \<open>Work assignment\<close>

definition set_state :: "seg_state \<Rightarrow> live_segment \<Rightarrow> live_segment" where
  "set_state st s = s\<lparr>lstate := st\<rparr>"

definition pending_assignment :: "live_segment \<Rightarrow> worker_assignment" where
  "pending_assignment s =
     \<lparr> wa_index = index s, wa_start = start_byte s,
       wa_actual_start = start_byte s + downloaded_bytes s, wa_end = end_byte s,
       wa_open_ended = False, wa_no_range = False \<rparr>"

definition find_next_pending_only :: "segments \<Rightarrow> next_work option \<times> segments" where
  "find_next_pending_only segs =
     (case find (\<lambda>s. lstate s = Pending) (bt_values segs) of
        None \<Rightarrow> (None, segs)
      | Some s \<Rightarrow>
          (Some \<lparr> assignment = pending_assignment s, split_parent = None \<rparr>,
           bt_adjust (index s) (set_state Active) segs))"

definition live_count :: "segments \<Rightarrow> int" where
  "live_count segs = int (length (filter (\<lambda>s. lstate s \<noteq> Completed) (bt_values segs)))"

text \<open>
  The in-half division.  The two callers of the source repeat this body and differ only in the
  state of the new segment: \<open>Active\<close> in \<^verbatim>\<open>try_split_largest\<close>, \<open>Pending\<close> in
  \<^verbatim>\<open>try_proactive_split\<close>.  The result is the work found, the new map and the new \<open>next_index\<close>.
\<close>

definition best_candidate :: "segments \<Rightarrow> int \<Rightarrow> live_segment option" where
  "best_candidate segs min_split =
     max_by_key seg_remaining
       (filter (\<lambda>s. lstate s = Active \<and> min_split \<le> seg_remaining s) (bt_values segs))"

definition split_at_midpoint ::
  "seg_state \<Rightarrow> segments \<Rightarrow> int \<Rightarrow> int \<Rightarrow> next_work option \<times> segments \<times> int" where
  "split_at_midpoint child_state segs next_index min_split =
     (if max_segments \<le> live_count segs then (None, segs, next_index)
      else case Option.bind (best_candidate segs min_split) (\<lambda>b. bt_get segs (index b)) of
          None \<Rightarrow> (None, segs, next_index)
        | Some best \<Rightarrow>
            let current_pos = start_byte best + downloaded_bytes best;
                remaining = end_byte best - current_pos + 1
            in if remaining < min_split then (None, segs, next_index)
               else let split_point = current_pos + remaining sdiv 2 in
                 if split_point \<le> current_pos \<or> end_byte best < split_point
                 then (None, segs, next_index)
                 else
                   let old_end = end_byte best;
                       new_seg = \<lparr> index = next_index, start_byte = split_point,
                         end_byte = old_end, downloaded_bytes = 0, lstate = child_state \<rparr>;
                       shrunk = bt_adjust (index best)
                         (\<lambda>s. s\<lparr>end_byte := split_point - 1\<rparr>) segs
                   in (Some \<lparr> assignment = \<lparr> wa_index = next_index, wa_start = split_point,
                              wa_actual_start = split_point, wa_end = old_end,
                              wa_open_ended = False, wa_no_range = False \<rparr>,
                              split_parent = Some (index best) \<rparr>,
                       bt_insert next_index new_seg shrunk, next_index + 1))"

definition try_split_largest ::
  "segments \<Rightarrow> int \<Rightarrow> int \<Rightarrow> next_work option \<times> segments \<times> int" where
  "try_split_largest = split_at_midpoint Active"

definition try_proactive_split ::
  "segments \<Rightarrow> int \<Rightarrow> int \<Rightarrow> next_work option \<times> segments \<times> int" where
  "try_proactive_split segs next_index min_split =
     (if list_ex (\<lambda>s. lstate s = Pending) (bt_values segs) then (None, segs, next_index)
      else split_at_midpoint Pending segs next_index min_split)"

definition max_active_remaining :: "segments \<Rightarrow> int" where
  "max_active_remaining segs =
     (case max_by_key (\<lambda>x. x) (map seg_remaining (filter (\<lambda>s. lstate s = Active) (bt_values segs))) of
        None \<Rightarrow> 0 | Some m \<Rightarrow> m)"

definition find_next_work ::
  "segments \<Rightarrow> int \<Rightarrow> int \<Rightarrow> next_work option \<times> segments \<times> int" where
  "find_next_work segs next_index min_split =
     (case find (\<lambda>s. lstate s = Pending) (bt_values segs) of
        Some s \<Rightarrow>
          (Some \<lparr> assignment = pending_assignment s, split_parent = None \<rparr>,
           bt_adjust (index s) (set_state Active) segs, next_index)
      | None \<Rightarrow>
          (case try_split_largest segs next_index min_split of
             (Some work, r) \<Rightarrow> (Some work, r)
           | (None, _) \<Rightarrow>
               if tail_min_split_bytes < min_split
               then if 2 * tail_min_split_bytes \<le> max_active_remaining segs
                    then try_split_largest segs next_index tail_min_split_bytes
                    else (None, segs, next_index)
               else (None, segs, next_index)))"

definition has_other_in_flight :: "segments \<Rightarrow> int \<Rightarrow> bool" where
  "has_other_in_flight segs failed_index =
     list_ex (\<lambda>s. index s \<noteq> failed_index \<and> lstate s = Active) (bt_values segs)"

definition all_done :: "segments \<Rightarrow> bool" where
  "all_done segs = list_all (\<lambda>s. lstate s = Completed) (bt_values segs)"

section \<open>Shared progress\<close>

text \<open>\<^verbatim>\<open>SegmentProgressInfo\<close>: one row of the vector the workers and the UI share.\<close>

record progress_info =
  pi_index :: int
  pi_start :: int
  pi_end :: int
  pi_downloaded :: int

definition build_seg_state_vec :: "segments \<Rightarrow> progress_info list" where
  "build_seg_state_vec segs =
     map (\<lambda>s. \<lparr> pi_index = index s, pi_start = start_byte s, pi_end = end_byte s,
                pi_downloaded = downloaded_bytes s \<rparr>) (bt_values segs)"

text \<open>
  \<open>existing\<close> of the source is a \<^verbatim>\<open>HashMap\<close> collected from the vector, so the last row of an
  index decides: the lookup runs over the reversed vector.
\<close>

definition rebuild_seg_states :: "segments \<Rightarrow> progress_info list \<Rightarrow> progress_info list" where
  "rebuild_seg_states segs states =
     (let existing = map_of (rev (map (\<lambda>s. (pi_index s, pi_downloaded s)) states)) in
      map (\<lambda>s. case existing (pi_index s) of None \<Rightarrow> s | Some dl \<Rightarrow> s\<lparr>pi_downloaded := dl\<rparr>)
        (build_seg_state_vec segs))"

definition sync_downloaded_from_shared :: "segments \<Rightarrow> progress_info list \<Rightarrow> segments" where
  "sync_downloaded_from_shared segs states =
     foldl (\<lambda>m inf. bt_adjust (pi_index inf)
              (\<lambda>s. if lstate s = Active then s\<lparr>downloaded_bytes := pi_downloaded inf\<rparr> else s) m)
       segs states"

text \<open>The worker's write: the first row of that index, and only its progress column.\<close>

fun update_seg_state :: "progress_info list \<Rightarrow> int \<Rightarrow> int \<Rightarrow> progress_info list" where
  "update_seg_state [] seg_idx bytes = []"
| "update_seg_state (s # ss) seg_idx bytes =
     (if pi_index s = seg_idx then s\<lparr>pi_downloaded := bytes\<rparr> # ss
      else s # update_seg_state ss seg_idx bytes)"

text \<open>
  \<open>pending\<close> is the drained \<^verbatim>\<open>HashMap\<close> of durable watermarks, in the order its iteration yields.
  A row is \<open>(segment_index, downloaded_bytes, start_byte)\<close>.
\<close>

definition take_durable_progress_rows ::
  "(int \<times> int) list \<Rightarrow> segments \<Rightarrow> (int \<times> int \<times> int) list" where
  "take_durable_progress_rows pending segs =
     List.map_filter (\<lambda>(idx, bytes).
       case bt_get segs idx of
         None \<Rightarrow> None
       | Some seg \<Rightarrow>
           if lstate seg = Completed then None
           else Some (idx, max (min bytes (seg_size seg)) 0, start_byte seg)) pending"

section \<open>Absorbing pending segments into an open-ended stream\<close>

text \<open>
  The \<^verbatim>\<open>while let\<close> of the source does not change the map, it only moves \<open>new_end\<close>; nothing in it
  bounds the number of rounds, so it is a \<open>partial_function\<close>: \<open>None\<close> is a loop that never ends
  (\<open>absorb_scan_total\<close> shows that it ends on every layout of non-empty segments).
\<close>

definition next_absorbed :: "segments \<Rightarrow> int \<Rightarrow> live_segment option" where
  "next_absorbed segs new_end =
     find (\<lambda>s. lstate s = Pending \<and> downloaded_bytes s = 0 \<and> start_byte s = new_end + 1)
       (bt_values segs)"

partial_function (option) absorb_scan ::
  "segments \<Rightarrow> int \<Rightarrow> int list \<Rightarrow> (int \<times> int list) option" where
  "absorb_scan segs new_end absorbed =
     (case next_absorbed segs new_end of
        None \<Rightarrow> Some (new_end, absorbed)
      | Some s \<Rightarrow> absorb_scan segs (end_byte s) (absorbed @ [index s]))"

text \<open>
  \<open>merge_ok\<close> is the outcome of \<^verbatim>\<open>db.persist_merge\<close>.  The result is the number of segments
  absorbed, the map, the shared vector and the \<^verbatim>\<open>reconnect_hostile\<close> flag.
\<close>

definition absorb_pending_into_open_stream ::
  "bool \<Rightarrow> segments \<Rightarrow> progress_info list \<Rightarrow> int option \<Rightarrow> bool
   \<Rightarrow> (nat \<times> segments \<times> progress_info list \<times> bool) option" where
  "absorb_pending_into_open_stream merge_ok segs states open_ended_streaming hostile =
     (case open_ended_streaming of
        None \<Rightarrow> Some (0, segs, states, hostile)
      | Some open_idx \<Rightarrow>
          (case bt_get segs open_idx of
             None \<Rightarrow> Some (0, segs, states, hostile)
           | Some open_seg \<Rightarrow>
               if lstate open_seg \<noteq> Active then Some (0, segs, states, hostile)
               else
                 (case absorb_scan segs (end_byte open_seg) [] of
                    None \<Rightarrow> None
                  | Some (new_end, absorbed) \<Rightarrow>
                      if absorbed = [] then Some (0, segs, states, hostile)
                      else if \<not> merge_ok then Some (0, segs, states, hostile)
                      else
                        let kept = foldl (\<lambda>m idx. bt_remove idx m) segs absorbed;
                            segs' = bt_adjust open_idx (\<lambda>s. s\<lparr>end_byte := new_end\<rparr>) kept
                        in Some (length absorbed, segs', rebuild_seg_states segs' states, True))))"

end
