(* ===== verification/Segment_Coverage.thy ===== *)
theory Segment_Coverage
  imports Segments
begin

text \<open>
  What a segment layout promises: every byte of the file lies in exactly one segment.  The
  abstract view is the function \<open>cover_count\<close> from bytes to the number of segments that hold
  them; \<open>exact_cover\<close> says that it is the indicator function of \<open>[0, total_bytes)\<close>.  This theory relates
  the code's check \<open>validate_coverage\<close> and its builder \<open>build_fresh_segments\<close> to that view.
\<close>

section \<open>The abstract view\<close>

definition covers :: "live_segment \<Rightarrow> int \<Rightarrow> bool" where
  "covers s b \<longleftrightarrow> start_byte s \<le> b \<and> b \<le> end_byte s"

definition cov :: "int \<Rightarrow> live_segment \<Rightarrow> int" where
  "cov b s = (if covers s b then 1 else 0)"

definition cover_count :: "segments \<Rightarrow> int \<Rightarrow> int" where
  "cover_count segs b = (\<Sum>e\<leftarrow>segs. cov b (snd e))"

definition exact_cover :: "segments \<Rightarrow> int \<Rightarrow> bool" where
  "exact_cover segs total_bytes \<longleftrightarrow>
     (\<forall>b. cover_count segs b = (if 0 \<le> b \<and> b < total_bytes then 1 else 0))"

definition seg_ok :: "live_segment \<Rightarrow> bool" where
  "seg_ok s \<longleftrightarrow> start_byte s \<le> end_byte s \<and> 0 \<le> downloaded_bytes s"

text \<open>
  The invariant of a live layout: the map is ordered, a segment is stored under its own index,
  indices stay below \<open>next_index\<close>, no segment is empty and no progress is negative.  Progress may
  exceed the size of an active segment: the worker writes its column without looking at a range
  that the coordinator has just shrunk.
\<close>

definition layout_ok :: "segments \<Rightarrow> int \<Rightarrow> bool" where
  "layout_ok segs next_index \<longleftrightarrow>
     bt_wf segs \<and> (\<forall>(k, s) \<in> set segs. index s = k \<and> k < next_index \<and> seg_ok s)"

lemma cov_nonneg [simp]: "0 \<le> cov b s"
  by (simp add: cov_def)

lemma sum_cov_nonneg: "0 \<le> (\<Sum>s\<leftarrow>xs. cov b s)"
  by (rule sum_list_nonneg) auto

lemma sum_cov_pos: "s \<in> set xs \<Longrightarrow> covers s b \<Longrightarrow> 1 \<le> (\<Sum>s\<leftarrow>xs. cov b s)"
  by (induction xs) (auto simp: cov_def[of b s] sum_cov_nonneg add_increasing)

lemma sum_cov_witness: "0 < (\<Sum>s\<leftarrow>xs. cov b s) \<Longrightarrow> \<exists>s \<in> set xs. covers s b"
  by (induction xs) (auto simp: cov_def split: if_splits)

lemma cover_count_values: "cover_count segs b = (\<Sum>s\<leftarrow>bt_values segs. cov b s)"
  by (simp add: cover_count_def bt_values_def o_def)

section \<open>The coverage check is sound and complete\<close>

lemma contiguous_cov:
  assumes "xs \<noteq> []" "sorted (map start_byte xs)" "check_contiguous xs = None"
  shows "(\<Sum>s\<leftarrow>xs. cov b s)
      = (if start_byte (hd xs) \<le> b \<and> b < start_byte (last xs) then 1 else 0) + cov b (last xs)"
  using assms
proof (induction xs rule: check_contiguous.induct)
  case (1 p c rest)
  from 1(3,4) have c: "start_byte c = end_byte p + 1" and le: "start_byte p \<le> start_byte c"
    by (auto split: if_splits)
  have last: "start_byte c \<le> start_byte (last (c # rest))"
    using 1(3) sorted_hd_last[of "c # rest" start_byte] by simp
  have "(\<Sum>s\<leftarrow>c # rest. cov b s)
      = (if start_byte c \<le> b \<and> b < start_byte (last (c # rest)) then 1 else 0) + cov b (last (c # rest))"
    using 1 c by auto
  then show ?case using c le last by (auto simp: cov_def[of b p] covers_def)
qed auto

lemma contiguous_size:
  assumes "xs \<noteq> []" "sorted (map start_byte xs)" "check_contiguous xs = None"
  shows "(\<Sum>s\<leftarrow>xs. seg_size s) = start_byte (last xs) - start_byte (hd xs) + seg_size (last xs)"
  using assms
proof (induction xs rule: check_contiguous.induct)
  case (1 p c rest)
  then show ?case by (auto simp: seg_size_def[of p] split: if_splits)
qed auto

lemma sorted_by_start: "sorted (map start_byte (sort_key start_byte xs))"
  by simp

text \<open>What a successful check says, as facts about the sorted list.\<close>

lemma validate_coverage_InrD:
  assumes "validate_coverage segs total_bytes = Inr ()"
  defines "xs \<equiv> sort_key start_byte (bt_values segs)"
  shows "xs \<noteq> []" and "start_byte (hd xs) = 0" and "end_byte (last xs) = total_bytes - 1"
    and "check_contiguous xs = None" and "(\<Sum>s\<leftarrow>xs. seg_size s) = total_bytes"
proof -
  have ne: "segs \<noteq> []" using assms by (auto simp: validate_coverage_def)
  then have "bt_values segs \<noteq> []" by (simp add: bt_values_def)
  then show "xs \<noteq> []"
    unfolding xs_def by (metis length_0_conv length_sort)
  from assms ne show "start_byte (hd xs) = 0" "end_byte (last xs) = total_bytes - 1"
      "check_contiguous xs = None" "(\<Sum>s\<leftarrow>xs. seg_size s) = total_bytes"
    by (auto simp: validate_coverage_def Let_def xs_def sum_list_sort_key split: if_splits option.splits)
qed

lemma validate_sound:
  assumes "validate_coverage segs total_bytes = Inr ()"
  shows "exact_cover segs total_bytes"
  unfolding exact_cover_def
proof
  fix b
  let ?xs = "sort_key start_byte (bt_values segs)"
  note v = validate_coverage_InrD[OF assms]
  have size: "start_byte (last ?xs) + seg_size (last ?xs) = total_bytes"
    using contiguous_size[OF v(1) sorted_by_start v(4)] v by simp
  have "cover_count segs b = (\<Sum>s\<leftarrow>?xs. cov b s)"
    by (simp add: cover_count_values sum_list_sort_key)
  also have "\<dots> = (if 0 \<le> b \<and> b < start_byte (last ?xs) then 1 else 0) + cov b (last ?xs)"
    using contiguous_cov[OF v(1) sorted_by_start v(4)] v by simp
  also have "\<dots> = (if 0 \<le> b \<and> b < total_bytes then 1 else 0)"
  proof -
    have "start_byte (hd ?xs) \<le> start_byte (last ?xs)"
      using v(1) sorted_by_start by (rule sorted_hd_last)
    then show ?thesis
      using size v(2,3) by (auto simp: cov_def covers_def seg_size_def max_def split: if_splits)
  qed
  finally show "cover_count segs b = (if 0 \<le> b \<and> b < total_bytes then 1 else 0)" .
qed

text \<open>Conversely, an exact cover by non-empty segments, sorted, is a contiguous chain.\<close>

lemma cover_chain:
  assumes "xs \<noteq> []" "sorted (map start_byte xs)" "\<forall>s \<in> set xs. start_byte s \<le> end_byte s"
    and "\<And>b. (\<Sum>s\<leftarrow>xs. cov b s) = (if a \<le> b \<and> b < t then 1 else 0)"
  shows "start_byte (hd xs) = a \<and> end_byte (last xs) = t - 1 \<and> check_contiguous xs = None"
  using assms
proof (induction xs arbitrary: a)
  case (Cons x xs)
  have in_range: "a \<le> b \<and> b < t" if "s \<in> set (x # xs)" "covers s b" for s b
    using sum_cov_pos[OF that] Cons.prems(4)[of b] by (auto split: if_splits)
  have x: "start_byte x \<le> end_byte x" using Cons.prems(3) by simp
  have r: "a \<le> start_byte x" "end_byte x < t" "a < t"
    using in_range[of x "start_byte x"] in_range[of x "end_byte x"] x by (auto simp: covers_def)
  obtain s where "s \<in> set (x # xs)" "covers s a"
    using sum_cov_witness[of a "x # xs"] Cons.prems(4)[of a] r by auto
  then have "start_byte x \<le> a"
    using Cons.prems(2) by (auto simp: covers_def)
  with r have sx: "start_byte x = a" by simp
  have rest: "(\<Sum>s\<leftarrow>xs. cov b s) = (if end_byte x + 1 \<le> b \<and> b < t then 1 else 0)" for b
    using Cons.prems(4)[of b] sx r x by (auto simp: cov_def covers_def split: if_splits)
  show ?case
  proof (cases xs)
    case Nil
    then have "end_byte x = t - 1" using rest[of "t - 1"] r by (auto split: if_splits)
    then show ?thesis using Nil sx by simp
  next
    case (Cons y ys)
    then have "start_byte (hd xs) = end_byte x + 1 \<and> end_byte (last xs) = t - 1 \<and> check_contiguous xs = None"
      using Cons.prems rest by (intro Cons.IH) auto
    then show ?thesis using Cons sx by simp
  qed
qed simp

lemma validate_complete:
  assumes "layout_ok segs n" "segs \<noteq> []" "exact_cover segs total_bytes"
  shows "validate_coverage segs total_bytes = Inr ()"
proof -
  let ?xs = "sort_key start_byte (bt_values segs)"
  have ne: "?xs \<noteq> []" using assms(2) by (metis bt_values_def length_0_conv length_sort map_is_Nil_conv)
  have "\<forall>s \<in> set ?xs. start_byte s \<le> end_byte s"
    using assms(1) by (auto simp: layout_ok_def bt_values_def seg_ok_def)
  moreover have "\<And>b. (\<Sum>s\<leftarrow>?xs. cov b s) = (if 0 \<le> b \<and> b < total_bytes then 1 else 0)"
    using assms(3) by (simp add: exact_cover_def cover_count_values sum_list_sort_key)
  ultimately have chain: "start_byte (hd ?xs) = 0" "end_byte (last ?xs) = total_bytes - 1"
      "check_contiguous ?xs = None" and last_ok: "start_byte (last ?xs) \<le> end_byte (last ?xs)"
    using cover_chain[OF ne sorted_by_start, of 0 total_bytes] ne last_in_set[OF ne] by blast+
  have "(\<Sum>s\<leftarrow>bt_values segs. seg_size s) = total_bytes"
    using contiguous_size[OF ne sorted_by_start chain(3)] chain last_ok
    by (simp add: sum_list_sort_key seg_size_def)
  then show ?thesis using assms(2) chain by (simp add: validate_coverage_def Let_def)
qed

section \<open>Fresh layouts\<close>

lemma bt_insert_last: "\<forall>k' \<in> fst ` set m. k' < k \<Longrightarrow> bt_insert k v m = m @ [(k, v)]"
  by (induction k v m rule: bt_insert.induct) auto

lemma fresh_map:
  "foldl (\<lambda>m i. bt_insert i (f i) m) [] [0..int n - 1] = map (\<lambda>i. (i, f i)) [0..int n - 1]"
proof (induction n)
  case (Suc n)
  have "[0..int (Suc n) - 1] = [0..int n - 1] @ [int n]"
    by (simp add: upto_rec2)
  then show ?case using Suc by (simp add: bt_insert_last)
qed simp

lemma fresh_contiguous:
  assumes "i < j" "j \<le> n_segs - 1"
  shows "check_contiguous (map (fresh_segment n_segs total_bytes) [i..j]) = None"
  using assms
proof (induction "nat (j - i)" arbitrary: i)
  case (Suc k)
  then have "[i..j] = i # (i + 1) # [i + 1 + 1..j]"
    by (simp only: upto_rec1)
  moreover have "check_contiguous (map (fresh_segment n_segs total_bytes) [i + 1..j]) = None"
    if "i + 1 < j" using Suc that by (intro Suc.hyps(1)) auto
  moreover have "[i + 1..j] = (i + 1) # [i + 1 + 1..j]" using Suc by (intro upto_rec1) auto
  ultimately show ?case using Suc.prems
    by (cases "i + 1 < j") (auto simp: fresh_segment_def Let_def)
qed simp

lemma fresh_validates:
  assumes "0 \<le> total_bytes" "build_fresh_segments n_segs total_bytes = Some (segs, rows)"
  shows "validate_coverage segs total_bytes = Inr ()"
proof -
  have c: "0 < n_segs" using assms(2) by (auto simp: build_fresh_segments_def split: if_splits)
  let ?f = "fresh_segment n_segs total_bytes" and ?chunk = "total_bytes div n_segs"
  have segs: "segs = map (\<lambda>i. (i, ?f i)) [0..n_segs - 1]"
    using assms(2) c fresh_map[of ?f "nat n_segs"] by (simp add: build_fresh_segments_def)
  have chunk: "total_bytes sdiv n_segs = ?chunk" "0 \<le> ?chunk"
    using assms(1) c by (auto simp: sdiv_nonneg pos_imp_zdiv_nonneg_iff)
  have vals: "bt_values segs = map ?f [0..n_segs - 1]"
    by (simp add: segs bt_values_def o_def)
  have "sorted (map start_byte (bt_values segs))"
    using chunk by (auto simp: vals fresh_segment_def Let_def o_def sorted_map
      intro!: sorted_wrt_mono_rel[OF _ sorted_upto, unfolded sorted_map] mult_right_mono)
  then have sorted: "sort_key start_byte (bt_values segs) = bt_values segs"
    by (rule sort_key_id_if_sorted)
  have ne: "[0..n_segs - 1] \<noteq> []" using c by simp
  have hd: "start_byte (hd (bt_values segs)) = 0"
    using c by (simp add: vals hd_map upto_rec1 fresh_segment_def)
  have last: "last (bt_values segs) = ?f (n_segs - 1)"
    using c ne by (simp add: vals last_map upto_rec2)
  have cont: "check_contiguous (bt_values segs) = None"
    using fresh_contiguous[of 0 "n_segs - 1" n_segs total_bytes] c
    by (cases "n_segs = 1") (auto simp: vals)
  have "(\<Sum>s\<leftarrow>bt_values segs. seg_size s)
      = start_byte (last (bt_values segs)) - 0 + seg_size (last (bt_values segs))"
    using contiguous_size[of "bt_values segs"] hd cont sorted ne
    by (metis sorted_by_start vals map_is_Nil_conv)
  moreover have "(n_segs - 1) * ?chunk \<le> total_bytes"
  proof -
    have "(n_segs - 1) * ?chunk \<le> n_segs * ?chunk" using chunk by (simp add: mult_right_mono)
    also have "\<dots> \<le> total_bytes" using c pos_mod_sign[of n_segs total_bytes] mult_div_mod_eq[of n_segs total_bytes]
      by linarith
    finally show ?thesis .
  qed
  ultimately have "(\<Sum>s\<leftarrow>bt_values segs. seg_size s) = total_bytes"
    by (simp add: last fresh_segment_def Let_def seg_size_def chunk)
  then show ?thesis
    using c hd last cont sorted
    by (simp add: validate_coverage_def Let_def segs[symmetric] fresh_segment_def[of _ _ "n_segs - 1"])
      (simp add: segs)
qed

end
