(* ===== verification/Segment_Work.thy ===== *)
theory Segment_Work
  imports Segment_Coverage
begin

text \<open>
  Work assignment over a live layout: splitting, taking pending segments, absorbing pending
  segments into an open-ended stream and exchanging progress with the workers all keep the
  layout invariant and the exact cover of the file.  The facts about the underlying ordered map
  come from the interpretation \<open>bt\<close> of \<open>ordered_map\<close>.
\<close>

section \<open>The layout as a map\<close>

lemma layout_ok_iff:
  "layout_ok segs n \<longleftrightarrow>
     bt_wf segs \<and> (\<forall>k s. bt_get segs k = Some s \<longrightarrow> index s = k \<and> k < n \<and> seg_ok s)"
  by (auto simp: layout_ok_def simp flip: bt.in_entries)

lemma layout_okD:
  assumes "layout_ok segs n" "bt_get segs k = Some s"
  shows "index s = k" "k < n" "seg_ok s"
  using assms by (auto simp: layout_ok_iff)

lemma layout_ok_wf: "layout_ok segs n \<Longrightarrow> bt_wf segs"
  by (simp add: layout_ok_def)

lemma layout_values:
  assumes "layout_ok segs n"
  shows "s \<in> set (bt_values segs) \<longleftrightarrow> bt_get segs (index s) = Some s"
proof
  assume "s \<in> set (bt_values segs)"
  then obtain k where "(k, s) \<in> set segs" by (auto simp: bt_values_def)
  with assms show "bt_get segs (index s) = Some s"
    by (metis bt.in_entries layout_okD(1) layout_ok_wf)
next
  assume "bt_get segs (index s) = Some s"
  with assms show "s \<in> set (bt_values segs)"
    by (metis bt.in_entries bt_values_def image_eqI layout_ok_wf set_map snd_conv)
qed

lemma layout_fresh: "layout_ok segs n \<Longrightarrow> bt_get segs n = None"
  by (metis layout_okD(2) not_None_eq order_less_irrefl)

lemma layout_insert:
  assumes "layout_ok segs n" "seg_ok s" "index s = n" "n < n'"
  shows "layout_ok (bt_insert n s segs) n'"
  using assms by (auto simp: layout_ok_iff bt.get_put bt.wf_put intro: less_trans)

lemma layout_adjust:
  assumes "layout_ok segs n"
    and "\<And>s. bt_get segs k = Some s \<Longrightarrow> index (f s) = k \<and> seg_ok (f s)"
  shows "layout_ok (bt_adjust k f segs) n"
  using assms by (auto simp: layout_ok_iff bt.get_adj bt.wf_adj)

lemma cover_adjust:
  assumes "bt_wf segs" "bt_get segs k = Some s"
  shows "cover_count (bt_adjust k f segs) b = cover_count segs b - cov b s + cov b (f s)"
  unfolding cover_count_def using assms by (rule bt.weight_adj)

lemma cover_insert:
  assumes "bt_wf segs" "bt_get segs k = None"
  shows "cover_count (bt_insert k s segs) b = cov b s + cover_count segs b"
  unfolding cover_count_def using assms by (rule bt.weight_put)

lemma set_state_simps [simp]:
  "index (set_state st s) = index s" "start_byte (set_state st s) = start_byte s"
  "end_byte (set_state st s) = end_byte s" "downloaded_bytes (set_state st s) = downloaded_bytes s"
  "lstate (set_state st s) = st"
  by (simp_all add: set_state_def)

lemma seg_ok_set_state [simp]: "seg_ok (set_state st s) = seg_ok s"
  by (simp add: seg_ok_def seg_size_def)

lemma cov_set_state [simp]: "cov b (set_state st s) = cov b s"
  by (simp add: cov_def covers_def)

lemma layout_set_state: "layout_ok segs n \<Longrightarrow> layout_ok (bt_adjust k (set_state st) segs) n"
  by (rule layout_adjust) (auto dest: layout_okD)

lemma cover_set_state:
  assumes "bt_wf segs"
  shows "cover_count (bt_adjust k (set_state st) segs) b = cover_count segs b"
proof (cases "bt_get segs k")
  case None
  with assms have "k \<notin> fst ` set segs" by (auto simp: bt_get_map_of map_of_eq_None_iff)
  then have "bt_adjust k (set_state st) segs = segs"
    by (force simp: bt_adjust_def intro!: map_idI)
  then show ?thesis by simp
qed (simp add: cover_adjust[OF assms])

section \<open>Splitting\<close>

lemma seg_remaining_ok:
  "seg_ok s \<Longrightarrow> seg_remaining s = max 0 (end_byte s - (start_byte s + downloaded_bytes s) + 1)"
  by (auto simp: seg_ok_def seg_remaining_def seg_size_def)

lemma sdiv_nonpos: "(a :: int) \<le> 0 \<Longrightarrow> a sdiv 2 \<le> 0"
  by (auto simp: signed_divide_int_def sgn_if)

definition split_child :: "seg_state \<Rightarrow> live_segment \<Rightarrow> int \<Rightarrow> live_segment" where
  "split_child st b n =
     \<lparr> index = n, start_byte = start_byte b + downloaded_bytes b + seg_remaining b div 2,
       end_byte = end_byte b, downloaded_bytes = 0, lstate = st \<rparr>"

definition split_rest :: "live_segment \<Rightarrow> live_segment" where
  "split_rest b = b\<lparr>end_byte := start_byte b + downloaded_bytes b + seg_remaining b div 2 - 1\<rparr>"

lemma best_candidate_Some:
  assumes "layout_ok segs n" "best_candidate segs m = Some b"
  shows "bt_get segs (index b) = Some b" "lstate b = Active" "m \<le> seg_remaining b" "seg_ok b"
proof -
  have "b \<in> set (bt_values segs) \<and> lstate b = Active \<and> m \<le> seg_remaining b"
    using max_by_key_Some(1)[OF assms(2)[unfolded best_candidate_def]] by auto
  then show "bt_get segs (index b) = Some b" "lstate b = Active" "m \<le> seg_remaining b"
    using layout_values[OF assms(1)] by auto
  then show "seg_ok b" using layout_okD[OF assms(1)] by blast
qed

text \<open>The whole behaviour of the split on a well-formed layout, in one equation.\<close>

lemma split_at_midpoint_eq:
  assumes "layout_ok segs n"
  shows "split_at_midpoint st segs n m =
    (case best_candidate segs m of
       Some b \<Rightarrow>
         if live_count segs < max_segments \<and> 2 \<le> seg_remaining b
         then let c = split_child st b n in
           (Some \<lparr> assignment = \<lparr> wa_index = n, wa_start = start_byte c, wa_actual_start = start_byte c,
                     wa_end = end_byte b, wa_open_ended = False, wa_no_range = False \<rparr>,
                   split_parent = Some (index b) \<rparr>,
            bt_insert n c (bt_adjust (index b) (\<lambda>s. s\<lparr>end_byte := start_byte c - 1\<rparr>) segs), n + 1)
         else (None, segs, n)
     | None \<Rightarrow> (None, segs, n))"
proof (cases "best_candidate segs m")
  case (Some b)
  note b = best_candidate_Some[OF assms Some]
  define cp where "cp = start_byte b + downloaded_bytes b"
  define r where "r = end_byte b - cp + 1"
  have rem: "seg_remaining b = max 0 r" and e: "end_byte b = cp + r - 1"
    using seg_remaining_ok[OF b(4)] by (simp_all add: cp_def r_def)
  show ?thesis
  proof (cases "r \<le> 0")
    case True
    then have "r sdiv 2 \<le> 0" by (rule sdiv_nonpos)
    then show ?thesis
      using Some b(1) True rem by (simp add: split_at_midpoint_def Let_def flip: cp_def r_def)
  next
    case False
    then show ?thesis
      using Some b rem
      by (auto simp: split_at_midpoint_def Let_def split_child_def sdiv_nonneg e simp flip: cp_def)
  qed
qed (simp add: split_at_midpoint_def)

lemma split_at_midpointE:
  assumes "layout_ok segs n" "split_at_midpoint st segs n m = (w, segs', n')"
  obtains (none) "w = None" "segs' = segs" "n' = n"
    "live_count segs < max_segments \<longrightarrow> 2 \<le> m \<longrightarrow> best_candidate segs m = None"
  | (split) b where "bt_get segs (index b) = Some b" "lstate b = Active" "seg_ok b"
      "m \<le> seg_remaining b" "2 \<le> seg_remaining b" "live_count segs < max_segments"
      "n' = n + 1" "bt_get segs n = None" "seg_ok (split_child st b n)" "seg_ok (split_rest b)"
      "segs' = bt_insert n (split_child st b n)
         (bt_adjust (index b) (\<lambda>s. s\<lparr>end_byte := start_byte (split_child st b n) - 1\<rparr>) segs)"
      "w = Some \<lparr> assignment = \<lparr> wa_index = n, wa_start = start_byte (split_child st b n),
             wa_actual_start = start_byte (split_child st b n), wa_end = end_byte b,
             wa_open_ended = False, wa_no_range = False \<rparr>, split_parent = Some (index b) \<rparr>"
proof (cases "best_candidate segs m")
  case None
  then show ?thesis using assms none by (simp add: split_at_midpoint_eq)
next
  case (Some b)
  note b = best_candidate_Some[OF assms(1) Some]
  show ?thesis
  proof (cases "live_count segs < max_segments \<and> 2 \<le> seg_remaining b")
    case True
    have "seg_ok (split_child st b n)" "seg_ok (split_rest b)"
      using b(4) True seg_remaining_ok[OF b(4)]
      by (auto simp: seg_ok_def split_child_def split_rest_def seg_size_def)
    then show ?thesis
      using True b assms Some layout_fresh[OF assms(1)]
      by (intro split[of b]) (auto simp: split_at_midpoint_eq Let_def)
  next
    case False
    then show ?thesis using assms b(3) Some by (intro none) (auto simp: split_at_midpoint_eq)
  qed
qed

lemma split_preserves:
  assumes "layout_ok segs n" "split_at_midpoint st segs n m = (w, segs', n')"
  shows "layout_ok segs' n' \<and> cover_count segs' b = cover_count segs b"
  using assms
proof (cases rule: split_at_midpointE)
  case (split p)
  let ?c = "split_child st p n"
  let ?s = "bt_adjust (index p) (\<lambda>s. s\<lparr>end_byte := start_byte ?c - 1\<rparr>) segs"
  have rest: "p\<lparr>end_byte := start_byte ?c - 1\<rparr> = split_rest p"
    by (simp add: split_child_def split_rest_def)
  have adj: "layout_ok ?s n"
    using split rest by (intro layout_adjust[OF assms(1)]) (auto simp: split_rest_def)
  then have "layout_ok segs' n'"
    using split by (auto intro!: layout_insert simp: split_child_def[of st p n])
  have "bt_get ?s n = None"
    using adj by (rule layout_fresh)
  then have "cover_count segs' b = cov b ?c + (cover_count segs b - cov b p + cov b (split_rest p))"
    using split rest layout_ok_wf[OF assms(1)] layout_ok_wf[OF adj]
    by (simp add: cover_insert cover_adjust)
  moreover have "cov b ?c + cov b (split_rest p) = cov b p"
    using split seg_remaining_ok[OF split(3)]
    by (auto simp: cov_def covers_def split_child_def split_rest_def seg_ok_def)
  ultimately show ?thesis using \<open>layout_ok segs' n'\<close> by simp
qed (use assms in auto)

lemma split_None_iff:
  assumes "layout_ok segs n" "2 \<le> m"
  shows "fst (split_at_midpoint st segs n m) = None \<longleftrightarrow>
    max_segments \<le> live_count segs \<or>
    (\<forall>s \<in> set (bt_values segs). lstate s = Active \<longrightarrow> seg_remaining s < m)"
proof -
  have none: "best_candidate segs m = None \<longleftrightarrow>
      (\<forall>s \<in> set (bt_values segs). lstate s = Active \<longrightarrow> seg_remaining s < m)"
    by (auto simp: best_candidate_def max_by_key_None filter_empty_conv)
  show ?thesis
  proof (cases "best_candidate segs m")
    case None
    then show ?thesis using none by (simp add: split_at_midpoint_eq[OF assms(1)])
  next
    case (Some b)
    then show ?thesis
      using none best_candidate_Some[OF assms(1) Some] assms(2)
      by (auto simp: split_at_midpoint_eq[OF assms(1)] Let_def)
  qed
qed

section \<open>Finding work\<close>

lemma live_count_sum: "live_count segs = (\<Sum>e\<leftarrow>segs. if lstate (snd e) \<noteq> Completed then 1 else 0)"
  by (induction segs) (auto simp: live_count_def bt_values_def)

lemma live_count_set_state:
  assumes "bt_wf segs" "bt_get segs k = Some s" "lstate s \<noteq> Completed" "st \<noteq> Completed"
  shows "live_count (bt_adjust k (set_state st) segs) = live_count segs"
  unfolding live_count_sum
  using bt.weight_adj[OF assms(1,2), where w = "\<lambda>s. if lstate s \<noteq> Completed then 1 else 0 :: int"
      and f = "set_state st"] assms(3,4) by simp

lemma live_count_split:
  assumes "layout_ok segs n" "split_at_midpoint st segs n m = (w, segs', n')" "st \<noteq> Completed"
    and "live_count segs \<le> max_segments"
  shows "live_count segs' \<le> max_segments"
  using assms(1,2)
proof (cases rule: split_at_midpointE)
  case (split p)
  let ?w = "\<lambda>s. if lstate s \<noteq> Completed then 1 else 0 :: int"
  let ?c = "split_child st p n"
  let ?s = "bt_adjust (index p) (\<lambda>s. s\<lparr>end_byte := start_byte ?c - 1\<rparr>) segs"
  have wf: "bt_wf segs" "bt_wf ?s" using layout_ok_wf[OF assms(1)] by (simp_all add: bt_wf_adjust)
  have "bt_get ?s n = None"
    using split(1,8) wf by (auto simp: bt.get_adj)
  then have "live_count segs' = ?w ?c + live_count ?s"
    unfolding live_count_sum using wf split(11) by (simp add: bt.weight_put[where w = ?w])
  moreover have "live_count ?s = live_count segs"
    unfolding live_count_sum using wf split(1) by (simp add: bt.weight_adj[where w = ?w])
  ultimately show ?thesis using split(6) by simp
qed (use assms in simp)

lemma find_pending_Some:
  assumes "layout_ok segs n" "find (\<lambda>s. lstate s = Pending) (bt_values segs) = Some s"
  shows "bt_get segs (index s) = Some s" "lstate s = Pending" "seg_ok s"
proof -
  have "s \<in> set (bt_values segs) \<and> lstate s = Pending"
    using assms(2) by (auto simp: find_Some_iff in_set_conv_nth)
  then show "bt_get segs (index s) = Some s" "lstate s = Pending"
    using layout_values[OF assms(1)] by auto
  then show "seg_ok s" using layout_okD[OF assms(1)] by blast
qed

text \<open>
  What a worker is promised: the segment it is given is live in the new map, was not being
  downloaded by anyone before, and the byte range in the assignment is the rest of that segment.
\<close>

definition fair_assignment :: "segments \<Rightarrow> segments \<Rightarrow> worker_assignment \<Rightarrow> bool" where
  "fair_assignment segs segs' a \<longleftrightarrow>
     (case bt_get segs' (wa_index a) of
        None \<Rightarrow> False
      | Some s \<Rightarrow> lstate s = Active \<and> wa_start a = start_byte s \<and> wa_end a = end_byte s
          \<and> wa_actual_start a = start_byte s + downloaded_bytes s)
     \<and> (case bt_get segs (wa_index a) of None \<Rightarrow> True | Some s \<Rightarrow> lstate s = Pending)"

lemma fair_pending:
  assumes "layout_ok segs n" "find (\<lambda>s. lstate s = Pending) (bt_values segs) = Some s"
  shows "fair_assignment segs (bt_adjust (index s) (set_state Active) segs) (pending_assignment s)"
proof -
  note s = find_pending_Some[OF assms]
  have "bt_get (bt_adjust (index s) (set_state Active) segs) (index s) = Some (set_state Active s)"
    using s layout_ok_wf[OF assms(1)] by (simp add: bt.get_adj)
  then show ?thesis
    using s by (auto simp: fair_assignment_def pending_assignment_def seg_ok_def seg_size_def)
qed

lemma fair_split:
  assumes "layout_ok segs n" "split_at_midpoint Active segs n m = (Some w, segs', n')"
  shows "fair_assignment segs segs' (assignment w)"
  using assms
proof (cases rule: split_at_midpointE)
  case (split p)
  then show ?thesis
    using layout_ok_wf[OF assms(1)]
    by (auto simp: fair_assignment_def bt.get_put bt_wf_adjust split_child_def[of Active p n] seg_ok_def)
qed simp

lemma find_next_workE:
  assumes "find_next_work segs n m = (w, segs', n')"
  obtains (pending) s where "find (\<lambda>s. lstate s = Pending) (bt_values segs) = Some s"
      "w = Some \<lparr> assignment = pending_assignment s, split_parent = None \<rparr>"
      "segs' = bt_adjust (index s) (set_state Active) segs" "n' = n"
  | (split) k where "find (\<lambda>s. lstate s = Pending) (bt_values segs) = None"
      "split_at_midpoint Active segs n k = (w, segs', n')" "k = m \<or> k = tail_min_split_bytes"
  | (none) "w = None" "segs' = segs" "n' = n"
proof (cases "find (\<lambda>s. lstate s = Pending) (bt_values segs)")
  case (Some s)
  then show ?thesis using assms pending by (simp add: find_next_work_def)
next
  case None
  note fnw = assms[unfolded find_next_work_def None try_split_largest_def, simplified]
  show ?thesis
  proof (cases "fst (split_at_midpoint Active segs n m)")
    case (Some w')
    then have "split_at_midpoint Active segs n m = (w, segs', n')"
      using fnw by (cases "split_at_midpoint Active segs n m") auto
    then show ?thesis using None by (intro split) auto
  next
    case none1: None
    then have "(w, segs', n') = split_at_midpoint Active segs n tail_min_split_bytes
        \<or> (w, segs', n') = (None, segs, n)"
      using fnw by (cases "split_at_midpoint Active segs n m") (auto split: if_splits)
    then show ?thesis using None none split[of tail_min_split_bytes] by auto
  qed
qed

lemma find_next_work_preserves:
  assumes "layout_ok segs n" "find_next_work segs n m = (w, segs', n')"
  shows "layout_ok segs' n' \<and> cover_count segs' b = cover_count segs b"
  using assms(2)
proof (cases rule: find_next_workE)
  case (pending s)
  then show ?thesis
    using assms(1) by (simp add: layout_set_state cover_set_state layout_ok_wf)
next
  case (split k)
  show ?thesis by (rule split_preserves[OF assms(1) split(2)])
qed (use assms in simp)

lemma find_next_work_live:
  assumes "layout_ok segs n" "find_next_work segs n m = (w, segs', n')"
    and "live_count segs \<le> max_segments"
  shows "live_count segs' \<le> max_segments"
  using assms(2)
proof (cases rule: find_next_workE)
  case (pending s)
  then show ?thesis
    using assms find_pending_Some[OF assms(1) pending(1)]
    by (simp add: live_count_set_state layout_ok_wf)
next
  case (split k)
  show ?thesis by (rule live_count_split[OF assms(1) split(2) _ assms(3)]) simp
qed (use assms in simp)

lemma find_next_work_fair:
  assumes "layout_ok segs n" "find_next_work segs n m = (Some w, segs', n')"
  shows "fair_assignment segs segs' (assignment w)"
  using assms(2)
proof (cases rule: find_next_workE)
  case (pending s)
  then show ?thesis using fair_pending[OF assms(1)] by simp
next
  case (split k)
  show ?thesis by (rule fair_split[OF assms(1) split(2)])
qed simp

lemma max_active_remaining_less:
  assumes "0 < x"
  shows "max_active_remaining segs < x \<longleftrightarrow>
    (\<forall>s \<in> set (bt_values segs). lstate s = Active \<longrightarrow> seg_remaining s < x)"
proof -
  let ?rs = "map seg_remaining (filter (\<lambda>s. lstate s = Active) (bt_values segs))"
  have "max_active_remaining segs < x \<longleftrightarrow> (\<forall>r \<in> set ?rs. r < x)"
  proof (cases "max_by_key (\<lambda>x. x) ?rs")
    case None
    then show ?thesis using assms by (auto simp: max_active_remaining_def max_by_key_None)
  next
    case (Some r)
    note max_by_key_Some[OF Some]
    then show ?thesis using Some by (fastforce simp: max_active_remaining_def)
  qed
  then show ?thesis by auto
qed

end
