(* ===== verification/Segment_Stream.thy ===== *)
theory Segment_Stream
  imports Segment_Work
begin

text \<open>
  The two exchanges around the layout: the absorption of the pending segments to the right of an
  open-ended stream into that stream, and the shared progress vector, whose progress column
  belongs to the workers and whose range columns belong to the coordinator.
\<close>

section \<open>Absorption\<close>

text \<open>The rounds of the scan as a relation: the absorbed indices form a chain of ranges.\<close>

inductive absorb_run :: "segments \<Rightarrow> int \<Rightarrow> int list \<Rightarrow> int \<Rightarrow> bool" for segs where
  stop: "next_absorbed segs e = None \<Longrightarrow> absorb_run segs e [] e"
| more: "next_absorbed segs e = Some s \<Longrightarrow> absorb_run segs (end_byte s) is e'
    \<Longrightarrow> absorb_run segs e (index s # is) e'"

lemma next_absorbed_Some:
  assumes "layout_ok segs n" "next_absorbed segs e = Some s"
  shows "bt_get segs (index s) = Some s" "lstate s = Pending" "downloaded_bytes s = 0"
    "start_byte s = e + 1" "e < end_byte s" "s \<in> set (bt_values segs)"
proof -
  have *: "s \<in> set (bt_values segs) \<and> lstate s = Pending \<and> downloaded_bytes s = 0 \<and> start_byte s = e + 1"
    using assms(2) by (auto simp: next_absorbed_def find_Some_iff in_set_conv_nth)
  then show "bt_get segs (index s) = Some s" "lstate s = Pending" "downloaded_bytes s = 0"
    "start_byte s = e + 1" "s \<in> set (bt_values segs)"
    using layout_values[OF assms(1)] by auto
  then show "e < end_byte s" using layout_okD(3)[OF assms(1)] by (force simp: seg_ok_def)
qed

text \<open>Each round moves the end to the right, past one more segment: the loop ends.\<close>

definition right_of :: "segments \<Rightarrow> int \<Rightarrow> nat" where
  "right_of segs e = length (filter (\<lambda>s. e < start_byte s) (bt_values segs))"

lemma length_filter_less:
  "x \<in> set xs \<Longrightarrow> P x \<Longrightarrow> \<not> Q x \<Longrightarrow> (\<And>y. Q y \<Longrightarrow> P y) \<Longrightarrow>
   length (filter Q xs) < length (filter P xs)"
proof (induction xs)
  case (Cons y ys)
  have "length (filter Q ys) \<le> length (filter P ys)"
    using Cons.prems(4) by (induction ys) auto
  with Cons show ?case by (auto simp: less_Suc_eq_le)
qed simp

lemma right_of_less:
  assumes "layout_ok segs n" "next_absorbed segs e = Some s"
  shows "right_of segs (end_byte s) < right_of segs e"
  unfolding right_of_def
  using next_absorbed_Some[OF assms] by (intro length_filter_less[of s]) auto

lemma absorb_run_total:
  assumes "layout_ok segs n"
  shows "\<exists>is e'. absorb_run segs e is e'"
proof (induction "right_of segs e" arbitrary: e rule: less_induct)
  case less
  show ?case
  proof (cases "next_absorbed segs e")
    case None
    then show ?thesis by (blast intro: absorb_run.stop)
  next
    case (Some s)
    then show ?thesis using less right_of_less[OF assms Some] by (blast intro: absorb_run.more)
  qed
qed

lemma absorb_scan_run: "absorb_run segs e is e' \<Longrightarrow> absorb_scan segs e acc = Some (e', acc @ is)"
proof (induction arbitrary: acc rule: absorb_run.induct)
  case (stop e)
  then show ?case by (subst absorb_scan.simps) simp
next
  case (more e s "is" e')
  show ?case
    using more.hyps(1) more.IH[of "acc @ [index s]"] by (subst absorb_scan.simps) simp
qed

lemma absorb_run_segs:
  assumes "layout_ok segs n" "absorb_run segs e is e'"
  shows "e \<le> e' \<and> distinct is
    \<and> (\<forall>i \<in> set is. \<exists>s. bt_get segs i = Some s \<and> e < start_byte s \<and> lstate s = Pending \<and> downloaded_bytes s = 0)
    \<and> (\<Sum>i\<leftarrow>is. cov b (the (bt_get segs i))) = (if e < b \<and> b \<le> e' then 1 else 0)"
  using assms(2)
proof (induction rule: absorb_run.induct)
  case (more e s "is" e')
  note s = next_absorbed_Some[OF assms(1) more.hyps(1)]
  have "index s \<notin> set is" using more.IH s by fastforce
  moreover have "cov b s = (if e < b \<and> b \<le> end_byte s then 1 else 0)"
    using s by (auto simp: cov_def covers_def)
  ultimately show ?case using more.IH s by fastforce
qed auto

lemma remove_all:
  fixes w :: "live_segment \<Rightarrow> int"
  assumes "bt_wf segs" "distinct is" "\<forall>i \<in> set is. bt_get segs i \<noteq> None"
  defines "kept \<equiv> foldl (\<lambda>m idx. bt_remove idx m) segs is"
  shows "bt_wf kept \<and> bt_get kept = (\<lambda>k. if k \<in> set is then None else bt_get segs k)
    \<and> (\<Sum>e\<leftarrow>kept. w (snd e)) = (\<Sum>e\<leftarrow>segs. w (snd e)) - (\<Sum>i\<leftarrow>is. w (the (bt_get segs i)))"
  using assms(1-3) unfolding kept_def
proof (induction "is" arbitrary: segs)
  case (Cons i "is")
  let ?m = "bt_remove i segs"
  obtain s where s: "bt_get segs i = Some s" using Cons.prems(3) by auto
  have get: "bt_get ?m = (bt_get segs)(i := None)" using Cons.prems(1) by (rule bt.get_del)
  have "(\<Sum>j\<leftarrow>is. w (the (bt_get ?m j))) = (\<Sum>j\<leftarrow>is. w (the (bt_get segs j)))"
    using Cons.prems(2) by (intro arg_cong[of _ _ sum_list] map_cong) (auto simp: get)
  moreover have "(\<Sum>e\<leftarrow>?m. w (snd e)) = (\<Sum>e\<leftarrow>segs. w (snd e)) - w s"
    using Cons.prems(1) s by (rule bt.weight_del)
  moreover have wf: "bt_wf ?m" using Cons.prems(1) by (rule bt.wf_del)
  moreover have ex: "\<forall>j \<in> set is. bt_get ?m j \<noteq> None"
    unfolding get using Cons.prems(2,3) by (metis distinct.simps(2) fun_upd_apply list.set_intros(2))
  moreover note Cons.IH[OF wf _ ex]
  ultimately show ?case using Cons.prems(2) s by (auto simp: get)
qed simp

lemma absorb_spec:
  assumes "layout_ok segs n"
    and "absorb_pending_into_open_stream ok segs states open_idx h = Some (k, segs', states', h')"
  shows "layout_ok segs' n \<and> cover_count segs' b = cover_count segs b"
proof (cases "k = 0")
  case True
  then have "segs' = segs"
    using assms(2) by (auto simp: absorb_pending_into_open_stream_def Let_def split: option.splits if_splits)
  then show ?thesis using assms by simp
next
  case False
  have wf: "bt_wf segs" by (rule layout_ok_wf[OF assms(1)])
  from False assms(2) obtain i p new_end "is" where o: "open_idx = Some i" "bt_get segs i = Some p"
      "lstate p = Active" "absorb_scan segs (end_byte p) [] = Some (new_end, is)"
      "segs' = bt_adjust i (\<lambda>s. s\<lparr>end_byte := new_end\<rparr>) (foldl (\<lambda>m idx. bt_remove idx m) segs is)"
    by (auto simp: absorb_pending_into_open_stream_def Let_def split: option.splits if_splits)
  let ?kept = "foldl (\<lambda>m idx. bt_remove idx m) segs is"
  obtain is' e' where run: "absorb_run segs (end_byte p) is' e'"
    using absorb_run_total[OF assms(1)] by blast
  then have "is' = is" "e' = new_end" using absorb_scan_run[OF run, of "[]"] o(4) by auto
  with run have run: "absorb_run segs (end_byte p) is new_end" by simp
  note r = absorb_run_segs[OF assms(1) run, of b]
  have ex: "\<forall>i \<in> set is. bt_get segs i \<noteq> None" using r by fastforce
  have kept: "bt_wf ?kept" "bt_get ?kept = (\<lambda>k. if k \<in> set is then None else bt_get segs k)"
      "cover_count ?kept b = cover_count segs b - (\<Sum>i\<leftarrow>is. cov b (the (bt_get segs i)))"
    using remove_all[OF wf, of "is" "cov b"] r ex unfolding cover_count_def by simp_all
  have "i \<notin> set is" using r o(2,3) by force
  then have get: "bt_get ?kept i = Some p" using kept(2) o(2) by simp
  have p: "seg_ok p" "index p = i" using layout_okD[OF assms(1) o(2)] by auto
  have "layout_ok ?kept n" using assms(1) kept(1,2) by (auto simp: layout_ok_iff)
  then have "layout_ok segs' n"
    unfolding o(5) using get p r
    by (intro layout_adjust) (auto simp: seg_ok_def seg_size_def)
  moreover have "cover_count segs' b = cover_count ?kept b - cov b p + cov b (p\<lparr>end_byte := new_end\<rparr>)"
    unfolding o(5) using kept(1) get by (rule cover_adjust)
  moreover have "cov b (p\<lparr>end_byte := new_end\<rparr>) = cov b p + (if end_byte p < b \<and> b \<le> new_end then 1 else 0)"
    using p(1) r by (auto simp: cov_def covers_def seg_ok_def)
  ultimately show ?thesis using kept(3) r by simp
qed

lemma absorb_scan_total: "layout_ok segs n \<Longrightarrow> \<exists>e' is. absorb_scan segs e [] = Some (e', is)"
  using absorb_run_total absorb_scan_run by blast

lemma absorb_total:
  assumes "layout_ok segs n"
  shows "absorb_pending_into_open_stream ok segs states open_idx h \<noteq> None"
proof (cases "open_idx = None \<or> bt_get segs (the open_idx) = None")
  case False
  then obtain i p where "open_idx = Some i" "bt_get segs i = Some p" by auto
  moreover obtain e' "is" where "absorb_scan segs (end_byte p) [] = Some (e', is)"
    using absorb_scan_total[OF assms] by blast
  ultimately show ?thesis by (simp add: absorb_pending_into_open_stream_def Let_def) blast
qed (auto simp: absorb_pending_into_open_stream_def split: option.splits)

section \<open>Shared progress\<close>

lemma sync_get:
  assumes "bt_wf segs"
  shows "bt_wf (sync_downloaded_from_shared segs states)
    \<and> (\<forall>k. bt_get (sync_downloaded_from_shared segs states) k =
        (case bt_get segs k of None \<Rightarrow> None
         | Some s \<Rightarrow> Some (if lstate s \<noteq> Active then s
             else case map_of (rev (map (\<lambda>p. (pi_index p, pi_downloaded p)) states)) k of
                None \<Rightarrow> s | Some d \<Rightarrow> s\<lparr>downloaded_bytes := d\<rparr>)))"
  using assms
proof (induction states rule: rev_induct)
  case (snoc p ps)
  then show ?case
    by (auto simp: sync_downloaded_from_shared_def bt.get_adj bt_wf_adjust split: option.splits)
qed (auto simp: sync_downloaded_from_shared_def split: option.splits)

lemma update_indices: "map pi_index (update_seg_state states i b) = map pi_index states"
  by (induction states) auto

lemma update_distinct:
  assumes "distinct (map pi_index states)"
  shows "update_seg_state states i b = map (\<lambda>p. if pi_index p = i then p\<lparr>pi_downloaded := b\<rparr> else p) states"
  using assms
proof (induction states)
  case (Cons p ps)
  have "map (\<lambda>q. if pi_index q = pi_index p then q\<lparr>pi_downloaded := b\<rparr> else q) ps = ps"
    using Cons.prems by (intro map_idI) (simp add: image_iff, metis)
  then show ?case using Cons by auto
qed simp

lemma watermark_update:
  assumes "distinct (map pi_index states)" "i \<in> pi_index ` set states"
  shows "map_of (rev (map (\<lambda>p. (pi_index p, pi_downloaded p)) (update_seg_state states i b)))
       = (map_of (rev (map (\<lambda>p. (pi_index p, pi_downloaded p)) states)))(i \<mapsto> b)"
proof -
  let ?f = "\<lambda>p. (pi_index p, pi_downloaded p)"
  have rev_eq: "map_of (rev (map ?f ss)) = map_of (map ?f ss)" if "distinct (map pi_index ss)" for ss
    using that by (intro map_of_rev_distinct) (simp add: o_def)
  have "map_of (map ?f (update_seg_state states i b)) = (map_of (map ?f states))(i \<mapsto> b)"
    using assms by (induction states) (auto simp: fun_eq_iff)
  then show ?thesis using assms(1) by (simp add: rev_eq update_indices)
qed

lemma build_vec_distinct: "layout_ok segs n \<Longrightarrow> distinct (map pi_index (build_seg_state_vec segs))"
  using bt.distinct_entries[of segs]
  by (simp add: layout_ok_def build_seg_state_vec_def bt_values_def o_def split_def
      cong: map_cong)

end
