(* ===== verification/Segment_Rows.thy ===== *)
theory Segment_Rows
  imports Segment_Stream
begin

text \<open>
  The rows of table \<^verbatim>\<open>task_segments\<close> that belong to one task, with the columns of its \<^verbatim>\<open>tasks\<close> row
  the coordinator touches (\<^verbatim>\<open>native/engine/src/db.rs\<close>), and the coordinator's calls that change
  them.  The primary key is \<^verbatim>\<open>(task_id, segment_index)\<close>, so the rows are an ordered map keyed by
  segment index, which is also the order of \<^verbatim>\<open>load_segments\<close>.  Each function is the effect of one
  committed transaction; a statement that fails (I/O, a violated key) rolls the transaction back,
  which is \<open>None\<close> where a violated key can cause it and a flag of the caller otherwise.
\<close>

section \<open>Rows and statements\<close>

record seg_row =
  r_start :: int
  r_end :: int
  r_downloaded :: int

record task_db =
  rows :: "(int, seg_row) btree"
  task_total :: int
  task_downloaded :: int
  segments_epoch :: int
  range_verified :: bool

definition row_size :: "seg_row \<Rightarrow> int" where
  "row_size r = r_end r - r_start r + 1"

fun insert_rows :: "(int \<times> int \<times> int) list \<Rightarrow> (int, seg_row) btree \<Rightarrow> (int, seg_row) btree option" where
  "insert_rows [] m = Some m"
| "insert_rows ((i, a, b) # is) m =
     (if bt_get m i \<noteq> None then None
      else insert_rows is (bt_insert i \<lparr> r_start = a, r_end = b, r_downloaded = 0 \<rparr> m))"

definition insert_segments :: "(int \<times> int \<times> int) list \<Rightarrow> task_db \<Rightarrow> task_db option" where
  "insert_segments ss db = map_option (\<lambda>m. db\<lparr>rows := m\<rparr>) (insert_rows ss (rows db))"

definition load_segments :: "task_db \<Rightarrow> (int \<times> seg_row) list" where
  "load_segments db = rows db"

definition set_segments_epoch :: "int \<Rightarrow> task_db \<Rightarrow> task_db" where
  "set_segments_epoch e db = db\<lparr>segments_epoch := e\<rparr>"

definition update_segment_progress :: "int \<Rightarrow> int \<Rightarrow> task_db \<Rightarrow> task_db" where
  "update_segment_progress i dl db = db\<lparr>rows := bt_adjust i (\<lambda>r. r\<lparr>r_downloaded := dl\<rparr>) (rows db)\<rparr>"

definition update_segment_progress_bounded :: "int \<Rightarrow> int \<Rightarrow> int \<Rightarrow> int \<Rightarrow> task_db \<Rightarrow> task_db" where
  "update_segment_progress_bounded i dl start epoch db =
     (if segments_epoch db \<noteq> epoch then db
      else db\<lparr>rows := bt_adjust i (\<lambda>r. if r_start r \<noteq> start then r
                 else r\<lparr>r_downloaded := (if row_size r < dl then row_size r else dl)\<rparr>) (rows db)\<rparr>)"

definition batch_row :: "int \<Rightarrow> int \<times> int \<times> int \<Rightarrow> task_db \<Rightarrow> task_db" where
  "batch_row epoch = (\<lambda>(i, dl, start) db.
     if segments_epoch db \<noteq> epoch then db
     else db\<lparr>rows := bt_adjust i (\<lambda>r. if r_start r \<noteq> start then r
                else r\<lparr>r_downloaded := (if row_size r < dl then row_size r
                         else if dl < r_downloaded r then r_downloaded r else dl)\<rparr>) (rows db)\<rparr>)"

definition update_segments_progress_batch :: "int \<Rightarrow> (int \<times> int \<times> int) list \<Rightarrow> task_db \<Rightarrow> task_db" where
  "update_segments_progress_batch epoch ps db = foldl (\<lambda>d p. batch_row epoch p d) db ps"

definition flush_segments_progress :: "(int \<times> int) list \<Rightarrow> task_db \<Rightarrow> task_db" where
  "flush_segments_progress ps db = foldl (\<lambda>d (i, dl). update_segment_progress i dl d) db ps"

definition delete_segments :: "task_db \<Rightarrow> task_db" where
  "delete_segments db = db\<lparr>rows := [], task_downloaded := 0\<rparr>"

definition reset_segments_progress :: "task_db \<Rightarrow> task_db" where
  "reset_segments_progress db =
     db\<lparr>rows := map (\<lambda>(i, r). (i, r\<lparr>r_downloaded := 0\<rparr>)) (rows db), task_downloaded := 0\<rparr>"

definition upsert_row :: "int \<Rightarrow> int \<Rightarrow> int \<Rightarrow> int \<Rightarrow> (int, seg_row) btree \<Rightarrow> (int, seg_row) btree" where
  "upsert_row i a b dl m =
     bt_insert i \<lparr> r_start = a, r_end = b, r_downloaded = dl \<rparr> (bt_remove i m)"

definition upsert_segment :: "int \<Rightarrow> int \<Rightarrow> int \<Rightarrow> int \<Rightarrow> task_db \<Rightarrow> task_db" where
  "upsert_segment i a b dl db = db\<lparr>rows := upsert_row i a b dl (rows db)\<rparr>"

definition persist_split :: "int \<Rightarrow> int \<Rightarrow> int \<Rightarrow> int \<Rightarrow> int \<Rightarrow> int \<Rightarrow> task_db \<Rightarrow> task_db" where
  "persist_split ci cs ce cd par pe db =
     db\<lparr>rows := bt_adjust par (\<lambda>r. r\<lparr>r_end := pe\<rparr>) (upsert_row ci cs ce cd (rows db))\<rparr>"

definition persist_merge :: "int \<Rightarrow> int \<Rightarrow> int list \<Rightarrow> task_db \<Rightarrow> task_db" where
  "persist_merge par pe absorbed db =
     db\<lparr>rows := foldl (\<lambda>m i. bt_remove i m) (bt_adjust par (\<lambda>r. r\<lparr>r_end := pe\<rparr>) (rows db)) absorbed\<rparr>"

definition update_task_total_bytes :: "int \<Rightarrow> task_db \<Rightarrow> task_db" where
  "update_task_total_bytes n db = db\<lparr>task_total := n\<rparr>"

definition set_task_range_verified :: "bool \<Rightarrow> task_db \<Rightarrow> task_db" where
  "set_task_range_verified v db = db\<lparr>range_verified := v\<rparr>"

section \<open>The coordinator's write of a changed segment\<close>

text \<open>\<open>ok\<close> is the outcome of the one transaction issued; its failure is only logged.\<close>

definition persist_segment_change :: "bool \<Rightarrow> segments \<Rightarrow> int \<Rightarrow> int option \<Rightarrow> task_db \<Rightarrow> task_db" where
  "persist_segment_change ok segs changed_index split_par db =
     (case bt_get segs changed_index of
        None \<Rightarrow> db
      | Some seg \<Rightarrow>
          if \<not> ok then db
          else case split_par of
              None \<Rightarrow> upsert_segment (index seg) (start_byte seg) (end_byte seg) (downloaded_bytes seg) db
            | Some parent_idx \<Rightarrow>
                (case bt_get segs parent_idx of
                   Some parent \<Rightarrow>
                     persist_split (index seg) (start_byte seg) (end_byte seg) (downloaded_bytes seg)
                       (index parent) (end_byte parent) db
                 | None \<Rightarrow>
                     upsert_segment (index seg) (start_byte seg) (end_byte seg) (downloaded_bytes seg) db))"

section \<open>Rows that mirror the live layout\<close>

text \<open>
  The durable contract: under every index the rows hold the byte range that the live map holds.
  A process that dies between two handlers then restores a layout with the same exact cover.
\<close>

definition seg_range :: "segments \<Rightarrow> int \<Rightarrow> (int \<times> int) option" where
  "seg_range segs k = map_option (\<lambda>s. (start_byte s, end_byte s)) (bt_get segs k)"

definition row_range :: "(int, seg_row) btree \<Rightarrow> int \<Rightarrow> (int \<times> int) option" where
  "row_range m k = map_option (\<lambda>r. (r_start r, r_end r)) (bt_get m k)"

definition mirrors :: "segments \<Rightarrow> task_db \<Rightarrow> bool" where
  "mirrors segs db \<longleftrightarrow> bt_wf (rows db) \<and> row_range (rows db) = seg_range segs"

text \<open>A change that leaves the ranges alone, or only their progress, keeps the mirror.\<close>

lemma mirrorsD: "mirrors segs db \<Longrightarrow> bt_wf (rows db)"
  by (simp add: mirrors_def)

lemma seg_range_adjust:
  assumes "bt_wf segs" "\<And>s. start_byte (f s) = start_byte s \<and> end_byte (f s) = end_byte s"
  shows "seg_range (bt_adjust k f segs) = seg_range segs"
  using assms by (auto simp: seg_range_def fun_eq_iff bt.get_adj option.map_comp o_def)

lemma row_range_adjust:
  assumes "bt_wf m" "\<And>r. r_start (f r) = r_start r \<and> r_end (f r) = r_end r"
  shows "row_range (bt_adjust k f m) = row_range m"
  using assms by (auto simp: row_range_def fun_eq_iff bt.get_adj option.map_comp o_def)

lemma mirrors_set_state:
  assumes "bt_wf segs"
  shows "mirrors (bt_adjust k (set_state st) segs) db = mirrors segs db"
  using seg_range_adjust[OF assms, of "set_state st" k] by (simp add: mirrors_def)

lemma wf_upsert: "bt_wf m \<Longrightarrow> bt_wf (upsert_row i a b dl m)"
  by (simp add: upsert_row_def bt.wf_put bt.wf_del)

lemma get_upsert:
  "bt_wf m \<Longrightarrow> bt_get (upsert_row i a b dl m)
     = (bt_get m)(i \<mapsto> \<lparr> r_start = a, r_end = b, r_downloaded = dl \<rparr>)"
  by (simp add: upsert_row_def bt.get_put bt.get_del bt.wf_del)

text \<open>Upserting a live segment under its index mirrors the map with that segment inserted.\<close>

lemma mirrors_upsert:
  assumes "bt_get segs i = Some s" "index s = i"
    and "bt_wf (rows db)" "\<And>k. k \<noteq> i \<Longrightarrow> row_range (rows db) k = seg_range segs k"
  shows "mirrors segs (persist_segment_change True segs i None db)"
  using assms
  by (auto simp: mirrors_def persist_segment_change_def upsert_segment_def wf_upsert fun_eq_iff
      row_range_def seg_range_def get_upsert)

lemma mirrors_split:
  assumes "bt_get segs i = Some s" "index s = i" "bt_get segs p = Some t" "index t = p" "p \<noteq> i"
    and "bt_wf (rows db)" "\<And>k. k \<noteq> i \<Longrightarrow> k \<noteq> p \<Longrightarrow> row_range (rows db) k = seg_range segs k"
    and "map_option fst (row_range (rows db) p) = Some (start_byte t)"
  shows "mirrors segs (persist_segment_change True segs i (Some p) db)"
proof -
  let ?m = "upsert_row i (start_byte s) (end_byte s) (downloaded_bytes s) (rows db)"
  have wf: "bt_wf ?m" by (rule wf_upsert[OF assms(6)])
  have "row_range (bt_adjust p (\<lambda>r. r\<lparr>r_end := end_byte t\<rparr>) ?m) k = seg_range segs k" for k
    using assms
    by (cases "k = i"; cases "k = p")
       (auto simp: row_range_def seg_range_def bt.get_adj[OF wf] get_upsert[OF assms(6)])
  then show ?thesis
    using assms wf by (auto simp: mirrors_def persist_segment_change_def persist_split_def fun_eq_iff
        bt_wf_adjust)
qed

end
