(* ===== verification/Ramp.thy ===== *)
theory Ramp
  imports Prelude Complex_Main
begin

text \<open>
  The adaptive connection policy of \<^verbatim>\<open>native/engine/src/segment_coordinator.rs\<close>: the verdict on a
  growth step, the freeze state machine (active, soft-frozen with bounded +1 probes, hard-frozen),
  the guards of shrinking and growing, and the ceilings derived from a host's history.

  Throughput is an \<^verbatim>\<open>f64\<close> in the source.  Here it is a real number: comparisons are exact, and
  rounding, infinities and NaN are outside the model.  \<^verbatim>\<open>usize\<close> and \<^verbatim>\<open>u32\<close> counters are \<open>nat\<close> with
  the saturating operations of the source written out.
\<close>

section \<open>Constants\<close>

definition min_split_bytes :: int where "min_split_bytes = 2 * 1024 * 1024"
definition tail_fraction_denom :: int where "tail_fraction_denom = 50"
definition ramp_initial_workers :: nat where "ramp_initial_workers = 2"
definition ramp_soft_probe_cooldown_ticks :: nat where "ramp_soft_probe_cooldown_ticks = 15"
definition ramp_soft_probe_max_attempts :: nat where "ramp_soft_probe_max_attempts = 2"
definition ramp_soft_probe_task_budget :: nat where "ramp_soft_probe_task_budget = 6"
definition hint_uncap_max :: nat where "hint_uncap_max = 64"
definition ramp_improve_factor :: real where "ramp_improve_factor = 105 / 100"
definition ramp_collapse_factor :: real where "ramp_collapse_factor = 1 / 2"
definition ramp_shrink_strikes :: nat where "ramp_shrink_strikes = 2"
definition ramp_peak_decay :: real where "ramp_peak_decay = 99 / 100"

lemmas ramp_consts = min_split_bytes_def tail_fraction_denom_def ramp_initial_workers_def
  ramp_soft_probe_cooldown_ticks_def ramp_soft_probe_max_attempts_def
  ramp_soft_probe_task_budget_def hint_uncap_max_def ramp_improve_factor_def
  ramp_collapse_factor_def ramp_shrink_strikes_def ramp_peak_decay_def

definition u32_max :: nat where "u32_max = 2 ^ 32 - 1"

definition sat_add_u32 :: "nat \<Rightarrow> nat \<Rightarrow> nat" where "sat_add_u32 a b = min (a + b) u32_max"
definition sat_mul_u32 :: "nat \<Rightarrow> nat \<Rightarrow> nat" where "sat_mul_u32 a b = min (a * b) u32_max"

text \<open>\<^verbatim>\<open>h as usize\<close> for an \<^verbatim>\<open>i32\<close>: sign extension, then the low 64 bits.\<close>

definition as_usize :: "int \<Rightarrow> nat" where "as_usize h = nat (h mod 2 ^ 64)"

section \<open>Split threshold, tail, buffer size\<close>

definition dynamic_min_split_bytes :: "real \<Rightarrow> int" where
  "dynamic_min_split_bytes throughput_bps =
     (if throughput_bps < 1024 * 1024 then 512 * 1024
      else if throughput_bps < 10 * 1024 * 1024 then 1024 * 1024
      else min_split_bytes)"

definition is_tail :: "int \<Rightarrow> nat \<Rightarrow> int \<Rightarrow> bool" where
  "is_tail remaining worker_cap total_bytes \<longleftrightarrow>
     remaining < int worker_cap * min_split_bytes \<and> remaining < total_bytes sdiv tail_fraction_denom"

definition buf_writer_capacity_for_segment :: "int \<Rightarrow> nat" where
  "buf_writer_capacity_for_segment remaining_bytes =
     (if 32 * 1024 * 1024 \<le> remaining_bytes then 1024 * 1024
      else if 4 * 1024 * 1024 \<le> remaining_bytes then 512 * 1024
      else 256 * 1024)"

section \<open>Verdict and freeze state\<close>

datatype ramp_verdict_kind = Improved | Freeze | Collapse

datatype freeze_state =
    FActive
  | FSoft (ticks_waited: nat) (cooldown: nat) (attempts: nat)
  | FHard

definition ramp_verdict :: "real \<Rightarrow> real \<Rightarrow> ramp_verdict_kind" where
  "ramp_verdict pre_grow_bps current_bps =
     (if pre_grow_bps * ramp_improve_factor < current_bps then Improved
      else if current_bps < pre_grow_bps * ramp_collapse_factor then Collapse
      else Freeze)"

definition should_shrink :: "real \<Rightarrow> real \<Rightarrow> nat \<Rightarrow> nat \<Rightarrow> nat \<Rightarrow> bool \<Rightarrow> bool \<Rightarrow> bool" where
  "should_shrink throughput peak allowed cap alive frozen awaiting_eval \<longleftrightarrow>
     \<not> awaiting_eval \<and> (frozen \<or> cap \<le> allowed) \<and> 1 < allowed \<and> alive = allowed
     \<and> 0 < peak \<and> throughput < peak * ramp_collapse_factor"

definition should_expand :: "bool \<Rightarrow> bool \<Rightarrow> nat \<Rightarrow> nat \<Rightarrow> nat \<Rightarrow> bool \<Rightarrow> bool" where
  "should_expand frozen conn_sensitive alive allowed cap shrunk_this_tick \<longleftrightarrow>
     \<not> frozen \<and> \<not> conn_sensitive \<and> allowed \<le> alive \<and> allowed < cap \<and> \<not> shrunk_this_tick"

definition initial_allowed_workers :: "nat \<Rightarrow> int option \<Rightarrow> nat" where
  "initial_allowed_workers worker_cap hint =
     (let base = (case hint of
          Some h \<Rightarrow> if ramp_initial_workers < as_usize h then as_usize h else ramp_initial_workers
        | None \<Rightarrow> ramp_initial_workers)
      in max (min worker_cap base) 1)"

definition hint_uncap_ceiling :: "bool \<Rightarrow> int option \<Rightarrow> int option \<Rightarrow> nat \<Rightarrow> nat" where
  "hint_uncap_ceiling allow negative_cap hint base_cap =
     (if \<not> allow \<or> negative_cap \<noteq> None then base_cap
      else case hint of
          None \<Rightarrow> base_cap
        | Some h \<Rightarrow>
            if h \<le> 0 then base_cap
            else let target = min (min (sat_mul_u64 (as_usize h) 2) hint_uncap_max) 64
              in if base_cap < target then target else base_cap)"

definition soft_probe_ready ::
  "freeze_state \<Rightarrow> bool \<Rightarrow> bool \<Rightarrow> bool \<Rightarrow> bool \<Rightarrow> nat \<Rightarrow> nat \<Rightarrow> nat \<Rightarrow> nat \<Rightarrow> nat \<Rightarrow> bool" where
  "soft_probe_ready freeze tail range_ok serial_mode conn_sensitive reject_strikes alive allowed
     worker_cap task_probes_used =
     (case freeze of
        FSoft tw cd att \<Rightarrow>
          cd \<le> tw \<and> att < ramp_soft_probe_max_attempts \<and> \<not> tail \<and> range_ok \<and> \<not> serial_mode
          \<and> \<not> conn_sensitive \<and> reject_strikes = 0 \<and> allowed \<le> alive \<and> allowed < worker_cap
          \<and> task_probes_used < ramp_soft_probe_task_budget
      | _ \<Rightarrow> False)"

definition soft_probe_eval_transition :: "ramp_verdict_kind \<Rightarrow> nat \<Rightarrow> nat \<Rightarrow> freeze_state \<times> bool" where
  "soft_probe_eval_transition verdict att cd =
     (case verdict of
        Improved \<Rightarrow> (FActive, False)
      | Freeze \<Rightarrow>
          let next_attempts = sat_add_u32 att 1 in
          if ramp_soft_probe_max_attempts \<le> next_attempts then (FHard, True)
          else (FSoft 0 (sat_mul_u32 cd 2) next_attempts, True)
      | Collapse \<Rightarrow> (FHard, True))"

definition freeze_verdict_next_state :: "nat \<Rightarrow> freeze_state" where
  "freeze_verdict_next_state task_probes_used =
     (if ramp_soft_probe_task_budget \<le> task_probes_used then FHard
      else FSoft 0 ramp_soft_probe_cooldown_ticks 0)"

definition sustained_shrink_next_state :: "freeze_state \<Rightarrow> nat \<Rightarrow> freeze_state" where
  "sustained_shrink_next_state current task_probes_used =
     (if current = FActive then freeze_verdict_next_state task_probes_used else FHard)"

definition beneficial_hint_scale :: "nat \<Rightarrow> nat \<Rightarrow> nat" where
  "beneficial_hint_scale proven_scale beneficial_scale = min proven_scale beneficial_scale"

section \<open>One full ramp tick\<close>

text \<open>
  The policy part of the ramp timer (the tick after the short-window guard): steps 1 to 3 of the
  handler.  The state is the set of local variables the loop keeps; \<open>fill\<close> is what refilling the
  worker slots yields (the number of live workers after handing out work up to an allowance), so
  the segment map stays outside.  \<open>Record_Cap n\<close> is the write to the host's connection-cap cache.
\<close>

record ramp =
  freeze :: freeze_state
  allowed_workers :: nat
  awaiting_ramp_eval :: bool
  probe_window :: bool
  soft_probe_task_used :: nat
  pre_grow_throughput :: real
  pre_grow_workers :: nat
  peak_throughput :: real
  shrink_strikes :: nat
  reject_strikes :: nat
  proven_scale :: nat
  beneficial_scale :: nat

datatype ramp_effect = RecordCap nat

text \<open>Everything a tick observes and does not own.\<close>

record ramp_env =
  throughput :: real
  alive :: nat
  worker_cap :: nat
  start_hint :: "nat option"
  tail :: bool
  serial_mode :: bool
  conn_sensitive :: bool

definition tick_wait :: "ramp \<Rightarrow> ramp" where
  "tick_wait r =
     (if awaiting_ramp_eval r then r
      else case freeze r of
          FSoft tw cd att \<Rightarrow> r\<lparr>freeze := FSoft (sat_add_u32 tw 1) cd att\<rparr>
        | _ \<Rightarrow> r)"

definition note_proven :: "ramp_env \<Rightarrow> ramp \<Rightarrow> ramp" where
  "note_proven env r =
     (if 0 < throughput env \<and> reject_strikes r = 0 \<and> \<not> serial_mode env \<and> \<not> conn_sensitive env
         \<and> proven_scale r < alive env
      then r\<lparr>proven_scale := alive env\<rparr> else r)"

definition roll_back :: "ramp \<Rightarrow> ramp" where
  "roll_back r =
     (let a = max (pre_grow_workers r) 1 in
      r\<lparr>allowed_workers := a, beneficial_scale := min (beneficial_scale r) a\<rparr>)"

definition tick_eval :: "ramp_env \<Rightarrow> ramp \<Rightarrow> ramp \<times> ramp_effect list" where
  "tick_eval env r0 =
     (let r = (if tail env then r0\<lparr>awaiting_ramp_eval := False, probe_window := False\<rparr> else r0) in
      if \<not> awaiting_ramp_eval r then (r, [])
      else
        let was_probe = probe_window r;
            verdict = ramp_verdict (pre_grow_throughput r) (throughput env);
            r1 = r\<lparr>awaiting_ramp_eval := False, probe_window := False\<rparr>
        in
        if was_probe then
          let (att, cd) = (case freeze r1 of FSoft _ cd att \<Rightarrow> (att, cd)
                            | _ \<Rightarrow> (0, ramp_soft_probe_cooldown_ticks));
              (next, rollback) = soft_probe_eval_transition verdict att cd;
              r2 = r1\<lparr>freeze := next\<rparr>
          in (if rollback then roll_back r2 else r2\<lparr>beneficial_scale := allowed_workers r2\<rparr>, [])
        else (case verdict of
            Improved \<Rightarrow> (r1\<lparr>beneficial_scale := allowed_workers r1\<rparr>, [])
          | Collapse \<Rightarrow>
              (let r2 = roll_back (r1\<lparr>freeze := FHard\<rparr>) in (r2, [RecordCap (allowed_workers r2)]))
          | Freeze \<Rightarrow>
              (let r2 = (case start_hint env of
                    Some h \<Rightarrow> if h \<le> pre_grow_workers r1 then roll_back r1 else r1
                  | None \<Rightarrow> r1)
               in (r2\<lparr>freeze := freeze_verdict_next_state (soft_probe_task_used r2)\<rparr>, []))))"

text \<open>Step 2b.  The flag says whether the allowance was halved in this tick.\<close>

definition tick_shrink :: "ramp_env \<Rightarrow> ramp \<Rightarrow> ramp \<times> bool" where
  "tick_shrink env r0 =
     (let r = r0\<lparr>peak_throughput := peak_throughput r0 * ramp_peak_decay\<rparr> in
      if peak_throughput r < throughput env
      then (r\<lparr>peak_throughput := throughput env, shrink_strikes := 0\<rparr>, False)
      else if \<not> tail env
        \<and> should_shrink (throughput env) (peak_throughput r) (allowed_workers r) (worker_cap env)
            (alive env) (freeze r \<noteq> FActive) (awaiting_ramp_eval r)
      then
        if ramp_shrink_strikes \<le> Suc (shrink_strikes r)
        then let a = max (allowed_workers r div 2) 1 in
          (r\<lparr>shrink_strikes := 0, allowed_workers := a,
             beneficial_scale := min (beneficial_scale r) a,
             freeze := sustained_shrink_next_state (freeze r) (soft_probe_task_used r)\<rparr>, True)
        else (r\<lparr>shrink_strikes := Suc (shrink_strikes r)\<rparr>, False)
      else (r\<lparr>shrink_strikes := 0\<rparr>, False))"

text \<open>
  Steps 3 and 4.  The slots are first refilled to the allowance; then at most one of the soft
  probe and the doubling changes the allowance, after which the slots are refilled again (by the
  caller, from the new allowance).  \<open>filled\<close> is the number of live workers after the first refill.
\<close>

definition tick_grow :: "ramp_env \<Rightarrow> bool \<Rightarrow> nat \<Rightarrow> ramp \<Rightarrow> ramp" where
  "tick_grow env shrunk_this_tick filled r =
     (if tail env \<or> shrunk_this_tick then r
      else if soft_probe_ready (freeze r) (tail env) True (serial_mode env) (conn_sensitive env)
          (reject_strikes r) filled (allowed_workers r) (worker_cap env) (soft_probe_task_used r)
      then r\<lparr>pre_grow_throughput := throughput env, pre_grow_workers := allowed_workers r,
             awaiting_ramp_eval := True, probe_window := True,
             soft_probe_task_used := sat_add_u32 (soft_probe_task_used r) 1,
             allowed_workers := min (allowed_workers r + 1) (worker_cap env)\<rparr>
      else if should_expand (freeze r \<noteq> FActive) (conn_sensitive env) filled (allowed_workers r)
          (worker_cap env) shrunk_this_tick
      then r\<lparr>pre_grow_throughput := throughput env, pre_grow_workers := allowed_workers r,
             awaiting_ramp_eval := True, probe_window := False,
             allowed_workers := min (allowed_workers r * 2) (worker_cap env)\<rparr>
      else r)"

text \<open>
  The guard \<^verbatim>\<open>!serial_mode && !all_done && range_ok\<close> is \<open>open_gate\<close>; \<open>fill\<close> maps an allowance to the
  number of live workers after refilling.
\<close>

definition ramp_tick :: "bool \<Rightarrow> (nat \<Rightarrow> nat) \<Rightarrow> ramp_env \<Rightarrow> ramp \<Rightarrow> ramp \<times> ramp_effect list" where
  "ramp_tick open_gate fill env r =
     (let r1 = note_proven env (tick_wait r) in
      if \<not> open_gate then (r1, [])
      else let (r2, eff) = tick_eval env r1;
               (r3, shrunk) = tick_shrink env r2
           in (tick_grow env shrunk (fill (allowed_workers r3)) r3, eff))"

text \<open>
  The graded degradation of the failure handler on a rejected connection: growth is frozen for
  good; the first rejection with more than two live workers halves the allowance, any other one
  switches to serial mode (second component).
\<close>

definition ramp_reject :: "bool \<Rightarrow> nat \<Rightarrow> ramp \<Rightarrow> ramp \<times> bool" where
  "ramp_reject serial alive_slots r0 =
     (let r = r0\<lparr>reject_strikes := Suc (reject_strikes r0), freeze := FHard,
                awaiting_ramp_eval := False, probe_window := False\<rparr> in
      if \<not> serial \<and> reject_strikes r = 1 \<and> 2 < alive_slots
      then (r\<lparr>allowed_workers := max (alive_slots div 2) 1\<rparr>, serial)
      else (r, True))"

text \<open>The ticks of a task, in order.\<close>

fun ramp_run :: "(bool \<times> (nat \<Rightarrow> nat) \<times> ramp_env) list \<Rightarrow> ramp \<Rightarrow> ramp" where
  "ramp_run [] r = r"
| "ramp_run ((gate, fill, env) # ts) r = ramp_run ts (fst (ramp_tick gate fill env r))"

section \<open>Invariants\<close>

text \<open>
  The allowance stays in \<open>1..cap\<close>, so does the size to roll back to while a growth step is being
  evaluated; the task's probe budget is respected; a probe is evaluated from the soft state only
  and an ordinary growth step from the active state only.
\<close>

definition ramp_bounds :: "nat \<Rightarrow> ramp \<Rightarrow> bool" where
  "ramp_bounds cap r \<longleftrightarrow> 1 \<le> allowed_workers r \<and> allowed_workers r \<le> cap
     \<and> (awaiting_ramp_eval r \<longrightarrow> pre_grow_workers r \<le> allowed_workers r)
     \<and> soft_probe_task_used r \<le> ramp_soft_probe_task_budget"

definition ramp_ok :: "nat \<Rightarrow> ramp \<Rightarrow> bool" where
  "ramp_ok cap r \<longleftrightarrow> ramp_bounds cap r
     \<and> (awaiting_ramp_eval r \<longrightarrow>
          (if probe_window r then (\<exists>tw cd att. freeze r = FSoft tw cd att) else freeze r = FActive))"

lemma ramp_ok_bounds: "ramp_ok cap r \<Longrightarrow> ramp_bounds cap r"
  by (simp add: ramp_ok_def)

lemma tick_wait_ok:
  "ramp_bounds cap r \<Longrightarrow> ramp_bounds cap (tick_wait r)" "ramp_ok cap r \<Longrightarrow> ramp_ok cap (tick_wait r)"
  by (auto simp: ramp_ok_def ramp_bounds_def tick_wait_def split: freeze_state.splits)

lemma note_proven_ok:
  "ramp_bounds cap r \<Longrightarrow> ramp_bounds cap (note_proven env r)" "ramp_ok cap r \<Longrightarrow> ramp_ok cap (note_proven env r)"
  by (simp_all add: ramp_ok_def ramp_bounds_def note_proven_def)

lemma tick_eval_awaiting: "\<not> awaiting_ramp_eval (fst (tick_eval env r))"
  by (auto simp: tick_eval_def Let_def roll_back_def split: prod.splits option.splits
      ramp_verdict_kind.splits freeze_state.splits)

lemma tick_eval_allowed:
  assumes "ramp_bounds cap r"
  shows "1 \<le> allowed_workers (fst (tick_eval env r))"
    "allowed_workers (fst (tick_eval env r)) \<le> allowed_workers r"
    "soft_probe_task_used (fst (tick_eval env r)) = soft_probe_task_used r"
  using assms
  by (auto simp: ramp_bounds_def tick_eval_def Let_def roll_back_def max_def
      split: prod.splits option.splits ramp_verdict_kind.splits freeze_state.splits if_splits)

lemma tick_eval_ok:
  assumes "ramp_bounds cap r"
  shows "ramp_ok cap (fst (tick_eval env r))"
proof -
  have "allowed_workers (fst (tick_eval env r)) \<le> cap"
    using tick_eval_allowed(2)[OF assms, of env] assms by (simp add: ramp_bounds_def)
  then show ?thesis
    using tick_eval_allowed[OF assms, of env] tick_eval_awaiting[of env r] assms
    by (simp add: ramp_ok_def ramp_bounds_def)
qed

lemma tick_shrink_frame:
  "awaiting_ramp_eval (fst (tick_shrink env r)) = awaiting_ramp_eval r"
  "soft_probe_task_used (fst (tick_shrink env r)) = soft_probe_task_used r"
  "pre_grow_workers (fst (tick_shrink env r)) = pre_grow_workers r"
  "probe_window (fst (tick_shrink env r)) = probe_window r"
  by (auto simp: tick_shrink_def Let_def)

lemma tick_shrink_no:
  "\<not> snd (tick_shrink env r) \<Longrightarrow> allowed_workers (fst (tick_shrink env r)) = allowed_workers r
     \<and> freeze (fst (tick_shrink env r)) = freeze r"
  by (auto simp: tick_shrink_def Let_def split: if_splits)

lemma tick_shrink_yes:
  "snd (tick_shrink env r) \<Longrightarrow> 1 < allowed_workers r \<and> \<not> awaiting_ramp_eval r
     \<and> allowed_workers (fst (tick_shrink env r)) = max (allowed_workers r div 2) 1
     \<and> freeze (fst (tick_shrink env r)) = sustained_shrink_next_state (freeze r) (soft_probe_task_used r)"
  by (auto simp: tick_shrink_def should_shrink_def Let_def split: if_splits)

lemma tick_shrink_cases:
  obtains (no) "snd (tick_shrink env r) = False"
      "allowed_workers (fst (tick_shrink env r)) = allowed_workers r"
      "freeze (fst (tick_shrink env r)) = freeze r"
  | (yes) "snd (tick_shrink env r) = True" "1 < allowed_workers r" "\<not> awaiting_ramp_eval r"
      "allowed_workers (fst (tick_shrink env r)) = max (allowed_workers r div 2) 1"
      "freeze (fst (tick_shrink env r)) = sustained_shrink_next_state (freeze r) (soft_probe_task_used r)"
  using tick_shrink_no[of env r] tick_shrink_yes[of env r] by (cases "snd (tick_shrink env r)") auto

lemma tick_shrink_ok:
  assumes "ramp_ok cap r"
  shows "ramp_ok cap (fst (tick_shrink env r))"
  using tick_shrink_cases[of env r]
  by cases (use assms in \<open>auto simp: ramp_ok_def ramp_bounds_def tick_shrink_frame max_def\<close>)

lemma tick_grow_ok:
  assumes "ramp_ok (worker_cap env) r" "\<not> awaiting_ramp_eval r"
  shows "ramp_ok (worker_cap env) (tick_grow env s n r)"
  using assms
  by (auto simp: ramp_ok_def ramp_bounds_def tick_grow_def soft_probe_ready_def should_expand_def sat_add_u32_def
      ramp_soft_probe_task_budget_def split: freeze_state.splits)

text \<open>The state before the slots are refilled, from a state that is merely within bounds.\<close>

lemma tick_shrunk_ok:
  assumes "ramp_bounds (worker_cap env) r"
  shows "ramp_ok (worker_cap env) (fst (tick_shrink env (fst (tick_eval env (note_proven env (tick_wait r))))))"
    and "\<not> awaiting_ramp_eval (fst (tick_shrink env (fst (tick_eval env (note_proven env (tick_wait r))))))"
  using assms
  by (auto intro!: tick_shrink_ok tick_eval_ok note_proven_ok(1) tick_wait_ok(1)
      simp: tick_shrink_frame tick_eval_awaiting)

lemma ramp_tick_ok:
  assumes "ramp_ok (worker_cap env) r"
  shows "ramp_ok (worker_cap env) (fst (ramp_tick gate fill env r))"
  using assms tick_shrunk_ok[OF ramp_ok_bounds[OF assms]]
    tick_grow_ok[of env "fst (tick_shrink env (fst (tick_eval env (note_proven env (tick_wait r)))))"]
  by (simp add: ramp_tick_def Let_def split_def tick_wait_ok note_proven_ok)

text \<open>A hard freeze is final, and the allowance cannot grow any more.\<close>

lemma ramp_tick_hard:
  assumes "ramp_ok (worker_cap env) r" "freeze r = FHard"
  shows "freeze (fst (ramp_tick gate fill env r)) = FHard"
    and "allowed_workers (fst (ramp_tick gate fill env r)) \<le> allowed_workers r"
proof -
  let ?r1 = "note_proven env (tick_wait r)"
  have f: "freeze ?r1 = FHard" "\<not> awaiting_ramp_eval ?r1" "allowed_workers ?r1 = allowed_workers r"
    using assms by (auto simp: note_proven_def tick_wait_def ramp_ok_def split: if_splits)
  then have e: "freeze (fst (tick_eval env ?r1)) = FHard"
    "allowed_workers (fst (tick_eval env ?r1)) = allowed_workers r"
    by (simp_all add: tick_eval_def Let_def)
  let ?r3 = "fst (tick_shrink env (fst (tick_eval env ?r1)))"
  have s: "freeze ?r3 = FHard \<and> allowed_workers ?r3 \<le> allowed_workers r"
    using tick_shrink_cases[of env "fst (tick_eval env ?r1)"]
    by cases (auto simp: e sustained_shrink_next_state_def)
  then have "tick_grow env b n ?r3 = ?r3" for b n
    by (simp add: tick_grow_def soft_probe_ready_def should_expand_def)
  then show "freeze (fst (ramp_tick gate fill env r)) = FHard"
    "allowed_workers (fst (ramp_tick gate fill env r)) \<le> allowed_workers r"
    using s f by (simp_all add: ramp_tick_def Let_def split_def)
qed

lemma ramp_run_ok:
  assumes "ramp_ok cap r" "\<forall>t \<in> set ts. worker_cap (snd (snd t)) = cap"
  shows "ramp_ok cap (ramp_run ts r)"
  using assms
proof (induction ts arbitrary: r)
  case (Cons t ts)
  obtain g f env where t: "t = (g, f, env)" by (cases t)
  have "ramp_ok cap (fst (ramp_tick g f env r))"
    using ramp_tick_ok[of env r g f] Cons.prems t by simp
  then show ?case using Cons t by simp
qed simp

lemma ramp_run_hard:
  assumes "ramp_ok cap r" "freeze r = FHard" "\<forall>t \<in> set ts. worker_cap (snd (snd t)) = cap"
  shows "freeze (ramp_run ts r) = FHard \<and> allowed_workers (ramp_run ts r) \<le> allowed_workers r"
  using assms
proof (induction ts arbitrary: r)
  case (Cons t ts)
  obtain g f env where t: "t = (g, f, env)" by (cases t)
  have cap: "worker_cap env = cap" using Cons.prems(3) t by simp
  have "ramp_ok cap (fst (ramp_tick g f env r))"
    using ramp_tick_ok[of env r g f] Cons.prems(1) cap by simp
  moreover note ramp_tick_hard[of env r g f]
  ultimately show ?case using Cons.IH[of "fst (ramp_tick g f env r)"] Cons.prems t cap by force
qed simp

lemma ramp_tick_record:
  assumes "RecordCap n \<in> set (snd (ramp_tick gate fill env r))"
  shows "awaiting_ramp_eval r \<and> \<not> probe_window r \<and> \<not> tail env
    \<and> ramp_verdict (pre_grow_throughput r) (throughput env) = Collapse \<and> n = max (pre_grow_workers r) 1"
  using assms
  by (auto simp: ramp_tick_def Let_def split_def tick_eval_def tick_wait_def note_proven_def roll_back_def
      split: if_splits ramp_verdict_kind.splits option.splits freeze_state.splits)

end
