(* ===== verification/Coordinator.thy ===== *)
theory Coordinator
  imports Segment_Rows Ramp
begin

text \<open>
  The event loop of \<^verbatim>\<open>run_coordinated_download\<close> (\<^verbatim>\<open>native/engine/src/segment_coordinator.rs\<close>): one
  function per arm of its \<^verbatim>\<open>select!\<close>, over a record of the loop's variables and of the cells it
  shares with the workers.  What a handler observes and does not own (outcomes of database calls
  and channel sends, clocks as measured throughput, atomics only workers write) is an argument.
  A handler is one atomic step; worker writes to the shared cells are steps of their own.
  Payload strings of errors, logging, UI events and the proxy probe of \<^verbatim>\<open>auto_proxy\<close> are left out.
\<close>

section \<open>State\<close>

datatype download_error =
    Request "nat option" \<comment> \<open>the HTTP status, when the request failed with one\<close>
  | Io | Db | Cancelled | ChecksumMismatch | RangeNotSupported | VersionChanged | RangeMisaligned
  | TrueSizeLarger int | CdnNodeFailed | Ed2k | Ed2kIntegrity | Other

definition is_server_rejection :: "download_error \<Rightarrow> bool" where
  "is_server_rejection e = (case e of Request (Some st) \<Rightarrow> st = 403 \<or> st = 429 | _ \<Rightarrow> False)"

definition is_http_400 :: "download_error \<Rightarrow> bool" where
  "is_http_400 e \<longleftrightarrow> e = Request (Some 400)"

definition max_size_expansions :: nat where "max_size_expansions = 3"

definition range_family_discard_max :: int where "range_family_discard_max = 8 * 1024 * 1024"

datatype range_verdict = VUnknown | VSupported | VUnsupported

text \<open>Writes to the per-host connection cache.\<close>

datatype learned = LearnCap nat | LearnSingle | LearnHint nat

record coord =
  segs :: segments
  next_ix :: int
  shared :: "progress_info list"
  tdb :: task_db
  effective :: int              \<comment> \<open>\<^verbatim>\<open>effective_total_bytes\<close>, mirrored in \<^verbatim>\<open>planned_total\<close>\<close>
  slots :: "bool list"          \<comment> \<open>\<^verbatim>\<open>worker_assign_txs\<close>: is the slot's channel still open\<close>
  serial :: bool
  rmp :: ramp
  open_stream :: "int option"   \<comment> \<open>\<^verbatim>\<open>open_ended_streaming\<close>\<close>
  hostile :: bool
  sensitive :: bool
  verdict :: range_verdict
  min_split :: int
  expansions :: nat
  stopped :: bool               \<comment> \<open>\<^verbatim>\<open>worker_cancel\<close>\<close>
  learned :: "learned list"

text \<open>Fixed for the whole download.\<close>

record task_cfg =
  owns_task_total :: bool
  cap_limit :: nat              \<comment> \<open>\<^verbatim>\<open>worker_cap\<close>\<close>
  cfg_hint :: "nat option"      \<comment> \<open>\<^verbatim>\<open>start_hint\<close>\<close>
  spawn_gen :: int

text \<open>What the handler of a worker event observes.\<close>

record obs =
  o_downloaded :: int           \<comment> \<open>\<^verbatim>\<open>total_downloaded\<close>\<close>
  o_window :: "real option"     \<comment> \<open>throughput, when 500 ms passed since the last sample\<close>
  o_persist1 :: bool
  o_persist2 :: bool
  o_merge :: bool
  o_prealloc :: bool
  o_send :: bool
  o_active_response :: bool     \<comment> \<open>\<^verbatim>\<open>generation_evidence.has_active_response()\<close>\<close>

datatype exit = Continue | Stop "download_error option"

section \<open>Steps shared by the handlers\<close>

definition alive_slots :: "coord \<Rightarrow> nat" where
  "alive_slots c = length (filter (\<lambda>b. b) (slots c))"

definition slot_open :: "coord \<Rightarrow> nat \<Rightarrow> bool" where
  "slot_open c w \<longleftrightarrow> w < length (slots c) \<and> slots c ! w"

definition retire :: "nat \<Rightarrow> coord \<Rightarrow> coord" where
  "retire w c = c\<lparr>slots := (slots c)[w := False]\<rparr>"

definition close_slots :: "coord \<Rightarrow> coord" where
  "close_slots c = c\<lparr>slots := map (\<lambda>_. False) (slots c)\<rparr>"

definition reclaim :: "int \<Rightarrow> coord \<Rightarrow> coord" where
  "reclaim i c = c\<lparr>segs := bt_adjust i (set_state Pending) (segs c)\<rparr>"

definition clear_open :: "int \<Rightarrow> coord \<Rightarrow> coord" where
  "clear_open i c = (if open_stream c = Some i then c\<lparr>open_stream := None\<rparr> else c)"

definition sync_shared :: "coord \<Rightarrow> coord" where
  "sync_shared c = c\<lparr>segs := sync_downloaded_from_shared (segs c) (shared c)\<rparr>"

definition rebuild_shared :: "coord \<Rightarrow> coord" where
  "rebuild_shared c = c\<lparr>shared := rebuild_seg_states (segs c) (shared c)\<rparr>"

definition persist_change :: "bool \<Rightarrow> int \<Rightarrow> int option \<Rightarrow> coord \<Rightarrow> coord" where
  "persist_change ok i par c = c\<lparr>tdb := persist_segment_change ok (segs c) i par (tdb c)\<rparr>"

definition resample :: "real option \<Rightarrow> coord \<Rightarrow> coord" where
  "resample w c = (case w of None \<Rightarrow> c | Some t \<Rightarrow> c\<lparr>min_split := dynamic_min_split_bytes t\<rparr>)"

definition any_active :: "coord \<Rightarrow> bool" where
  "any_active c = list_ex (\<lambda>s. lstate s = Active) (bt_values (segs c))"

definition take_work :: "coord \<Rightarrow> next_work option \<times> coord" where
  "take_work c = (let (w, m, n) = find_next_work (segs c) (next_ix c) (min_split c)
                  in (w, c\<lparr>segs := m, next_ix := n\<rparr>))"

definition take_pending :: "coord \<Rightarrow> next_work option \<times> coord" where
  "take_pending c = (let (w, m) = find_next_pending_only (segs c) in (w, c\<lparr>segs := m\<rparr>))"

text \<open>Persist the change behind an assignment and refresh the shared vector.\<close>

definition hand_out :: "bool \<Rightarrow> next_work \<Rightarrow> coord \<Rightarrow> coord" where
  "hand_out ok w c = rebuild_shared (persist_change ok (wa_index (assignment w)) (split_parent w) c)"

section \<open>\<open>WorkerEvent::Done\<close>\<close>

definition mark_done :: "int \<Rightarrow> int \<Rightarrow> coord \<Rightarrow> coord \<times> int option" where
  "mark_done seg_index dl c =
     (case bt_get (segs c) seg_index of
        None \<Rightarrow> (c, None)
      | Some seg \<Rightarrow>
          if 0 < dl \<and> dl < seg_size seg then
            let rem_start = start_byte seg + dl;
                rem_end = end_byte seg;
                child_idx = next_ix c;
                m = bt_adjust seg_index
                      (\<lambda>s. s\<lparr>end_byte := rem_start - 1, downloaded_bytes := dl, lstate := Completed\<rparr>) (segs c)
            in (c\<lparr>next_ix := child_idx + 1,
                  segs := bt_insert child_idx
                    \<lparr> index = child_idx, start_byte = rem_start, end_byte = rem_end,
                      downloaded_bytes = 0, lstate = Pending \<rparr> m\<rparr>, Some child_idx)
          else
            (c\<lparr>segs := bt_adjust seg_index
                 (\<lambda>s. s\<lparr>downloaded_bytes := min dl (seg_size s), lstate := Completed\<rparr>) (segs c)\<rparr>, None))"

definition record_shortfall :: "bool \<Rightarrow> int \<Rightarrow> int option \<Rightarrow> coord \<Rightarrow> coord" where
  "record_shortfall ok seg_index child c =
     (case child of None \<Rightarrow> c
      | Some child_idx \<Rightarrow> rebuild_shared (persist_change ok child_idx (Some seg_index) c))"

definition next_after_done :: "coord \<Rightarrow> next_work option \<times> coord" where
  "next_after_done c =
     (if serial c then (if any_active c then (None, c) else take_pending c)
      else if allowed_workers (rmp c) < alive_slots c then (None, c)
      else take_work c)"

definition assign_after_done :: "bool \<Rightarrow> bool \<Rightarrow> nat \<Rightarrow> coord \<Rightarrow> coord" where
  "assign_after_done ok send worker_id c =
     (case next_after_done c of
        (None, c1) \<Rightarrow> retire worker_id c1
      | (Some w, c1) \<Rightarrow>
          let c2 = hand_out ok w c1 in
          if slot_open c2 worker_id \<and> \<not> send then reclaim (wa_index (assignment w)) c2 else c2)"

definition on_done :: "obs \<Rightarrow> nat \<Rightarrow> int \<Rightarrow> int \<Rightarrow> coord \<Rightarrow> coord \<times> exit" where
  "on_done ob worker_id seg_index dl c =
     (let (c1, child) = mark_done seg_index dl (clear_open seg_index c);
          c2 = record_shortfall (o_persist1 ob) seg_index child c1;
          c3 = resample (o_window ob) (sync_shared c2);
          c4 = assign_after_done (o_persist2 ob) (o_send ob) worker_id c3
      in if all_done (segs c4) then (close_slots c4, Stop None) else (c4, Continue))"

section \<open>\<open>WorkerEvent::Failed\<close>\<close>

text \<open>
  Until the server has confirmed ranges only the zero-progress segment at byte 0 may be sent out
  again, as a plain request.
\<close>

definition redispatch_work :: "coord \<Rightarrow> next_work option \<times> coord" where
  "redispatch_work c =
     (if verdict c \<noteq> VSupported then
        (case take_pending c of
           (None, c1) \<Rightarrow> (None, c1)
         | (Some nw, c1) \<Rightarrow>
             if wa_actual_start (assignment nw) = 0
             then (Some (nw\<lparr>assignment := (assignment nw)\<lparr>wa_open_ended := True, wa_no_range := True\<rparr>\<rparr>), c1)
             else (None, reclaim (wa_index (assignment nw)) c1))
      else if serial c then (if any_active c then (None, c) else take_pending c)
      else take_work c)"

text \<open>
  The two arms that re-dispatch repeat this body; they differ in what happens to the segment when
  the worker's slot is gone: only the \<^verbatim>\<open>CdnNodeFailed\<close> arm (\<open>cdn\<close>) puts it back.
\<close>

definition redispatch :: "bool \<Rightarrow> bool \<Rightarrow> bool \<Rightarrow> nat \<Rightarrow> coord \<Rightarrow> coord" where
  "redispatch cdn ok send worker_id c =
     (case redispatch_work c of
        (None, c1) \<Rightarrow> retire worker_id c1
      | (Some w, c1) \<Rightarrow>
          let i = wa_index (assignment w); c2 = hand_out ok w c1 in
          if slot_open c2 worker_id
          then (if \<not> send then reclaim i c2
                else if wa_open_ended (assignment w) then c2\<lparr>open_stream := Some i\<rparr> else c2)
          else if cdn then reclaim i c2 else c2)"

definition abort_workers :: "int \<Rightarrow> coord \<Rightarrow> coord" where
  "abort_workers seg_index c = close_slots (reclaim seg_index (c\<lparr>stopped := True\<rparr>))"

definition expand_total :: "task_cfg \<Rightarrow> bool \<Rightarrow> int \<Rightarrow> coord \<Rightarrow> coord" where
  "expand_total cfg ok reported c =
     (let tail_idx = next_ix c;
          c1 = c\<lparr>expansions := expansions c + 1, next_ix := tail_idx + 1,
                 segs := bt_insert tail_idx
                   \<lparr> index = tail_idx, start_byte = effective c, end_byte = reported - 1,
                     downloaded_bytes = 0, lstate = Pending \<rparr> (segs c),
                 effective := reported\<rparr>;
          c2 = persist_change ok tail_idx None c1;
          c3 = (if owns_task_total cfg then c2\<lparr>tdb := update_task_total_bytes reported (tdb c2)\<rparr> else c2)
      in rebuild_shared c3)"

definition on_size_larger :: "task_cfg \<Rightarrow> obs \<Rightarrow> nat \<Rightarrow> int \<Rightarrow> int \<Rightarrow> coord \<Rightarrow> coord \<times> exit" where
  "on_size_larger cfg ob worker_id seg_index reported c =
     (if effective c < reported \<and> max_size_expansions \<le> expansions c
      then (abort_workers seg_index c, Stop (Some (TrueSizeLarger reported)))
      else if effective c < reported \<and> \<not> o_prealloc ob
      then (abort_workers seg_index c, Stop (Some Io))
      else
        let c1 = (if effective c < reported then expand_total cfg (o_persist1 ob) reported c else c)
        in (redispatch False (o_persist2 ob) (o_send ob) worker_id (reclaim seg_index c1), Continue))"

text \<open>Absorption with its transaction; \<open>None\<close> when the scan does not end.\<close>

definition absorb_rows :: "bool \<Rightarrow> segments \<Rightarrow> int option \<Rightarrow> task_db \<Rightarrow> task_db" where
  "absorb_rows ok m open_idx db =
     (case open_idx of None \<Rightarrow> db
      | Some i \<Rightarrow>
          (case bt_get m i of None \<Rightarrow> db
           | Some p \<Rightarrow>
               if lstate p \<noteq> Active then db
               else (case absorb_scan m (end_byte p) [] of
                       None \<Rightarrow> db
                     | Some (new_end, absorbed) \<Rightarrow>
                         if absorbed = [] \<or> \<not> ok then db else persist_merge i new_end absorbed db)))"

definition absorb_open :: "bool \<Rightarrow> coord \<Rightarrow> coord option" where
  "absorb_open ok c =
     map_option
       (\<lambda>(k, m, st, h). c\<lparr>segs := m, shared := st, hostile := h,
            tdb := absorb_rows ok (segs c) (open_stream c) (tdb c)\<rparr>)
       (absorb_pending_into_open_stream ok (segs c) (shared c) (open_stream c) (hostile c))"

text \<open>The graded degradation on a rejected connection or a transient full response.\<close>

definition can_learn_conn_cap :: "bool \<Rightarrow> bool \<Rightarrow> bool" where
  "can_learn_conn_cap server_rejection active_response \<longleftrightarrow> server_rejection \<and> active_response"

definition degrade :: "obs \<Rightarrow> download_error \<Rightarrow> coord \<Rightarrow> coord" where
  "degrade ob err c =
     (let halve = \<not> serial c \<and> Suc (reject_strikes (rmp c)) = 1 \<and> 2 < alive_slots c;
          (r, ser) = ramp_reject (serial c) (alive_slots c) (rmp c);
          learn = (if \<not> can_learn_conn_cap (is_server_rejection err) (o_active_response ob) then []
                   else if halve then [LearnCap (allowed_workers r)]
                   else if \<not> serial c then [LearnSingle] else [])
      in c\<lparr>rmp := r, serial := ser, learned := learned c @ learn\<rparr>)"

definition on_rejection :: "obs \<Rightarrow> nat \<Rightarrow> int \<Rightarrow> download_error \<Rightarrow> coord \<Rightarrow> (coord \<times> exit) option" where
  "on_rejection ob worker_id seg_index err c =
     map_option
       (\<lambda>c1. let c2 = retire worker_id c1 in
          if \<not> (list_ex (\<lambda>b. b) (slots c2) \<or> any_active c2) \<and> \<not> all_done (segs c2)
          then (c2, Stop (Some
                 (if \<not> 0 < o_downloaded ob
                     \<or> (err = RangeNotSupported \<and> o_downloaded ob < range_family_discard_max)
                  then RangeNotSupported else Other)))
          else (c2, Continue))
       (absorb_open (o_merge ob) (reclaim seg_index (degrade ob err c)))"

definition on_failed ::
  "task_cfg \<Rightarrow> obs \<Rightarrow> nat \<Rightarrow> int \<Rightarrow> download_error \<Rightarrow> coord \<Rightarrow> (coord \<times> exit) option" where
  "on_failed cfg ob worker_id seg_index err c0 =
     (let c = clear_open seg_index c0 in
      case err of
        TrueSizeLarger reported \<Rightarrow> Some (on_size_larger cfg ob worker_id seg_index reported c)
      | CdnNodeFailed \<Rightarrow>
          Some (redispatch True (o_persist2 ob) (o_send ob) worker_id (reclaim seg_index c), Continue)
      | _ \<Rightarrow>
          let any_data = 0 < o_downloaded ob;
              other_in_flight = has_other_in_flight (segs c) seg_index;
              transient_range = (err = RangeNotSupported \<and> any_data);
              conn_rejection = (is_server_rejection err \<or> is_http_400 err)
          in if (conn_rejection \<and> other_in_flight) \<or> transient_range
             then on_rejection ob worker_id seg_index err c
             else Some (abort_workers seg_index c,
                        Stop (Some (if conn_rejection \<and> \<not> any_data then RangeNotSupported else err))))"

section \<open>\<open>WorkerEvent::RangeVerdict\<close>\<close>

definition on_range_verdict :: "bool \<Rightarrow> bool \<Rightarrow> bool \<Rightarrow> coord \<Rightarrow> coord option" where
  "on_range_verdict db_ok merge_ok supports_range c =
     (if supports_range
      then Some (if db_ok then c\<lparr>tdb := set_task_range_verified True (tdb c)\<rparr> else c)
      else absorb_open merge_ok
             (c\<lparr>rmp := (rmp c)\<lparr>freeze := FHard\<rparr>, sensitive := True, hostile := True\<rparr>))"

section \<open>The proactive split timer\<close>

definition try_split :: "int \<Rightarrow> coord \<Rightarrow> next_work option \<times> coord" where
  "try_split m c = (let (w, sg, n) = try_proactive_split (segs c) (next_ix c) m
                    in (w, c\<lparr>segs := sg, next_ix := n\<rparr>))"

definition proactive_tick :: "bool \<Rightarrow> coord \<Rightarrow> coord" where
  "proactive_tick ok c0 =
     (if serial c0 \<or> sensitive c0 \<or> verdict c0 \<noteq> VSupported \<or> all_done (segs c0) then c0
      else
        let c = sync_shared c0;
            (w, c1) = (case try_split (min_split c) c of
                (Some w, c1) \<Rightarrow> (Some w, c1)
              | (None, c1) \<Rightarrow>
                  if tail_min_split_bytes < min_split c1
                     \<and> 2 * tail_min_split_bytes \<le> max_active_remaining (segs c1)
                  then try_split tail_min_split_bytes c1 else (None, c1))
        in case w of None \<Rightarrow> c1 | Some nw \<Rightarrow> hand_out ok nw c1)"

section \<open>The ramp timer\<close>

text \<open>
  The refill loop \<^verbatim>\<open>while alive < allowed_workers\<close>; its argument is the number of rounds left,
  \<open>allowed - alive\<close>, since every round but the last adds one live slot.  \<open>ok\<close> and \<open>send\<close> are
  indexed by the new worker's number.
\<close>

fun refill :: "(nat \<Rightarrow> bool) \<Rightarrow> (nat \<Rightarrow> bool) \<Rightarrow> nat \<Rightarrow> coord \<Rightarrow> coord" where
  "refill ok send 0 c = c"
| "refill ok send (Suc k) c =
     (case take_work (sync_shared c) of
        (None, c1) \<Rightarrow> c1
      | (Some w, c1) \<Rightarrow>
          let worker_id = length (slots c1); c2 = hand_out (ok worker_id) w c1 in
          if \<not> send worker_id then reclaim (wa_index (assignment w)) c2
          else refill ok send k (c2\<lparr>slots := slots c2 @ [True]\<rparr>))"

definition refill_slots :: "(nat \<Rightarrow> bool) \<Rightarrow> (nat \<Rightarrow> bool) \<Rightarrow> coord \<Rightarrow> coord" where
  "refill_slots ok send c = refill ok send (allowed_workers (rmp c) - alive_slots c) c"

record tick_obs =
  t_finished :: "nat \<Rightarrow> bool"   \<comment> \<open>\<^verbatim>\<open>JoinHandle::is_finished\<close> of each worker\<close>
  t_persist :: "nat \<Rightarrow> bool"
  t_send :: "nat \<Rightarrow> bool"
  t_short :: bool               \<comment> \<open>the window is shorter than 500 ms\<close>
  t_throughput :: real
  t_bytes :: int

definition reconcile_slots :: "(nat \<Rightarrow> bool) \<Rightarrow> coord \<Rightarrow> coord" where
  "reconcile_slots fin c = c\<lparr>slots := map (\<lambda>(i, b). b \<and> \<not> fin i) (List.enumerate 0 (slots c))\<rparr>"

definition ramp_env_of :: "task_cfg \<Rightarrow> tick_obs \<Rightarrow> coord \<Rightarrow> ramp_env" where
  "ramp_env_of cfg t c =
     \<lparr> throughput = t_throughput t, alive = alive_slots c, worker_cap = cap_limit cfg,
       start_hint = cfg_hint cfg,
       tail = is_tail (max (effective c - t_bytes t) 0) (cap_limit cfg) (effective c),
       serial_mode = serial c, conn_sensitive = sensitive c \<rparr>"

definition learn_effects :: "ramp_effect list \<Rightarrow> learned list" where
  "learn_effects effs = map (\<lambda>e. case e of RecordCap n \<Rightarrow> LearnCap n) effs"

definition may_refill :: "coord \<Rightarrow> bool" where
  "may_refill c \<longleftrightarrow> \<not> serial c \<and> \<not> all_done (segs c) \<and> verdict c = VSupported"

definition full_tick :: "task_cfg \<Rightarrow> tick_obs \<Rightarrow> coord \<Rightarrow> coord" where
  "full_tick cfg t c =
     (let env = ramp_env_of cfg t c;
          r1 = note_proven env (tick_wait (rmp c))
      in if \<not> may_refill c then c\<lparr>rmp := r1\<rparr>
         else
           let (r2, eff) = tick_eval env r1;
               (r3, shrunk) = tick_shrink env r2;
               c3 = refill_slots (t_persist t) (t_send t)
                      (c\<lparr>rmp := r3, learned := learned c @ learn_effects eff\<rparr>);
               r4 = tick_grow env shrunk (alive_slots c3) r3;
               c4 = c3\<lparr>rmp := r4\<rparr>
           in if awaiting_ramp_eval r4 then refill_slots (t_persist t) (t_send t) c4 else c4)"

definition short_tick :: "tick_obs \<Rightarrow> coord \<Rightarrow> coord" where
  "short_tick t c = (if may_refill c then refill_slots (t_persist t) (t_send t) c else c)"

definition on_ramp_tick :: "task_cfg \<Rightarrow> tick_obs \<Rightarrow> coord \<Rightarrow> coord \<times> exit" where
  "on_ramp_tick cfg t c0 =
     (let c = reconcile_slots (t_finished t) c0;
          c1 = (if t_short t then short_tick t c else full_tick cfg t c)
      in if alive_slots c1 = 0 \<and> \<not> all_done (segs c1) then (c1, Stop None) else (c1, Continue))"

section \<open>Durable flush and final verification\<close>

definition flush_durable :: "task_cfg \<Rightarrow> bool \<Rightarrow> (int \<times> int) list \<Rightarrow> coord \<Rightarrow> coord" where
  "flush_durable cfg ok pending c =
     (if ok then c\<lparr>tdb := update_segments_progress_batch (spawn_gen cfg)
                     (take_durable_progress_rows pending (segs c)) (tdb c)\<rparr>
      else c)"

text \<open>Steps 7 to 9; \<open>stop\<close> is the loop's \<^verbatim>\<open>final_error\<close>.\<close>

definition conclude ::
  "task_cfg \<Rightarrow> bool \<Rightarrow> (int \<times> int) list \<Rightarrow> bool \<Rightarrow> download_error option \<Rightarrow> coord
   \<Rightarrow> coord \<times> (download_error + int)" where
  "conclude cfg db_ok pending flush_ok final_error c0 =
     (let c1 = flush_durable cfg db_ok pending c0 in
      case final_error of
        Some e \<Rightarrow> (c1, Inl e)
      | None \<Rightarrow>
          let c = sync_shared c1;
              seg_total = (\<Sum>s\<leftarrow>bt_values (segs c). downloaded_bytes s)
          in if seg_total < effective c then (c, Inl Other)
             else case validate_coverage (segs c) (effective c) of
                 Inl _ \<Rightarrow> (c, Inl Other)
               | Inr _ \<Rightarrow>
                   let db = (if flush_ok
                             then flush_segments_progress
                                    (map (\<lambda>s. (index s, downloaded_bytes s)) (bt_values (segs c))) (tdb c)
                             else tdb c);
                       hint_scale = beneficial_hint_scale (proven_scale (rmp c)) (beneficial_scale (rmp c));
                       learn = (if ramp_initial_workers < hint_scale \<and> reject_strikes (rmp c) = 0
                                   \<and> \<not> serial c \<and> \<not> sensitive c then [LearnHint hint_scale] else [])
                   in (c\<lparr>tdb := db, learned := learned c @ learn\<rparr>, Inr (effective c)))"

section \<open>The loop\<close>

datatype coord_event =
    EvCancelled
  | EvDone obs nat int int
  | EvFailed obs nat int download_error
  | EvRangeVerdict bool bool bool
  | EvOpenEndedEstablished
  | EvChannelClosed
  | EvProactive bool
  | EvRamp tick_obs
  | EvUi
  | EvFlush bool "(int \<times> int) list"
    \<comment> \<open>steps of the workers between two handlers\<close>
  | WProgress int int
  | WRow int int int int
  | WSensitive
  | WVerdict range_verdict

text \<open>
  One step; \<open>None\<close> when the handler does not return.  \<open>OpenEndedEstablished\<close> resets a timer, the
  UI tick only reads.
\<close>

definition coord_handle :: "task_cfg \<Rightarrow> coord_event \<Rightarrow> coord \<Rightarrow> (coord \<times> exit) option" where
  "coord_handle cfg ev c =
     (case ev of
        EvCancelled \<Rightarrow> Some (close_slots c, Stop (Some Cancelled))
      | EvDone ob w i dl \<Rightarrow> Some (on_done ob w i dl c)
      | EvFailed ob w i e \<Rightarrow> on_failed cfg ob w i e c
      | EvRangeVerdict db_ok merge_ok supported \<Rightarrow>
          map_option (\<lambda>c'. (c', Continue)) (on_range_verdict db_ok merge_ok supported c)
      | EvOpenEndedEstablished \<Rightarrow> Some (c, Continue)
      | EvChannelClosed \<Rightarrow> Some (c, Stop None)
      | EvProactive ok \<Rightarrow> Some (proactive_tick ok c, Continue)
      | EvRamp t \<Rightarrow> Some (on_ramp_tick cfg t c)
      | EvUi \<Rightarrow> Some (c, Continue)
      | EvFlush ok pending \<Rightarrow> Some (flush_durable cfg ok pending c, Continue)
      | WProgress i b \<Rightarrow> Some (c\<lparr>shared := update_seg_state (shared c) i b\<rparr>, Continue)
      | WRow i dl start epoch \<Rightarrow>
          Some (c\<lparr>tdb := update_segment_progress_bounded i dl start epoch (tdb c)\<rparr>, Continue)
      | WSensitive \<Rightarrow> Some (c\<lparr>sensitive := True\<rparr>, Continue)
      | WVerdict v \<Rightarrow> Some (c\<lparr>verdict := v\<rparr>, Continue))"

text \<open>
  The states a run passes through.  \<open>good\<close> restricts the events: workers report a non-negative
  byte count, and the count a worker reports as done is one.
\<close>

definition good_event :: "coord_event \<Rightarrow> bool" where
  "good_event ev = (case ev of EvDone ob w i dl \<Rightarrow> 0 \<le> dl | WProgress i b \<Rightarrow> 0 \<le> b | _ \<Rightarrow> True)"

inductive coord_reach :: "task_cfg \<Rightarrow> coord \<Rightarrow> coord \<Rightarrow> bool" for cfg c0 where
  init: "coord_reach cfg c0 c0"
| step: "coord_reach cfg c0 c \<Longrightarrow> good_event ev \<Longrightarrow> coord_handle cfg ev c = Some (c', Continue)
    \<Longrightarrow> coord_reach cfg c0 c'"

text \<open>A run that left the loop, with the loop's error if it has one.\<close>

inductive coord_exit :: "task_cfg \<Rightarrow> coord \<Rightarrow> coord \<Rightarrow> download_error option \<Rightarrow> bool" for cfg c0 where
  "coord_reach cfg c0 c \<Longrightarrow> good_event ev \<Longrightarrow> coord_handle cfg ev c = Some (c', Stop e)
    \<Longrightarrow> coord_exit cfg c0 c' e"

end
