(* ===== verification/Coordinator_Inv.thy ===== *)
theory Coordinator_Inv
  imports Coordinator
begin

text \<open>
  The invariants of the event loop.  \<open>coord_ok\<close>: the live map is well formed, its segments cover
  \<open>[0, effective)\<close> exactly, completed segments have not counted more than their size, and the
  shared progress is non-negative.  \<open>durable\<close>: the database rows hold the same ranges.
\<close>

section \<open>Sound layouts\<close>

definition done_ok :: "segments \<Rightarrow> bool" where
  "done_ok m \<longleftrightarrow> (\<forall>k s. bt_get m k = Some s \<longrightarrow> lstate s = Completed \<longrightarrow> downloaded_bytes s \<le> seg_size s)"

definition sound :: "segments \<Rightarrow> int \<Rightarrow> int \<Rightarrow> bool" where
  "sound m n t \<longleftrightarrow> layout_ok m n \<and> exact_cover m t \<and> done_ok m"

definition shared_ok :: "progress_info list \<Rightarrow> bool" where
  "shared_ok ps \<longleftrightarrow> (\<forall>p \<in> set ps. 0 \<le> pi_downloaded p)"

definition coord_ok :: "coord \<Rightarrow> bool" where
  "coord_ok c \<longleftrightarrow> sound (segs c) (next_ix c) (effective c) \<and> shared_ok (shared c) \<and> 0 < effective c"

lemma soundD: "sound m n t \<Longrightarrow> layout_ok m n" "sound m n t \<Longrightarrow> exact_cover m t" "sound m n t \<Longrightarrow> done_ok m"
  by (simp_all add: sound_def)

lemma sound_wf: "sound m n t \<Longrightarrow> bt_wf m"
  by (auto simp: sound_def dest: layout_ok_wf)

lemma sound_iff:
  "sound m n t \<longleftrightarrow> bt_wf m \<and> exact_cover m t \<and>
     (\<forall>k s. bt_get m k = Some s \<longrightarrow> index s = k \<and> k < n \<and> seg_ok s
        \<and> (lstate s = Completed \<longrightarrow> downloaded_bytes s \<le> seg_size s))"
  by (auto simp: sound_def layout_ok_iff done_ok_def)

lemma exact_cover_cong: "(\<And>b. cover_count m' b = cover_count m b) \<Longrightarrow> exact_cover m' t = exact_cover m t"
  by (simp add: exact_cover_def)

text \<open>An update of one segment that keeps its range.\<close>

lemma cover_adjust_id:
  assumes "bt_wf m" "\<And>s. bt_get m k = Some s \<Longrightarrow> start_byte (f s) = start_byte s \<and> end_byte (f s) = end_byte s"
  shows "cover_count (bt_adjust k f m) b = cover_count m b"
proof (cases "bt_get m k")
  case None
  then have "bt_adjust k f m = m"
    using assms(1) by (force simp: bt_adjust_def bt_get_map_of map_of_eq_None_iff intro!: map_idI)
  then show ?thesis by simp
next
  case (Some s)
  then show ?thesis
    using assms(2)[of s] by (simp add: cover_adjust[OF assms(1)] cov_def covers_def)
qed

lemma sound_adjust:
  assumes "sound m n t"
    and "\<And>s. bt_get m k = Some s \<Longrightarrow> seg_ok s \<Longrightarrow>
      index (f s) = index s \<and> start_byte (f s) = start_byte s \<and> end_byte (f s) = end_byte s
      \<and> 0 \<le> downloaded_bytes (f s)
      \<and> (lstate (f s) = Completed \<longrightarrow> downloaded_bytes (f s) \<le> seg_size (f s))"
  shows "sound (bt_adjust k f m) n t"
proof -
  have wf: "bt_wf m" by (rule sound_wf[OF assms(1)])
  have ok: "seg_ok s" if "bt_get m k = Some s" for s
    using assms(1) that by (auto simp: sound_iff)
  have "cover_count (bt_adjust k f m) b = cover_count m b" for b
    using assms(2) ok by (intro cover_adjust_id[OF wf]) blast
  moreover have "index (f s) = k \<and> k < n \<and> seg_ok (f s)
      \<and> (lstate (f s) = Completed \<longrightarrow> downloaded_bytes (f s) \<le> seg_size (f s))"
    if "bt_get m k = Some s" for s
    using assms(1) assms(2)[OF that ok[OF that]] that ok[OF that]
    by (auto simp: sound_iff seg_ok_def)
  ultimately show ?thesis
    using assms(1) wf by (auto simp: sound_iff bt.get_adj bt_wf_adjust exact_cover_def)
qed

lemma sound_set_state: "sound m n t \<Longrightarrow> st \<noteq> Completed \<Longrightarrow> sound (bt_adjust k (set_state st) m) n t"
  by (rule sound_adjust) (auto simp: seg_ok_def)

lemma sound_insert:
  assumes "layout_ok m n" "done_ok m" "seg_ok s" "index s = n" "lstate s \<noteq> Completed"
    and "\<And>b. cov b s + cover_count m b = (if 0 \<le> b \<and> b < t then 1 else 0)"
  shows "sound (bt_insert n s m) (n + 1) t"
proof -
  have wf: "bt_wf m" by (rule layout_ok_wf[OF assms(1)])
  have "exact_cover (bt_insert n s m) t"
    using assms(6) by (simp add: exact_cover_def cover_insert[OF wf layout_fresh[OF assms(1)]])
  moreover have "layout_ok (bt_insert n s m) (n + 1)"
    using assms by (intro layout_insert) auto
  ultimately show ?thesis
    using assms wf by (auto simp: sound_def done_ok_def bt.get_put)
qed

section \<open>Operations on the layout\<close>

lemma shared_lookup:
  assumes "shared_ok ps" "map_of (rev (map (\<lambda>p. (pi_index p, pi_downloaded p)) ps)) k = Some d"
  shows "0 \<le> d"
proof -
  have "(k, d) \<in> set (rev (map (\<lambda>p. (pi_index p, pi_downloaded p)) ps))"
    using assms(2) by (rule map_of_SomeD)
  then show ?thesis using assms(1) by (auto simp: shared_ok_def)
qed

lemma sound_sync:
  assumes "sound m n t" "shared_ok ps"
  shows "sound (sync_downloaded_from_shared m ps) n t"
  using assms unfolding sync_downloaded_from_shared_def
proof (induction ps arbitrary: m)
  case (Cons p ps)
  have "sound (bt_adjust (pi_index p)
      (\<lambda>s. if lstate s = Active then s\<lparr>downloaded_bytes := pi_downloaded p\<rparr> else s) m) n t"
    using Cons.prems by (intro sound_adjust) (auto simp: shared_ok_def seg_ok_def sound_iff)
  then show ?case using Cons by (simp add: shared_ok_def)
qed simp

lemma shared_ok_rebuild:
  assumes "layout_ok m n" "shared_ok ps"
  shows "shared_ok (rebuild_seg_states m ps)"
proof -
  have "0 \<le> downloaded_bytes s" if "s \<in> set (bt_values m)" for s
    using that layout_values[OF assms(1)] layout_okD(3)[OF assms(1)] by (auto simp: seg_ok_def)
  then show ?thesis
    using shared_lookup[OF assms(2)]
    by (auto simp: shared_ok_def rebuild_seg_states_def build_seg_state_vec_def Let_def
        split: option.splits)
qed

lemma shared_ok_update: "shared_ok ps \<Longrightarrow> 0 \<le> b \<Longrightarrow> shared_ok (update_seg_state ps i b)"
  by (induction ps) (auto simp: shared_ok_def)

lemma sound_split:
  assumes "sound m n t" "split_at_midpoint st m n k = (w, m', n')" "st \<noteq> Completed"
  shows "sound m' n' t"
proof -
  have "layout_ok m' n' \<and> exact_cover m' t"
    using split_preserves[OF soundD(1)[OF assms(1)] assms(2)] soundD(2)[OF assms(1)]
    by (simp add: exact_cover_def)
  moreover have "done_ok m'"
    using soundD(1)[OF assms(1)] assms(2)
  proof (cases rule: split_at_midpointE)
    case (split b)
    then show ?thesis
      using soundD(3)[OF assms(1)] sound_wf[OF assms(1)] assms(3)
      by (auto simp: done_ok_def bt.get_put bt.get_adj bt_wf_adjust split_child_def[of st b n])
  qed (use soundD(3)[OF assms(1)] in simp)
  ultimately show ?thesis by (simp add: sound_def)
qed

lemma sound_find_next_work:
  assumes "sound m n t" "find_next_work m n k = (w, m', n')"
  shows "sound m' n' t"
  using assms(2)
proof (cases rule: find_next_workE)
  case (pending s)
  then show ?thesis using sound_set_state[OF assms(1)] by simp
next
  case (split k)
  then show ?thesis using sound_split[OF assms(1)] by simp
qed (use assms(1) in simp)

lemma sound_find_pending:
  "sound m n t \<Longrightarrow> find_next_pending_only m = (w, m') \<Longrightarrow> sound m' n t"
  by (auto simp: find_next_pending_only_def sound_set_state split: option.splits)

lemma sound_proactive:
  assumes "sound m n t" "try_proactive_split m n k = (w, m', n')"
  shows "sound m' n' t"
  using assms sound_split[OF assms(1), of Pending k w m' n'] by (auto simp: try_proactive_split_def split: if_splits)

lemma foldl_remove_get:
  assumes "bt_wf m"
  shows "bt_wf (foldl (\<lambda>m i. bt_remove i m) m is)
    \<and> bt_get (foldl (\<lambda>m i. bt_remove i m) m is) = (\<lambda>k. if k \<in> set is then None else bt_get m k)"
  using assms by (induction "is" arbitrary: m) (auto simp: bt.wf_del bt.get_del fun_eq_iff)

text \<open>The shape of an absorption that changes anything.\<close>

lemma absorbE:
  assumes "absorb_pending_into_open_stream ok m ps op h = Some (k, m', ps', h')"
  obtains (none) "m' = m" "ps' = ps" "h' = h" "\<And>db. absorb_rows ok m op db = db"
  | (absorbed) i p e "is" where "op = Some i" "bt_get m i = Some p" "lstate p = Active" "ok"
      "absorb_scan m (end_byte p) [] = Some (e, is)" "is \<noteq> []"
      "m' = bt_adjust i (\<lambda>s. s\<lparr>end_byte := e\<rparr>) (foldl (\<lambda>m i. bt_remove i m) m is)"
      "ps' = rebuild_seg_states m' ps" "h'" "\<And>db. absorb_rows ok m op db = persist_merge i e is db"
proof (cases "op = None \<or> bt_get m (the op) = None \<or> lstate (the (bt_get m (the op))) \<noteq> Active")
  case True
  then show ?thesis
    using assms none by (auto simp: absorb_pending_into_open_stream_def absorb_rows_def split: option.splits if_splits)
next
  case False
  then obtain i p where o: "op = Some i" "bt_get m i = Some p" "lstate p = Active" by auto
  then obtain e "is" where sc: "absorb_scan m (end_byte p) [] = Some (e, is)"
    using assms by (auto simp: absorb_pending_into_open_stream_def split: option.splits)
  show ?thesis
  proof (cases "is = [] \<or> \<not> ok")
    case True
    then show ?thesis
      using assms o sc none by (auto simp: absorb_pending_into_open_stream_def absorb_rows_def split: if_splits)
  next
    case False
    then show ?thesis
      using assms o sc by (intro absorbed[of i p e "is"])
        (auto simp: absorb_pending_into_open_stream_def absorb_rows_def Let_def)
  qed
qed

lemma sound_absorb:
  assumes "sound m n t" "absorb_pending_into_open_stream ok m ps op h = Some (k, m', ps', h')"
  shows "sound m' n t"
proof -
  have "layout_ok m' n \<and> exact_cover m' t"
    using absorb_spec[OF soundD(1)[OF assms(1)] assms(2)] soundD(2)[OF assms(1)]
    by (simp add: exact_cover_def)
  moreover have "done_ok m'"
    using assms(2)
  proof (cases rule: absorbE)
    case none
    then show ?thesis using soundD(3)[OF assms(1)] by simp
  next
    case (absorbed i p e "is")
    then show ?thesis
      using soundD(3)[OF assms(1)] foldl_remove_get[OF sound_wf[OF assms(1)], of "is"]
      by (auto simp: done_ok_def bt.get_adj)
  qed
  ultimately show ?thesis by (simp add: sound_def)
qed

section \<open>The invariant of the loop\<close>

lemma coord_okD:
  "coord_ok c \<Longrightarrow> sound (segs c) (next_ix c) (effective c)" "coord_ok c \<Longrightarrow> shared_ok (shared c)"
  "coord_ok c \<Longrightarrow> layout_ok (segs c) (next_ix c)"
  by (simp_all add: coord_ok_def sound_def)

lemma coord_ok_frame [simp]:
  "coord_ok (c\<lparr>slots := a\<rparr>) = coord_ok c" "coord_ok (c\<lparr>serial := b\<rparr>) = coord_ok c"
  "coord_ok (c\<lparr>rmp := r\<rparr>) = coord_ok c" "coord_ok (c\<lparr>open_stream := d\<rparr>) = coord_ok c"
  "coord_ok (c\<lparr>hostile := b\<rparr>) = coord_ok c" "coord_ok (c\<lparr>sensitive := b\<rparr>) = coord_ok c"
  "coord_ok (c\<lparr>verdict := v\<rparr>) = coord_ok c" "coord_ok (c\<lparr>min_split := i\<rparr>) = coord_ok c"
  "coord_ok (c\<lparr>expansions := n\<rparr>) = coord_ok c" "coord_ok (c\<lparr>stopped := b\<rparr>) = coord_ok c"
  "coord_ok (c\<lparr>learned := l\<rparr>) = coord_ok c" "coord_ok (c\<lparr>tdb := t\<rparr>) = coord_ok c"
  by (simp_all add: coord_ok_def)

lemma coord_ok_small [simp]:
  "coord_ok (retire w c) = coord_ok c" "coord_ok (close_slots c) = coord_ok c"
  "coord_ok (clear_open i c) = coord_ok c" "coord_ok (resample t c) = coord_ok c"
  "coord_ok (persist_change ok i par c) = coord_ok c"
  by (simp_all add: retire_def close_slots_def clear_open_def resample_def persist_change_def
      split: option.split)

lemma coord_ok_segs:
  "coord_ok c \<Longrightarrow> sound m n (effective c) \<Longrightarrow> coord_ok (c\<lparr>segs := m, next_ix := n\<rparr>)"
  by (simp add: coord_ok_def)

lemma coord_ok_reclaim [simp, intro]: "coord_ok c \<Longrightarrow> coord_ok (reclaim i c)"
  by (simp add: coord_ok_def reclaim_def sound_set_state)

lemma coord_ok_sync [simp, intro]: "coord_ok c \<Longrightarrow> coord_ok (sync_shared c)"
  by (simp add: coord_ok_def sync_shared_def sound_sync)

lemma coord_ok_rebuild [simp, intro]: "coord_ok c \<Longrightarrow> coord_ok (rebuild_shared c)"
  by (auto simp: coord_ok_def rebuild_shared_def sound_def intro: shared_ok_rebuild)

lemma coord_ok_hand_out [simp, intro]: "coord_ok c \<Longrightarrow> coord_ok (hand_out ok w c)"
  by (auto simp: hand_out_def)

lemma coord_ok_take_work: "coord_ok c \<Longrightarrow> coord_ok (snd (take_work c))"
  using sound_find_next_work[of "segs c" "next_ix c" "effective c" "min_split c"]
  by (cases "find_next_work (segs c) (next_ix c) (min_split c)") (auto simp: coord_ok_def take_work_def)

lemma coord_ok_take_pending: "coord_ok c \<Longrightarrow> coord_ok (snd (take_pending c))"
  using sound_find_pending[of "segs c" "next_ix c" "effective c"]
  by (cases "find_next_pending_only (segs c)") (auto simp: coord_ok_def take_pending_def)

lemma coord_ok_takeD:
  "take_work c = (w, c1) \<Longrightarrow> coord_ok c \<Longrightarrow> coord_ok c1"
  "take_pending c = (w, c1) \<Longrightarrow> coord_ok c \<Longrightarrow> coord_ok c1"
  using coord_ok_take_work[of c] coord_ok_take_pending[of c] by simp_all

subsection \<open>Done\<close>

text \<open>A segment that ended short keeps the downloaded part; the rest becomes a new segment.\<close>

lemma sound_shortfall:
  assumes "sound m n t" "bt_get m i = Some seg" "0 < dl" "dl < seg_size seg"
  shows "sound (bt_insert n \<lparr> index = n, start_byte = start_byte seg + dl, end_byte = end_byte seg,
            downloaded_bytes = 0, lstate = Pending \<rparr>
          (bt_adjust i (\<lambda>s. s\<lparr>end_byte := start_byte seg + dl - 1, downloaded_bytes := dl,
             lstate := Completed\<rparr>) m)) (n + 1) t"
    (is "sound (bt_insert n ?c (bt_adjust i ?f m)) _ _")
proof (rule sound_insert)
  have wf: "bt_wf m" and seg: "index seg = i" "seg_ok seg"
    using assms(1,2) by (auto simp: sound_iff)
  have size: "seg_size seg = end_byte seg - start_byte seg + 1" using seg(2) by (simp add: seg_ok_def seg_size_def)
  show "layout_ok (bt_adjust i ?f m) n"
    using assms seg by (intro layout_adjust[OF soundD(1)[OF assms(1)]]) (auto simp: seg_ok_def)
  show "done_ok (bt_adjust i ?f m)"
    using assms by (auto simp: done_ok_def bt.get_adj[OF wf] sound_iff seg_size_def)
  show "seg_ok ?c" using assms(3,4) size by (simp add: seg_ok_def)
  show "cov b ?c + cover_count (bt_adjust i ?f m) b = (if 0 \<le> b \<and> b < t then 1 else 0)" for b
  proof -
    have "cov b ?c + cov b (?f seg) = cov b seg"
      using assms(3,4) size by (auto simp: cov_def covers_def)
    then show ?thesis
      using soundD(2)[OF assms(1)] by (auto simp: cover_adjust[OF wf assms(2)] exact_cover_def)
  qed
qed simp_all

lemma coord_ok_mark_done:
  assumes "coord_ok c" "0 \<le> dl"
  shows "coord_ok (fst (mark_done i dl c))"
proof (cases "bt_get (segs c) i")
  case (Some seg)
  note snd = coord_okD(1)[OF assms(1)]
  show ?thesis
  proof (cases "0 < dl \<and> dl < seg_size seg")
    case True
    then show ?thesis
      using assms(1) sound_shortfall[OF snd Some] Some
      by (auto simp: mark_done_def Let_def coord_ok_def)
  next
    case False
    have "sound (bt_adjust i (\<lambda>s. s\<lparr>downloaded_bytes := min dl (seg_size s), lstate := Completed\<rparr>) (segs c))
        (next_ix c) (effective c)"
      using assms(2) by (intro sound_adjust[OF snd]) (auto simp: seg_size_def)
    then show ?thesis using False Some assms(1) by (auto simp: mark_done_def coord_ok_def)
  qed
qed (simp add: mark_done_def assms)

lemma coord_ok_next_after_done: "coord_ok c \<Longrightarrow> coord_ok (snd (next_after_done c))"
  by (auto simp: next_after_done_def coord_ok_take_work coord_ok_take_pending)

lemma coord_ok_assign_after_done: "coord_ok c \<Longrightarrow> coord_ok (assign_after_done ok send w c)"
  using coord_ok_next_after_done[of c]
  by (auto simp: assign_after_done_def Let_def split: prod.splits option.splits)

lemma coord_ok_on_done:
  assumes "coord_ok c" "0 \<le> dl"
  shows "coord_ok (fst (on_done ob w i dl c))"
proof -
  have "coord_ok (fst (mark_done i dl (clear_open i c)))" using assms by (simp add: coord_ok_mark_done)
  then have "coord_ok (record_shortfall (o_persist1 ob) i child (fst (mark_done i dl (clear_open i c))))" for child
    by (auto simp: record_shortfall_def split: option.splits)
  then show ?thesis
    by (auto simp: on_done_def Let_def intro!: coord_ok_assign_after_done split: prod.splits)
qed

subsection \<open>Failed\<close>

lemma coord_ok_redispatch_work: "coord_ok c \<Longrightarrow> coord_ok (snd (redispatch_work c))"
  by (auto simp: redispatch_work_def coord_ok_take_work coord_ok_take_pending dest: coord_ok_takeD
      split: prod.splits option.splits)

lemma coord_ok_redispatch: "coord_ok c \<Longrightarrow> coord_ok (redispatch cdn ok send w c)"
  using coord_ok_redispatch_work[of c]
  by (auto simp: redispatch_def Let_def split: prod.splits option.splits)

lemma coord_ok_abort [simp, intro]: "coord_ok c \<Longrightarrow> coord_ok (abort_workers i c)"
  by (auto simp: abort_workers_def)

lemma coord_ok_expand:
  assumes "coord_ok c" "effective c < reported"
  shows "coord_ok (expand_total cfg ok reported c)"
proof -
  let ?s = "\<lparr> index = next_ix c, start_byte = effective c, end_byte = reported - 1,
              downloaded_bytes = 0, lstate = Pending \<rparr>"
  note snd = coord_okD(1)[OF assms(1)]
  have "sound (bt_insert (next_ix c) ?s (segs c)) (next_ix c + 1) reported"
  proof (rule sound_insert)
    show "cov b ?s + cover_count (segs c) b = (if 0 \<le> b \<and> b < reported then 1 else 0)" for b
      using assms soundD(2)[OF snd] by (auto simp: exact_cover_def cov_def covers_def coord_ok_def)
  qed (use assms snd in \<open>auto simp: sound_def seg_ok_def\<close>)
  then have "coord_ok (c\<lparr>expansions := e, next_ix := next_ix c + 1,
      segs := bt_insert (next_ix c) ?s (segs c), effective := reported\<rparr>)" for e
    using assms by (simp add: coord_ok_def)
  then show ?thesis by (auto simp: expand_total_def Let_def)
qed

lemma coord_ok_size_larger: "coord_ok c \<Longrightarrow> coord_ok (fst (on_size_larger cfg ob w i reported c))"
  by (auto simp: on_size_larger_def Let_def intro!: coord_ok_redispatch coord_ok_expand)

lemma absorb_open_total: "coord_ok c \<Longrightarrow> \<exists>c'. absorb_open ok c = Some c'"
  using absorb_total[OF coord_okD(3)] by (auto simp: absorb_open_def)

lemma coord_ok_absorb:
  assumes "coord_ok c" "absorb_open ok c = Some c'"
  shows "coord_ok c'"
proof -
  from assms(2) obtain k m ps h where ab:
    "absorb_pending_into_open_stream ok (segs c) (shared c) (open_stream c) (hostile c) = Some (k, m, ps, h)"
    and c': "c' = c\<lparr>segs := m, shared := ps, hostile := h,
        tdb := absorb_rows ok (segs c) (open_stream c) (tdb c)\<rparr>"
    by (auto simp: absorb_open_def)
  have m: "sound m (next_ix c) (effective c)" by (rule sound_absorb[OF coord_okD(1)[OF assms(1)] ab])
  have "shared_ok ps"
    using ab by (cases rule: absorbE) (use assms(1) shared_ok_rebuild[OF soundD(1)[OF m]] in \<open>auto simp: coord_ok_def\<close>)
  then show ?thesis using assms(1) m by (simp add: c' coord_ok_def)
qed

lemma coord_ok_degrade [simp]: "coord_ok (degrade ob e c) = coord_ok c"
  by (simp add: degrade_def Let_def split: prod.split)

lemma on_rejection_total:
  assumes "coord_ok c"
  obtains r where "on_rejection ob w i e c = Some r" "coord_ok (fst r)"
proof -
  have ok: "coord_ok (reclaim i (degrade ob e c))" using assms by auto
  obtain c1 where c1: "absorb_open (o_merge ob) (reclaim i (degrade ob e c)) = Some c1"
    using absorb_open_total[OF ok] by blast
  have "coord_ok (retire w c1)" using coord_ok_absorb[OF ok c1] by simp
  then show ?thesis
    using that by (cases "on_rejection ob w i e c") (auto simp: on_rejection_def c1 Let_def split: if_splits)
qed

lemma on_failed_total:
  assumes "coord_ok c"
  obtains r where "on_failed cfg ob w i e c = Some r" "coord_ok (fst r)"
proof -
  have ok: "coord_ok (clear_open i c)" using assms by simp
  obtain c2 ex where r: "on_rejection ob w i e (clear_open i c) = Some (c2, ex)" "coord_ok c2"
    using on_rejection_total[OF ok] by (metis prod.collapse)
  have a: "coord_ok (abort_workers i (clear_open i c))" using ok by (rule coord_ok_abort)
  have "\<exists>r. on_failed cfg ob w i e c = Some r \<and> coord_ok (fst r)"
  proof (cases e)
    case (TrueSizeLarger n)
    then show ?thesis using coord_ok_size_larger[OF ok] by (simp add: on_failed_def)
  next
    case CdnNodeFailed
    then show ?thesis using ok by (simp add: on_failed_def coord_ok_redispatch)
  qed (use r a in \<open>simp_all add: on_failed_def Let_def\<close>)
  then show ?thesis using that by blast
qed

subsection \<open>Timers\<close>

lemma coord_ok_try_split: "coord_ok c \<Longrightarrow> coord_ok (snd (try_split k c))"
  using sound_proactive[of "segs c" "next_ix c" "effective c" k]
  by (cases "try_proactive_split (segs c) (next_ix c) k") (auto simp: coord_ok_def try_split_def)

lemma coord_ok_proactive: "coord_ok c \<Longrightarrow> coord_ok (proactive_tick ok c)"
  using coord_ok_try_split[OF coord_ok_sync, of c "min_split (sync_shared c)"]
    coord_ok_try_split[of "snd (try_split (min_split (sync_shared c)) (sync_shared c))" tail_min_split_bytes]
  by (auto simp: proactive_tick_def Let_def split: prod.splits option.splits)

lemma coord_ok_refill: "coord_ok c \<Longrightarrow> coord_ok (refill ok send k c)"
proof (induction k arbitrary: c)
  case (Suc k)
  obtain w c1 where tw: "take_work (sync_shared c) = (w, c1)" by (cases "take_work (sync_shared c)")
  have c1: "coord_ok c1" using coord_ok_takeD(1)[OF tw] Suc.prems by simp
  then show ?case
    using tw Suc.IH[of "hand_out (ok (length (slots c1))) (the w) c1\<lparr>slots := slots (hand_out (ok (length (slots c1))) (the w) c1) @ [True]\<rparr>"]
    by (cases w) (auto simp: Let_def)
qed simp

lemma coord_ok_ramp_tick: "coord_ok c \<Longrightarrow> coord_ok (fst (on_ramp_tick cfg t c))"
  by (auto simp: on_ramp_tick_def Let_def short_tick_def full_tick_def refill_slots_def
      reconcile_slots_def split: prod.splits intro!: coord_ok_refill)

lemma coord_ok_flush [simp]: "coord_ok (flush_durable cfg ok p c) = coord_ok c"
  by (simp add: flush_durable_def)

subsection \<open>The loop\<close>

lemma coord_handle_ok:
  assumes "coord_ok c" "good_event ev"
  obtains r where "coord_handle cfg ev c = Some r" "coord_ok (fst r)"
proof (cases ev)
  case (EvDone ob w i dl)
  then show ?thesis
    using assms that coord_ok_on_done[of c dl ob w i] by (simp add: coord_handle_def good_event_def)
next
  case (EvFailed ob w i e)
  obtain r where "on_failed cfg ob w i e c = Some r" "coord_ok (fst r)"
    by (rule on_failed_total[OF assms(1)])
  then show ?thesis using EvFailed that by (simp add: coord_handle_def)
next
  case (EvRangeVerdict d m supported)
  define c1 where "c1 = c\<lparr>rmp := (rmp c)\<lparr>freeze := FHard\<rparr>, sensitive := True, hostile := True\<rparr>"
  have c1: "coord_ok c1" using assms(1) by (simp add: c1_def)
  obtain c2 where "absorb_open m c1 = Some c2" using absorb_open_total[OF c1] by blast
  then show ?thesis
    using EvRangeVerdict assms(1) that coord_ok_absorb[OF c1, of m c2]
    by (cases supported) (auto simp: coord_handle_def on_range_verdict_def simp flip: c1_def)
next
  case (EvProactive ok)
  then show ?thesis using assms that coord_ok_proactive by (simp add: coord_handle_def)
next
  case (EvRamp t)
  then show ?thesis using assms that coord_ok_ramp_tick by (simp add: coord_handle_def)
next
  case (WProgress i b)
  then show ?thesis
    using assms that shared_ok_update by (simp add: coord_handle_def good_event_def coord_ok_def)
qed (use assms that in \<open>simp_all add: coord_handle_def\<close>)

lemma coord_reach_ok:
  assumes "coord_reach cfg c0 c" "coord_ok c0"
  shows "coord_ok c"
  using assms
proof (induction rule: coord_reach.induct)
  case (step c ev c')
  then show ?case using coord_handle_ok[of c ev cfg] by fastforce
qed simp

end
