(* ===== verification/Coordinator_Durable.thy ===== *)
theory Coordinator_Durable
  imports Coordinator_Inv
begin

text \<open>
  The rows follow the map: after every handler whose database calls succeed, table
  \<^verbatim>\<open>task_segments\<close> holds exactly the byte ranges of the live layout.  A process killed between two
  handlers restores an exact cover.
\<close>

definition durable :: "coord \<Rightarrow> bool" where
  "durable c \<longleftrightarrow> mirrors (segs c) (tdb c)"

section \<open>Layout operations with their transaction\<close>

lemma mirrors_find_split:
  assumes "layout_ok m n" "mirrors m db" "split_at_midpoint st m n k = (Some w, m', n')"
  shows "mirrors m' (persist_segment_change True m' (wa_index (assignment w)) (split_parent w) db)"
  using assms(1,3)
proof (cases rule: split_at_midpointE)
  case (split b)
  let ?c = "split_child st b n"
  have wf: "bt_wf m" by (rule layout_ok_wf[OF assms(1)])
  have wf': "bt_wf (bt_adjust (index b) f m)" for f by (rule bt_wf_adjust[OF wf])
  have c: "bt_get m' n = Some ?c" "index ?c = n"
    using split by (simp_all add: bt.get_put[OF wf'] split_child_def[of st b n])
  have ne: "index b \<noteq> n" using split(1,8) by auto
  have b: "bt_get m' (index b) = Some (split_rest b)"
    using split(1,11) ne
    by (simp add: bt.get_put[OF wf'] bt.get_adj[OF wf] split_rest_def split_child_def)
  have "row_range (rows db) j = seg_range m' j" if "j \<noteq> n" "j \<noteq> index b" for j
    using that assms(2) split(11)
    by (simp add: mirrors_def seg_range_def bt.get_put[OF wf'] bt.get_adj[OF wf])
  moreover have "map_option fst (row_range (rows db) (index b)) = Some (start_byte (split_rest b))"
    using assms(2) split(1) by (simp add: mirrors_def seg_range_def split_rest_def)
  ultimately have "mirrors m' (persist_segment_change True m' n (Some (index b)) db)"
    using c b ne mirrorsD[OF assms(2)] by (intro mirrors_split[of m' n ?c "index b" "split_rest b"])
      (simp_all add: split_rest_def)
  then show ?thesis using split(12) by simp
qed simp

lemma mirrors_upsert_same:
  assumes "layout_ok m n" "mirrors m db" "bt_get m i \<noteq> None"
  shows "mirrors m (persist_segment_change True m i None db)"
proof -
  obtain s where s: "bt_get m i = Some s" using assms(3) by blast
  show ?thesis
    using assms(2) layout_okD(1)[OF assms(1) s] s by (intro mirrors_upsert) (auto simp: mirrors_def)
qed

lemma mirrors_pending:
  assumes "layout_ok m n" "mirrors m db" "find (\<lambda>s. lstate s = Pending) (bt_values m) = Some s"
  defines "m' \<equiv> bt_adjust (index s) (set_state Active) m"
  shows "mirrors m' (persist_segment_change True m' (index s) None db)"
proof (rule mirrors_upsert_same)
  show "layout_ok m' n" unfolding m'_def by (rule layout_set_state[OF assms(1)])
  show "mirrors m' db" unfolding m'_def using assms(2) layout_ok_wf[OF assms(1)] by (simp add: mirrors_set_state)
  show "bt_get m' (index s) \<noteq> None"
    using find_pending_Some(1)[OF assms(1,3)] layout_ok_wf[OF assms(1)] by (simp add: m'_def bt.get_adj)
qed

lemma mirrors_find_next_work:
  assumes "layout_ok m n" "mirrors m db" "find_next_work m n k = (Some w, m', n')"
  shows "mirrors m' (persist_segment_change True m' (wa_index (assignment w)) (split_parent w) db)"
  using assms(3)
proof (cases rule: find_next_workE)
  case (pending s)
  then show ?thesis using mirrors_pending[OF assms(1,2)] by (simp add: pending_assignment_def)
next
  case (split j)
  then show ?thesis using mirrors_find_split[OF assms(1,2)] by blast
qed simp

lemma split_None_same:
  assumes "layout_ok m n" "split_at_midpoint st m n k = (None, m', n')"
  shows "m' = m"
  using assms by (cases rule: split_at_midpointE) simp_all

lemma find_next_work_None_same:
  assumes "layout_ok m n" "find_next_work m n k = (None, m', n')"
  shows "m' = m"
  using assms(2) by (cases rule: find_next_workE) (use split_None_same[OF assms(1)] in auto)

lemma mirrors_insert:
  assumes "layout_ok m n" "mirrors m db" "index s = n"
  shows "mirrors (bt_insert n s m) (persist_segment_change True (bt_insert n s m) n None db)"
  using assms layout_ok_wf[OF assms(1)]
  by (intro mirrors_upsert[of _ _ s]) (auto simp: bt.get_put mirrors_def seg_range_def)

lemma mirrors_merge:
  assumes "layout_ok m n" "mirrors m db" "bt_get m i = Some p" "i \<notin> set is"
  shows "mirrors (bt_adjust i (\<lambda>s. s\<lparr>end_byte := e\<rparr>) (foldl (\<lambda>m i. bt_remove i m) m is))
    (persist_merge i e is db)"
proof -
  let ?r = "bt_adjust i (\<lambda>r. r\<lparr>r_end := e\<rparr>) (rows db)"
  have wf: "bt_wf m" "bt_wf (rows db)" "bt_wf ?r"
    using assms(1,2) by (auto simp: mirrors_def layout_ok_def bt_wf_adjust)
  note fm = foldl_remove_get[OF wf(1), of "is"] and fr = foldl_remove_get[OF wf(3), of "is"]
  have "row_range (foldl (\<lambda>m i. bt_remove i m) ?r is) k
      = seg_range (bt_adjust i (\<lambda>s. s\<lparr>end_byte := e\<rparr>) (foldl (\<lambda>m i. bt_remove i m) m is)) k" for k
  proof -
    have rk: "row_range (rows db) k = seg_range m k" "row_range (rows db) i = seg_range m i"
      using assms(2) by (simp_all add: mirrors_def)
    then show ?thesis
      using fm fr assms(3,4)
      by (auto simp: row_range_def seg_range_def bt.get_adj[OF wf(2)] bt.get_adj[OF conjunct1[OF fm]])
  qed
  then show ?thesis using fr by (simp add: mirrors_def persist_merge_def fun_eq_iff)
qed

lemma absorb_not_self:
  assumes "layout_ok m n" "bt_get m i = Some p" "lstate p = Active"
    "absorb_scan m (end_byte p) [] = Some (e, is)"
  shows "i \<notin> set is"
proof -
  obtain is' e' where run: "absorb_run m (end_byte p) is' e'" using absorb_run_total[OF assms(1)] by blast
  then have "is' = is" using absorb_scan_run[OF run, of "[]"] assms(4) by simp
  then show ?thesis using absorb_run_segs[OF assms(1) run] assms(2,3) by fastforce
qed

lemma mirrors_sync:
  assumes "bt_wf m"
  shows "mirrors (sync_downloaded_from_shared m ps) db = mirrors m db"
proof -
  have "seg_range (sync_downloaded_from_shared m ps) = seg_range m"
    using sync_get[OF assms, of ps]
    by (auto simp: seg_range_def fun_eq_iff split: option.splits)
  then show ?thesis by (simp add: mirrors_def)
qed

section \<open>Writes of progress only\<close>

lemma mirrors_adjust_rows:
  assumes "mirrors m db" "\<And>r. r_start (f r) = r_start r \<and> r_end (f r) = r_end r"
  shows "mirrors m (db\<lparr>rows := bt_adjust i f (rows db)\<rparr>)"
  using assms(1) row_range_adjust[OF mirrorsD[OF assms(1)], of f i] assms(2)
  by (simp add: mirrors_def bt_wf_adjust)

lemma mirrors_bounded: "mirrors m db \<Longrightarrow> mirrors m (update_segment_progress_bounded i dl st ep db)"
  by (auto simp: update_segment_progress_bounded_def intro!: mirrors_adjust_rows)

lemma mirrors_batch_row: "mirrors m db \<Longrightarrow> mirrors m (batch_row ep p db)"
  by (auto simp: batch_row_def split: prod.splits intro!: mirrors_adjust_rows)

lemma mirrors_batch: "mirrors m db \<Longrightarrow> mirrors m (update_segments_progress_batch ep ps db)"
  unfolding update_segments_progress_batch_def
  by (induction ps arbitrary: db) (simp_all add: mirrors_batch_row)

section \<open>Steps of the loop\<close>

lemma durable_frame [simp]:
  "durable (c\<lparr>slots := a\<rparr>) = durable c" "durable (c\<lparr>serial := b\<rparr>) = durable c"
  "durable (c\<lparr>rmp := r\<rparr>) = durable c" "durable (c\<lparr>open_stream := d\<rparr>) = durable c"
  "durable (c\<lparr>hostile := b\<rparr>) = durable c" "durable (c\<lparr>sensitive := b\<rparr>) = durable c"
  "durable (c\<lparr>verdict := v\<rparr>) = durable c" "durable (c\<lparr>min_split := i\<rparr>) = durable c"
  "durable (c\<lparr>expansions := n\<rparr>) = durable c" "durable (c\<lparr>stopped := b\<rparr>) = durable c"
  "durable (c\<lparr>learned := l\<rparr>) = durable c" "durable (c\<lparr>shared := t\<rparr>) = durable c"
  "durable (c\<lparr>next_ix := k\<rparr>) = durable c" "durable (c\<lparr>effective := k\<rparr>) = durable c"
  by (simp_all add: durable_def)

lemma durable_small [simp]:
  "durable (retire w c) = durable c" "durable (close_slots c) = durable c"
  "durable (clear_open i c) = durable c" "durable (resample t c) = durable c"
  "durable (rebuild_shared c) = durable c" "durable (degrade ob e c) = durable c"
  by (simp_all add: retire_def close_slots_def clear_open_def resample_def rebuild_shared_def
      degrade_def Let_def split: option.split prod.split)

definition live :: "coord \<Rightarrow> bool" where
  "live c \<longleftrightarrow> coord_ok c \<and> durable c"

lemma live_reclaim [simp, intro]: "live c \<Longrightarrow> live (reclaim i c)"
  by (auto simp: live_def durable_def reclaim_def mirrors_set_state coord_ok_def sound_wf sound_set_state)

lemma live_sync [simp, intro]: "live c \<Longrightarrow> live (sync_shared c)"
  unfolding live_def using mirrors_sync[OF layout_ok_wf[OF coord_okD(3)], of c "shared c" "tdb c"]
  by (auto simp: durable_def sync_shared_def sound_sync coord_ok_def)

lemma live_frame [simp]:
  "live (retire w c) = live c" "live (close_slots c) = live c" "live (clear_open i c) = live c"
  "live (resample t c) = live c" "live (c\<lparr>slots := a\<rparr>) = live c" "live (c\<lparr>rmp := r\<rparr>) = live c"
  "live (degrade ob e c) = live c" "live (c\<lparr>learned := l\<rparr>) = live c" "live (c\<lparr>stopped := b\<rparr>) = live c"
  "live (c\<lparr>open_stream := d\<rparr>) = live c" "live (c\<lparr>sensitive := b\<rparr>) = live c"
  "live (c\<lparr>hostile := b\<rparr>) = live c" "live (c\<lparr>verdict := v\<rparr>) = live c"
  by (simp_all add: live_def)

lemma live_take_work:
  assumes "live c" "take_work c = (w, c1)"
  shows "case w of None \<Rightarrow> live c1 | Some nw \<Rightarrow> live (hand_out True nw c1)"
proof -
  obtain m n where f: "find_next_work (segs c) (next_ix c) (min_split c) = (w, m, n)"
    using assms(2) by (cases "find_next_work (segs c) (next_ix c) (min_split c)") (simp add: take_work_def)
  then have c1: "c1 = c\<lparr>segs := m, next_ix := n\<rparr>" using assms(2) f by (simp add: take_work_def)
  have ok: "layout_ok (segs c) (next_ix c)" "mirrors (segs c) (tdb c)" "coord_ok c1"
    using assms coord_okD(3) coord_ok_takeD(1) by (auto simp: live_def durable_def)
  show ?thesis
  proof (cases w)
    case None
    then have "m = segs c" using find_next_work_None_same[OF ok(1)] f by simp
    then show ?thesis using ok None by (simp add: live_def durable_def c1)
  next
    case (Some nw)
    then show ?thesis
      using ok mirrors_find_next_work[OF ok(1,2)] f
      by (simp add: live_def) (simp add: durable_def hand_out_def persist_change_def rebuild_shared_def c1)
  qed
qed

lemma live_take_pending:
  assumes "live c" "take_pending c = (w, c1)"
  shows "live c1 \<and> (\<forall>nw. w = Some nw \<longrightarrow> live (hand_out True nw c1))"
proof -
  have ok: "layout_ok (segs c) (next_ix c)" "mirrors (segs c) (tdb c)" "coord_ok c1"
    using assms coord_okD(3) coord_ok_takeD(2) by (auto simp: live_def durable_def)
  show ?thesis
  proof (cases "find (\<lambda>s. lstate s = Pending) (bt_values (segs c))")
    case None
    then show ?thesis
      using assms by (auto simp: take_pending_def find_next_pending_only_def)
  next
    case (Some s)
    then have c1: "c1 = c\<lparr>segs := bt_adjust (index s) (set_state Active) (segs c)\<rparr>"
      "w = Some \<lparr> assignment = pending_assignment s, split_parent = None \<rparr>"
      using assms(2) by (auto simp: take_pending_def find_next_pending_only_def)
    have "durable c1" using ok layout_ok_wf[OF ok(1)] by (simp add: durable_def c1 mirrors_set_state)
    moreover have "durable (hand_out True (the w) c1)"
      using mirrors_pending[OF ok(1,2) Some]
      by (simp add: durable_def hand_out_def persist_change_def rebuild_shared_def c1 pending_assignment_def)
    ultimately show ?thesis using ok(3) by (simp add: live_def c1(2))
  qed
qed

text \<open>A piece of work taken from a live state is durable once handed out.\<close>

lemma live_next_after_done:
  assumes "live c" "next_after_done c = (w, c1)"
  shows "case w of None \<Rightarrow> live c1 | Some nw \<Rightarrow> live (hand_out True nw c1)"
  using assms live_take_work[OF assms(1)] live_take_pending[OF assms(1)]
  by (auto simp: next_after_done_def split: if_splits option.split)

lemma live_assign_after_done:
  assumes "live c" shows "live (assign_after_done True send w c)"
proof -
  obtain nw c1 where n: "next_after_done c = (nw, c1)" by (cases "next_after_done c")
  then show ?thesis
    using live_next_after_done[OF assms n]
    by (auto simp: assign_after_done_def Let_def split: option.splits)
qed

lemma live_mark_done:
  assumes "live c" "0 \<le> dl" "mark_done i dl c = (c1, child)"
  shows "live (record_shortfall True i child c1)"
proof (cases "bt_get (segs c) i")
  case None
  then show ?thesis using assms by (simp add: mark_done_def record_shortfall_def)
next
  case (Some seg)
  have ok: "layout_ok (segs c) (next_ix c)" "mirrors (segs c) (tdb c)" "coord_ok c1"
    using assms coord_okD(3) coord_ok_mark_done[of c dl i] by (auto simp: live_def durable_def)
  have wf: "bt_wf (segs c)" by (rule layout_ok_wf[OF ok(1)])
  note ix = layout_okD(1,2)[OF ok(1) Some]
  show ?thesis
  proof (cases "0 < dl \<and> dl < seg_size seg")
    case False
    then have c1: "c1 = c\<lparr>segs := bt_adjust i (\<lambda>s. s\<lparr>downloaded_bytes := min dl (seg_size s), lstate := Completed\<rparr>) (segs c)\<rparr>"
      "child = None" using assms(3) Some by (auto simp: mark_done_def)
    have "durable c1"
      using ok(2) by (simp add: durable_def c1 mirrors_def seg_range_adjust[OF wf])
    then show ?thesis using ok(3) by (simp add: record_shortfall_def c1(2) live_def)
  next
    case True
    let ?f = "\<lambda>s. s\<lparr>end_byte := start_byte seg + dl - 1, downloaded_bytes := dl, lstate := Completed\<rparr>"
    let ?c = "\<lparr> index = next_ix c, start_byte = start_byte seg + dl, end_byte = end_byte seg,
                downloaded_bytes = 0, lstate = Pending \<rparr>"
    let ?m = "bt_insert (next_ix c) ?c (bt_adjust i ?f (segs c))"
    have c1: "c1 = c\<lparr>next_ix := next_ix c + 1, segs := ?m\<rparr>" "child = Some (next_ix c)"
      using assms(3) Some True by (auto simp: mark_done_def Let_def)
    have wf': "bt_wf (bt_adjust i ?f (segs c))" by (rule bt_wf_adjust[OF wf])
    have "mirrors ?m (persist_segment_change True ?m (next_ix c) (Some i) (tdb c))"
      using ix Some ok(2)
      by (intro mirrors_split[of _ _ ?c _ "?f seg"])
        (auto simp: bt.get_put[OF wf'] bt.get_adj[OF wf] mirrors_def seg_range_def)
    then show ?thesis
      using ok(3) by (simp add: live_def record_shortfall_def c1(2))
        (simp add: durable_def rebuild_shared_def persist_change_def c1(1))
  qed
qed

lemma live_on_done:
  assumes "live c" "0 \<le> dl" "o_persist1 ob" "o_persist2 ob"
  shows "live (fst (on_done ob w i dl c))"
proof -
  obtain c1 child where m: "mark_done i dl (clear_open i c) = (c1, child)"
    by (cases "mark_done i dl (clear_open i c)")
  have "live (record_shortfall True i child c1)" using assms m live_mark_done[of "clear_open i c"] by simp
  then show ?thesis using assms(3,4) m by (simp add: on_done_def Let_def live_assign_after_done)
qed

lemma live_redispatch_work:
  assumes "live c" "redispatch_work c = (w, c1)"
  shows "case w of None \<Rightarrow> live c1 | Some nw \<Rightarrow> live (hand_out True nw c1)"
proof (cases "verdict c = VSupported")
  case True
  then show ?thesis
    using assms live_take_work[OF assms(1)] live_take_pending[OF assms(1)]
    by (auto simp: redispatch_work_def split: if_splits option.split)
next
  case False
  obtain nw c2 where t: "take_pending c = (nw, c2)" by (cases "take_pending c")
  note live_take_pending[OF assms(1) t]
  then show ?thesis
    using assms(2) False t
    by (auto simp: redispatch_work_def hand_out_def persist_change_def split: option.splits if_splits)
qed

lemma live_redispatch: "live c \<Longrightarrow> live (redispatch cdn True send w c)"
  using live_redispatch_work[of c]
  by (cases "redispatch_work c") (auto simp: redispatch_def Let_def split: option.splits)

lemma live_abort [simp, intro]: "live c \<Longrightarrow> live (abort_workers i c)"
  by (auto simp: abort_workers_def)

lemma mirrors_total: "mirrors m (update_task_total_bytes k db) = mirrors m db"
  by (simp add: mirrors_def update_task_total_bytes_def)

lemma live_expand:
  assumes "live c" "effective c < reported"
  shows "live (expand_total cfg True reported c)"
proof -
  let ?s = "\<lparr> index = next_ix c, start_byte = effective c, end_byte = reported - 1,
              downloaded_bytes = 0, lstate = Pending \<rparr>"
  have "coord_ok (expand_total cfg True reported c)"
    using assms by (simp add: live_def coord_ok_expand)
  moreover have "durable (expand_total cfg True reported c)"
    using assms(1) mirrors_insert[OF coord_okD(3), of c "tdb c" ?s]
    by (simp add: live_def durable_def expand_total_def Let_def persist_change_def rebuild_shared_def
        mirrors_total)
  ultimately show ?thesis by (simp add: live_def)
qed

lemma live_absorb:
  assumes "live c" "absorb_open ok c = Some c'"
  shows "live c'"
proof -
  have c: "coord_ok c" "mirrors (segs c) (tdb c)" using assms(1) by (auto simp: live_def durable_def)
  note lay = coord_okD(3)[OF c(1)]
  from assms(2) obtain k m ps h where ab:
    "absorb_pending_into_open_stream ok (segs c) (shared c) (open_stream c) (hostile c) = Some (k, m, ps, h)"
    and c': "c' = c\<lparr>segs := m, shared := ps, hostile := h,
        tdb := absorb_rows ok (segs c) (open_stream c) (tdb c)\<rparr>"
    by (auto simp: absorb_open_def)
  have "mirrors m (absorb_rows ok (segs c) (open_stream c) (tdb c))"
    using ab
  proof (cases rule: absorbE)
    case none
    then show ?thesis using c(2) by simp
  next
    case (absorbed i p e "is")
    then show ?thesis
      using mirrors_merge[OF lay c(2) absorbed(2) absorb_not_self[OF lay absorbed(2,3,5)]] by simp
  qed
  then show ?thesis using coord_ok_absorb[OF c(1) assms(2)] by (simp add: live_def durable_def c')
qed

lemma live_on_rejection:
  assumes "live c" "on_rejection ob w i e c = Some r"
  shows "live (fst r)"
proof -
  obtain c1 where c1: "absorb_open (o_merge ob) (reclaim i (degrade ob e c)) = Some c1"
    using assms(2) by (auto simp: on_rejection_def)
  have "live c1" using live_absorb[OF _ c1] assms(1) by auto
  then show ?thesis using assms(2) c1 by (auto simp: on_rejection_def Let_def)
qed

lemma live_on_failed:
  assumes "live c" "o_persist1 ob" "o_persist2 ob" "on_failed cfg ob w i e c = Some r"
  shows "live (fst r)"
proof -
  have l: "live (clear_open i c)" using assms(1) by simp
  show ?thesis
  proof (cases e)
    case (TrueSizeLarger n)
    then show ?thesis
      using l assms by (auto simp: on_failed_def on_size_larger_def Let_def
          intro!: live_redispatch live_reclaim live_expand)
  next
    case CdnNodeFailed
    then show ?thesis using l assms by (auto simp: on_failed_def intro!: live_redispatch)
  qed (use assms(4) l live_on_rejection[OF l] in \<open>auto simp: on_failed_def Let_def split: if_splits\<close>)
qed

lemma live_try_split:
  assumes "live c" "try_split k c = (w, c1)"
  shows "case w of None \<Rightarrow> c1 = c\<lparr>next_ix := next_ix c1\<rparr> \<and> live c1 | Some nw \<Rightarrow> live (hand_out True nw c1)"
proof -
  have ok: "layout_ok (segs c) (next_ix c)" "mirrors (segs c) (tdb c)"
    using assms coord_okD(3) by (auto simp: live_def durable_def)
  have c1ok: "coord_ok c1" using coord_ok_try_split[of c k] assms by (simp add: live_def)
  show ?thesis
  proof (cases "list_ex (\<lambda>s. lstate s = Pending) (bt_values (segs c))")
    case True
    then show ?thesis using assms by (auto simp: try_split_def try_proactive_split_def)
  next
    case False
    obtain m n where f: "split_at_midpoint Pending (segs c) (next_ix c) k = (w, m, n)"
      and c1: "c1 = c\<lparr>segs := m, next_ix := n\<rparr>"
      using assms(2) False by (auto simp: try_split_def try_proactive_split_def split: prod.splits)
    show ?thesis
    proof (cases w)
      case None
      then have "m = segs c" using split_None_same[OF ok(1)] f by simp
      then show ?thesis using ok c1ok None by (simp add: live_def durable_def c1)
    next
      case (Some nw)
      then show ?thesis
        using mirrors_find_split[OF ok] f c1ok
        by (simp add: live_def) (simp add: durable_def hand_out_def persist_change_def rebuild_shared_def c1)
    qed
  qed
qed

lemma live_proactive: "live c \<Longrightarrow> live (proactive_tick True c)"
proof -
  assume l: "live c"
  let ?c = "sync_shared c"
  obtain w c1 where s: "try_split (min_split ?c) ?c = (w, c1)" by (cases "try_split (min_split ?c) ?c")
  note a = live_try_split[OF live_sync[OF l] s]
  obtain w2 c2 where s2: "try_split tail_min_split_bytes c1 = (w2, c2)" by (cases "try_split tail_min_split_bytes c1")
  show ?thesis
    using l a s s2 live_try_split[OF _ s2]
    by (cases w; cases w2) (auto simp: proactive_tick_def Let_def)
qed

lemma live_refill: "live c \<Longrightarrow> (\<forall>i. ok i) \<Longrightarrow> live (refill ok send k c)"
proof (induction k arbitrary: c)
  case (Suc k)
  obtain w c1 where tw: "take_work (sync_shared c) = (w, c1)" by (cases "take_work (sync_shared c)")
  note live_take_work[OF live_sync[OF Suc.prems(1)] tw]
  then show ?case using tw Suc by (cases w) (auto simp: Let_def)
qed simp

lemma live_ramp_tick:
  assumes "live c" "\<forall>i. t_persist t i" shows "live (fst (on_ramp_tick cfg t c))"
  using assms
  by (auto simp: on_ramp_tick_def Let_def short_tick_def full_tick_def refill_slots_def
      reconcile_slots_def split: prod.splits intro!: live_refill)

lemma live_db: "live c \<Longrightarrow> mirrors (segs c) db \<Longrightarrow> live (c\<lparr>tdb := db\<rparr>)"
  by (simp add: live_def durable_def)

lemma live_flush: "live c \<Longrightarrow> live (flush_durable cfg ok p c)"
  by (auto simp: flush_durable_def live_def durable_def intro: mirrors_batch)

section \<open>Runs without a database failure\<close>

definition db_event :: "coord_event \<Rightarrow> bool" where
  "db_event ev = (case ev of
     EvDone ob _ _ _ \<Rightarrow> o_persist1 ob \<and> o_persist2 ob
   | EvFailed ob _ _ _ \<Rightarrow> o_persist1 ob \<and> o_persist2 ob
   | EvProactive ok \<Rightarrow> ok
   | EvRamp t \<Rightarrow> (\<forall>i. t_persist t i)
   | _ \<Rightarrow> True)"

lemma coord_handle_live:
  assumes "live c" "good_event ev" "db_event ev" "coord_handle cfg ev c = Some r"
  shows "live (fst r)"
proof (cases ev)
  case (EvDone ob w i dl)
  then show ?thesis
    using live_on_done[OF assms(1), of dl ob w i] assms(2-4)
    by (simp add: coord_handle_def good_event_def db_event_def)
next
  case (EvFailed ob w i e)
  then show ?thesis
    using live_on_failed[OF assms(1), of ob cfg w i e r] assms(3,4)
    by (simp add: coord_handle_def db_event_def)
next
  case (EvRangeVerdict d m supported)
  have "mirrors (segs c) (set_task_range_verified True (tdb c))"
    using assms(1) by (simp add: live_def durable_def mirrors_def set_task_range_verified_def)
  then have "live (c\<lparr>tdb := set_task_range_verified True (tdb c)\<rparr>)" by (rule live_db[OF assms(1)])
  then show ?thesis
    using assms EvRangeVerdict live_absorb[of "c\<lparr>rmp := (rmp c)\<lparr>freeze := FHard\<rparr>, sensitive := True, hostile := True\<rparr>" m]
    by (auto simp: coord_handle_def on_range_verdict_def split: if_splits)
next
  case (EvProactive ok)
  then show ?thesis
    using live_proactive[OF assms(1)] assms(3,4) by (auto simp: coord_handle_def db_event_def)
next
  case (EvRamp t)
  then show ?thesis
    using live_ramp_tick[OF assms(1), of t cfg] assms(3,4) by (auto simp: coord_handle_def db_event_def)
next
  case (EvFlush ok p)
  then show ?thesis using live_flush[OF assms(1)] assms(4) by (auto simp: coord_handle_def)
next
  case (WProgress i b)
  then show ?thesis
    using assms shared_ok_update[of "shared c" b i]
    by (auto simp: coord_handle_def good_event_def live_def coord_ok_def)
next
  case (WRow i dl st ep)
  then show ?thesis
    using assms(1,4) mirrors_bounded[of "segs c" "tdb c"] by (auto simp: coord_handle_def live_def durable_def)
qed (use assms in \<open>auto simp: coord_handle_def\<close>)

text \<open>Reachability where every database call succeeds.\<close>

inductive db_reach :: "task_cfg \<Rightarrow> coord \<Rightarrow> coord \<Rightarrow> bool" for cfg c0 where
  init: "db_reach cfg c0 c0"
| step: "db_reach cfg c0 c \<Longrightarrow> good_event ev \<Longrightarrow> db_event ev
    \<Longrightarrow> coord_handle cfg ev c = Some (c', ex) \<Longrightarrow> db_reach cfg c0 c'"

lemma db_reach_live: "db_reach cfg c0 c \<Longrightarrow> live c0 \<Longrightarrow> live c"
proof (induction rule: db_reach.induct)
  case (step c ev c' ex)
  then show ?case using coord_handle_live by fastforce
qed simp

end
