(* ===== verification/Resume.thy ===== *)
theory Resume
  imports Coordinator_Durable
begin

text \<open>
  What \<^verbatim>\<open>run_coordinated_download\<close> does before its event loop: argument checks, restoring or building
  the layout, reconciling the size on record with the probed one, the file-length check, and the
  start of the first workers (\<^verbatim>\<open>native/engine/src/segment_coordinator.rs\<close>).
\<close>

section \<open>Planning the layout\<close>

text \<open>Arguments, and what the calls into the database and the file system answer.\<close>

record plan_in =
  total_in :: int
  count_in :: int
  estimate :: bool              \<comment> \<open>\<^verbatim>\<open>size_is_estimate\<close>\<close>
  strict_total :: bool
  owns_total :: bool
  file_len :: int               \<comment> \<open>0 when the file cannot be read\<close>
  gen_in :: int
  epoch_ok :: bool
  load_ok :: bool
  insert_ok :: bool
  delete_ok :: bool
  total_ok :: bool              \<comment> \<open>the write of \<^verbatim>\<open>tasks.total_bytes\<close>\<close>
  reset_ok :: bool
  alloc_ok :: bool

record layout_plan =
  p_segs :: segments
  p_next :: int
  p_effective :: int

text \<open>
  A computation over the task's rows that can fail with an error, keeping what was already
  written; \<open>None\<close> is a panic.
\<close>

type_synonym 'a planned = "(task_db \<times> (download_error + 'a)) option"

definition clamp_count :: "int \<Rightarrow> int \<Rightarrow> int" where
  "clamp_count n total_bytes = (if total_bytes < n then as_i32 total_bytes else n)"

definition restore_segment :: "int \<Rightarrow> seg_row \<Rightarrow> live_segment" where
  "restore_segment i r =
     \<lparr> index = i, start_byte = r_start r, end_byte = r_end r, downloaded_bytes = r_downloaded r,
       lstate = (if r_end r - r_start r + 1 \<le> r_downloaded r then Completed else Pending) \<rparr>"

definition restore_rows :: "(int \<times> seg_row) list \<Rightarrow> segments \<times> int" where
  "restore_rows existing =
     foldl (\<lambda>(m, n) (i, r). (bt_insert i (restore_segment i r) m, if n \<le> i then i + 1 else n))
       ([], 0) existing"

definition fresh_layout :: "plan_in \<Rightarrow> int \<Rightarrow> int \<Rightarrow> task_db \<Rightarrow> layout_plan planned" where
  "fresh_layout pin n eff db =
     (case build_fresh_segments n (total_in pin) of
        None \<Rightarrow> None
      | Some (fresh, db_segs) \<Rightarrow>
          (case insert_segments db_segs db of
             None \<Rightarrow> Some (db, Inl Db)
           | Some db' \<Rightarrow>
               if insert_ok pin then Some (db', Inr \<lparr> p_segs = fresh, p_next = n, p_effective = eff \<rparr>)
               else Some (db, Inl Db)))"

definition write_total :: "plan_in \<Rightarrow> int \<Rightarrow> task_db \<Rightarrow> task_db" where
  "write_total pin n db = (if owns_total pin \<and> total_ok pin then update_task_total_bytes n db else db)"

text \<open>\<^verbatim>\<open>delete_segments\<close>, a fresh layout, and the size on record set to the probed one.\<close>

definition rebuild_layout :: "plan_in \<Rightarrow> int \<Rightarrow> int \<Rightarrow> task_db \<Rightarrow> layout_plan planned" where
  "rebuild_layout pin n eff db =
     (if \<not> delete_ok pin then Some (db, Inl Db)
      else case fresh_layout pin n eff (delete_segments db) of
          Some (db', Inr p) \<Rightarrow> Some (write_total pin (total_in pin) db', Inr p)
        | r \<Rightarrow> r)"

definition drift_threshold :: "bool \<Rightarrow> int \<Rightarrow> int" where
  "drift_threshold strict db_total = (if strict then 0 else clamp 1 1048576 (db_total sdiv 100))"

definition rows_total :: "segments \<Rightarrow> int \<Rightarrow> int" where
  "rows_total m total_bytes =
     (case max_by_key (\<lambda>x. x) (map (\<lambda>s. end_byte s + 1) (bt_values m)) of
        None \<Rightarrow> total_bytes | Some t \<Rightarrow> t)"

definition load_layout :: "plan_in \<Rightarrow> int \<Rightarrow> task_db \<Rightarrow> layout_plan planned" where
  "load_layout pin n db =
     (let existing = load_segments db; total_bytes = total_in pin in
      if existing = [] then fresh_layout pin (if estimate pin then 1 else n) total_bytes db
      else
        let (m, next) = restore_rows existing;
            db_total = rows_total m total_bytes
        in if db_total = total_bytes
           then Some (db, Inr \<lparr> p_segs = m, p_next = next, p_effective = db_total \<rparr>)
           else if db_total < total_bytes then
             (if total_bytes - db_total \<le> drift_threshold (strict_total pin) db_total
              then Some (write_total pin db_total db,
                         Inr \<lparr> p_segs = m, p_next = next, p_effective = db_total \<rparr>)
              else rebuild_layout pin n total_bytes db)
           else Some (db, Inr \<lparr> p_segs = m, p_next = next, p_effective = total_bytes \<rparr>))"

text \<open>
  The coverage check rebuilds an invalid layout for the probed size; \<^verbatim>\<open>effective_total_bytes\<close> keeps
  the value it had.
\<close>

definition check_layout :: "plan_in \<Rightarrow> int \<Rightarrow> layout_plan \<Rightarrow> task_db \<Rightarrow> layout_plan planned" where
  "check_layout pin n p db =
     (case validate_coverage (p_segs p) (p_effective p) of
        Inr _ \<Rightarrow> Some (db, Inr p)
      | Inl _ \<Rightarrow> rebuild_layout pin n (p_effective p) db)"

definition check_file :: "plan_in \<Rightarrow> layout_plan \<Rightarrow> task_db \<Rightarrow> layout_plan planned" where
  "check_file pin p db =
     (let db_downloaded = (\<Sum>s\<leftarrow>bt_values (p_segs p). downloaded_bytes s) in
      if 0 < db_downloaded
         \<and> (file_len pin = 0 \<or> file_len pin < db_downloaded \<or> file_len pin < p_effective p)
      then (if reset_ok pin
            then Some (reset_segments_progress db,
                       Inr (p\<lparr>p_segs := map (\<lambda>(k, s). (k, s\<lparr>downloaded_bytes := 0, lstate := Pending\<rparr>))
                                (p_segs p)\<rparr>))
            else Some (db, Inl Db))
      else Some (db, Inr p))"

definition and_then :: "'a planned \<Rightarrow> ('a \<Rightarrow> task_db \<Rightarrow> 'b planned) \<Rightarrow> 'b planned" where
  "and_then r f =
     (case r of None \<Rightarrow> None | Some (db, Inl e) \<Rightarrow> Some (db, Inl e) | Some (db, Inr a) \<Rightarrow> f a db)"

definition plan_layout :: "plan_in \<Rightarrow> task_db \<Rightarrow> layout_plan planned" where
  "plan_layout pin db0 =
     (if total_in pin \<le> 0 \<or> count_in pin < 1 then Some (db0, Inl Other)
      else
        let n = clamp_count (count_in pin) (total_in pin);
            db = (if epoch_ok pin then set_segments_epoch (gen_in pin) db0 else db0)
        in if \<not> load_ok pin then Some (db, Inl Db)
           else and_then (load_layout pin n db)
             (\<lambda>p db. and_then (check_layout pin n p db)
               (\<lambda>p db. and_then (check_file pin p db)
                 (\<lambda>p db. if alloc_ok pin then Some (db, Inr p) else Some (db, Inl Io)))))"

section \<open>Starting the workers\<close>

definition domain_worker_cap :: "bool \<Rightarrow> int \<Rightarrow> int option \<Rightarrow> int option \<Rightarrow> nat" where
  "domain_worker_cap allow_uncap n dcap dhint =
     (let cap0 = as_usize (clamp 1 max_segments n);
          cap1 = (case dcap of None \<Rightarrow> cap0
                  | Some d \<Rightarrow> let dc = as_usize (max d 1) in if dc < cap0 then dc else cap0)
      in hint_uncap_ceiling allow_uncap dcap dhint cap1)"

definition initial_assignment :: "bool \<Rightarrow> live_segment \<Rightarrow> worker_assignment" where
  "initial_assignment est s =
     (let a = start_byte s + downloaded_bytes s in
      \<lparr> wa_index = index s, wa_start = start_byte s, wa_actual_start = a, wa_end = end_byte s,
        wa_open_ended = (a = 0), wa_no_range = (est \<and> a = 0) \<rparr>)"

definition initial_workers :: "segments \<Rightarrow> nat \<Rightarrow> nat" where
  "initial_workers m allowed =
     (let pending = length (filter (\<lambda>s. lstate s = Pending) (bt_values m)) in
      if list_ex (\<lambda>s. lstate s = Pending \<and> start_byte s + downloaded_bytes s = 0) (bt_values m)
      then min (min pending allowed) 1 else min pending allowed)"

definition initial_assignments :: "bool \<Rightarrow> segments \<Rightarrow> nat \<Rightarrow> worker_assignment list" where
  "initial_assignments est m k =
     take k (map (initial_assignment est) (filter (\<lambda>s. lstate s = Pending) (bt_values m)))"

definition initial_ramp :: "nat \<Rightarrow> ramp" where
  "initial_ramp allowed =
     \<lparr> freeze = FActive, allowed_workers = allowed, awaiting_ramp_eval = False, probe_window = False,
       soft_probe_task_used = 0, pre_grow_throughput = 0, pre_grow_workers = allowed,
       peak_throughput = 0, shrink_strikes = 0, reject_strikes = 0, proven_scale = 0,
       beneficial_scale = allowed \<rparr>"

definition start_coord :: "plan_in \<Rightarrow> nat \<Rightarrow> layout_plan \<Rightarrow> task_db \<Rightarrow> coord" where
  "start_coord pin allowed p db =
     (let k = initial_workers (p_segs p) allowed;
          as = initial_assignments (estimate pin) (p_segs p) k
      in \<lparr> segs = foldl (\<lambda>m a. bt_adjust (wa_index a) (set_state Active) m) (p_segs p) as,
           next_ix = p_next p,
           shared = build_seg_state_vec (p_segs p),
           tdb = db, effective = p_effective p,
           slots = replicate k True, serial = False, rmp = initial_ramp allowed,
           open_stream = foldl (\<lambda>o_st a. if wa_open_ended a then Some (wa_index a) else o_st) None as,
           hostile = False, sensitive = False,
           verdict = (if estimate pin then VUnknown else VSupported),
           min_split = min_split_bytes, expansions = 0, stopped = False, learned = [] \<rparr>)"

end
