(* ===== verification/Resume_Inv.thy ===== *)
theory Resume_Inv
  imports Resume
begin

text \<open>
  The layout a run starts from: fresh layouts and restored ones cover the file, the rows mirror
  the layout, and a layout whose rows were written by an earlier run comes back with the same
  byte ranges.  The one combination that leaves the planned size and the layout apart is stated as
  \<open>stale_size\<close>.
\<close>

section \<open>Fresh layouts\<close>

lemma fresh_entries:
  assumes "build_fresh_segments n t = Some (m, rs)"
  shows "1 \<le> n" "m = map (\<lambda>i. (i, fresh_segment n t i)) [0..n - 1]"
    "rs = map (\<lambda>i. (i, start_byte (fresh_segment n t i), end_byte (fresh_segment n t i))) [0..n - 1]"
  using assms fresh_map[of "fresh_segment n t" "nat n"]
  by (auto simp: build_fresh_segments_def Let_def split: if_splits)

lemma fresh_layout_ok:
  assumes "build_fresh_segments n t = Some (m, rs)" "n \<le> t"
  shows "layout_ok m n"
proof -
  note f = fresh_entries[OF assms(1)]
  let ?chunk = "t div n"
  have c: "1 \<le> ?chunk" "t sdiv n = ?chunk"
    using f(1) assms(2) zdiv_mono1[of n t n] by (simp_all add: sdiv_nonneg)
  have top: "(n - 1) * ?chunk < t"
  proof -
    have "(n - 1) * ?chunk = n * ?chunk - ?chunk" by (simp add: algebra_simps)
    moreover have "n * ?chunk \<le> t" using f(1) pos_mod_sign[of n t] mult_div_mod_eq[of n t] by linarith
    ultimately show ?thesis using c by linarith
  qed
  have "index (fresh_segment n t i) = i \<and> seg_ok (fresh_segment n t i)" for i
    using c(1) top by (auto simp: fresh_segment_def Let_def seg_ok_def c(2) algebra_simps)
  moreover have "bt_wf m" by (simp add: f(2) bt_wf_def o_def strict_sorted_iff)
  ultimately show ?thesis by (auto simp: layout_ok_def f(2))
qed

lemma fresh_sound:
  assumes "build_fresh_segments n t = Some (m, rs)" "n \<le> t"
  shows "sound m n t"
proof -
  have "1 \<le> n" by (rule fresh_entries[OF assms(1)])
  then have "validate_coverage m t = Inr ()" using assms by (intro fresh_validates[OF _ assms(1)]) simp
  then have "exact_cover m t" by (rule validate_sound)
  moreover have "done_ok m"
  proof -
    have "lstate s = Pending" if "bt_get m k = Some s" for k s
      using map_of_SomeD[of m k s] that
      by (auto simp: bt_get_map_of fresh_entries(2)[OF assms(1)] fresh_segment_def Let_def)
    then show ?thesis by (auto simp: done_ok_def)
  qed
  ultimately show ?thesis using fresh_layout_ok[OF assms] by (simp add: sound_def)
qed

lemma insert_rows_append:
  assumes "bt_wf m" "insert_rows rs m = Some m'"
  shows "bt_wf m' \<and> row_range m' = (\<lambda>k. case map_of rs k of
      Some r \<Rightarrow> Some r | None \<Rightarrow> row_range m k)"
  using assms
proof (induction rs arbitrary: m)
  case (Cons r rs)
  obtain i a b where r: "r = (i, a, b)" by (cases r)
  let ?m = "bt_insert i \<lparr> r_start = a, r_end = b, r_downloaded = 0 \<rparr> m"
  have "bt_get m i = None" "insert_rows rs ?m = Some m'" using Cons.prems r by (auto split: if_splits)
  note IH = Cons.IH[OF bt.wf_put[OF Cons.prems(1)] this(2)]
  have keep: "bt_get m' i \<noteq> None"
    if "insert_rows rs m0 = Some m'" "bt_get m0 i \<noteq> None" "bt_wf m0" for m0 rs
    using that
  proof (induction rs arbitrary: m0)
    case (Cons q qs)
    then show ?case by (cases q) (auto simp: bt.get_put bt.wf_put split: if_splits)
  qed simp
  have no: "i \<notin> fst ` set rs'" if "insert_rows rs' m0 = Some m'" "bt_get m0 i \<noteq> None" "bt_wf m0" for m0 rs'
    using that
  proof (induction rs' arbitrary: m0)
    case (Cons q qs)
    then show ?case by (cases q) (auto simp: bt.get_put bt.wf_put split: if_splits)
  qed simp
  have "i \<notin> fst ` set rs"
    using no[OF \<open>insert_rows rs ?m = Some m'\<close>] Cons.prems(1) by (simp add: bt.get_put bt.wf_put)
  then have "map_of rs i = None"
    by (force simp: map_of_eq_None_iff)
  then show ?case
    using IH r Cons.prems(1)
    by (auto simp: fun_eq_iff row_range_def bt.get_put split: option.splits)
qed simp

lemma insert_rows_total:
  assumes "bt_wf m" "distinct (map fst rs)" "\<forall>r \<in> set rs. bt_get m (fst r) = None"
  shows "insert_rows rs m \<noteq> None"
  using assms
proof (induction rs arbitrary: m)
  case (Cons r rs)
  obtain i a b where r: "r = (i, a, b)" by (cases r)
  have "insert_rows rs (bt_insert i \<lparr> r_start = a, r_end = b, r_downloaded = 0 \<rparr> m) \<noteq> None"
    using Cons.prems r by (intro Cons.IH) (force simp: bt.wf_put bt.get_put image_iff)+
  then show ?case using Cons.prems r by simp
qed simp

lemma mirrors_fresh:
  assumes "build_fresh_segments n t = Some (m, rs)" "rows db = []" "insert_segments rs db = Some db'"
  shows "mirrors m db'"
proof -
  note f = fresh_entries[OF assms(1)]
  have "insert_rows rs [] = Some (rows db')" using assms(2,3) by (auto simp: insert_segments_def)
  then have "bt_wf (rows db')" "row_range (rows db') k = map_of rs k" for k
    using insert_rows_append[of "[]" rs "rows db'"]
    by (auto simp: bt_wf_def row_range_def split: option.splits)
  moreover have "rs = map (\<lambda>(k, s). (k, (start_byte s, end_byte s))) m"
    by (simp add: f o_def)
  then have "map_of rs k = seg_range m k" for k
    by (simp add: seg_range_def bt_get_map_of map_of_map)
  ultimately show ?thesis by (auto simp: mirrors_def fun_eq_iff)
qed

lemma fresh_layout_result:
  assumes "fresh_layout pin n eff db = Some (db', Inr p)" "rows db = []" "n \<le> total_in pin"
  shows "sound (p_segs p) (p_next p) (total_in pin) \<and> mirrors (p_segs p) db' \<and> p_effective p = eff"
  using assms fresh_sound[of n "total_in pin"] mirrors_fresh[of n "total_in pin"]
  by (auto simp: fresh_layout_def split: option.splits if_splits)

lemma rows_delete [simp]: "rows (delete_segments db) = []"
  by (simp add: delete_segments_def)

lemma rebuild_layout_result:
  assumes "rebuild_layout pin n eff db = Some (db', Inr p)" "n \<le> total_in pin"
  shows "sound (p_segs p) (p_next p) (total_in pin) \<and> mirrors (p_segs p) db' \<and> p_effective p = eff"
proof -
  from assms(1) obtain db1 where f: "fresh_layout pin n eff (delete_segments db) = Some (db1, Inr p)"
    and db': "db' = write_total pin (total_in pin) db1"
    by (auto simp: rebuild_layout_def split: if_splits option.splits sum.splits prod.splits)
  have "sound (p_segs p) (p_next p) (total_in pin) \<and> mirrors (p_segs p) db1 \<and> p_effective p = eff"
    by (rule fresh_layout_result[OF f _ assms(2)]) simp
  then show ?thesis by (simp add: db' write_total_def mirrors_total)
qed

text \<open>Rebuilding never fails when the database does not: there is no key left to collide with.\<close>

lemma rebuild_total:
  assumes "1 \<le> n" "delete_ok pin" "insert_ok pin"
  shows "\<exists>db' p. rebuild_layout pin n eff db = Some (db', Inr p)"
proof -
  obtain m rs where b: "build_fresh_segments n (total_in pin) = Some (m, rs)"
    using assms(1) by (simp add: build_fresh_segments_def Let_def)
  have "insert_rows rs [] \<noteq> None"
    by (rule insert_rows_total) (simp_all add: bt_wf_def fresh_entries(3)[OF b] o_def)
  then show ?thesis
    using assms(2,3) b by (auto simp: rebuild_layout_def fresh_layout_def insert_segments_def delete_segments_def)
qed

section \<open>Restored layouts\<close>

definition rows_ok :: "task_db \<Rightarrow> bool" where
  "rows_ok db \<longleftrightarrow> bt_wf (rows db) \<and>
     (\<forall>k r. bt_get (rows db) k = Some r \<longrightarrow>
        r_start r \<le> r_end r \<and> 0 \<le> r_downloaded r \<and> r_downloaded r \<le> row_size r)"

lemma restore_rows_snoc:
  "restore_rows (rs @ [(i, r)]) =
     (let (m, n) = restore_rows rs in (bt_insert i (restore_segment i r) m, if n \<le> i then i + 1 else n))"
  by (simp add: restore_rows_def split: prod.split)

lemma restore_rows_eq:
  assumes "bt_wf rs"
  shows "fst (restore_rows rs) = map (\<lambda>(i, r). (i, restore_segment i r)) rs
    \<and> (\<forall>i \<in> fst ` set rs. i < snd (restore_rows rs))"
  using assms
proof (induction rs rule: rev_induct)
  case (snoc x rs)
  obtain i r where x: "x = (i, r)" by (cases x)
  have wf: "bt_wf rs" and last: "\<forall>k \<in> fst ` set rs. k < i"
    using snoc.prems by (auto simp: bt_wf_def sorted_wrt_append x)
  obtain m n where mn: "restore_rows rs = (m, n)" by (cases "restore_rows rs")
  then have m: "m = map (\<lambda>(i, r). (i, restore_segment i r)) rs" "\<forall>i \<in> fst ` set rs. i < n"
    using snoc.IH[OF wf] by auto
  have "\<forall>k' \<in> fst ` set m. k' < i" using last by (force simp: m)
  then have "bt_insert i (restore_segment i r) m = m @ [(i, restore_segment i r)]"
    by (rule bt_insert_last)
  then show ?case
    using m(2) by (auto simp: x restore_rows_snoc mn m(1))
qed (simp add: restore_rows_def)

lemma restore_get:
  assumes "bt_wf rs"
  shows "bt_get (fst (restore_rows rs)) k = map_option (restore_segment k) (bt_get rs k)"
proof -
  have "map_of (map (\<lambda>(i, r). (i, restore_segment i r)) rs) k = map_option (restore_segment k) (map_of rs k)"
    by (induction rs) auto
  then show ?thesis using restore_rows_eq[OF assms] by (simp add: bt_get_map_of)
qed

lemma restore_range:
  "bt_wf rs \<Longrightarrow> seg_range (fst (restore_rows rs)) = row_range rs"
  by (auto simp: seg_range_def row_range_def restore_get restore_segment_def option.map_comp o_def)

lemma restore_layout:
  assumes "rows_ok db"
  shows "layout_ok (fst (restore_rows (rows db))) (snd (restore_rows (rows db)))"
    and "done_ok (fst (restore_rows (rows db)))"
    and "mirrors (fst (restore_rows (rows db))) db"
proof -
  have wf: "bt_wf (rows db)" using assms by (simp add: rows_ok_def)
  note eq = restore_rows_eq[OF wf]
  have "map fst (map (\<lambda>(i, r). (i, restore_segment i r)) (rows db)) = map fst (rows db)" by auto
  then have wf': "bt_wf (fst (restore_rows (rows db)))"
    unfolding bt_wf_def conjunct1[OF eq] using wf by (simp only: bt_wf_def)
  have lt: "k < snd (restore_rows (rows db))" if "bt_get (rows db) k = Some r" for k r
    using that eq map_of_SomeD[of "rows db" k r] by (force simp: bt_get_map_of)
  show "layout_ok (fst (restore_rows (rows db))) (snd (restore_rows (rows db)))"
    using wf' lt assms
    by (auto simp: layout_ok_iff restore_get[OF wf] rows_ok_def restore_segment_def seg_ok_def)
  show "done_ok (fst (restore_rows (rows db)))"
    using assms by (auto simp: done_ok_def restore_get[OF wf] rows_ok_def restore_segment_def row_size_def seg_size_def)
  show "mirrors (fst (restore_rows (rows db))) db"
    using wf by (simp add: mirrors_def restore_range)
qed

section \<open>The plan\<close>

text \<open>
  Size drift accepted over a layout that turns out broken: the layout is rebuilt for the probed
  size while the planned size stays the one on record.
\<close>

definition restored :: "task_db \<Rightarrow> segments" where
  "restored db = fst (restore_rows (rows db))"

definition stale_size :: "plan_in \<Rightarrow> task_db \<Rightarrow> bool" where
  "stale_size pin db \<longleftrightarrow> rows db \<noteq> []
     \<and> (let t = rows_total (restored db) (total_in pin) in
          t < total_in pin \<and> total_in pin - t \<le> drift_threshold (strict_total pin) t
          \<and> validate_coverage (restored db) t \<noteq> Inr ())"

lemma clamp_count_bounds:
  assumes "1 \<le> n" "n < 2 ^ 31" "0 < t"
  shows "1 \<le> clamp_count n t" "clamp_count n t \<le> t"
  using assms by (auto simp: clamp_count_def as_i32_id)

text \<open>What \<open>load_layout\<close> yields: a new layout for the probed size, or the restored one.\<close>

lemma load_layoutE:
  assumes "load_layout pin n db = Some (db', Inr p)" "1 \<le> n" "n \<le> total_in pin"
  obtains (new) "sound (p_segs p) (p_next p) (total_in pin)" "mirrors (p_segs p) db'"
      "p_effective p = total_in pin"
  | (old) "rows db \<noteq> []" "(p_segs p, p_next p) = restore_rows (rows db)" "rows db' = rows db"
      "p_effective p = total_in pin \<or>
       (p_effective p = rows_total (restored db) (total_in pin) \<and> p_effective p < total_in pin
        \<and> total_in pin - p_effective p \<le> drift_threshold (strict_total pin) (p_effective p))"
proof (cases "rows db = []")
  case True
  then have "fresh_layout pin (if estimate pin then 1 else n) (total_in pin) db = Some (db', Inr p)"
    using assms(1) by (simp add: load_layout_def load_segments_def Let_def)
  from fresh_layout_result[OF this True] show ?thesis using assms(2,3) new by (auto split: if_splits)
next
  case False
  obtain m nx where r: "restore_rows (rows db) = (m, nx)" by (cases "restore_rows (rows db)")
  let ?t = "rows_total m (total_in pin)"
  have rs: "restored db = m" by (simp add: restored_def r)
  note l = assms(1)[unfolded load_layout_def load_segments_def Let_def r prod.case if_not_P[OF False]]
  consider (eq) "?t = total_in pin" | (drift) "?t < total_in pin"
      "total_in pin - ?t \<le> drift_threshold (strict_total pin) ?t"
    | (grown) "?t < total_in pin" "\<not> total_in pin - ?t \<le> drift_threshold (strict_total pin) ?t"
    | (smaller) "total_in pin < ?t" by linarith
  then show ?thesis
  proof cases
    case grown
    then have "rebuild_layout pin n (total_in pin) db = Some (db', Inr p)" using l by simp
    from rebuild_layout_result[OF this assms(3)] show ?thesis using new by simp
  next
    case eq
    then have "db' = db" "p = \<lparr> p_segs = m, p_next = nx, p_effective = total_in pin \<rparr>" using l by auto
    then show ?thesis by (intro old[OF False]) (simp_all add: r)
  next
    case drift
    then have "db' = write_total pin ?t db" "p = \<lparr> p_segs = m, p_next = nx, p_effective = ?t \<rparr>"
      using l by auto
    then show ?thesis
      using drift by (intro old[OF False]) (simp_all add: r rs write_total_def update_task_total_bytes_def)
  next
    case smaller
    then have "db' = db" "p = \<lparr> p_segs = m, p_next = nx, p_effective = total_in pin \<rparr>" using l by auto
    then show ?thesis by (intro old[OF False]) (simp_all add: r)
  qed
qed

lemma check_layout_sound:
  assumes "check_layout pin n p db = Some (db', Inr p')" "n \<le> total_in pin" "mirrors (p_segs p) db"
    and "layout_ok (p_segs p) (p_next p)" "done_ok (p_segs p)"
    and "validate_coverage (p_segs p) (p_effective p) = Inr () \<or> p_effective p = total_in pin"
  shows "sound (p_segs p') (p_next p') (p_effective p') \<and> mirrors (p_segs p') db'
    \<and> p_effective p' = p_effective p"
proof (cases "validate_coverage (p_segs p) (p_effective p)")
  case (Inl e)
  then show ?thesis
    using assms rebuild_layout_result[of pin n "p_effective p" db db' p'] by (simp add: check_layout_def)
next
  case (Inr u)
  then have "exact_cover (p_segs p) (p_effective p)" by (intro validate_sound) simp
  then show ?thesis using assms Inr by (auto simp: check_layout_def sound_def)
qed

lemma map_values_get: "bt_get (map (\<lambda>(k, s). (k, f s)) m) k = map_option f (bt_get m k)"
  by (induction m) auto

lemma cover_count_map:
  assumes "\<And>s. start_byte (f s) = start_byte s \<and> end_byte (f s) = end_byte s"
  shows "cover_count (map (\<lambda>(k, s). (k, f s)) m) b = cover_count m b"
  using assms by (induction m) (auto simp: cover_count_def cov_def covers_def)

lemma sound_reset:
  assumes "sound m n t"
  shows "sound (map (\<lambda>(k, s). (k, s\<lparr>downloaded_bytes := 0, lstate := Pending\<rparr>)) m) n t"
proof -
  have "map fst (map (\<lambda>(k, s). (k, s\<lparr>downloaded_bytes := 0, lstate := Pending\<rparr>)) m) = map fst m" by auto
  then have "bt_wf (map (\<lambda>(k, s). (k, s\<lparr>downloaded_bytes := 0, lstate := Pending\<rparr>)) m)"
    using sound_wf[OF assms] by (simp only: bt_wf_def)
  then show ?thesis
    using assms by (auto simp: sound_iff exact_cover_def map_values_get cover_count_map seg_ok_def)
qed

lemma check_file_sound:
  assumes "check_file pin p db = Some (db', Inr p')" "sound (p_segs p) (p_next p) (p_effective p)"
    and "mirrors (p_segs p) db"
  shows "sound (p_segs p') (p_next p') (p_effective p') \<and> mirrors (p_segs p') db'
    \<and> p_effective p' = p_effective p"
proof -
  let ?m = "map (\<lambda>(k, s). (k, s\<lparr>downloaded_bytes := 0, lstate := Pending\<rparr>)) (p_segs p)"
  have "mirrors ?m (reset_segments_progress db)"
  proof -
    have "map fst (map (\<lambda>(i, r). (i, r\<lparr>r_downloaded := 0\<rparr>)) (rows db)) = map fst (rows db)" by auto
    then have "bt_wf (map (\<lambda>(i, r). (i, r\<lparr>r_downloaded := 0\<rparr>)) (rows db))"
      using mirrorsD[OF assms(3)] by (simp only: bt_wf_def)
    then show ?thesis
      using assms(3)
      by (auto simp: mirrors_def reset_segments_progress_def row_range_def seg_range_def fun_eq_iff
          map_values_get option.map_comp o_def)
  qed
  then show ?thesis
    using assms sound_reset[OF assms(2)] by (auto simp: check_file_def Let_def split: if_splits)
qed

lemma and_then_Inr:
  assumes "and_then r f = Some (db', Inr b)"
  obtains db a where "r = Some (db, Inr a)" "f a db = Some (db', Inr b)"
  using assms by (auto simp: and_then_def split: option.splits prod.splits sum.splits)

lemma plan_layout_sound:
  assumes "plan_layout pin db0 = Some (db', Inr p)" "count_in pin < 2 ^ 31" "rows_ok db0"
    and "\<not> stale_size pin db0"
  shows "sound (p_segs p) (p_next p) (p_effective p) \<and> mirrors (p_segs p) db'"
proof -
  define n where "n = clamp_count (count_in pin) (total_in pin)"
  define db where "db = (if epoch_ok pin then set_segments_epoch (gen_in pin) db0 else db0)"
  have in_ok: "0 < total_in pin" "1 \<le> count_in pin"
    using assms(1) by (auto simp: plan_layout_def split: if_splits)
  note n = clamp_count_bounds[OF in_ok(2) assms(2) in_ok(1), folded n_def]
  have rows: "rows db = rows db0" by (simp add: db_def set_segments_epoch_def)
  have rok: "rows_ok db" and same: "restored db = restored db0"
    using assms(3) by (simp_all add: rows_ok_def rows restored_def)
  from assms(1) obtain p1 db1 p2 db2 where
      l: "load_layout pin n db = Some (db1, Inr p1)"
      and c: "check_layout pin n p1 db1 = Some (db2, Inr p2)"
      and f: "check_file pin p2 db2 = Some (db', Inr p)"
    using in_ok
    by (auto simp: plan_layout_def Let_def simp flip: n_def db_def elim!: and_then_Inr split: if_splits)
  have "sound (p_segs p2) (p_next p2) (p_effective p2) \<and> mirrors (p_segs p2) db2"
    using l n
  proof (cases rule: load_layoutE)
    case new
    then show ?thesis using check_layout_sound[OF c n(2) new(2)] soundD[OF new(1)] by blast
  next
    case old
    note r = restore_layout[OF rok]
    have p1: "p_segs p1 = restored db" "p_next p1 = snd (restore_rows (rows db))"
      using old(2) by (metis fst_conv restored_def, metis snd_conv)
    have v: "validate_coverage (p_segs p1) (p_effective p1) = Inr () \<or> p_effective p1 = total_in pin"
    proof (rule ccontr)
      assume a: "\<not> ?thesis"
      then have "stale_size pin db0"
        using old(1,4) p1 by (auto simp: stale_size_def Let_def rows same)
      with assms(4) show False by simp
    qed
    have m1: "mirrors (p_segs p1) db1" using r(3) by (simp add: p1 restored_def mirrors_def old(3))
    have lay: "layout_ok (p_segs p1) (p_next p1)" "done_ok (p_segs p1)"
      using r by (simp_all add: p1 restored_def)
    from check_layout_sound[OF c n(2) m1 lay v] show ?thesis by blast
  qed
  then show ?thesis using check_file_sound[OF f] by blast
qed

section \<open>Restoring what an earlier run wrote\<close>

lemma cover_count_range:
  assumes "bt_wf m" "bt_wf m'" "seg_range m = seg_range m'"
  shows "cover_count m b = cover_count m' b"
proof -
  let ?g = "\<lambda>r. if fst r \<le> b \<and> b \<le> snd r then 1 else 0 :: int"
  have dom: "dom (bt_get m0) = dom (seg_range m0)" for m0 :: segments by (auto simp: seg_range_def)
  have "cover_count m0 b = (\<Sum>k\<in>dom (seg_range m0). ?g (the (seg_range m0 k)))" if "bt_wf m0" for m0
    unfolding cover_count_def bt.weight_dom[OF that] dom
    by (intro sum.cong) (auto simp: seg_range_def cov_def covers_def)
  then show ?thesis using assms by simp
qed

lemma rows_total_exact:
  assumes "layout_ok m n" "exact_cover m t" "0 < t"
  shows "rows_total m d = t"
proof -
  let ?es = "map (\<lambda>s. end_byte s + 1) (bt_values m)"
  have in_range: "end_byte s < t" if "s \<in> set (bt_values m)" for s
  proof -
    have "covers s (end_byte s)"
      using that layout_values[OF assms(1)] layout_okD(3)[OF assms(1)] by (auto simp: covers_def seg_ok_def)
    then have "1 \<le> cover_count m (end_byte s)" using that sum_cov_pos by (simp add: cover_count_values)
    then show ?thesis using assms(2) by (auto simp: exact_cover_def split: if_splits)
  qed
  have "0 < cover_count m (t - 1)" using assms(2,3) by (simp add: exact_cover_def)
  then obtain s where s: "s \<in> set (bt_values m)" "covers s (t - 1)"
    using sum_cov_witness by (auto simp: cover_count_values)
  then have st: "end_byte s = t - 1" using in_range[OF s(1)] by (simp add: covers_def)
  obtain x where x: "max_by_key (\<lambda>x. x) ?es = Some x"
    using s(1) by (cases "max_by_key (\<lambda>x. x) ?es") (auto simp: max_by_key_None)
  have "x \<le> t" using max_by_key_Some(1)[OF x] in_range by fastforce
  moreover have "end_byte s + 1 \<le> x" using max_by_key_Some(2)[OF x, of "end_byte s + 1"] s(1) by auto
  ultimately show ?thesis using x st by (simp add: rows_total_def)
qed

lemma sum_downloaded_le:
  assumes "layout_ok m n" "exact_cover m t" "0 < t"
    and "\<And>s. s \<in> set (bt_values m) \<Longrightarrow> downloaded_bytes s \<le> seg_size s"
  shows "(\<Sum>s\<leftarrow>bt_values m. downloaded_bytes s) \<le> t"
    and "(\<Sum>s\<leftarrow>bt_values m. seg_size s) = t" and "validate_coverage m t = Inr ()"
proof -
  have "cover_count m 0 = 1" using assms(2,3) by (simp add: exact_cover_def)
  then have "m \<noteq> []" by (auto simp: cover_count_def)
  then show v: "validate_coverage m t = Inr ()" by (rule validate_complete[OF assms(1) _ assms(2)])
  show size: "(\<Sum>s\<leftarrow>bt_values m. seg_size s) = t"
    using validate_coverage_InrD(5)[OF v] by (simp add: sum_list_sort_key)
  have "(\<Sum>s\<leftarrow>bt_values m. downloaded_bytes s) \<le> (\<Sum>s\<leftarrow>bt_values m. seg_size s)"
    using assms(4) by (intro sum_list_mono) auto
  then show "(\<Sum>s\<leftarrow>bt_values m. downloaded_bytes s) \<le> t" using size by simp
qed

lemma restored_bounded:
  assumes "rows_ok db" "s \<in> set (bt_values (restored db))"
  shows "downloaded_bytes s \<le> seg_size s"
proof -
  have wf: "bt_wf (rows db)" using assms(1) by (simp add: rows_ok_def)
  have "bt_get (restored db) (index s) = Some s"
    using assms layout_values[OF restore_layout(1)[OF assms(1)]] by (simp add: restored_def)
  then obtain r where r: "bt_get (rows db) (index s) = Some r" "s = restore_segment (index s) r"
    by (auto simp: restored_def restore_get[OF wf])
  have "downloaded_bytes (restore_segment i r) \<le> seg_size (restore_segment i r)" for i
    using assms(1) r(1) by (auto simp: rows_ok_def restore_segment_def seg_size_def row_size_def)
  then show ?thesis using r(2) by metis
qed

text \<open>The plan of a run that finds the rows of a live state, with the same size probed.\<close>

lemma plan_restores:
  assumes "live c" "rows_ok (tdb c)" "total_in pin = effective c" "1 \<le> count_in pin"
    and "load_ok pin" "alloc_ok pin" "effective c \<le> file_len pin"
  shows "\<exists>db p. plan_layout pin (tdb c) = Some (db, Inr p) \<and> p_segs p = restored (tdb c)
    \<and> p_effective p = effective c \<and> seg_range (p_segs p) = seg_range (segs c)"
proof -
  define n where "n = clamp_count (count_in pin) (total_in pin)"
  define db where "db = (if epoch_ok pin then set_segments_epoch (gen_in pin) (tdb c) else tdb c)"
  have rows: "rows db = rows (tdb c)" by (simp add: db_def set_segments_epoch_def)
  have c: "coord_ok c" "mirrors (segs c) (tdb c)" using assms(1) by (auto simp: live_def durable_def)
  have t: "0 < effective c" using c(1) by (simp add: coord_ok_def)
  have wf: "bt_wf (rows (tdb c))" by (rule mirrorsD[OF c(2)])
  let ?m = "restored (tdb c)"
  obtain nx where rr: "restore_rows (rows (tdb c)) = (?m, nx)" by (metis prod.collapse restored_def)
  note r = restore_layout[OF assms(2), folded restored_def]
  have range: "seg_range ?m = seg_range (segs c)"
    using c(2) restore_range[OF wf] by (simp add: restored_def mirrors_def)
  have "exact_cover ?m (effective c)"
    using coord_okD(1)[OF c(1)] cover_count_range[OF layout_ok_wf[OF r(1)] _ range]
    by (auto simp: sound_iff exact_cover_def)
  moreover have "downloaded_bytes s \<le> seg_size s" if "s \<in> set (bt_values ?m)" for s
    by (rule restored_bounded[OF assms(2) that])
  ultimately have full: "rows_total ?m (effective c) = effective c" "validate_coverage ?m (effective c) = Inr ()"
      "(\<Sum>s\<leftarrow>bt_values ?m. downloaded_bytes s) \<le> effective c"
    using rows_total_exact[OF r(1)] sum_downloaded_le[OF r(1)] t by auto
  have ne: "rows (tdb c) \<noteq> []"
  proof
    assume "rows (tdb c) = []"
    then have "?m = []" by (simp add: restored_def restore_rows_def)
    with full(2) show False by (simp add: validate_coverage_def)
  qed
  let ?p = "\<lparr> p_segs = ?m, p_next = nx, p_effective = effective c \<rparr>"
  have ld: "load_layout pin n db = Some (db, Inr ?p)"
    using ne full(1) assms(3) by (simp add: load_layout_def load_segments_def rows Let_def rr)
  then have "plan_layout pin (tdb c) = Some (db, Inr ?p)"
    using assms t full ld[unfolded n_def assms(3)]
    by (simp add: plan_layout_def Let_def and_then_def check_layout_def check_file_def
        flip: db_def)
  then show ?thesis using range by auto
qed

end
