(* ===== verification/Coordinator_Final.thy ===== *)
theory Coordinator_Final
  imports Resume_Inv
begin

text \<open>
  From the plan to the verdict: the state the loop starts in, the pool of workers, the number of
  size expansions, and what a successful end of the download means.
\<close>

section \<open>The first state\<close>

lemma start_segs:
  "sound m n t \<Longrightarrow> mirrors m db \<Longrightarrow>
   sound (foldl (\<lambda>m a. bt_adjust (wa_index a) (set_state Active) m) m as) n t
   \<and> mirrors (foldl (\<lambda>m a. bt_adjust (wa_index a) (set_state Active) m) m as) db"
proof (induction as arbitrary: m)
  case (Cons a as)
  then show ?case by (simp add: sound_set_state mirrors_set_state sound_wf)
qed simp

lemma shared_ok_build: "layout_ok m n \<Longrightarrow> shared_ok (build_seg_state_vec m)"
  using layout_values[of m n] layout_okD(3)[of m n]
  by (auto simp: shared_ok_def build_seg_state_vec_def seg_ok_def)

lemma start_live:
  assumes "sound (p_segs p) (p_next p) (p_effective p)" "mirrors (p_segs p) db" "0 < p_effective p"
  shows "live (start_coord pin allowed p db)"
  using assms start_segs[OF assms(1,2)] shared_ok_build[OF soundD(1)[OF assms(1)]]
  by (simp add: live_def durable_def coord_ok_def start_coord_def Let_def)

lemma plan_positive:
  assumes "plan_layout pin db0 = Some (db, Inr p)" "sound (p_segs p) (p_next p) (p_effective p)"
    and "p_segs p \<noteq> []"
  shows "0 < p_effective p"
proof (rule ccontr)
  assume "\<not> ?thesis"
  then have z: "cover_count (p_segs p) b = 0" for b using assms(2) by (auto simp: sound_def exact_cover_def)
  obtain k s where s: "(k, s) \<in> set (p_segs p)" using assms(3) by (cases "p_segs p") auto
  then have "s \<in> set (bt_values (p_segs p))" by (force simp: bt_values_def)
  moreover have "covers s (start_byte s)"
    using s soundD(1)[OF assms(2)] by (auto simp: layout_ok_def seg_ok_def covers_def)
  ultimately have "1 \<le> cover_count (p_segs p) (start_byte s)"
    using sum_cov_pos by (simp add: cover_count_values)
  with z show False by simp
qed

section \<open>The worker pool\<close>

definition pool_ok :: "nat \<Rightarrow> coord \<Rightarrow> bool" where
  "pool_ok cap c \<longleftrightarrow> ramp_bounds cap (rmp c) \<and> alive_slots c \<le> cap"

lemma alive_list_update: "length (filter (\<lambda>b. b) (xs[w := False])) \<le> length (filter (\<lambda>b. b) xs)"
proof (induction xs arbitrary: w)
  case (Cons x xs)
  then show ?case by (cases w) (simp_all add: le_SucI)
qed simp

lemma pool_step [simp]:
  "slots (reclaim i c) = slots c" "rmp (reclaim i c) = rmp c"
  "slots (clear_open i c) = slots c" "rmp (clear_open i c) = rmp c"
  "slots (sync_shared c) = slots c" "rmp (sync_shared c) = rmp c"
  "slots (rebuild_shared c) = slots c" "rmp (rebuild_shared c) = rmp c"
  "slots (persist_change ok i par c) = slots c" "rmp (persist_change ok i par c) = rmp c"
  "slots (resample t c) = slots c" "rmp (resample t c) = rmp c"
  "slots (hand_out ok w c) = slots c" "rmp (hand_out ok w c) = rmp c"
  "rmp (retire wid c) = rmp c" "rmp (close_slots c) = rmp c"
  "slots (snd (take_work c)) = slots c" "rmp (snd (take_work c)) = rmp c"
  "slots (snd (take_pending c)) = slots c" "rmp (snd (take_pending c)) = rmp c"
  "slots (snd (try_split k c)) = slots c" "rmp (snd (try_split k c)) = rmp c"
  by (auto simp: reclaim_def clear_open_def sync_shared_def rebuild_shared_def persist_change_def
      resample_def hand_out_def retire_def close_slots_def take_work_def take_pending_def try_split_def
      split: option.split prod.split)

text \<open>Steps that neither touch the policy state nor add a live slot.\<close>

definition pool_le :: "coord \<Rightarrow> coord \<Rightarrow> bool" where
  "pool_le c' c \<longleftrightarrow> rmp c' = rmp c \<and> alive_slots c' \<le> alive_slots c"

lemma pool_le_ok: "pool_le c' c \<Longrightarrow> pool_ok cap c \<Longrightarrow> pool_ok cap c'"
  by (auto simp: pool_le_def pool_ok_def)

lemma pool_le_refl: "slots c' = slots c \<Longrightarrow> rmp c' = rmp c \<Longrightarrow> pool_le c' c"
  by (simp add: pool_le_def alive_slots_def)

lemma pool_le_trans: "pool_le c2 c1 \<Longrightarrow> pool_le c1 c \<Longrightarrow> pool_le c2 c"
  by (simp add: pool_le_def)

lemma pool_le_retire: "pool_le (retire w c) c"
  using alive_list_update[of "slots c" w] by (simp add: pool_le_def alive_slots_def retire_def)

lemma pool_le_close: "pool_le (close_slots c) c"
  by (simp add: pool_le_def alive_slots_def close_slots_def)

lemma take_frame:
  "take_work c = (w, c1) \<Longrightarrow> slots c1 = slots c \<and> rmp c1 = rmp c"
  "take_pending c = (w, c1) \<Longrightarrow> slots c1 = slots c \<and> rmp c1 = rmp c"
  "try_split k c = (w, c1) \<Longrightarrow> slots c1 = slots c \<and> rmp c1 = rmp c"
  by (metis pool_step(17,18) snd_conv, metis pool_step(19,20) snd_conv, metis pool_step(21,22) snd_conv)

lemma pool_le_next_after_done: "next_after_done c = (w, c1) \<Longrightarrow> slots c1 = slots c \<and> rmp c1 = rmp c"
  by (auto simp: next_after_done_def dest: take_frame split: if_splits)

lemma pool_le_redispatch_work: "redispatch_work c = (w, c1) \<Longrightarrow> slots c1 = slots c \<and> rmp c1 = rmp c"
  by (auto simp: redispatch_work_def dest: take_frame split: if_splits prod.splits option.splits)

lemma pool_le_assign: "pool_le (assign_after_done ok send w c) c"
proof -
  obtain nw c1 where n: "next_after_done c = (nw, c1)" by (cases "next_after_done c")
  note f = pool_le_next_after_done[OF n]
  then show ?thesis
    using n pool_le_trans[OF pool_le_retire pool_le_refl[of c1 c], of w]
    by (cases nw) (auto simp: assign_after_done_def Let_def intro!: pool_le_refl)
qed

lemma pool_le_redispatch: "pool_le (redispatch cdn ok send w c) c"
proof -
  obtain nw c1 where n: "redispatch_work c = (nw, c1)" by (cases "redispatch_work c")
  note f = pool_le_redispatch_work[OF n]
  then show ?thesis
    using n pool_le_trans[OF pool_le_retire pool_le_refl[of c1 c], of w]
    by (cases nw) (auto simp: redispatch_def Let_def intro!: pool_le_refl)
qed

lemma pool_le_on_done: "pool_le (fst (on_done ob w i dl c)) c"
proof -
  obtain c1 child where m: "mark_done i dl (clear_open i c) = (c1, child)"
    by (cases "mark_done i dl (clear_open i c)")
  have c1: "slots c1 = slots c \<and> rmp c1 = rmp c"
    using m by (auto simp: mark_done_def Let_def split: option.splits if_splits)
  let ?c3 = "resample (o_window ob) (sync_shared (record_shortfall (o_persist1 ob) i child c1))"
  have "pool_le ?c3 c"
    using c1 by (intro pool_le_refl) (auto simp: record_shortfall_def split: option.splits)
  then have "pool_le (assign_after_done (o_persist2 ob) (o_send ob) w ?c3) c"
    using pool_le_assign pool_le_trans by blast
  then show ?thesis using m pool_le_trans[OF pool_le_close] by (auto simp: on_done_def Let_def)
qed

lemma pool_le_abort: "pool_le (abort_workers i c) c"
  unfolding abort_workers_def
  by (rule pool_le_trans[OF pool_le_close]) (simp add: pool_le_refl)

lemma pool_le_size_larger: "pool_le (fst (on_size_larger cfg ob w i n c)) c"
proof -
  have "pool_le (reclaim i (expand_total cfg ok n c)) c" for ok
    by (rule pool_le_refl) (simp_all add: expand_total_def Let_def)
  moreover have "pool_le (reclaim i c) c" by (rule pool_le_refl) simp_all
  ultimately show ?thesis
    using pool_le_trans[OF pool_le_redispatch] pool_le_abort by (auto simp: on_size_larger_def Let_def)
qed

lemma pool_le_absorb: "absorb_open ok c = Some c' \<Longrightarrow> pool_le c' c"
  by (rule pool_le_refl) (auto simp: absorb_open_def)

lemma ramp_reject_bounds:
  "ramp_bounds cap r \<Longrightarrow> alive_n \<le> cap \<Longrightarrow> ramp_bounds cap (fst (ramp_reject s alive_n r))"
  by (auto simp: ramp_reject_def ramp_bounds_def Let_def)

lemma pool_ok_degrade: "pool_ok cap c \<Longrightarrow> pool_ok cap (degrade ob e c)"
  using ramp_reject_bounds[of cap "rmp c" "alive_slots c" "serial c"]
  by (auto simp: pool_ok_def degrade_def Let_def alive_slots_def split: prod.split)

lemma pool_ok_rejection:
  assumes "pool_ok cap c" "on_rejection ob w i e c = Some r"
  shows "pool_ok cap (fst r)"
proof -
  let ?c = "reclaim i (degrade ob e c)"
  obtain c1 where c1: "absorb_open (o_merge ob) ?c = Some c1" using assms(2) by (auto simp: on_rejection_def)
  have "pool_le ?c (degrade ob e c)" by (rule pool_le_refl) simp_all
  then have "pool_ok cap (retire w c1)"
    using pool_ok_degrade[OF assms(1)] pool_le_retire pool_le_absorb[OF c1] pool_le_ok by meson
  then show ?thesis using assms(2) c1 by (auto simp: on_rejection_def Let_def)
qed

lemma pool_ok_failed:
  assumes "pool_ok cap c" "on_failed cfg ob w i e c = Some r"
  shows "pool_ok cap (fst r)"
proof -
  have le: "pool_le (clear_open i c) c" by (rule pool_le_refl) simp_all
  have l: "pool_ok cap (clear_open i c)" by (rule pool_le_ok[OF le assms(1)])
  have red: "pool_le (redispatch True (o_persist2 ob) (o_send ob) w (reclaim i (clear_open i c))) (clear_open i c)"
    by (rule pool_le_trans[OF pool_le_redispatch]) (simp add: pool_le_refl)
  show ?thesis
  proof (cases e)
    case (TrueSizeLarger n)
    then show ?thesis using assms(2) pool_le_ok[OF pool_le_size_larger l] by (simp add: on_failed_def) blast
  next
    case CdnNodeFailed
    then show ?thesis using assms(2) pool_le_ok[OF red l] by (simp add: on_failed_def) auto
  qed (use assms(2) pool_ok_rejection[OF l] pool_le_ok[OF pool_le_abort l] in
      \<open>auto simp: on_failed_def Let_def split: if_splits\<close>)
qed

subsection \<open>Timers\<close>

lemma refill_frame: "rmp (refill ok send k c) = rmp c \<and> alive_slots (refill ok send k c) \<le> alive_slots c + k"
proof (induction k arbitrary: c)
  case (Suc k)
  obtain w c1 where tw: "take_work (sync_shared c) = (w, c1)" by (cases "take_work (sync_shared c)")
  then have f: "slots c1 = slots c" "rmp c1 = rmp c" using take_frame(1)[OF tw] by simp_all
  show ?case
  proof (cases w)
    case (Some nw)
    let ?c2 = "hand_out (ok (length (slots c1))) nw c1"
    have "rmp (refill ok send k (?c2\<lparr>slots := slots ?c2 @ [True]\<rparr>)) = rmp c
      \<and> alive_slots (refill ok send k (?c2\<lparr>slots := slots ?c2 @ [True]\<rparr>)) \<le> alive_slots c + Suc k"
      using Suc.IH[of "?c2\<lparr>slots := slots ?c2 @ [True]\<rparr>"] f by (simp add: alive_slots_def)
    then show ?thesis using tw f Some by (simp add: Let_def alive_slots_def)
  qed (use tw f in \<open>simp add: alive_slots_def\<close>)
qed simp

lemma refill_slots_pool:
  assumes "pool_ok cap c" shows "pool_ok cap (refill_slots ok send c)" "rmp (refill_slots ok send c) = rmp c"
  using assms refill_frame[of ok send "allowed_workers (rmp c) - alive_slots c" c]
  by (auto simp: pool_ok_def refill_slots_def ramp_bounds_def)

lemma pool_ok_rmp: "pool_ok cap c \<Longrightarrow> ramp_bounds cap r \<Longrightarrow> pool_ok cap (c\<lparr>rmp := r\<rparr>)"
  by (simp add: pool_ok_def alive_slots_def)

lemma pool_ok_learned [simp]: "pool_ok cap (c\<lparr>learned := l\<rparr>) = pool_ok cap c"
  by (simp add: pool_ok_def alive_slots_def)

lemma pool_ok_full_tick:
  assumes "pool_ok (cap_limit cfg) c"
  shows "pool_ok (cap_limit cfg) (full_tick cfg t c)"
proof -
  define env where "env = ramp_env_of cfg t c"
  define r3 where "r3 = fst (tick_shrink env (fst (tick_eval env (note_proven env (tick_wait (rmp c))))))"
  have cap: "worker_cap env = cap_limit cfg" by (simp add: env_def ramp_env_of_def)
  have b: "ramp_bounds (worker_cap env) (rmp c)" using assms by (simp add: pool_ok_def cap)
  have r1: "ramp_bounds (cap_limit cfg) (note_proven env (tick_wait (rmp c)))"
    using b by (simp add: note_proven_ok tick_wait_ok cap)
  have r3: "ramp_ok (cap_limit cfg) r3" "\<not> awaiting_ramp_eval r3"
    using tick_shrunk_ok[OF b] by (simp_all add: r3_def cap)
  have c3: "pool_ok (cap_limit cfg) (refill_slots ok send (c\<lparr>rmp := r3, learned := l\<rparr>))" for ok send l
    using assms r3(1) by (intro refill_slots_pool(1)) (simp add: pool_ok_rmp ramp_ok_bounds)
  have "ramp_bounds (cap_limit cfg) (tick_grow env s n r3)" for s n
    using tick_grow_ok[of env r3 s n] r3 by (simp add: cap ramp_ok_bounds)
  then have "pool_ok (cap_limit cfg) ((refill_slots ok send (c\<lparr>rmp := r3, learned := l\<rparr>))\<lparr>rmp := tick_grow env s n r3\<rparr>)"
    for ok send l s n using c3 by (intro pool_ok_rmp)
  then show ?thesis
    using assms r1
    by (simp add: full_tick_def Let_def split_def pool_ok_rmp refill_slots_pool flip: env_def r3_def)
qed

lemma alive_reconcile: "alive_slots (reconcile_slots fin c) \<le> alive_slots c"
proof -
  have "length (filter (\<lambda>b. b) (map (\<lambda>(i, b). b \<and> \<not> fin i) (List.enumerate k xs))) \<le> length (filter (\<lambda>b. b) xs)" for k xs
    by (induction xs arbitrary: k) (auto simp: le_SucI)
  then show ?thesis by (simp add: alive_slots_def reconcile_slots_def)
qed

lemma pool_ok_ramp_tick:
  assumes "pool_ok (cap_limit cfg) c"
  shows "pool_ok (cap_limit cfg) (fst (on_ramp_tick cfg t c))"
proof -
  have "pool_le (reconcile_slots (t_finished t) c) c"
    using alive_reconcile by (simp add: pool_le_def) (simp add: reconcile_slots_def)
  then have "pool_ok (cap_limit cfg) (reconcile_slots (t_finished t) c)" by (rule pool_le_ok[OF _ assms])
  then show ?thesis
    by (simp add: on_ramp_tick_def Let_def pool_ok_full_tick short_tick_def refill_slots_pool)
qed

lemma pool_le_proactive: "pool_le (proactive_tick ok c) c"
proof -
  obtain w c1 where s: "try_split (min_split (sync_shared c)) (sync_shared c) = (w, c1)"
    by (cases "try_split (min_split (sync_shared c)) (sync_shared c)")
  obtain w2 c2 where s2: "try_split tail_min_split_bytes c1 = (w2, c2)" by (cases "try_split tail_min_split_bytes c1")
  show ?thesis
    using take_frame(3)[OF s] take_frame(3)[OF s2] s s2
    by (cases w; cases w2) (auto simp: proactive_tick_def Let_def intro!: pool_le_refl)
qed

lemma coord_handle_pool:
  assumes "pool_ok (cap_limit cfg) c" "coord_handle cfg ev c = Some r"
  shows "pool_ok (cap_limit cfg) (fst r)"
proof (cases ev)
  case EvCancelled
  then show ?thesis using assms pool_le_ok[OF pool_le_close assms(1)] by (auto simp: coord_handle_def)
next
  case (EvDone ob w i dl)
  then show ?thesis using assms(2) pool_le_ok[OF pool_le_on_done assms(1)] by (auto simp: coord_handle_def)
next
  case (EvFailed ob w i e)
  then show ?thesis using assms(2) pool_ok_failed[OF assms(1)] by (simp add: coord_handle_def)
next
  case (EvRangeVerdict d m supported)
  let ?c = "c\<lparr>rmp := (rmp c)\<lparr>freeze := FHard\<rparr>, sensitive := True, hostile := True\<rparr>"
  have "pool_ok (cap_limit cfg) ?c" using assms(1) by (simp add: pool_ok_def ramp_bounds_def alive_slots_def)
  then have "absorb_open m ?c = Some c' \<Longrightarrow> pool_ok (cap_limit cfg) c'" for c'
    using pool_le_absorb pool_le_ok by blast
  moreover have "pool_ok (cap_limit cfg) (c\<lparr>tdb := d'\<rparr>)" for d'
    using assms(1) by (simp add: pool_ok_def alive_slots_def)
  ultimately show ?thesis
    using assms EvRangeVerdict by (auto simp: coord_handle_def on_range_verdict_def split: if_splits)
next
  case (EvProactive ok)
  then show ?thesis using assms(2) pool_le_ok[OF pool_le_proactive assms(1)] by (auto simp: coord_handle_def)
next
  case (EvRamp t)
  then show ?thesis using assms(2) pool_ok_ramp_tick[OF assms(1), of t] by (auto simp: coord_handle_def)
qed (use assms in \<open>auto simp: coord_handle_def flush_durable_def pool_ok_def alive_slots_def\<close>)

lemma coord_reach_pool:
  "coord_reach cfg c0 c \<Longrightarrow> pool_ok (cap_limit cfg) c0 \<Longrightarrow> pool_ok (cap_limit cfg) c"
proof (induction rule: coord_reach.induct)
  case (step c ev c')
  then show ?case using coord_handle_pool[of cfg c ev "(c', Continue)"] by simp
qed simp

section \<open>Size expansions\<close>

text \<open>The planned size never shrinks, and grows at most \<open>max_size_expansions\<close> times.\<close>

definition grows :: "coord \<Rightarrow> coord \<Rightarrow> bool" where
  "grows c c' \<longleftrightarrow>
     (effective c' = effective c \<and> expansions c' = expansions c)
     \<or> (effective c < effective c' \<and> expansions c' = expansions c + 1 \<and> expansions c < max_size_expansions)"

lemma grows_step [simp]:
  "effective (reclaim i c) = effective c" "expansions (reclaim i c) = expansions c"
  "effective (clear_open i c) = effective c" "expansions (clear_open i c) = expansions c"
  "effective (sync_shared c) = effective c" "expansions (sync_shared c) = expansions c"
  "effective (rebuild_shared c) = effective c" "expansions (rebuild_shared c) = expansions c"
  "effective (persist_change ok i par c) = effective c" "expansions (persist_change ok i par c) = expansions c"
  "effective (resample t c) = effective c" "expansions (resample t c) = expansions c"
  "effective (hand_out ok w c) = effective c" "expansions (hand_out ok w c) = expansions c"
  "effective (retire wid c) = effective c" "expansions (retire wid c) = expansions c"
  "effective (close_slots c) = effective c" "expansions (close_slots c) = expansions c"
  by (auto simp: reclaim_def clear_open_def sync_shared_def rebuild_shared_def persist_change_def
      resample_def hand_out_def retire_def close_slots_def split: option.split)

lemma flush_frame:
  "effective (flush_durable cfg ok p c) = effective c" "segs (flush_durable cfg ok p c) = segs c"
  "shared (flush_durable cfg ok p c) = shared c"
  by (simp_all add: flush_durable_def)

lemma grows_take:
  "take_work c = (nw, c1) \<Longrightarrow> effective c1 = effective c \<and> expansions c1 = expansions c"
  "take_pending c = (nw, c1) \<Longrightarrow> effective c1 = effective c \<and> expansions c1 = expansions c"
  "try_split k c = (nw, c1) \<Longrightarrow> effective c1 = effective c \<and> expansions c1 = expansions c"
  by (auto simp: take_work_def take_pending_def try_split_def split: prod.splits)

lemma grows_assign:
  "effective (assign_after_done ok send w c) = effective c \<and> expansions (assign_after_done ok send w c) = expansions c"
proof -
  obtain nw c1 where n: "next_after_done c = (nw, c1)" by (cases "next_after_done c")
  then have "effective c1 = effective c \<and> expansions c1 = expansions c"
    by (auto simp: next_after_done_def dest: grows_take split: if_splits)
  then show ?thesis using n by (cases nw) (auto simp: assign_after_done_def Let_def)
qed

lemma grows_redispatch:
  "effective (redispatch cdn ok send w c) = effective c \<and> expansions (redispatch cdn ok send w c) = expansions c"
proof -
  obtain nw c1 where n: "redispatch_work c = (nw, c1)" by (cases "redispatch_work c")
  then have "effective c1 = effective c \<and> expansions c1 = expansions c"
    by (auto simp: redispatch_work_def dest: grows_take split: if_splits prod.splits option.splits)
  then show ?thesis using n by (cases nw) (auto simp: redispatch_def Let_def)
qed

lemma grows_on_done: "grows c (fst (on_done ob w i dl c))"
proof -
  obtain c1 child where m: "mark_done i dl (clear_open i c) = (c1, child)"
    by (cases "mark_done i dl (clear_open i c)")
  then have "effective c1 = effective c \<and> expansions c1 = expansions c"
    by (auto simp: mark_done_def Let_def split: option.splits if_splits)
  then show ?thesis
    using m by (auto simp: on_done_def Let_def grows_def grows_assign record_shortfall_def split: option.splits)
qed

lemma grows_absorb: "absorb_open ok c = Some c' \<Longrightarrow> effective c' = effective c \<and> expansions c' = expansions c"
  by (auto simp: absorb_open_def)

lemma grows_size_larger: "grows c (fst (on_size_larger cfg ob w i n c))"
  by (auto simp: on_size_larger_def Let_def grows_def grows_redispatch abort_workers_def expand_total_def)

lemma grows_failed:
  assumes "on_failed cfg ob w i e c = Some r"
  shows "grows c (fst r)"
proof -
  have rej: "grows c (fst r')" if r': "on_rejection ob w i e (clear_open i c) = Some r'" for r'
  proof -
    obtain c1 where c1: "absorb_open (o_merge ob) (reclaim i (degrade ob e (clear_open i c))) = Some c1"
      using r' by (auto simp: on_rejection_def)
    have "effective (degrade ob e c2) = effective c2 \<and> expansions (degrade ob e c2) = expansions c2" for c2
      by (simp add: degrade_def Let_def split: prod.split)
    then show ?thesis
      using r' c1 grows_absorb[OF c1] by (auto simp: on_rejection_def Let_def grows_def split: if_splits)
  qed
  show ?thesis
  proof (cases e)
    case (TrueSizeLarger n)
    then show ?thesis
      using assms grows_size_larger[of "clear_open i c" cfg ob w i n] by (auto simp: on_failed_def grows_def)
  next
    case CdnNodeFailed
    then show ?thesis using assms by (auto simp: on_failed_def grows_def grows_redispatch)
  qed (use assms rej in \<open>auto simp: on_failed_def Let_def abort_workers_def grows_def split: if_splits\<close>)
qed

lemma grows_proactive: "grows c (proactive_tick ok c)"
proof -
  obtain w c1 where s: "try_split (min_split (sync_shared c)) (sync_shared c) = (w, c1)"
    by (cases "try_split (min_split (sync_shared c)) (sync_shared c)")
  obtain w2 c2 where s2: "try_split tail_min_split_bytes c1 = (w2, c2)" by (cases "try_split tail_min_split_bytes c1")
  show ?thesis
    using grows_take(3)[OF s] grows_take(3)[OF s2] s s2
    by (cases w; cases w2) (auto simp: proactive_tick_def Let_def grows_def)
qed

lemma grows_refill:
  "effective (refill ok send k c) = effective c \<and> expansions (refill ok send k c) = expansions c"
proof (induction k arbitrary: c)
  case (Suc k)
  obtain w c1 where tw: "take_work (sync_shared c) = (w, c1)" by (cases "take_work (sync_shared c)")
  then show ?case using grows_take(1)[OF tw] Suc by (cases w) (auto simp: Let_def)
qed simp

lemma grows_ramp_tick: "grows c (fst (on_ramp_tick cfg t c))"
  by (auto simp: on_ramp_tick_def Let_def short_tick_def full_tick_def refill_slots_def
      reconcile_slots_def grows_def grows_refill split: prod.splits)

lemma coord_handle_grows:
  assumes "coord_handle cfg ev c = Some r"
  shows "grows c (fst r)"
proof (cases ev)
  case (EvDone ob w i dl)
  then show ?thesis using assms grows_on_done[of c ob w i dl] by (simp add: coord_handle_def)
next
  case (EvFailed ob w i e)
  then show ?thesis using assms grows_failed by (simp add: coord_handle_def)
next
  case (EvRangeVerdict d m supported)
  then show ?thesis
    using assms by (auto simp: coord_handle_def on_range_verdict_def grows_def dest!: grows_absorb split: if_splits)
next
  case (EvProactive ok)
  then show ?thesis using assms grows_proactive[of c ok] by (auto simp: coord_handle_def)
next
  case (EvRamp t)
  then show ?thesis using assms grows_ramp_tick[of c cfg t] by (auto simp: coord_handle_def)
qed (use assms in \<open>auto simp: coord_handle_def flush_durable_def grows_def split: if_splits\<close>)

lemma coord_reach_grows:
  assumes "coord_reach cfg c0 c" "expansions c0 \<le> max_size_expansions"
  shows "effective c0 \<le> effective c \<and> expansions c \<le> max_size_expansions
    \<and> (expansions c = expansions c0 \<longrightarrow> effective c = effective c0)
    \<and> expansions c0 \<le> expansions c"
  using assms
proof (induction rule: coord_reach.induct)
  case (step c ev c')
  have "grows c c'" using coord_handle_grows[OF step.hyps(3)] by simp
  then show ?case using step by (auto simp: grows_def)
qed simp

section \<open>The end of a download\<close>

lemma sum_list_eq_all:
  fixes f g :: "'a \<Rightarrow> int"
  assumes "\<And>x. x \<in> set xs \<Longrightarrow> f x \<le> g x" "(\<Sum>x\<leftarrow>xs. g x) \<le> (\<Sum>x\<leftarrow>xs. f x)" "x \<in> set xs"
  shows "f x = g x"
  using assms
proof (induction xs)
  case (Cons y ys)
  have "(\<Sum>x\<leftarrow>ys. f x) \<le> (\<Sum>x\<leftarrow>ys. g x)" using Cons.prems(1) by (intro sum_list_mono) auto
  then show ?case using Cons by fastforce
qed simp

text \<open>
  The sum check of the code is exact on a layout none of whose segments counts more than its
  size.
\<close>

lemma sum_check:
  assumes "sound m n t" "0 < t"
    and "\<And>s. s \<in> set (bt_values m) \<Longrightarrow> downloaded_bytes s \<le> seg_size s"
  shows "t \<le> (\<Sum>s\<leftarrow>bt_values m. downloaded_bytes s) \<longleftrightarrow>
    (\<forall>s \<in> set (bt_values m). downloaded_bytes s = seg_size s)"
proof
  have size: "(\<Sum>s\<leftarrow>bt_values m. seg_size s) = t"
    by (rule sum_downloaded_le(2)[OF soundD(1,2)[OF assms(1)] assms(2,3)])
  assume le: "t \<le> (\<Sum>s\<leftarrow>bt_values m. downloaded_bytes s)"
  show "\<forall>s \<in> set (bt_values m). downloaded_bytes s = seg_size s"
  proof
    fix s assume s: "s \<in> set (bt_values m)"
    show "downloaded_bytes s = seg_size s"
      by (rule sum_list_eq_all[OF assms(3) _ s]) (simp_all only: size le)
  qed
next
  have size: "(\<Sum>s\<leftarrow>bt_values m. seg_size s) = t"
    by (rule sum_downloaded_le(2)[OF soundD(1,2)[OF assms(1)] assms(2,3)])
  assume "\<forall>s \<in> set (bt_values m). downloaded_bytes s = seg_size s"
  then have "(\<Sum>s\<leftarrow>bt_values m. downloaded_bytes s) = (\<Sum>s\<leftarrow>bt_values m. seg_size s)"
    by (intro arg_cong[of _ _ sum_list] map_cong) blast+
  then show "t \<le> (\<Sum>s\<leftarrow>bt_values m. downloaded_bytes s)" by (simp only: size)
qed

lemma conclude_None:
  fixes cfg db_ok pending c
  assumes "coord_ok c"
  defines "c1 \<equiv> sync_shared (flush_durable cfg db_ok pending c)"
  assumes "\<And>s. s \<in> set (bt_values (segs c1)) \<Longrightarrow> downloaded_bytes s \<le> seg_size s"
  shows "snd (conclude cfg db_ok pending fl None c) =
    (if \<forall>s \<in> set (bt_values (segs c1)). downloaded_bytes s = seg_size s
     then Inr (effective c) else Inl Other)"
    and "segs (fst (conclude cfg db_ok pending fl None c)) = segs c1"
proof -
  have ok: "coord_ok c1" using assms(1) by (simp add: c1_def)
  have eff: "effective (flush_durable cfg db_ok pending c) = effective c" "effective c1 = effective c"
    by (simp_all add: c1_def flush_durable_def)
  have t: "0 < effective c1" using ok by (simp add: coord_ok_def)
  note snd = coord_okD(1)[OF ok]
  have v: "validate_coverage (segs c1) (effective c1) = Inr ()"
    by (rule sum_downloaded_le(3)[OF soundD(1,2)[OF snd] t assms(3)])
  have sc: "effective c1 \<le> (\<Sum>s\<leftarrow>bt_values (segs c1). downloaded_bytes s) \<longleftrightarrow>
      (\<forall>s \<in> set (bt_values (segs c1)). downloaded_bytes s = seg_size s)"
    by (rule sum_check[OF snd t assms(3)])
  show "snd (conclude cfg db_ok pending fl None c) =
    (if \<forall>s \<in> set (bt_values (segs c1)). downloaded_bytes s = seg_size s
     then Inr (effective c) else Inl Other)"
    using v sc by (auto simp: conclude_def Let_def eff not_less[symmetric] simp flip: c1_def)
  show "segs (fst (conclude cfg db_ok pending fl None c)) = segs c1"
    using v by (simp add: conclude_def Let_def flip: c1_def)
qed

text \<open>When every segment is completed the workers' cells do not matter any more.\<close>

lemma all_done_bounded:
  assumes "coord_ok c" "all_done (segs c)" "s \<in> set (bt_values (segs (sync_shared (flush_durable cfg ok p c))))"
  shows "downloaded_bytes s \<le> seg_size s" "s \<in> set (bt_values (segs c))"
proof -
  have wf: "bt_wf (segs c)" using sound_wf[OF coord_okD(1)[OF assms(1)]] .
  have done_st: "lstate s' = Completed" if "bt_get (segs c) k = Some s'" for k s'
  proof -
    have "(k, s') \<in> set (segs c)" using that wf by (simp add: bt.in_entries)
    then show ?thesis using assms(2) by (force simp: all_done_def list_all_iff bt_values_def)
  qed
  let ?c = "flush_durable cfg ok p c"
  have seg: "segs ?c = segs c" "shared ?c = shared c" by (simp_all add: flush_durable_def)
  have "coord_ok (sync_shared ?c)" using assms(1) by simp
  then have get: "bt_get (segs (sync_shared ?c)) (index s) = Some s"
    using assms(3) layout_values[OF coord_okD(3)] by blast
  have "bt_get (segs (sync_shared ?c)) k = bt_get (segs c) k" for k
    using sync_get[OF wf, of "shared c"] done_st
    by (auto simp: sync_shared_def seg split: option.split)
  then have s: "bt_get (segs c) (index s) = Some s" using get by simp
  then show "s \<in> set (bt_values (segs c))" using layout_values[OF coord_okD(3)[OF assms(1)]] by blast
  show "downloaded_bytes s \<le> seg_size s"
    using soundD(3)[OF coord_okD(1)[OF assms(1)]] s done_st[OF s] by (simp add: done_ok_def)
qed

text \<open>Leaving the loop keeps the invariant.\<close>

lemma coord_exit_ok:
  assumes "coord_exit cfg c0 c e" "coord_ok c0"
  shows "coord_ok c"
  using assms
proof (cases rule: coord_exit.cases)
  case (1 c1 ev)
  then show ?thesis using coord_handle_ok[OF coord_reach_ok[OF 1(1) assms(2)] 1(2), of cfg] by fastforce
qed

lemma on_done_stop:
  assumes "on_done ob w i dl c = (c', Stop e)"
  shows "e = None \<and> all_done (segs c')"
  using assms by (auto simp: on_done_def Let_def close_slots_def split: prod.splits if_splits)

text \<open>A successful verdict after the loop: the layout is exact and every segment is full.\<close>

lemma finished_layout:
  assumes "coord_exit cfg c0 c e" "coord_ok c0" "all_done (segs c)"
    and "conclude cfg db_ok pending flush_ok e c = (c', Inr k)"
  shows "k = effective c \<and> exact_cover (segs c') k
    \<and> (\<forall>s \<in> set (bt_values (segs c')). downloaded_bytes s = seg_size s)"
proof -
  have ok: "coord_ok c" by (rule coord_exit_ok[OF assms(1,2)])
  have e: "e = None" using assms(4) by (auto simp: conclude_def Let_def split: option.splits)
  let ?c1 = "sync_shared (flush_durable cfg db_ok pending c)"
  have b: "downloaded_bytes s \<le> seg_size s" if "s \<in> set (bt_values (segs ?c1))" for s
    by (rule all_done_bounded(1)[OF ok assms(3) that])
  have f: "snd (conclude cfg db_ok pending flush_ok None c) =
      (if \<forall>s \<in> set (bt_values (segs ?c1)). downloaded_bytes s = seg_size s then Inr (effective c) else Inl Other)"
    "segs (fst (conclude cfg db_ok pending flush_ok None c)) = segs ?c1"
    by (rule conclude_None[OF ok], erule b)+
  have "k = effective c \<and> (\<forall>s \<in> set (bt_values (segs ?c1)). downloaded_bytes s = seg_size s)"
    using f(1) assms(4) e by (simp split: if_splits)
  moreover have "segs c' = segs ?c1" using f(2) assms(4) e by simp
  moreover have "exact_cover (segs ?c1) (effective c)"
    using soundD(2)[OF coord_okD(1)[of ?c1]] ok by (simp add: flush_frame)
  ultimately show ?thesis by simp
qed

end
