(* ===== verification/Download_Props.thy ===== *)
theory Download_Props
  imports Coordinator_Final
begin

text \<open>
  The properties of one coordinated download: layout, work assignment, event loop, resume and
  final verdict.  A small concrete download serves the witnesses.
\<close>

section \<open>A concrete download\<close>

definition demo_pin :: plan_in where
  "demo_pin = \<lparr> total_in = 10, count_in = 2, estimate = False, strict_total = False, owns_total = True,
     file_len = 10, gen_in = 7, epoch_ok = True, load_ok = True, insert_ok = True, delete_ok = True,
     total_ok = True, reset_ok = True, alloc_ok = True \<rparr>"

definition demo_db :: task_db where
  "demo_db = \<lparr> rows = [], task_total = 10, task_downloaded = 0, segments_epoch = 0, range_verified = False \<rparr>"

definition demo_cfg :: task_cfg where
  "demo_cfg = \<lparr> owns_task_total = True, cap_limit = 2, cfg_hint = None, spawn_gen = 7 \<rparr>"

definition demo_obs :: obs where
  "demo_obs = \<lparr> o_downloaded = 5, o_window = None, o_persist1 = True, o_persist2 = True,
     o_merge = True, o_prealloc = True, o_send = True, o_active_response = True \<rparr>"

definition demo_plan :: layout_plan where
  "demo_plan = \<lparr> p_segs = [(0, \<lparr> index = 0, start_byte = 0, end_byte = 4, downloaded_bytes = 0, lstate = Pending \<rparr>),
       (1, \<lparr> index = 1, start_byte = 5, end_byte = 9, downloaded_bytes = 0, lstate = Pending \<rparr>)],
     p_next = 2, p_effective = 10 \<rparr>"

definition demo_rows :: task_db where
  "demo_rows = \<lparr> rows = [(0, \<lparr> r_start = 0, r_end = 4, r_downloaded = 0 \<rparr>),
       (1, \<lparr> r_start = 5, r_end = 9, r_downloaded = 0 \<rparr>)],
     task_total = 10, task_downloaded = 0, segments_epoch = 7, range_verified = False \<rparr>"

definition demo_start :: coord where "demo_start = start_coord demo_pin 2 demo_plan demo_rows"

lemma demo_plan_eq: "plan_layout demo_pin demo_db = Some (demo_rows, Inr demo_plan)"
  by (simp add: plan_layout_def demo_pin_def demo_db_def demo_rows_def demo_plan_def Let_def
      clamp_count_def load_layout_def load_segments_def set_segments_epoch_def fresh_layout_def
      build_fresh_segments_def upto.simps fresh_segment_def insert_segments_def and_then_def
      check_layout_def validate_coverage_def bt_values_def seg_size_def check_file_def sdiv_nonneg)

lemma demo_rows_ok: "rows_ok demo_db" "\<not> stale_size demo_pin demo_db"
  by (simp_all add: rows_ok_def demo_db_def bt_wf_def stale_size_def)

definition demo_mid :: coord where "demo_mid = fst (on_done demo_obs 0 0 5 demo_start)"
definition demo_end :: coord where "demo_end = fst (on_done demo_obs 0 1 5 demo_mid)"

lemma demo_step1: "coord_handle demo_cfg (EvDone demo_obs 0 0 5) demo_start = Some (demo_mid, Continue)"
  by code_simp

lemma demo_step2: "coord_handle demo_cfg (EvDone demo_obs 0 1 5) demo_mid = Some (demo_end, Stop None)"
  by code_simp

lemma demo_events: "good_event (EvDone demo_obs 0 i 5)" "db_event (EvDone demo_obs 0 i 5)"
  by (simp_all add: good_event_def db_event_def demo_obs_def)

lemma demo_live: "live demo_start"
proof -
  have "sound (p_segs demo_plan) (p_next demo_plan) (p_effective demo_plan) \<and> mirrors (p_segs demo_plan) demo_rows"
    by (rule plan_layout_sound[OF demo_plan_eq _ demo_rows_ok]) (simp add: demo_pin_def)
  then show ?thesis unfolding demo_start_def by (intro start_live) (simp_all add: demo_plan_def)
qed

lemma demo_reach: "coord_reach demo_cfg demo_start demo_mid"
  by (rule coord_reach.step[OF coord_reach.init demo_events(1) demo_step1])

lemma demo_db_reach: "db_reach demo_cfg demo_start demo_mid"
  by (rule db_reach.step[OF db_reach.init demo_events demo_step1])

lemma demo_exit: "coord_exit demo_cfg demo_start demo_end None"
  by (rule coord_exit.intros[OF demo_reach demo_events(1) demo_step2])

section \<open>The verdict\<close>

text \<open>
  C3.  A download that leaves its event loop with every segment completed and then passes the
  final verification really holds every byte: the result is the planned size, the segments cover
  exactly that many bytes, and each of them has been downloaded in full.  The workers' own
  progress counters cannot disturb this.
\<close>

theorem finished_download_complete:
  assumes "coord_exit cfg c0 c e" "coord_ok c0" "all_done (segs c)"
    and "conclude cfg db_ok pending flush_ok e c = (c', Inr k)"
  shows "k = effective c \<and> exact_cover (segs c') k
    \<and> (\<forall>s \<in> set (bt_values (segs c')). downloaded_bytes s = seg_size s)"
  using assms by (rule finished_layout)

lemma finished_download_complete_witness:
  "snd (conclude demo_cfg True [] True None demo_end) = Inr 10
   \<and> exact_cover (segs (fst (conclude demo_cfg True [] True None demo_end))) 10"
proof -
  have a: "all_done (segs demo_end)" by code_simp
  have r: "conclude demo_cfg True [] True None demo_end
      = (fst (conclude demo_cfg True [] True None demo_end), Inr 10)" by code_simp
  have ok: "coord_ok demo_start" using demo_live by (simp add: live_def)
  show ?thesis using finished_download_complete[OF demo_exit ok a r] r by (metis snd_conv)
qed

text \<open>
  The final verification raises no false alarm: when the loop ends with every segment
  completed, the verdict is success exactly if each segment is full, and an error otherwise.
\<close>

theorem verdict_exact:
  assumes "coord_ok c" "all_done (segs c)"
  shows "snd (conclude cfg db_ok pending flush_ok None c) =
    (if \<forall>s \<in> set (bt_values (segs c)). downloaded_bytes s = seg_size s
     then Inr (effective c) else Inl Other)"
proof -
  let ?c1 = "sync_shared (flush_durable cfg db_ok pending c)"
  have b: "downloaded_bytes s \<le> seg_size s" if "s \<in> set (bt_values (segs ?c1))" for s
    by (rule all_done_bounded(1)[OF assms that])
  have f: "snd (conclude cfg db_ok pending flush_ok None c) =
      (if \<forall>s \<in> set (bt_values (segs ?c1)). downloaded_bytes s = seg_size s then Inr (effective c) else Inl Other)"
    by (rule conclude_None(1)[OF assms(1)], erule b)
  have wf: "bt_wf (segs c)" using sound_wf[OF coord_okD(1)[OF assms(1)]] .
  have "bt_get (segs ?c1) k = bt_get (segs c) k" for k
    using sync_get[OF wf, of "shared c"] assms(2) wf
    by (auto simp: sync_shared_def flush_durable_def all_done_def list_all_iff bt_values_def
        bt_get_map_of split: option.split dest!: map_of_SomeD)
  then have "s \<in> set (bt_values (segs ?c1)) \<longleftrightarrow> s \<in> set (bt_values (segs c))" for s
    using layout_values[OF coord_okD(3)[of ?c1]] layout_values[OF coord_okD(3)[OF assms(1)]] assms(1) by simp
  then show ?thesis using f by (simp add: Ball_def)
qed

lemma verdict_exact_witness: "snd (conclude demo_cfg True [(0, 5)] True None demo_end) = Inr 10"
proof -
  have ok: "coord_ok demo_end" using coord_exit_ok[OF demo_exit] demo_live by (simp add: live_def)
  have a: "all_done (segs demo_end)" by code_simp
  have "\<forall>s \<in> set (bt_values (segs demo_end)). downloaded_bytes s = seg_size s" by code_simp
  moreover have "effective demo_end = 10" by code_simp
  ultimately show ?thesis using verdict_exact[OF ok a, of demo_cfg True "[(0, 5)]" True] by simp
qed

section \<open>Runs\<close>

text \<open>
  C5.  Whatever the workers report and in whatever order, every state of the event loop keeps the
  segments an exact partition of the planned bytes, and no handler loses, duplicates or empties a
  segment.
\<close>

theorem loop_keeps_cover:
  assumes "coord_reach cfg c0 c" "coord_ok c0"
  shows "exact_cover (segs c) (effective c) \<and> layout_ok (segs c) (next_ix c)
    \<and> validate_coverage (segs c) (effective c) = Inr ()"
proof -
  have ok: "coord_ok c" by (rule coord_reach_ok[OF assms])
  then have "cover_count (segs c) 0 = 1" by (simp add: coord_ok_def sound_def exact_cover_def)
  then have "segs c \<noteq> []" by (auto simp: cover_count_def)
  then show ?thesis using ok validate_complete by (auto simp: coord_ok_def sound_def)
qed

lemma loop_keeps_cover_witness: "validate_coverage (segs demo_mid) (effective demo_mid) = Inr ()"
  using loop_keeps_cover[OF demo_reach] demo_live by (simp add: live_def)

text \<open>
  C15.  No handler of the event loop hangs: in every reachable state every event is handled,
  including the absorption loop over pending segments, which nothing bounds in the code.
\<close>

theorem handlers_return:
  assumes "coord_reach cfg c0 c" "coord_ok c0" "good_event ev"
  shows "\<exists>c' ex. coord_handle cfg ev c = Some (c', ex) \<and> coord_ok c'"
  using coord_handle_ok[OF coord_reach_ok[OF assms(1,2)] assms(3), of cfg] by (metis prod.collapse)

lemma handlers_return_witness:
  "\<exists>c' ex. coord_handle demo_cfg (EvFailed demo_obs 0 1 (Request (Some 403))) demo_mid = Some (c', ex) \<and> coord_ok c'"
  by (rule handlers_return[OF demo_reach]) (use demo_live in \<open>simp_all add: live_def good_event_def\<close>)

text \<open>
  C7.  Crash safety.  While the database accepts the coordinator's writes, the stored segment
  rows hold exactly the byte ranges of the live layout after every handler; a process killed at
  that point, started again with the same file size, restores the same byte ranges and the same
  planned size.
\<close>

theorem crash_restores_layout:
  assumes "db_reach cfg c0 c" "live c0" "rows_ok (tdb c)"
    and "total_in pin = effective c" "1 \<le> count_in pin" "load_ok pin" "alloc_ok pin"
    and "effective c \<le> file_len pin"
  shows "\<exists>db p. plan_layout pin (tdb c) = Some (db, Inr p) \<and> p_effective p = effective c
    \<and> seg_range (p_segs p) = seg_range (segs c)"
  using plan_restores[OF db_reach_live[OF assms(1,2)] assms(3-)] by blast

lemma crash_restores_layout_witness:
  "\<exists>db p. plan_layout demo_pin (tdb demo_mid) = Some (db, Inr p) \<and> p_effective p = effective demo_mid
    \<and> seg_range (p_segs p) = seg_range (segs demo_mid)"
proof (rule crash_restores_layout[OF demo_db_reach demo_live])
  have "rows (tdb demo_mid) = [(0, \<lparr> r_start = 0, r_end = 4, r_downloaded = 0 \<rparr>),
      (1, \<lparr> r_start = 5, r_end = 9, r_downloaded = 0 \<rparr>)]" by code_simp
  then show "rows_ok (tdb demo_mid)" by (auto simp: rows_ok_def bt_wf_def row_size_def split: if_splits)
  have "effective demo_mid = 10" by code_simp
  then show "total_in demo_pin = effective demo_mid" "effective demo_mid \<le> file_len demo_pin"
    by (simp_all add: demo_pin_def)
qed (simp_all add: demo_pin_def)



text \<open>
  C36.  The excluded case is real.  When the recorded size is accepted as drift and the stored
  layout then fails the coverage check, the layout is rebuilt for the probed size but the planned
  size keeps the recorded, smaller value: the plan covers one size and is verified against
  another, so the coverage check that ends every run rejects it.
\<close>

theorem stale_size_mismatch:
  assumes "plan_layout pin db0 = Some (db, Inr p)" "count_in pin < 2 ^ 31" "stale_size pin db0"
  shows "p_effective p < total_in pin \<and> exact_cover (p_segs p) (total_in pin)
    \<and> validate_coverage (p_segs p) (p_effective p) \<noteq> Inr ()"
proof -
  define n where "n = clamp_count (count_in pin) (total_in pin)"
  define db1 where "db1 = (if epoch_ok pin then set_segments_epoch (gen_in pin) db0 else db0)"
  have in_ok: "0 < total_in pin" "1 \<le> count_in pin"
    using assms(1) by (auto simp: plan_layout_def split: if_splits)
  note n = clamp_count_bounds[OF in_ok(2) assms(2) in_ok(1), folded n_def]
  have rows: "rows db1 = rows db0" by (simp add: db1_def set_segments_epoch_def)
  obtain nx where rr: "restore_rows (rows db0) = (restored db0, nx)" by (metis prod.collapse restored_def)
  let ?t = "rows_total (restored db0) (total_in pin)"
  have st: "rows db0 \<noteq> []" "?t < total_in pin" "total_in pin - ?t \<le> drift_threshold (strict_total pin) ?t"
      "validate_coverage (restored db0) ?t \<noteq> Inr ()"
    using assms(3) by (simp_all add: stale_size_def Let_def)
  then obtain e where v: "validate_coverage (restored db0) ?t = Inl e"
    by (cases "validate_coverage (restored db0) ?t") auto
  have l: "load_layout pin n db1 = Some (write_total pin ?t db1,
      Inr \<lparr> p_segs = restored db0, p_next = nx, p_effective = ?t \<rparr>)"
    using st by (simp add: load_layout_def load_segments_def rows rr Let_def)
  from assms(1) obtain p2 db2 where
      c: "rebuild_layout pin n ?t (write_total pin ?t db1) = Some (db2, Inr p2)"
      and f: "check_file pin p2 db2 = Some (db, Inr p)"
    using in_ok l v
    by (auto simp: plan_layout_def Let_def check_layout_def simp flip: n_def db1_def
        elim!: and_then_Inr split: if_splits)
  note r = rebuild_layout_result[OF c n(2)]
  have p: "p_effective p = ?t \<and> sound (p_segs p) (p_next p) (total_in pin)"
    using f r sound_reset[of "p_segs p2" "p_next p2" "total_in pin"]
    by (auto simp: check_file_def Let_def split: if_splits)
  moreover have "validate_coverage (p_segs p) ?t \<noteq> Inr ()"
  proof
    assume "validate_coverage (p_segs p) ?t = Inr ()"
    then have "exact_cover (p_segs p) ?t" by (rule validate_sound)
    moreover have "exact_cover (p_segs p) (total_in pin)" using p by (simp add: sound_def)
    ultimately show False using st(2) in_ok(1)
      by (auto simp: exact_cover_def dest!: spec[of _ "total_in pin - 1"])
  qed
  ultimately show ?thesis using st(2) by (simp add: sound_def)
qed

text \<open>A file of 1010 bytes on record, with a hole in its rows, probed as 1015 bytes.\<close>

definition drift_pin :: plan_in where "drift_pin = demo_pin\<lparr>total_in := 1015, count_in := 1\<rparr>"

definition drift_db :: task_db where
  "drift_db = demo_db\<lparr>rows := [(0, \<lparr> r_start = 0, r_end = 499, r_downloaded = 0 \<rparr>),
     (1, \<lparr> r_start = 510, r_end = 1009, r_downloaded = 0 \<rparr>)]\<rparr>"

lemma stale_size_mismatch_witness:
  "\<exists>db p. plan_layout drift_pin drift_db = Some (db, Inr p) \<and> p_effective p = 1010
    \<and> exact_cover (p_segs p) 1015 \<and> validate_coverage (p_segs p) 1010 \<noteq> Inr ()"
proof -
  have st: "stale_size drift_pin drift_db" by code_simp
  define r where "r = plan_layout drift_pin drift_db"
  have "(case r of Some (_, Inr p) \<Rightarrow> p_effective p = 1010 | _ \<Rightarrow> False)"
    unfolding r_def by code_simp
  then obtain db p where "r = Some (db, Inr p)" "p_effective p = 1010"
    by (auto split: option.splits prod.splits sum.splits)
  moreover have "count_in drift_pin < 2 ^ 31" "total_in drift_pin = 1015"
    by (simp_all add: drift_pin_def demo_pin_def)
  ultimately show ?thesis using stale_size_mismatch[of drift_pin drift_db db p, OF _ _ st] r_def by auto
qed

section \<open>Layout operations\<close>

text \<open>
  C19.  The coverage check decides the property it stands for: on a well-formed layout it accepts
  exactly the partitions of the file.
\<close>

theorem coverage_check_exact:
  assumes "layout_ok m n" "m \<noteq> []"
  shows "validate_coverage m t = Inr () \<longleftrightarrow> exact_cover m t"
  using validate_sound validate_complete[OF assms] by blast

lemma coverage_check_exact_witness: "exact_cover (p_segs demo_plan) 10"
proof -
  have l: "layout_ok (p_segs demo_plan) 2" by (simp add: demo_plan_def layout_ok_def bt_wf_def seg_ok_def)
  have v: "validate_coverage (p_segs demo_plan) 10 = Inr ()" by code_simp
  show ?thesis using coverage_check_exact[OF l] v by (simp add: demo_plan_def)
qed

text \<open>
  A fresh plan of \<open>n\<close> segments for a file of at least \<open>n\<close> bytes consists of exactly \<open>n\<close>
  non-empty segments with indices 0 to \<open>n - 1\<close> that partition the file, and the rows to insert are
  their ranges.
\<close>

theorem fresh_plan_partitions:
  assumes "1 \<le> n" "n \<le> t"
  shows "\<exists>m rs. build_fresh_segments n t = Some (m, rs) \<and> exact_cover m t \<and> layout_ok m n
    \<and> map fst m = [0..n - 1] \<and> rs = map (\<lambda>(k, s). (k, start_byte s, end_byte s)) m"
proof -
  obtain m rs where b: "build_fresh_segments n t = Some (m, rs)"
    using assms(1) by (simp add: build_fresh_segments_def Let_def)
  show ?thesis
    using b fresh_sound[OF b assms(2)] fresh_entries(2,3)[OF b] by (auto simp: sound_def o_def)
qed

lemma fresh_plan_partitions_witness: "\<exists>m rs. build_fresh_segments 3 10 = Some (m, rs) \<and> exact_cover m 10"
  using fresh_plan_partitions[of 3 10] by auto

text \<open>
  Splitting the largest active segment moves no byte out of the layout and touches none that
  is already downloaded: the new segment is non-empty, starts beyond the data its parent has, and
  ends where the parent ended, and the parent keeps a non-empty rest.
\<close>

theorem split_is_safe:
  assumes "layout_ok m n" "try_split_largest m n k = (Some w, m', n')"
  shows "\<exists>p c. bt_get m (the (split_parent w)) = Some p \<and> bt_get m' n = Some c \<and> n' = n + 1
    \<and> start_byte p + downloaded_bytes p < start_byte c \<and> start_byte c \<le> end_byte c
    \<and> end_byte c = end_byte p
    \<and> bt_get m' (the (split_parent w)) = Some (p\<lparr>end_byte := start_byte c - 1\<rparr>)
    \<and> (\<forall>b. cover_count m' b = cover_count m b)"
proof -
  have s: "split_at_midpoint Active m n k = (Some w, m', n')" using assms(2) by (simp add: try_split_largest_def)
  have wf: "bt_wf m" by (rule layout_ok_wf[OF assms(1)])
  show ?thesis
    using assms(1) s
  proof (cases rule: split_at_midpointE)
    case (split p)
    let ?c = "split_child Active p n"
    have ne: "index p \<noteq> n" using split(1,8) by auto
    have "start_byte p + downloaded_bytes p < start_byte ?c" "end_byte ?c = end_byte p"
      using split(5) by (simp_all add: split_child_def)
    moreover have "start_byte ?c \<le> end_byte ?c" using split(9) by (simp add: seg_ok_def)
    ultimately show ?thesis
      using split(1,7,11,12) ne split_preserves[OF assms(1) s]
      by (intro exI[of _ p] exI[of _ ?c]) (simp add: bt.get_put[OF bt_wf_adjust[OF wf]] bt.get_adj[OF wf])
  qed simp
qed

definition demo_active :: segments where
  "demo_active = [(0, \<lparr> index = 0, start_byte = 0, end_byte = 999999, downloaded_bytes = 400000, lstate = Active \<rparr>)]"

lemma split_is_safe_witness:
  "fst (try_split_largest demo_active 1 65536) \<noteq> None
   \<and> (\<forall>b. cover_count (fst (snd (try_split_largest demo_active 1 65536))) b = cover_count demo_active b)"
proof -
  have l: "layout_ok demo_active 1" by (simp add: demo_active_def layout_ok_def bt_wf_def seg_ok_def)
  have s: "fst (try_split_largest demo_active 1 65536) \<noteq> None" by code_simp
  then obtain w m' n' where "try_split_largest demo_active 1 65536 = (Some w, m', n')"
    by (metis not_Some_eq prod.collapse)
  then show ?thesis using s split_is_safe[OF l] by fastforce
qed

text \<open>
  C25.  A worker that asks for work gets a segment nobody is downloading, with the exact rest of
  its byte range; it is marked active, the layout keeps its cover, and no more than 64 unfinished
  segments come to exist.
\<close>

theorem work_is_exclusive:
  assumes "layout_ok m n" "find_next_work m n k = (Some w, m', n')" "live_count m \<le> max_segments"
  shows "fair_assignment m m' (assignment w) \<and> layout_ok m' n'
    \<and> (\<forall>b. cover_count m' b = cover_count m b) \<and> live_count m' \<le> max_segments"
  using find_next_work_fair[OF assms(1,2)] find_next_work_preserves[OF assms(1,2)]
    find_next_work_live[OF assms] by blast

lemma work_is_exclusive_witness:
  "fair_assignment (p_segs demo_plan) (fst (snd (find_next_work (p_segs demo_plan) 2 65536)))
     (pending_assignment (snd (hd (p_segs demo_plan))))"
proof -
  have l: "layout_ok (p_segs demo_plan) 2" by (simp add: demo_plan_def layout_ok_def bt_wf_def seg_ok_def)
  have c: "live_count (p_segs demo_plan) \<le> max_segments" by code_simp
  have f: "find_next_work (p_segs demo_plan) 2 65536 =
      (Some \<lparr> assignment = pending_assignment (snd (hd (p_segs demo_plan))), split_parent = None \<rparr>,
       snd (find_next_work (p_segs demo_plan) 2 65536))"
    by (simp add: find_next_work_def demo_plan_def bt_values_def)
  obtain m' n' where r: "snd (find_next_work (p_segs demo_plan) 2 65536) = (m', n')"
    by (cases "snd (find_next_work (p_segs demo_plan) 2 65536)")
  show ?thesis using work_is_exclusive[OF l f[unfolded r] c] r by simp
qed

text \<open>
  Work is refused only when there is none: nothing is pending, and either 64 segments are
  unfinished or no active segment is large enough to be worth a split, at the current threshold
  or, for stragglers, at the 64 KiB threshold of the tail.
\<close>

theorem work_refused_iff:
  assumes "layout_ok m n" "2 \<le> k"
  shows "fst (find_next_work m n k) = None \<longleftrightarrow>
    (\<forall>s \<in> set (bt_values m). lstate s \<noteq> Pending) \<and>
    (max_segments \<le> live_count m \<or>
     (\<forall>s \<in> set (bt_values m). lstate s = Active \<longrightarrow>
        seg_remaining s < (if tail_min_split_bytes < k then min k (2 * tail_min_split_bytes) else k)))"
proof (cases "find (\<lambda>s. lstate s = Pending) (bt_values m)")
  case (Some s)
  then have "\<exists>s \<in> set (bt_values m). lstate s = Pending"
    by (metis (mono_tags, lifting) find_Some_iff nth_mem)
  then show ?thesis using Some by (auto simp: find_next_work_def)
next
  case None
  then have np: "\<forall>s \<in> set (bt_values m). lstate s \<noteq> Pending" by (simp add: find_None_iff)
  have t: "2 \<le> tail_min_split_bytes" "0 < 2 * tail_min_split_bytes" by (simp_all add: tail_min_split_bytes_def)
  note n1 = split_None_iff[OF assms, of Active, folded try_split_largest_def]
  note n2 = split_None_iff[OF assms(1) t(1), of Active, folded try_split_largest_def]
  note mx = max_active_remaining_less[OF t(2), of m]
  have eq: "fst (find_next_work m n k) = None \<longleftrightarrow>
      fst (try_split_largest m n k) = None \<and>
      (tail_min_split_bytes < k \<longrightarrow> max_active_remaining m < 2 * tail_min_split_bytes
         \<or> fst (try_split_largest m n tail_min_split_bytes) = None)"
  proof (cases "try_split_largest m n k")
    case (fields w r)
    then show ?thesis using None by (cases w) (auto simp: find_next_work_def)
  qed
  let ?A = "max_segments \<le> live_count m"
  let ?R = "\<lambda>x. \<forall>s \<in> set (bt_values m). lstate s = Active \<longrightarrow> seg_remaining s < x"
  have mono: "?R tail_min_split_bytes \<Longrightarrow> ?R (2 * tail_min_split_bytes)" using t by fastforce
  have min: "?R (min k (2 * tail_min_split_bytes)) \<longleftrightarrow> ?R k \<and> ?R (2 * tail_min_split_bytes)"
    by (auto simp: min_less_iff_conj)
  have r1: "fst (find_next_work m n k) = None \<longleftrightarrow>
      (?A \<or> ?R k) \<and> (tail_min_split_bytes < k \<longrightarrow>
        ?R (2 * tail_min_split_bytes) \<or> ?A \<or> ?R tail_min_split_bytes)"
    unfolding eq n1 n2 mx ..
  show ?thesis
  proof (cases "tail_min_split_bytes < k")
    case True
    have "fst (find_next_work m n k) = None \<longleftrightarrow> ?A \<or> ?R (min k (2 * tail_min_split_bytes))"
      unfolding r1 min using mono True by blast
    then show ?thesis using np True by simp
  next
    case False
    then have "fst (find_next_work m n k) = None \<longleftrightarrow> ?A \<or> ?R k" unfolding r1 by blast
    then show ?thesis using np False by simp
  qed
qed

lemma work_refused_iff_witness: "fst (find_next_work demo_active 1 1000000) \<noteq> None"
proof -
  have l: "layout_ok demo_active 1" by (simp add: demo_active_def layout_ok_def bt_wf_def seg_ok_def)
  have "\<not> max_segments \<le> live_count demo_active" by code_simp
  then show ?thesis
    using work_refused_iff[OF l, of 1000000]
    by (simp add: demo_active_def bt_values_def seg_remaining_def seg_size_def tail_min_split_bytes_def)
qed

text \<open>
  Absorbing pending segments into an open-ended stream always terminates, keeps the layout
  well formed and every byte covered as often as before, so the segments it removes are exactly
  the bytes it adds to the stream's segment.
\<close>

theorem absorb_keeps_bytes:
  assumes "layout_ok m n"
  shows "\<exists>k m' ps' h'. absorb_pending_into_open_stream ok m ps op h = Some (k, m', ps', h')
    \<and> layout_ok m' n \<and> (\<forall>b. cover_count m' b = cover_count m b)"
proof -
  obtain k m' ps' h' where a: "absorb_pending_into_open_stream ok m ps op h = Some (k, m', ps', h')"
    using absorb_total[OF assms, of ok ps op h] by auto
  then show ?thesis using absorb_spec[OF assms a] by blast
qed

definition demo_open :: segments where
  "demo_open = bt_adjust 0 (set_state Active) (p_segs demo_plan)"

lemma absorb_keeps_bytes_witness:
  "\<exists>k m' ps' h'. absorb_pending_into_open_stream True demo_open [] (Some 0) False = Some (k, m', ps', h')
    \<and> (\<forall>b. cover_count m' b = cover_count demo_open b)"
proof -
  have "layout_ok demo_open 2"
    by (simp add: demo_open_def demo_plan_def layout_ok_def bt_wf_def seg_ok_def bt_adjust_def set_state_def)
  from absorb_keeps_bytes[OF this] show ?thesis by blast
qed

text \<open>
  Workers and coordinator share the progress vector without losing updates: the
  coordinator's rebuild, which may change the ranges, keeps a worker's progress report, in either
  order of the two writes.
\<close>

theorem progress_survives_rebuild:
  assumes "distinct (map pi_index ps)" "i \<in> pi_index ` set ps"
  shows "rebuild_seg_states m (update_seg_state ps i d)
    = map (\<lambda>p. if pi_index p = i then p\<lparr>pi_downloaded := d\<rparr> else p) (rebuild_seg_states m ps)"
proof -
  define f where "f = (\<lambda>ps :: progress_info list. map_of (rev (map (\<lambda>s. (pi_index s, pi_downloaded s)) ps)))"
  have up: "f (update_seg_state ps i d) = (f ps)(i \<mapsto> d)"
    using watermark_update[OF assms] by (simp add: f_def)
  have reb: "rebuild_seg_states m qs =
      map (\<lambda>s. case f qs (pi_index s) of None \<Rightarrow> s | Some dl \<Rightarrow> s\<lparr>pi_downloaded := dl\<rparr>) (build_seg_state_vec m)" for qs
    by (simp add: rebuild_seg_states_def Let_def f_def)
  show ?thesis unfolding reb up by (auto split: option.split)
qed

lemma progress_survives_rebuild_witness:
  "rebuild_seg_states demo_open (update_seg_state (build_seg_state_vec demo_open) 1 3)
    = map (\<lambda>p. if pi_index p = 1 then p\<lparr>pi_downloaded := 3\<rparr> else p)
        (rebuild_seg_states demo_open (build_seg_state_vec demo_open))"
  by (rule progress_survives_rebuild)
    (simp_all add: demo_open_def demo_plan_def build_seg_state_vec_def bt_values_def bt_adjust_def set_state_def)

text \<open>
  The periodic flush never loses durable progress: a row that was within its size stays
  within it, its progress does not go down, and its byte range and those of all other rows are
  untouched.
\<close>

theorem flush_is_monotone:
  assumes "bt_wf (rows db)" "bt_get (rows db) k = Some r" "r_downloaded r \<le> row_size r"
  shows "\<exists>r'. bt_get (rows (update_segments_progress_batch ep ps db)) k = Some r'
    \<and> r_start r' = r_start r \<and> r_end r' = r_end r
    \<and> r_downloaded r \<le> r_downloaded r' \<and> r_downloaded r' \<le> row_size r'"
  using assms unfolding update_segments_progress_batch_def
proof (induction ps arbitrary: db r)
  case (Cons p ps)
  obtain i dl st where p: "p = (i, dl, st)" by (cases p)
  have wf: "bt_wf (rows (batch_row ep p db))" using Cons.prems(1) by (auto simp: batch_row_def p bt_wf_adjust)
  define g where "g = (\<lambda>r. if r_start r \<noteq> st then r
    else r\<lparr>r_downloaded := (if row_size r < dl then row_size r
             else if dl < r_downloaded r then r_downloaded r else dl)\<rparr>)"
  have "bt_get (rows (batch_row ep p db)) k = Some (if segments_epoch db = ep \<and> k = i then g r else r)"
    using Cons.prems(1,2) by (auto simp: batch_row_def p bt.get_adj g_def)
  moreover have "r_start (g r) = r_start r \<and> r_end (g r) = r_end r
      \<and> r_downloaded r \<le> r_downloaded (g r) \<and> r_downloaded (g r) \<le> row_size (g r)"
    using Cons.prems(3) by (auto simp: g_def row_size_def)
  ultimately have "\<exists>r'. bt_get (rows (batch_row ep p db)) k = Some r' \<and> r_start r' = r_start r \<and> r_end r' = r_end r
      \<and> r_downloaded r \<le> r_downloaded r' \<and> r_downloaded r' \<le> row_size r'"
    using Cons.prems(3) by simp
  then obtain r' where r': "bt_get (rows (batch_row ep p db)) k = Some r'" "r_start r' = r_start r"
      "r_end r' = r_end r" "r_downloaded r \<le> r_downloaded r'" "r_downloaded r' \<le> row_size r'" by blast
  from Cons.IH[OF wf r'(1,5)] show ?case using r' by fastforce
qed simp

lemma flush_is_monotone_witness:
  "\<exists>r'. bt_get (rows (update_segments_progress_batch 7 [(0, 9, 0), (0, 2, 0)] demo_rows)) 0 = Some r'
    \<and> r_start r' = 0 \<and> r_end r' = 4 \<and> 0 \<le> r_downloaded r' \<and> r_downloaded r' \<le> row_size r'"
  using flush_is_monotone[of demo_rows 0 "\<lparr> r_start = 0, r_end = 4, r_downloaded = 0 \<rparr>" 7 "[(0, 9, 0), (0, 2, 0)]"]
  by (simp add: demo_rows_def bt_wf_def row_size_def)

section \<open>Pool, growth and degradation\<close>

text \<open>
  The connection pool stays bounded: in every reachable state the number of open worker
  slots and the allowance are at most the task's connection cap, and the allowance is at least 1.
\<close>

theorem pool_bounded:
  assumes "coord_reach cfg c0 c" "pool_ok (cap_limit cfg) c0"
  shows "alive_slots c \<le> cap_limit cfg \<and> 1 \<le> allowed_workers (rmp c)
    \<and> allowed_workers (rmp c) \<le> cap_limit cfg"
  using coord_reach_pool[OF assms] by (simp add: pool_ok_def ramp_bounds_def)

lemma pool_bounded_witness: "alive_slots demo_mid \<le> 2 \<and> allowed_workers (rmp demo_mid) \<le> 2"
proof -
  have "pool_ok (cap_limit demo_cfg) demo_start"
    by (simp add: pool_ok_def ramp_bounds_def demo_cfg_def demo_start_def start_coord_def Let_def
        initial_ramp_def ramp_soft_probe_task_budget_def alive_slots_def initial_workers_def
        demo_plan_def bt_values_def)
  from pool_bounded[OF demo_reach this] show ?thesis by (simp add: demo_cfg_def)
qed

text \<open>
  A server that keeps reporting larger sizes cannot keep a download alive for ever: the
  planned size never shrinks and is extended at most three times, after which the next such report
  ends the task with that error.
\<close>

theorem growth_is_bounded:
  assumes "coord_reach cfg c0 c" "expansions c0 = 0"
  shows "effective c0 \<le> effective c \<and> expansions c \<le> max_size_expansions
    \<and> (expansions c = max_size_expansions \<longrightarrow> effective c < n \<longrightarrow>
        (\<exists>c'. coord_handle cfg (EvFailed ob w i (TrueSizeLarger n)) c
              = Some (c', Stop (Some (TrueSizeLarger n)))))"
proof -
  have z: "expansions c0 \<le> max_size_expansions" using assms(2) by simp
  have "clear_open i c\<lparr>next_ix := k\<rparr> = clear_open i c\<lparr>next_ix := k\<rparr>" for k by simp
  then show ?thesis
    using coord_reach_grows[OF assms(1) z] by (simp add: coord_handle_def on_failed_def on_size_larger_def)
qed

lemma growth_is_bounded_witness: "effective demo_start \<le> effective demo_mid \<and> expansions demo_mid \<le> 3"
proof -
  have "expansions demo_start = 0" by code_simp
  from growth_is_bounded[OF demo_reach this, of 11 demo_obs 0 1] show ?thesis
    by (simp add: max_size_expansions_def)
qed

text \<open>
  Before the server has confirmed ranges no request with a range leaves: a failed segment is
  sent out again only as a plain request from byte 0, and neither timer splits or hands out
  anything.
\<close>

theorem no_range_before_verdict:
  assumes "verdict c \<noteq> VSupported"
  shows "(case redispatch_work c of
        (Some w, _) \<Rightarrow> wa_no_range (assignment w) \<and> wa_open_ended (assignment w)
          \<and> wa_actual_start (assignment w) = 0
      | (None, _) \<Rightarrow> True)
    \<and> proactive_tick ok c = c \<and> segs (fst (on_ramp_tick cfg t c)) = segs c"
proof -
  have "verdict (reconcile_slots fin c) \<noteq> VSupported" "segs (reconcile_slots fin c) = segs c" for fin
    using assms by (simp_all add: reconcile_slots_def)
  then have "segs (fst (on_ramp_tick cfg t c)) = segs c"
    by (simp add: on_ramp_tick_def short_tick_def full_tick_def may_refill_def Let_def)
  then show ?thesis
    using assms by (auto simp: redispatch_work_def proactive_tick_def split: prod.splits option.splits)
qed

definition demo_hint :: coord where "demo_hint = demo_start\<lparr>verdict := VUnknown\<rparr>"

lemma no_range_before_verdict_witness: "proactive_tick True demo_hint = demo_hint"
  using no_range_before_verdict[of demo_hint True] by (simp add: demo_hint_def)

text \<open>
  The per-host connection cache is not poisoned by a single failure: a rejection teaches a
  connection cap only if the server answered 403 or 429 while another verified response was still
  streaming; a 400, a transient full response or a lost connection teaches nothing.
\<close>

theorem cap_needs_evidence:
  assumes "learned (degrade ob err c) \<noteq> learned c"
  shows "(err = Request (Some 403) \<or> err = Request (Some 429)) \<and> o_active_response ob
    \<and> \<not> serial c \<and> freeze (rmp (degrade ob err c)) = FHard"
  using assms
  by (auto simp: degrade_def Let_def can_learn_conn_cap_def is_server_rejection_def ramp_reject_def
      split: download_error.splits option.splits if_splits)

lemma cap_needs_evidence_witness: "o_active_response demo_obs"
proof -
  have "learned (degrade demo_obs (Request (Some 429)) demo_start) \<noteq> learned demo_start" by code_simp
  from cap_needs_evidence[OF this] show ?thesis by blast
qed

text \<open>
  Repeated rejections end in serial mode: whatever the pool looks like, after the second
  rejection the task works serially, with growth frozen for good, and a finished worker is given
  a segment only when nothing else is being downloaded.
\<close>

theorem second_rejection_serial:
  "serial (degrade ob2 e2 (degrade ob1 e1 c))
   \<and> freeze (rmp (degrade ob2 e2 (degrade ob1 e1 c))) = FHard
   \<and> (case next_after_done (degrade ob2 e2 (degrade ob1 e1 c)) of
        (Some w, _) \<Rightarrow> \<not> any_active (degrade ob2 e2 (degrade ob1 e1 c)) \<and> split_parent w = None
      | (None, _) \<Rightarrow> True)"
proof -
  have s: "serial (degrade ob2 e2 (degrade ob1 e1 c))" "freeze (rmp (degrade ob2 e2 (degrade ob1 e1 c))) = FHard"
    by (auto simp: degrade_def ramp_reject_def Let_def split: if_splits)
  moreover have "take_pending c' = (Some nw, c2) \<Longrightarrow> split_parent nw = None" for c' nw c2
    by (auto simp: take_pending_def find_next_pending_only_def split: option.splits)
  ultimately show ?thesis
    by (auto simp: next_after_done_def split: prod.splits option.splits)
qed

section \<open>The growth policy\<close>

text \<open>
  A hard freeze is final: over any sequence of ramp ticks the state stays frozen and the
  allowance never grows again.
\<close>

theorem hard_freeze_final:
  assumes "ramp_ok cap r" "freeze r = FHard" "\<forall>t \<in> set ts. worker_cap (snd (snd t)) = cap"
  shows "freeze (ramp_run ts r) = FHard \<and> allowed_workers (ramp_run ts r) \<le> allowed_workers r"
  using ramp_run_hard[OF assms] .

definition demo_env :: ramp_env where
  "demo_env = \<lparr> throughput = 100, alive = 2, worker_cap = 8, start_hint = None, tail = False,
     serial_mode = False, conn_sensitive = False \<rparr>"

lemma hard_freeze_final_witness:
  "freeze (ramp_run [(True, id, demo_env), (True, id, demo_env)] ((initial_ramp 2)\<lparr>freeze := FHard\<rparr>)) = FHard"
proof -
  have "ramp_ok 8 ((initial_ramp 2)\<lparr>freeze := FHard\<rparr>)"
    by (simp add: ramp_ok_def ramp_bounds_def initial_ramp_def ramp_soft_probe_task_budget_def)
  from hard_freeze_final[OF this, of "[(True, id, demo_env), (True, id, demo_env)]"] show ?thesis
    by (simp add: demo_env_def)
qed

text \<open>
  A ramp tick writes the host's connection cap only on direct evidence: an ordinary growth
  step, not a probe, outside the tail of the download, whose throughput collapsed below half; the
  value written is the pool size before that step.
\<close>

theorem tick_learns_only_collapse:
  assumes "RecordCap n \<in> set (snd (ramp_tick gate fill env r))"
  shows "awaiting_ramp_eval r \<and> \<not> probe_window r \<and> \<not> tail env
    \<and> ramp_verdict (pre_grow_throughput r) (throughput env) = Collapse \<and> n = max (pre_grow_workers r) 1"
  by (rule ramp_tick_record[OF assms])

lemma tick_learns_only_collapse_witness:
  "ramp_verdict 1000 (throughput demo_env) = Collapse"
proof -
  let ?r = "(initial_ramp 4)\<lparr>awaiting_ramp_eval := True, pre_grow_workers := 2, pre_grow_throughput := 1000\<rparr>"
  have "RecordCap 2 \<in> set (snd (ramp_tick True id demo_env ?r))"
    by (simp add: ramp_tick_def Let_def tick_wait_def note_proven_def tick_eval_def roll_back_def
        initial_ramp_def demo_env_def ramp_verdict_def ramp_improve_factor_def ramp_collapse_factor_def
        split_def)
  from tick_learns_only_collapse[OF this] show ?thesis by simp
qed

end
