(* ===== verification/Rust_Text.thy ===== *)
theory Rust_Text
  imports Main "HOL-Library.Char_ord" "HOL-Library.List_Lexorder"
begin

text \<open>
  Text as the source handles it: a string is the list of its UTF-8 bytes, so \<^verbatim>\<open>sort\<close> and \<^verbatim>\<open>split\<close> on
  ASCII separators act bytewise.  Decimal formatting and parsing of integers, \<^verbatim>\<open>str::split\<close>,
  \<^verbatim>\<open>str::lines\<close> and \<^verbatim>\<open>str::trim\<close> (on ASCII white space), with their round trips.
\<close>

section \<open>Decimal numbers\<close>

definition digit_char :: "nat \<Rightarrow> char" where
  "digit_char n = char_of (48 + n)"

definition is_digit :: "char \<Rightarrow> bool" where
  "is_digit c \<longleftrightarrow> 48 \<le> (of_char c :: nat) \<and> (of_char c :: nat) \<le> 57"

definition digit_val :: "char \<Rightarrow> nat" where
  "digit_val c = of_char c - 48"

fun show_nat :: "nat \<Rightarrow> string" where
  "show_nat n = (if n < 10 then [digit_char n] else show_nat (n div 10) @ [digit_char (n mod 10)])"

declare show_nat.simps [simp del]

definition show_int :: "int \<Rightarrow> string" where
  "show_int i = (if i < 0 then CHR ''-'' # show_nat (nat (- i)) else show_nat (nat i))"

definition digits_val :: "string \<Rightarrow> nat" where
  "digits_val s = foldl (\<lambda>n c. n * 10 + digit_val c) 0 s"

definition all_digits :: "string \<Rightarrow> bool" where
  "all_digits s \<longleftrightarrow> s \<noteq> [] \<and> list_all is_digit s"

text \<open>\<^verbatim>\<open>s.parse::<uN>()\<close>: one leading plus sign is allowed, a value above the maximum is an error.\<close>

definition parse_unsigned :: "nat \<Rightarrow> string \<Rightarrow> nat option" where
  "parse_unsigned mx s =
     (let d = (case s of c # cs \<Rightarrow> if c = CHR ''+'' then cs else s | [] \<Rightarrow> []) in
      if all_digits d \<and> digits_val d \<le> mx then Some (digits_val d) else None)"

text \<open>\<^verbatim>\<open>s.parse::<iN>()\<close> with \<open>mx = 2 ^ (N - 1) - 1\<close>.\<close>

definition parse_signed :: "nat \<Rightarrow> string \<Rightarrow> int option" where
  "parse_signed mx s =
     (case s of
        c # cs \<Rightarrow>
          if c = CHR ''-'' then
            (if all_digits cs \<and> digits_val cs \<le> mx + 1 then Some (- int (digits_val cs)) else None)
          else map_option int (parse_unsigned mx s)
      | [] \<Rightarrow> None)"

lemma of_digit_char: "n < 10 \<Longrightarrow> (of_char (digit_char n) :: nat) = 48 + n"
  by (simp add: digit_char_def of_char_of)

lemma is_digit_char: "n < 10 \<Longrightarrow> is_digit (digit_char n)"
  by (simp add: is_digit_def of_digit_char)

lemma digit_val_char: "n < 10 \<Longrightarrow> digit_val (digit_char n) = n"
  by (simp add: digit_val_def of_digit_char)

lemma digits_val_snoc: "digits_val (s @ [c]) = digits_val s * 10 + digit_val c"
  by (simp add: digits_val_def)

lemma show_nat_digits: "all_digits (show_nat n)"
proof (induction n rule: show_nat.induct)
  case (1 n)
  show ?case
  proof (cases "n < 10")
    case True
    then show ?thesis by (simp add: show_nat.simps[of n] all_digits_def is_digit_char)
  next
    case False
    then show ?thesis
      using 1 by (simp add: show_nat.simps[of n] all_digits_def is_digit_char)
  qed
qed

lemma digits_val_show: "digits_val (show_nat n) = n"
proof (induction n rule: show_nat.induct)
  case (1 n)
  show ?case
  proof (cases "n < 10")
    case True
    then show ?thesis by (simp add: show_nat.simps[of n] digits_val_def digit_val_char)
  next
    case False
    then show ?thesis
      using 1 by (simp add: show_nat.simps[of n] digits_val_snoc digit_val_char)
  qed
qed

lemma show_nat_ne: "show_nat n \<noteq> []"
  using show_nat_digits[of n] by (simp add: all_digits_def)

lemma hd_digit: "all_digits s \<Longrightarrow> is_digit (hd s)"
  by (cases s) (auto simp: all_digits_def)

lemma not_digit: "\<not> is_digit (CHR ''+'')" "\<not> is_digit (CHR ''-'')" "\<not> is_digit (CHR ''.'')"
  "\<not> is_digit (CHR 0x09)" "\<not> is_digit (CHR 0x0A)" "\<not> is_digit (CHR 0x0D)"
  by (simp_all add: is_digit_def)

lemma parse_show_unsigned: "n \<le> mx \<Longrightarrow> parse_unsigned mx (show_nat n) = Some n"
proof -
  assume "n \<le> mx"
  obtain c cs where s: "show_nat n = c # cs" using show_nat_ne by (cases "show_nat n") auto
  have "c \<noteq> CHR ''+''" using hd_digit[OF show_nat_digits[of n]] not_digit(1) s by auto
  then show ?thesis
    using \<open>n \<le> mx\<close> show_nat_digits[of n] digits_val_show[of n] by (simp add: parse_unsigned_def s)
qed

lemma parse_show_signed:
  "- int mx - 1 \<le> i \<Longrightarrow> i \<le> int mx \<Longrightarrow> parse_signed mx (show_int i) = Some i"
proof (cases "i < 0")
  case True
  assume "- int mx - 1 \<le> i"
  then show ?thesis
    using True show_nat_digits[of "nat (- i)"]
    by (simp add: parse_signed_def show_int_def digits_val_show)
next
  case False
  assume "i \<le> int mx"
  then have p: "parse_unsigned mx (show_nat (nat i)) = Some (nat i)"
    using False by (intro parse_show_unsigned) simp
  obtain c cs where s: "show_nat (nat i) = c # cs" using show_nat_ne by (cases "show_nat (nat i)") auto
  have "c \<noteq> CHR ''-''" using hd_digit[OF show_nat_digits[of "nat i"]] not_digit(2) s by auto
  then show ?thesis using p s False by (simp add: parse_signed_def show_int_def)
qed

section \<open>Splitting\<close>

text \<open>\<^verbatim>\<open>s.split(c)\<close>: always at least one piece.\<close>

fun split_on :: "char \<Rightarrow> string \<Rightarrow> string list" where
  "split_on c [] = [[]]"
| "split_on c (x # xs) =
     (if x = c then [] # split_on c xs
      else case split_on c xs of p # ps \<Rightarrow> (x # p) # ps | [] \<Rightarrow> [[x]])"

lemma split_on_ne: "split_on c s \<noteq> []"
  by (induction s) (auto split: list.split)

lemma split_on_none: "c \<notin> set s \<Longrightarrow> split_on c s = [s]"
  by (induction s) auto

lemma split_on_sep: "c \<notin> set s \<Longrightarrow> split_on c (s @ c # t) = s # split_on c t"
  using split_on_ne[of c t] by (induction s) auto

text \<open>Joining pieces free of the separator and splitting again.\<close>

fun join_with :: "char \<Rightarrow> string list \<Rightarrow> string" where
  "join_with c [] = []"
| "join_with c [p] = p"
| "join_with c (p # ps) = p @ c # join_with c ps"

lemma split_join: "ps \<noteq> [] \<Longrightarrow> \<forall>p \<in> set ps. c \<notin> set p \<Longrightarrow> split_on c (join_with c ps) = ps"
  by (induction c ps rule: join_with.induct) (auto simp: split_on_none split_on_sep)

text \<open>\<^verbatim>\<open>s.lines()\<close>: pieces ended by a line feed also lose one carriage return.\<close>

definition strip_cr :: "string \<Rightarrow> string" where
  "strip_cr s = (if s \<noteq> [] \<and> last s = CHR 0x0D then butlast s else s)"

definition lines_of :: "string \<Rightarrow> string list" where
  "lines_of s =
     (let ps = split_on (CHR 0x0A) s in
      map strip_cr (butlast ps) @ (if last ps = [] then [] else [last ps]))"

lemma lines_join:
  assumes "ps \<noteq> []" "\<forall>p \<in> set ps. CHR 0x0A \<notin> set p \<and> p \<noteq> [] \<and> last p \<noteq> CHR 0x0D"
  shows "lines_of (join_with (CHR 0x0A) ps) = ps"
proof -
  have "split_on (CHR 0x0A) (join_with (CHR 0x0A) ps) = ps" using assms by (intro split_join) auto
  moreover have "map strip_cr (butlast ps) = butlast ps"
    using assms by (intro map_idI) (auto simp: strip_cr_def dest: in_set_butlastD)
  moreover have "last ps \<noteq> []" using assms by auto
  ultimately show ?thesis using assms(1) by (simp add: lines_of_def)
qed

section \<open>White space\<close>

definition is_space :: "char \<Rightarrow> bool" where
  "is_space c \<longleftrightarrow> (let n = (of_char c :: nat) in n = 32 \<or> (9 \<le> n \<and> n \<le> 13))"

definition trim :: "string \<Rightarrow> string" where
  "trim s = rev (dropWhile is_space (rev (dropWhile is_space s)))"

lemma dropWhile_id: "\<not> P (hd xs) \<Longrightarrow> dropWhile P xs = xs"
  by (cases xs) auto

lemma trim_id: "s \<noteq> [] \<Longrightarrow> \<not> is_space (hd s) \<Longrightarrow> \<not> is_space (last s) \<Longrightarrow> trim s = s"
  by (simp add: trim_def hd_rev dropWhile_id)

end
