(* ===== verification/Worker_Response.thy ===== *)
theory Worker_Response
  imports Coordinator Rust_Text "HOL-Library.Sublist"
begin

text \<open>
  What a segment worker makes of a response before it reads the body: the header parsers of
  \<^verbatim>\<open>native/engine/src/downloader.rs\<close> and the checks of \<^verbatim>\<open>do_segment\<close>
  (\<^verbatim>\<open>segment_coordinator.rs\<close>) in their order: range verdict, status, alignment, validators, size,
  encoding.  A response is its status and its headers; a header that is absent and one that is not
  printable text are treated alike by every reader here, so both are \<open>None\<close>.
\<close>

record response =
  status :: nat
  header :: "string \<Rightarrow> string option"  \<comment> \<open>by lower-case name\<close>

section \<open>Header parsers\<close>

definition lower_char :: "char \<Rightarrow> char" where
  "lower_char c = (let n = (of_char c :: nat) in if 65 \<le> n \<and> n \<le> 90 then char_of (n + 32) else c)"

definition to_ascii_lowercase :: "string \<Rightarrow> string" where
  "to_ascii_lowercase s = map lower_char s"

definition eq_ignore_ascii_case :: "string \<Rightarrow> string \<Rightarrow> bool" where
  "eq_ignore_ascii_case a b \<longleftrightarrow> to_ascii_lowercase a = to_ascii_lowercase b"

definition strip_bytes_unit_prefix :: "string \<Rightarrow> string option" where
  "strip_bytes_unit_prefix raw =
     (let trimmed = trim raw in
      if length trimmed < 6 then None
      else if \<not> eq_ignore_ascii_case (take 6 trimmed) ''bytes '' then None
      else Some (drop 6 trimmed))"

definition i64_parse_max :: nat where "i64_parse_max = 2 ^ 63 - 1"

definition parse_content_range_start :: "response \<Rightarrow> int option" where
  "parse_content_range_start r =
     Option.bind (header r ''content-range'') (\<lambda>raw.
     Option.bind (strip_bytes_unit_prefix raw) (\<lambda>rest.
       parse_signed i64_parse_max (trim (hd (split_on (CHR ''-'') (hd (split_on (CHR ''/'') rest)))))))"

definition parse_content_range_total :: "response \<Rightarrow> int option" where
  "parse_content_range_total r =
     Option.bind (header r ''content-range'') (\<lambda>raw.
     Option.bind (strip_bytes_unit_prefix raw) (\<lambda>rest.
       case split_on (CHR ''/'') rest of
         _ # total_str # _ \<Rightarrow> parse_signed i64_parse_max (trim total_str)
       | _ \<Rightarrow> None))"

definition is_range_response_misaligned :: "int option \<Rightarrow> int \<Rightarrow> bool" where
  "is_range_response_misaligned cr_start actual_start =
     (case cr_start of Some s \<Rightarrow> s \<noteq> actual_start | None \<Rightarrow> 0 < actual_start)"

datatype content_encoding = Gzip | Brotli | Deflate | Zstd

definition encoding_layers :: "string \<Rightarrow> string list" where
  "encoding_layers v = map (\<lambda>p. to_ascii_lowercase (trim p)) (split_on (CHR '','') v)"

definition known_encoding :: "string \<Rightarrow> content_encoding option" where
  "known_encoding l =
     (if l = ''gzip'' \<or> l = ''x-gzip'' then Some Gzip
      else if l = ''br'' \<or> l = ''brotli'' then Some Brotli
      else if l = ''deflate'' then Some Deflate
      else if l = ''zstd'' then Some Zstd else None)"

fun first_encoding :: "string list \<Rightarrow> content_encoding option" where
  "first_encoding [] = None"
| "first_encoding (l # ls) = (case known_encoding l of Some e \<Rightarrow> Some e | None \<Rightarrow> first_encoding ls)"

definition detect_content_encoding :: "response \<Rightarrow> content_encoding option" where
  "detect_content_encoding r =
     Option.bind (header r ''content-encoding'') (\<lambda>v. first_encoding (encoding_layers v))"

definition is_identity :: "string \<Rightarrow> bool" where
  "is_identity l \<longleftrightarrow> l = ''identity'' \<or> l = ''none'' \<or> l = ''''"

fun join_comma :: "string list \<Rightarrow> string" where
  "join_comma [] = ''''"
| "join_comma [p] = p"
| "join_comma (p # ps) = p @ '', '' @ join_comma ps"

definition unsupported_content_encoding :: "response \<Rightarrow> string option" where
  "unsupported_content_encoding r =
     Option.bind (header r ''content-encoding'') (\<lambda>v.
       let layers = filter (\<lambda>l. \<not> is_identity l) (encoding_layers v);
           has_unknown = list_ex (\<lambda>l. known_encoding l = None) layers
       in if has_unknown \<or> 1 < length layers then Some (join_comma layers) else None)"

section \<open>Errors of a segment\<close>

text \<open>
  The errors a worker produces.  \<open>Because\<close> is \<^verbatim>\<open>DownloadError::Other\<close> with the data of its message,
  which \<^verbatim>\<open>is_node_attributable\<close> searches for the word \<^verbatim>\<open>stalled\<close>.
\<close>

datatype other_reason =
    EtagMismatch string string
  | LastModifiedMismatch string string
  | Encoded content_encoding
  | UnsupportedEncoding string
  | StalledStream
  | Truncated int int

datatype worker_error = Plain download_error | Because other_reason

definition error_class :: "worker_error \<Rightarrow> download_error" where
  "error_class e = (case e of Plain d \<Rightarrow> d | Because _ \<Rightarrow> Other)"

section \<open>Shared cells\<close>

text \<open>
  What the checks read and write besides the response.  \<open>wc_sent\<close> lists the messages to the
  coordinator, \<open>wc_single\<close> is set when the host is recorded as single-connection and
  \<open>wc_validators\<close> is the last write of \<^verbatim>\<open>set_task_validator\<close>.
\<close>

datatype worker_message = MsgRangeVerdict bool | MsgOpenEndedEstablished

record worker_cells =
  wc_verdict :: range_verdict
  wc_sensitive :: bool
  wc_latch :: "(string \<times> string) option"   \<comment> \<open>\<^verbatim>\<open>first_validators\<close>\<close>
  wc_established :: bool                    \<comment> \<open>\<^verbatim>\<open>open_ended_established_sent\<close>\<close>
  wc_sent :: "worker_message list"
  wc_single :: bool
  wc_validators :: "(string \<times> string) option"

record segment_request =
  rq_start :: int          \<comment> \<open>\<^verbatim>\<open>actual_start\<close>\<close>
  rq_end :: int
  rq_open_ended :: bool
  rq_no_range :: bool

text \<open>Fixed for one response: the probe's validators, the planned total and its provenance.\<close>

record check_env =
  ce_etag :: string
  ce_last_modified :: string
  ce_downloaded :: int     \<comment> \<open>\<^verbatim>\<open>total_downloaded\<close>\<close>
  ce_planned :: int        \<comment> \<open>\<^verbatim>\<open>planned_total\<close>\<close>
  ce_estimate :: bool      \<comment> \<open>\<^verbatim>\<open>size_is_estimate\<close>\<close>
  ce_strict :: bool        \<comment> \<open>\<^verbatim>\<open>scope.strict_total\<close>\<close>
  ce_validator_ok :: bool  \<comment> \<open>outcome of \<^verbatim>\<open>set_task_validator\<close>\<close>

definition text_of :: "response \<Rightarrow> string \<Rightarrow> string" where
  "text_of r h = (case header r h of None \<Rightarrow> '''' | Some v \<Rightarrow> v)"

definition plain_first :: "segment_request \<Rightarrow> bool" where
  "plain_first q \<longleftrightarrow> rq_no_range q \<and> rq_start q = 0"

text \<open>The value of the \<^verbatim>\<open>Range\<close> header, when one is sent.\<close>

definition range_header :: "segment_request \<Rightarrow> string option" where
  "range_header q =
     (if plain_first q then None
      else if rq_open_ended q then Some (''bytes='' @ show_int (rq_start q) @ ''-'')
      else Some (''bytes='' @ show_int (rq_start q) @ ''-'' @ show_int (rq_end q)))"

section \<open>The checks, in order\<close>

definition differs :: "string \<Rightarrow> string \<Rightarrow> bool" where
  "differs expected got \<longleftrightarrow> expected \<noteq> '''' \<and> got \<noteq> '''' \<and> got \<noteq> expected"

definition supports_range :: "response \<Rightarrow> bool" where
  "supports_range r \<longleftrightarrow> status r = 206 \<or>
     (case header r ''accept-ranges'' of None \<Rightarrow> False | Some v \<Rightarrow> eq_ignore_ascii_case v ''bytes'')"

definition judge_range :: "response \<Rightarrow> worker_cells \<Rightarrow> worker_cells" where
  "judge_range r w =
     (if wc_verdict w = VUnknown
      then w\<lparr>wc_verdict := (if supports_range r then VSupported else VUnsupported),
             wc_sent := wc_sent w @ [MsgRangeVerdict (supports_range r)]\<rparr>
      else w)"

definition check_status ::
  "check_env \<Rightarrow> segment_request \<Rightarrow> response \<Rightarrow> worker_cells \<Rightarrow> worker_cells \<times> (worker_error + unit)" where
  "check_status e q r w =
     (if status r = 206 then (w, Inr ())
      else if \<not> plain_first q
           \<and> (differs (ce_etag e) (text_of r ''etag'')
              \<or> differs (ce_last_modified e) (text_of r ''last-modified''))
      then (w, Inl (Plain VersionChanged))
      else if rq_open_ended q \<and> rq_start q = 0 \<and> status r = 200 then (w, Inr ())
      else (w\<lparr>wc_sensitive := True, wc_single := wc_single w \<or> ce_downloaded e = 0\<rparr>,
            Inl (Plain RangeNotSupported)))"

definition check_cross_segment_validators ::
  "(string \<times> string) option \<Rightarrow> string \<Rightarrow> string \<Rightarrow> (string \<times> string) option \<times> ((string \<times> string) + unit)" where
  "check_cross_segment_validators latch resp_etag resp_lm =
     (case latch of
        None \<Rightarrow> (Some (resp_etag, resp_lm), Inr ())
      | Some (base_etag, base_lm) \<Rightarrow>
          (latch, if differs base_etag resp_etag \<or> differs base_lm resp_lm
                  then Inl (base_etag, base_lm) else Inr ()))"

definition check_validators ::
  "check_env \<Rightarrow> response \<Rightarrow> worker_cells \<Rightarrow> worker_cells \<times> (worker_error + unit)" where
  "check_validators e r w =
     (let etag = text_of r ''etag''; lm = text_of r ''last-modified'' in
      if differs (ce_etag e) etag then (w, Inl (Because (EtagMismatch (ce_etag e) etag)))
      else if differs (ce_last_modified e) lm
      then (w, Inl (Because (LastModifiedMismatch (ce_last_modified e) lm)))
      else if ce_etag e = '''' \<and> ce_last_modified e = '''' then
        (case check_cross_segment_validators (wc_latch w) etag lm of
           (l, Inl _) \<Rightarrow> (w\<lparr>wc_latch := l\<rparr>, Inl (Plain VersionChanged))
         | (l, Inr _) \<Rightarrow>
             (let w1 = w\<lparr>wc_latch := l\<rparr> in
              (if (etag \<noteq> '''' \<or> lm \<noteq> '''') \<and> ce_validator_ok e
               then w1\<lparr>wc_validators := Some (etag, lm)\<rparr> else w1, Inr ())))
      else (w, Inr ()))"

definition reported_total :: "response \<Rightarrow> int option" where
  "reported_total r =
     (case parse_content_range_total r of
        Some t \<Rightarrow> Some t
      | None \<Rightarrow>
          if status r = 200
          then (case Option.bind (header r ''content-length'') (parse_signed i64_parse_max) of
                  Some v \<Rightarrow> if 0 < v then Some v else None
                | None \<Rightarrow> None)
          else None)"

definition drift_tolerance :: "check_env \<Rightarrow> int" where
  "drift_tolerance e =
     (if ce_estimate e \<or> ce_strict e then 0
      else max 1 (min (ce_planned e sdiv 100) 1048576))"

definition check_total :: "check_env \<Rightarrow> response \<Rightarrow> worker_error + unit" where
  "check_total e r =
     (case reported_total r of
        Some t \<Rightarrow> if ce_planned e + drift_tolerance e < t then Inl (Plain (TrueSizeLarger t)) else Inr ()
      | None \<Rightarrow> Inr ())"

definition check_encoding :: "response \<Rightarrow> worker_error + unit" where
  "check_encoding r =
     (case detect_content_encoding r of
        Some enc \<Rightarrow> Inl (Because (Encoded enc))
      | None \<Rightarrow>
          (case unsupported_content_encoding r of
             Some u \<Rightarrow> Inl (Because (UnsupportedEncoding u))
           | None \<Rightarrow> Inr ()))"

definition announce :: "segment_request \<Rightarrow> worker_cells \<Rightarrow> worker_cells" where
  "announce q w =
     (if rq_open_ended q \<and> \<not> wc_established w
      then w\<lparr>wc_established := True, wc_sent := wc_sent w @ [MsgOpenEndedEstablished]\<rparr> else w)"

text \<open>
  Everything \<^verbatim>\<open>do_segment\<close> does with a response before it reads the body.  A status of 400 and
  above is the error of \<^verbatim>\<open>error_for_status\<close>.
\<close>

definition check_response ::
  "check_env \<Rightarrow> segment_request \<Rightarrow> response \<Rightarrow> worker_cells \<Rightarrow> worker_cells \<times> (worker_error + unit)" where
  "check_response e q r w0 =
     (if 400 \<le> status r \<and> status r < 600 then (w0, Inl (Plain (Request (Some (status r)))))
      else case check_status e q r (judge_range r w0) of
          (w1, Inl x) \<Rightarrow> (w1, Inl x)
        | (w1, Inr _) \<Rightarrow>
            if is_range_response_misaligned (parse_content_range_start r) (rq_start q)
            then (w1, Inl (Plain RangeMisaligned))
            else case check_validators e r w1 of
                (w2, Inl x) \<Rightarrow> (w2, Inl x)
              | (w2, Inr _) \<Rightarrow>
                  (case check_total e r of
                     Inl x \<Rightarrow> (w2, Inl x)
                   | Inr _ \<Rightarrow>
                       (case check_encoding r of
                          Inl x \<Rightarrow> (w2\<lparr>wc_single := True\<rparr>, Inl x)
                        | Inr _ \<Rightarrow> (announce q w2, Inr ()))))"

section \<open>What an accepted response is\<close>

text \<open>
  The offset of the first byte of a body, as HTTP defines it: a full response starts at zero, a
  partial one where its \<^verbatim>\<open>Content-Range\<close> says (at zero if it has none).
\<close>

definition body_offset :: "response \<Rightarrow> int" where
  "body_offset r =
     (if status r = 206 then (case parse_content_range_start r of Some s \<Rightarrow> s | None \<Rightarrow> 0) else 0)"

definition raw_body :: "response \<Rightarrow> bool" where
  "raw_body r \<longleftrightarrow>
     (case header r ''content-encoding'' of None \<Rightarrow> True | Some v \<Rightarrow> list_all is_identity (encoding_layers v))"

lemma first_encoding_None: "first_encoding ls = None \<longleftrightarrow> (\<forall>l \<in> set ls. known_encoding l = None)"
  by (induction ls) (auto split: option.splits)

lemma identity_unknown: "is_identity l \<Longrightarrow> known_encoding l = None"
  by (auto simp: is_identity_def known_encoding_def)

text \<open>The two encoding checks together admit exactly the bodies that are not encoded.\<close>

lemma check_encoding_raw: "check_encoding r = Inr () \<longleftrightarrow> raw_body r"
proof (cases "header r ''content-encoding''")
  case None
  then show ?thesis
    by (simp add: check_encoding_def raw_body_def detect_content_encoding_def unsupported_content_encoding_def)
next
  case (Some v)
  let ?ls = "encoding_layers v"
  show ?thesis
  proof (cases "\<forall>l \<in> set ?ls. known_encoding l = None")
    case True
    have "\<not> list_all is_identity ?ls" if "1 < length (filter (\<lambda>l. \<not> is_identity l) ?ls)"
      using that filter_False[of ?ls "\<lambda>l. \<not> is_identity l"] by (fastforce simp: list_all_iff)
    then have "(list_ex (\<lambda>l. known_encoding l = None) (filter (\<lambda>l. \<not> is_identity l) ?ls)
        \<or> 1 < length (filter (\<lambda>l. \<not> is_identity l) ?ls)) \<longleftrightarrow> \<not> list_all is_identity ?ls"
      using True by (auto simp: list_ex_iff list_all_iff)
    then show ?thesis
      using True Some first_encoding_None[of ?ls]
      by (simp add: check_encoding_def raw_body_def detect_content_encoding_def
          unsupported_content_encoding_def Let_def)
  next
    case False
    then obtain e where "first_encoding ?ls = Some e" using first_encoding_None by fast
    moreover have "\<not> list_all is_identity ?ls"
      using False identity_unknown by (fastforce simp: list_all_iff)
    ultimately show ?thesis
      using Some by (simp add: check_encoding_def raw_body_def detect_content_encoding_def)
  qed
qed

lemma judge_frame [simp]:
  "wc_latch (judge_range r w) = wc_latch w" "wc_single (judge_range r w) = wc_single w"
  "wc_sensitive (judge_range r w) = wc_sensitive w" "wc_established (judge_range r w) = wc_established w"
  by (simp_all add: judge_range_def)

lemma check_status_accepts:
  assumes "check_status e q r w = (w', Inr u)"
  shows "w' = w" "status r = 206 \<or> (status r = 200 \<and> rq_open_ended q \<and> rq_start q = 0)"
  using assms by (auto simp: check_status_def split: if_splits)

text \<open>The stages of an accepted response.\<close>

lemma accepted_stages:
  assumes "check_response e q r w = (w', Inr u)"
  obtains w1 w2 where
    "check_status e q r (judge_range r w) = (w1, Inr ())"
    "\<not> is_range_response_misaligned (parse_content_range_start r) (rq_start q)"
    "check_validators e r w1 = (w2, Inr ())"
    "check_total e r = Inr ()" "check_encoding r = Inr ()" "w' = announce q w2"
  using assms
  by (auto simp: check_response_def split: if_splits prod.splits sum.splits)

text \<open>
  A body that passes starts at the byte the worker writes at, is not encoded, and belongs to a
  resource no larger than planned (up to the tolerance).
\<close>

lemma accepted_aligned:
  assumes "check_response e q r w = (w', Inr u)" "0 \<le> rq_start q"
  shows "body_offset r = rq_start q" "raw_body r"
    "reported_total r = Some t \<Longrightarrow> t \<le> ce_planned e + drift_tolerance e"
proof -
  obtain w1 w2 where a: "check_status e q r (judge_range r w) = (w1, Inr ())"
      "\<not> is_range_response_misaligned (parse_content_range_start r) (rq_start q)"
      "check_validators e r w1 = (w2, Inr ())" "check_total e r = Inr ()" "check_encoding r = Inr ()"
    by (rule accepted_stages[OF assms(1)])
  show "raw_body r" using a(5) by (simp add: check_encoding_raw)
  show "body_offset r = rq_start q"
    using check_status_accepts(2)[OF a(1)] a(2) assms(2)
    by (auto simp: body_offset_def is_range_response_misaligned_def split: option.splits)
  show "t \<le> ce_planned e + drift_tolerance e" if "reported_total r = Some t"
    using a(4) that by (simp add: check_total_def split: if_splits)
qed

section \<open>Reading a well-formed Content-Range\<close>

lemma show_nat_plain: "c \<in> set (show_nat n) \<Longrightarrow> is_digit c"
  using show_nat_digits[of n] by (auto simp: all_digits_def list_all_iff)

lemma digit_not_space: "is_digit c \<Longrightarrow> \<not> is_space c"
  by (auto simp: is_digit_def is_space_def Let_def)

lemma trim_show: "trim (show_nat n) = show_nat n"
  using show_nat_ne[of n] show_nat_plain[OF hd_in_set, of n] show_nat_plain[OF last_in_set, of n]
  by (intro trim_id) (auto dest: digit_not_space)

lemma show_nat_no_sep: "CHR ''-'' \<notin> set (show_nat n)" "CHR ''/'' \<notin> set (show_nat n)"
  using show_nat_plain[of "CHR ''-''" n] show_nat_plain[of "CHR ''/''" n] by (auto simp: is_digit_def)

lemma content_range_parses:
  assumes "header r ''content-range''
      = Some (''bytes '' @ show_nat a @ ''-'' @ show_nat b @ ''/'' @ show_nat n)"
    and "a < 2 ^ 63" "n < 2 ^ 63"
  shows "parse_content_range_start r = Some (int a)" "parse_content_range_total r = Some (int n)"
proof -
  let ?raw = "''bytes '' @ show_nat a @ ''-'' @ show_nat b @ ''/'' @ show_nat n"
  have "last ?raw = last (show_nat n)" using show_nat_ne by (simp add: last_append)
  then have "trim ?raw = ?raw"
    using show_nat_ne show_nat_plain[OF last_in_set, of n]
    by (intro trim_id) (auto simp: is_space_def dest: digit_not_space)
  then have s: "strip_bytes_unit_prefix ?raw = Some (show_nat a @ ''-'' @ show_nat b @ ''/'' @ show_nat n)"
    by (simp add: strip_bytes_unit_prefix_def eq_ignore_ascii_case_def)
  have sl: "split_on (CHR ''/'') (show_nat a @ ''-'' @ show_nat b @ ''/'' @ show_nat n)
      = [show_nat a @ ''-'' @ show_nat b, show_nat n]"
    using split_on_sep[of "CHR ''/''" "show_nat a @ ''-'' @ show_nat b" "show_nat n"] show_nat_no_sep
    by (simp add: split_on_none)
  have da: "split_on (CHR ''-'') (show_nat a @ ''-'' @ show_nat b) = [show_nat a, show_nat b]"
    using split_on_sep[of "CHR ''-''" "show_nat a" "show_nat b"] show_nat_no_sep
    by (simp add: split_on_none)
  have p: "parse_signed i64_parse_max (show_nat k) = Some (int k)" if "k < 2 ^ 63" for k
    using parse_show_signed[of i64_parse_max "int k"] that
    by (simp add: show_int_def i64_parse_max_def)
  show "parse_content_range_start r = Some (int a)" "parse_content_range_total r = Some (int n)"
    using assms s sl da p by (simp_all add: parse_content_range_start_def parse_content_range_total_def trim_show)
qed

section \<open>Validators over a download\<close>

text \<open>
  The responses of one download, checked one after the other in the order they arrive: those
  accepted and the cells at the end.  Each request has an announcement latch of its own.
\<close>

fun serve ::
  "(check_env \<times> segment_request \<times> response) list \<Rightarrow> worker_cells \<Rightarrow> response list \<times> worker_cells" where
  "serve [] w = ([], w)"
| "serve ((e, q, r) # rs) w =
     (let (w', res) = check_response e q r (w\<lparr>wc_established := False\<rparr>);
          (acc, w'') = serve rs w'
      in (case res of Inr _ \<Rightarrow> r # acc | Inl _ \<Rightarrow> acc, w''))"

definition validators_of :: "response \<Rightarrow> string \<times> string" where
  "validators_of r = (text_of r ''etag'', text_of r ''last-modified'')"

definition agrees :: "string \<times> string \<Rightarrow> response \<Rightarrow> bool" where
  "agrees b r \<longleftrightarrow> \<not> differs (fst b) (text_of r ''etag'') \<and> \<not> differs (snd b) (text_of r ''last-modified'')"

lemma check_status_frame: "check_status e q r w = (w', x) \<Longrightarrow> wc_latch w' = wc_latch w"
  by (auto simp: check_status_def split: if_splits)

lemma announce_latch [simp]: "wc_latch (announce q w) = wc_latch w"
  by (simp add: announce_def)

lemma accepted_agrees:
  assumes "check_response e q r w = (w', Inr u)"
  shows "agrees (ce_etag e, ce_last_modified e) r"
proof -
  obtain w1 w2 where "check_validators e r w1 = (w2, Inr ())" by (rule accepted_stages[OF assms])
  then show ?thesis
    by (auto simp: check_validators_def agrees_def Let_def split: if_splits)
qed

text \<open>Without a baseline from the probe the first response that gets this far provides it.\<close>

lemma check_validators_latch:
  assumes "check_validators e r w = (w', res)"
  shows "wc_latch w' = wc_latch w \<or> wc_latch w = None \<and> wc_latch w' = Some (validators_of r)"
    "ce_etag e = [] \<Longrightarrow> ce_last_modified e = [] \<Longrightarrow> res = Inr () \<Longrightarrow>
       \<exists>b. wc_latch w' = Some b \<and> (agrees b r \<or> wc_latch w = None \<and> b = validators_of r)"
  using assms
  by (auto simp: check_validators_def check_cross_segment_validators_def validators_of_def agrees_def
      Let_def split: if_splits option.splits)

lemma agrees_self: "agrees (validators_of r) r"
  by (simp add: agrees_def validators_of_def differs_def)

lemma check_response_latch:
  assumes "check_response e q r w = (w', res)"
  shows "wc_latch w' = wc_latch w \<or> wc_latch w = None \<and> wc_latch w' = Some (validators_of r)"
    "ce_etag e = [] \<Longrightarrow> ce_last_modified e = [] \<Longrightarrow> res = Inr u \<Longrightarrow>
       \<exists>b. wc_latch w' = Some b \<and> agrees b r"
proof -
  show "wc_latch w' = wc_latch w \<or> wc_latch w = None \<and> wc_latch w' = Some (validators_of r)"
    using assms
    by (auto simp: check_response_def split: if_splits prod.splits sum.splits
        dest!: check_status_frame check_validators_latch(1))
  show "\<exists>b. wc_latch w' = Some b \<and> agrees b r"
    if e: "ce_etag e = []" "ce_last_modified e = []" and "res = Inr u"
  proof -
    obtain w1 w2 where "check_validators e r w1 = (w2, Inr ())" "w' = announce q w2"
      using accepted_stages assms \<open>res = Inr u\<close> by metis
    with check_validators_latch(2)[OF _ e] show ?thesis using agrees_self by fastforce
  qed
qed

definition unprobed :: "(check_env \<times> segment_request \<times> response) list \<Rightarrow> bool" where
  "unprobed rs \<longleftrightarrow> list_all (\<lambda>(e, q, r). ce_etag e = [] \<and> ce_last_modified e = []) rs"

lemma serve_keeps_latch: "wc_latch w = Some b \<Longrightarrow> wc_latch (snd (serve rs w)) = Some b"
proof (induction rs arbitrary: w)
  case (Cons x rs)
  obtain e q r where x: "x = (e, q, r)" by (cases x)
  obtain w1 res where c: "check_response e q r (w\<lparr>wc_established := False\<rparr>) = (w1, res)" by fastforce
  have "wc_latch w1 = Some b" using check_response_latch(1)[OF c] Cons.prems by simp
  then show ?case using Cons.IH[of w1] c by (cases "serve rs w1") (simp add: x)
qed simp

lemma serve_agrees:
  assumes "unprobed rs" "serve rs w = (acc, w')" "r \<in> set acc"
  shows "\<exists>b. wc_latch w' = Some b \<and> agrees b r"
  using assms
proof (induction rs arbitrary: w acc)
  case (Cons x rs)
  obtain e q r0 where x: "x = (e, q, r0)" by (cases x)
  obtain w1 res where c: "check_response e q r0 (w\<lparr>wc_established := False\<rparr>) = (w1, res)" by fastforce
  obtain acc1 where s: "serve rs w1 = (acc1, w')" "acc = (case res of Inr _ \<Rightarrow> r0 # acc1 | Inl _ \<Rightarrow> acc1)"
    using Cons.prems(2) c by (auto simp: x split: prod.splits)
  show ?case
  proof (cases "r \<in> set acc1")
    case True
    then show ?thesis using Cons.IH[OF _ s(1)] Cons.prems(1) by (simp add: unprobed_def)
  next
    case False
    then have "r = r0" and "\<exists>u. res = Inr u" using s(2) Cons.prems(3) by (auto split: sum.splits)
    then obtain b where "wc_latch w1 = Some b" "agrees b r"
      using check_response_latch(2)[OF c] Cons.prems(1) by (auto simp: unprobed_def x)
    then show ?thesis using serve_keeps_latch[of w1 b rs] s(1) by simp
  qed
qed simp

end
