(* ===== verification/Wire_Reader.thy ===== *)
theory Wire_Reader
  imports Prelude "HOL-Library.Word"
begin

text \<open>
  Bounds-checked byte readers (\<^verbatim>\<open>ByteReader\<close> of \<^verbatim>\<open>native/engine/src/ed2k/kad/proto.rs\<close>) and the
  little-endian integers of the Rust standard library.  A reader is a function from the bytes not
  yet read to a result and the bytes left: a failed read is \<open>None\<close> and, as in the code, does not
  give back what earlier reads of the same decoder consumed.  The locales \<open>codec\<close> and
  \<open>sized_codec\<close> state what an encoder and a decoder owe each other; the lists of a format are
  proved once from them.
\<close>

type_synonym byte = "8 word"
type_synonym bytes = "byte list"
type_synonym 'a reader = "bytes \<Rightarrow> 'a option \<times> bytes"

named_theorems reader_intros \<open>readers only move forward, and by how much\<close>

section \<open>Little-endian integers\<close>

fun le_bytes :: "nat \<Rightarrow> nat \<Rightarrow> bytes" where
  "le_bytes 0 n = []"
| "le_bytes (Suc k) n = word_of_nat n # le_bytes k (n div 256)"

fun nat_of_le :: "bytes \<Rightarrow> nat" where
  "nat_of_le [] = 0"
| "nat_of_le (b # bs) = unat b + 256 * nat_of_le bs"

definition to_le_bytes :: "'a :: len word \<Rightarrow> bytes" where
  "to_le_bytes w = le_bytes (LENGTH('a) div 8) (unat w)"

definition from_le_bytes :: "bytes \<Rightarrow> 'a :: len word" where
  "from_le_bytes bs = word_of_nat (nat_of_le bs)"

lemma length_le_bytes [simp]: "length (le_bytes k n) = k"
  by (induction k arbitrary: n) simp_all

lemma unat_byte: "unat (word_of_nat n :: byte) = n mod 256"
  by (simp add: unat_of_nat)

lemma nat_of_le_bytes: "nat_of_le (le_bytes k n) = n mod 256 ^ k"
proof (induction k arbitrary: n)
  case (Suc k)
  have "n mod 256 + 256 * (n div 256 mod 256 ^ k) = n mod 256 ^ Suc k"
    using mod_mult2_eq[of n 256 "256 ^ k"] by simp
  then show ?case by (simp add: Suc unat_byte)
qed simp

lemma le_bytes_of_le: "le_bytes (length bs) (nat_of_le bs) = bs"
proof (induction bs)
  case (Cons b bs)
  have "unat b < 256" using unsigned_less[of b] by simp
  then have "(unat b + 256 * nat_of_le bs) div 256 = nat_of_le bs"
    "(unat b + 256 * nat_of_le bs) mod 256 = unat b" by simp_all
  moreover from this(2) have "unat (word_of_nat (unat b + 256 * nat_of_le bs) :: byte) = unat b"
    by (simp only: unat_byte)
  then have "word_of_nat (unat b + 256 * nat_of_le bs) = b" by (simp only: word_unat_eq_iff)
  ultimately show ?case using Cons.IH by simp
qed simp

lemma length_to_le_bytes [simp]: "length (to_le_bytes (w :: 'a :: len word)) = LENGTH('a) div 8"
  by (simp add: to_le_bytes_def)

lemma from_to_le_bytes:
  assumes "8 dvd LENGTH('a :: len)"
  shows "from_le_bytes (to_le_bytes w) = (w :: 'a word)"
proof -
  have "(256 :: nat) ^ (LENGTH('a) div 8) = 2 ^ LENGTH('a)"
    using assms by (simp add: power_mult[of "2 :: nat" 8, simplified, symmetric])
  then have "nat_of_le (to_le_bytes w) = unat w"
    using unsigned_less[of w] by (simp add: to_le_bytes_def nat_of_le_bytes)
  then show ?thesis by (simp add: from_le_bytes_def)
qed

section \<open>Readers\<close>

definition rd_ret :: "'a \<Rightarrow> 'a reader" where "rd_ret x = (\<lambda>bs. (Some x, bs))"
definition rd_fail :: "'a reader" where "rd_fail = (\<lambda>bs. (None, bs))"

text \<open>The \<^verbatim>\<open>?\<close> operator: a failed read ends the decoder where it stands.\<close>

definition rd_bind :: "'a reader \<Rightarrow> ('a \<Rightarrow> 'b reader) \<Rightarrow> 'b reader" where
  "rd_bind m f = (\<lambda>bs. case m bs of (None, r) \<Rightarrow> (None, r) | (Some x, r) \<Rightarrow> f x r)"

definition rd_take :: "nat \<Rightarrow> bytes reader" where
  "rd_take n = (\<lambda>bs. if length bs < n then (None, bs) else (Some (take n bs), drop n bs))"

definition rd_u8 :: "byte reader" where "rd_u8 = rd_bind (rd_take 1) (\<lambda>s. rd_ret (hd s))"

definition rd_le :: "'a :: len word reader" where
  "rd_le = rd_bind (rd_take (LENGTH('a) div 8)) (\<lambda>s. rd_ret (from_le_bytes s))"

definition rd_u16 :: "16 word reader" where "rd_u16 = rd_le"
definition rd_u32 :: "32 word reader" where "rd_u32 = rd_le"
definition rd_u64 :: "64 word reader" where "rd_u64 = rd_le"
definition rd_array16 :: "bytes reader" where "rd_array16 = rd_take 16"

text \<open>The decoding loops: at most \<open>n\<close> items, ending at the first that fails.\<close>

fun read_upto :: "'a reader \<Rightarrow> nat \<Rightarrow> bytes \<Rightarrow> 'a list \<times> bytes" where
  "read_upto dec 0 bs = ([], bs)"
| "read_upto dec (Suc n) bs =
     (case dec bs of
        (None, r) \<Rightarrow> ([], r)
      | (Some x, r) \<Rightarrow> (let (xs, r') = read_upto dec n r in (x # xs, r')))"

subsection \<open>Moving forward\<close>

definition forward :: "'a reader \<Rightarrow> bool" where
  "forward m \<longleftrightarrow> (\<forall>bs. \<exists>p. bs = p @ snd (m bs))"

definition consumes :: "nat \<Rightarrow> 'a reader \<Rightarrow> bool" where
  "consumes n m \<longleftrightarrow> (\<forall>bs x r. m bs = (Some x, r) \<longrightarrow> n + length r \<le> length bs)"

lemma forward_ret [reader_intros]: "forward (rd_ret x)"
  and forward_fail [reader_intros]: "forward rd_fail"
  by (simp_all add: forward_def rd_ret_def rd_fail_def)

lemma forward_take [reader_intros]: "forward (rd_take n)"
  by (auto simp: forward_def rd_take_def intro: append_take_drop_id[symmetric])

lemma forward_bind [reader_intros]:
  assumes "forward m" "\<And>x. forward (f x)"
  shows "forward (rd_bind m f)"
  unfolding forward_def
proof
  fix bs
  obtain p where p: "bs = p @ snd (m bs)" using assms(1) unfolding forward_def by blast
  show "\<exists>p. bs = p @ snd (rd_bind m f bs)"
  proof (cases "fst (m bs)")
    case None
    then show ?thesis using p by (auto simp: rd_bind_def split: prod.splits)
  next
    case (Some x)
    then have b: "rd_bind m f bs = f x (snd (m bs))" by (auto simp: rd_bind_def split: prod.splits)
    obtain q where "snd (m bs) = q @ snd (f x (snd (m bs)))"
      using assms(2) unfolding forward_def by blast
    then have "bs = (p @ q) @ snd (rd_bind m f bs)" using p unfolding b append_assoc by metis
    then show ?thesis by blast
  qed
qed

lemma consumes_ret [reader_intros]: "consumes 0 (rd_ret x)"
  and consumes_fail [reader_intros]: "consumes n rd_fail"
  by (simp_all add: consumes_def rd_ret_def rd_fail_def)

lemma consumes_take [reader_intros]: "consumes n (rd_take n)"
  by (auto simp: consumes_def rd_take_def)

lemma consumes_bind:
  assumes "consumes a m" "\<And>x. consumes b (f x)"
  shows "consumes (a + b) (rd_bind m f)"
  unfolding consumes_def
proof (intro allI impI)
  fix bs y r
  assume "rd_bind m f bs = (Some y, r)"
  then obtain x r1 where "m bs = (Some x, r1)" "f x r1 = (Some y, r)"
    by (auto simp: rd_bind_def split: prod.splits option.splits)
  then have "a + length r1 \<le> length bs" "b + length r \<le> length r1"
    using assms(1,2) by (auto simp: consumes_def)
  then show "a + b + length r \<le> length bs" by linarith
qed

lemma consumes_mono: "consumes a m \<Longrightarrow> b \<le> a \<Longrightarrow> consumes b m"
  by (force simp: consumes_def)

lemma forward_le: "forward m \<Longrightarrow> length (snd (m bs)) \<le> length bs"
  unfolding forward_def by (metis le_add2 length_append)

lemma consumes_forward: "forward m \<Longrightarrow> consumes 0 m"
  unfolding consumes_def by (metis add_0 forward_le snd_conv)

section \<open>Codecs\<close>

text \<open>A reader that pays at least \<open>min_len\<close> input bytes for each item it returns.\<close>

locale stream_reader =
  fixes dec :: "'a reader" and min_len :: nat
  assumes dec_forward: "forward dec"
    and dec_consumes: "consumes min_len dec"
begin

lemma forward_read_upto: "forward (\<lambda>bs. (Some (fst (read_upto dec n bs)), snd (read_upto dec n bs)))"
  unfolding forward_def
proof
  fix bs
  show "\<exists>p. bs = p @ snd (Some (fst (read_upto dec n bs)), snd (read_upto dec n bs))"
  proof (induction n arbitrary: bs)
    case (Suc n)
    obtain v r where d: "dec bs = (v, r)" by (cases "dec bs")
    obtain p where p: "bs = p @ r" using dec_forward d unfolding forward_def by (metis snd_conv)
    obtain q where q: "r = q @ snd (read_upto dec n r)" using Suc[of r] by auto
    show ?case
    proof (cases v)
      case None
      then show ?thesis using d p by simp
    next
      case (Some x)
      have "bs = (p @ q) @ snd (read_upto dec n r)" using p q by (metis append_assoc)
      then show ?thesis using d Some by (auto simp: split_def Let_def)
    qed
  qed simp
qed

lemma read_upto_length: "length (fst (read_upto dec n bs)) \<le> n"
proof (induction n arbitrary: bs)
  case (Suc n)
  show ?case using Suc by (auto simp: split_def Let_def split: option.splits)
qed simp

lemma read_upto_paid:
  "min_len * length (fst (read_upto dec n bs)) + length (snd (read_upto dec n bs)) \<le> length bs"
proof (induction n arbitrary: bs)
  case (Suc n)
  obtain v r where d: "dec bs = (v, r)" by (cases "dec bs")
  show ?case
  proof (cases v)
    case None
    then show ?thesis using d forward_le[OF dec_forward, of bs] by simp
  next
    case (Some x)
    then have "min_len + length r \<le> length bs" using d dec_consumes unfolding consumes_def by simp
    then show ?thesis using d Some Suc.IH[of r] by (simp add: split_def Let_def)
  qed
qed simp

end

text \<open>What an encoder and a decoder owe each other, for values that satisfy \<open>ok\<close>.\<close>

locale codec =
  fixes ok :: "'a \<Rightarrow> bool"
    and enc :: "'a \<Rightarrow> bytes"
    and dec :: "'a reader"
  assumes dec_enc: "ok x \<Longrightarrow> dec (enc x @ r) = (Some x, r)"
begin

lemma bind_dec_enc: "ok x \<Longrightarrow> rd_bind dec f (enc x @ r) = f x r"
  by (simp add: rd_bind_def dec_enc)

lemma read_upto_enc:
  "(\<forall>x \<in> set xs. ok x) \<Longrightarrow> read_upto dec (length xs) (concat (map enc xs) @ r) = (xs, r)"
  by (induction xs) (simp_all add: dec_enc)

end

locale sized_codec = codec ok enc dec + stream_reader dec min_len
  for ok :: "'a \<Rightarrow> bool" and enc :: "'a \<Rightarrow> bytes" and dec :: "'a reader" and min_len :: nat
begin

lemma enc_min: "ok x \<Longrightarrow> min_len \<le> length (enc x)"
  using dec_enc[of x "[]"] dec_consumes unfolding consumes_def by force

lemma enc_list_min: "(\<forall>x \<in> set xs. ok x) \<Longrightarrow> min_len * length xs \<le> length (concat (map enc xs))"
proof (induction xs)
  case (Cons x xs)
  then show ?case using enc_min[of x] by simp
qed simp

end

subsection \<open>Integers\<close>

lemma take_enc: "length p = n \<Longrightarrow> rd_take n (p @ r) = (Some p, r)"
  by (simp add: rd_take_def)

lemma le_codec:
  assumes "8 dvd LENGTH('a :: len)"
  shows "sized_codec (\<lambda>_. True) to_le_bytes (rd_le :: 'a word reader) (LENGTH('a) div 8)"
proof unfold_locales
  show "rd_le (to_le_bytes x @ r) = (Some x, r)" for x :: "'a word" and r
    by (simp add: rd_le_def rd_bind_def take_enc rd_ret_def from_to_le_bytes[OF assms])
  show "forward (rd_le :: 'a word reader)" unfolding rd_le_def by (intro reader_intros)
  show "consumes (LENGTH('a) div 8) (rd_le :: 'a word reader)"
    unfolding rd_le_def using consumes_bind[OF consumes_take consumes_ret] by simp
qed

interpretation u16: sized_codec "\<lambda>_. True" to_le_bytes rd_u16 2
  unfolding rd_u16_def using le_codec[where 'a = 16] by simp

interpretation u32: sized_codec "\<lambda>_. True" to_le_bytes rd_u32 4
  unfolding rd_u32_def using le_codec[where 'a = 32] by simp

interpretation u64: sized_codec "\<lambda>_. True" to_le_bytes rd_u64 8
  unfolding rd_u64_def using le_codec[where 'a = 64] by simp

interpretation u8: sized_codec "\<lambda>_. True" "\<lambda>b. [b]" rd_u8 1
proof unfold_locales
  show "rd_u8 ([x] @ r) = (Some x, r)" for x r by (simp add: rd_u8_def rd_bind_def rd_take_def rd_ret_def)
  show "forward rd_u8" unfolding rd_u8_def by (intro reader_intros)
  show "consumes 1 rd_u8" unfolding rd_u8_def using consumes_bind[OF consumes_take consumes_ret] by simp
qed

lemmas int_forward [reader_intros] = u8.dec_forward u16.dec_forward u32.dec_forward u64.dec_forward
lemmas int_consumes [reader_intros] = u8.dec_consumes u16.dec_consumes u32.dec_consumes u64.dec_consumes

lemma u8_enc: "rd_u8 (b # r) = (Some b, r)"
  using u8.dec_enc[of b r] by simp

lemma take_bind_enc: "length p = n \<Longrightarrow> rd_bind (rd_take n) f (p @ r) = f p r"
  by (simp add: rd_bind_def take_enc)

lemma take_bind_4: "rd_bind (rd_take 4) f (a # b # c # d # r) = f [a, b, c, d] r"
  by (simp add: rd_bind_def rd_take_def)

lemma rd_ret_apply: "rd_ret x r = (Some x, r)" by (simp add: rd_ret_def)

lemma rd_ret_bind: "rd_bind (rd_ret x) f = f x" by (simp add: rd_bind_def rd_ret_def)

text \<open>Running a decoder on the bytes its encoder wrote.\<close>

lemmas wire_simps = u8.bind_dec_enc[OF TrueI, simplified] u16.bind_dec_enc[OF TrueI]
  u32.bind_dec_enc[OF TrueI] u64.bind_dec_enc[OF TrueI] take_bind_enc take_bind_4
  rd_ret_bind rd_ret_apply

end
