(* ===== verification/Worker_Stream.thy ===== *)
theory Worker_Stream
  imports Worker_Response Wire_Reader
begin

text \<open>
  The body loop of \<^verbatim>\<open>do_segment\<close> and the gate that merges its \<^verbatim>\<open>fdatasync\<close> calls
  (\<^verbatim>\<open>FileSyncGate\<close>), both of \<^verbatim>\<open>segment_coordinator.rs\<close>.  A worker is a state machine whose program
  counter names the await point it stands at; one step runs from there to the next.  The world is
  what all workers of a file share: the file itself, the gate, the progress vector, the table of
  durable watermarks and the rows of the database.

  The file has three layers.  A worker's \<^verbatim>\<open>BufWriter\<close> holds bytes only it can see (\<open>w_buffer\<close>); they
  drain into the cache of the operating system at any time, and all of them on \<^verbatim>\<open>flush\<close>.  What is
  in the cache survives the process, what is \<open>synced\<close> survives a power loss: \<^verbatim>\<open>fdatasync\<close> makes
  synced everything cached when it is called.  Time is in microseconds; each instant the code keeps
  is a new one.
\<close>

section \<open>The shared world\<close>

type_synonym instant = int

type_synonym content = "int \<Rightarrow> byte option"

record file_world =
  clock :: instant
  gate_syncing :: bool
  gate_start :: "instant option"              \<comment> \<open>\<^verbatim>\<open>last_completed_start\<close>\<close>
  cached :: content
  synced :: content
  inflight :: "(instant \<times> content) option"    \<comment> \<open>the gate's running \<^verbatim>\<open>fdatasync\<close>\<close>
  seg_states :: "progress_info list"
  durable_table :: "(int, int) btree"     \<comment> \<open>\<^verbatim>\<open>durable_progress\<close>\<close>
  wdb :: task_db
  counted :: int                          \<comment> \<open>\<^verbatim>\<open>total_downloaded\<close>\<close>
  claims :: "(int \<times> int) list"
  sync_lost :: bool

text \<open>
  The last two fields only record: \<open>claims\<close> the counts of bytes, with the start of their segment,
  that workers have published as downloaded, \<open>sync_lost\<close> whether one of the \<^verbatim>\<open>fdatasync\<close> calls
  failed whose result the code ignores.
\<close>

definition put_bytes :: "int \<Rightarrow> byte list \<Rightarrow> content \<Rightarrow> content" where
  "put_bytes a bs m = (\<lambda>x. if a \<le> x \<and> x < a + int (length bs) then Some (bs ! nat (x - a)) else m x)"

section \<open>The gate\<close>

definition min_sync_gap :: instant where "min_sync_gap = 2000000"

datatype gate_choice = Reuse instant | WaitForSync | DoSync

definition sync_if_stale :: "file_world \<Rightarrow> gate_choice" where
  "sync_if_stale w =
     (case gate_start w of
        Some s \<Rightarrow>
          if clock w - s < min_sync_gap then Reuse s
          else if gate_syncing w then WaitForSync else DoSync
      | None \<Rightarrow> if gate_syncing w then WaitForSync else DoSync)"

definition sync_covering :: "instant \<Rightarrow> file_world \<Rightarrow> gate_choice" where
  "sync_covering snap_t w =
     (case gate_start w of
        Some s \<Rightarrow> if snap_t \<le> s then Reuse s
                   else if gate_syncing w then WaitForSync else DoSync
      | None \<Rightarrow> if gate_syncing w then WaitForSync else DoSync)"

definition now :: "file_world \<Rightarrow> instant \<times> file_world" where
  "now w = (clock w, w\<lparr>clock := clock w + 1\<rparr>)"

definition begin_sync :: "file_world \<Rightarrow> instant \<times> file_world" where
  "begin_sync w =
     (let (my_start, w1) = now (w\<lparr>gate_syncing := True\<rparr>)
      in (my_start, w1\<lparr>inflight := Some (my_start, cached w1)\<rparr>))"

definition end_sync :: "bool \<Rightarrow> instant \<Rightarrow> file_world \<Rightarrow> file_world" where
  "end_sync ok my_start w =
     (let w1 = w\<lparr>gate_syncing := False, inflight := None\<rparr> in
      if \<not> ok then w1
      else w1\<lparr>gate_start := Some my_start,
              synced := (case inflight w of None \<Rightarrow> synced w | Some (_, c) \<Rightarrow> synced w ++ c)\<rparr>)"

section \<open>A worker\<close>

definition db_save_interval :: instant where "db_save_interval = 3000000"

datatype pc =
    Reading
  | Writing "byte list" bool        \<comment> \<open>rest of \<^verbatim>\<open>write_slice\<close>; does it end at the boundary\<close>
  | FlushSave
  | Saving int instant                  \<comment> \<open>\<^verbatim>\<open>snap\<close>, \<^verbatim>\<open>snap_t\<close>: inside \<^verbatim>\<open>sync_if_stale\<close>\<close>
  | SavingSync int instant instant          \<comment> \<open>and its own \<^verbatim>\<open>fdatasync\<close> runs since the last instant\<close>
  | FlushEnd bool                   \<comment> \<open>\<^verbatim>\<open>boundary_reached\<close>\<close>
  | Covering bool instant               \<comment> \<open>inside \<^verbatim>\<open>sync_covering\<close>\<close>
  | CoverSync bool instant instant
  | Concluding bool
  | Leaving worker_error            \<comment> \<open>an error path: flush,\<close>
  | LeavingSync worker_error content \<comment> \<open>then \<^verbatim>\<open>sync_data\<close> of what was cached\<close>
  | Returned "worker_error + int"

record worker_st =
  w_idx :: int
  w_start :: int
  w_actual :: int
  w_gen :: int
  w_downloaded :: int               \<comment> \<open>\<^verbatim>\<open>seg_downloaded\<close>\<close>
  w_end :: int                      \<comment> \<open>\<^verbatim>\<open>effective_end\<close>\<close>
  w_durable :: int                  \<comment> \<open>\<^verbatim>\<open>durable_offset\<close>\<close>
  w_pending :: "(int \<times> instant) option" \<comment> \<open>\<^verbatim>\<open>pending_snap\<close>\<close>
  w_saved :: instant                    \<comment> \<open>\<^verbatim>\<open>last_db_save\<close>\<close>
  w_buffer :: "byte list"
  w_pc :: pc

text \<open>
  What happens at the await point.  \<open>InGrant\<close> is what the limiter grants; \<open>InSyncData\<close> carries the
  outcome of an error path's \<^verbatim>\<open>fdatasync\<close> and of the row write, \<open>InConclude\<close> whether the token is
  cancelled and the outcome of the row write; \<open>InDrain\<close> moves buffered bytes to the cache.
\<close>

datatype winput =
    InCancel | InStall | InStreamError | InEnd
  | InChunk "byte list"
  | InGrant nat
  | InDrain nat
  | InFlushed
  | InIoError
  | InGate
  | InSyncDone bool
  | InSyncData bool bool
  | InConclude bool bool

definition goto :: "pc \<Rightarrow> worker_st \<Rightarrow> worker_st" where
  "goto p ws = ws\<lparr>w_pc := p\<rparr>"

text \<open>Opening the file and seeking; the state in which the loop is entered.\<close>

definition enter_loop :: "int \<Rightarrow> int \<Rightarrow> int \<Rightarrow> int \<Rightarrow> int \<Rightarrow> instant \<Rightarrow> worker_st" where
  "enter_loop idx start actual seg_end gen t =
     \<lparr> w_idx = idx, w_start = start, w_actual = actual, w_gen = gen, w_downloaded = actual - start,
       w_end = seg_end, w_durable = actual - start, w_pending = None, w_saved = t, w_buffer = [],
       w_pc = Reading \<rparr>"

definition file_pos :: "worker_st \<Rightarrow> int" where
  "file_pos ws = w_start ws + w_downloaded ws - int (length (w_buffer ws))"

definition drain :: "nat \<Rightarrow> worker_st \<times> file_world \<Rightarrow> worker_st \<times> file_world" where
  "drain n = (\<lambda>(ws, w).
     (ws\<lparr>w_buffer := drop n (w_buffer ws)\<rparr>,
      w\<lparr>cached := put_bytes (file_pos ws) (take n (w_buffer ws)) (cached w)\<rparr>))"

definition flush :: "worker_st \<times> file_world \<Rightarrow> worker_st \<times> file_world" where
  "flush = (\<lambda>(ws, w). drain (length (w_buffer ws)) (ws, w))"

definition shared_end :: "worker_st \<Rightarrow> file_world \<Rightarrow> int" where
  "shared_end ws w =
     (case find (\<lambda>p. pi_index p = w_idx ws) (seg_states w) of Some p \<Rightarrow> pi_end p | None \<Rightarrow> w_end ws)"

definition publish_shared :: "worker_st \<Rightarrow> file_world \<Rightarrow> file_world" where
  "publish_shared ws w = w\<lparr>seg_states := update_seg_state (seg_states w) (w_idx ws) (w_downloaded ws)\<rparr>"

text \<open>\<^verbatim>\<open>update_seg_state\<close> and the bounded row write, as on every way out.\<close>

definition publish :: "bool \<Rightarrow> worker_st \<Rightarrow> file_world \<Rightarrow> file_world" where
  "publish db_ok ws w =
     (let w1 = publish_shared ws w in
      w1\<lparr>wdb := (if db_ok then update_segment_progress_bounded (w_idx ws) (w_downloaded ws)
                             (w_start ws) (w_gen ws) (wdb w1) else wdb w1),
         claims := (w_start ws, w_downloaded ws) # claims w1\<rparr>)"

definition take_chunk :: "byte list \<Rightarrow> worker_st \<Rightarrow> file_world \<Rightarrow> worker_st" where
  "take_chunk bs ws w =
     (let e = shared_end ws w;
          ws1 = ws\<lparr>w_end := e\<rparr>;
          current_pos = w_start ws + w_downloaded ws;
          budget = nat (max (e - current_pos + 1) 0);
          write_len = min (length bs) budget
      in if write_len = 0 then goto (FlushEnd True) ws1
         else goto (Writing (take write_len bs) (write_len < length bs)) ws1)"

text \<open>A granted part of the piece goes to the writer and to the counters.\<close>

definition write_granted ::
  "nat \<Rightarrow> byte list \<Rightarrow> bool \<Rightarrow> worker_st \<times> file_world \<Rightarrow> worker_st \<times> file_world" where
  "write_granted n piece truncated = (\<lambda>(ws, w).
     (let ws1 = ws\<lparr>w_buffer := w_buffer ws @ take n piece, w_downloaded := w_downloaded ws + int n\<rparr>;
          w1 = publish_shared ws1 (w\<lparr>counted := counted w + int n\<rparr>);
          rest = drop n piece
      in (goto (if rest \<noteq> [] then Writing rest truncated
                else if truncated then FlushEnd True
                else if db_save_interval \<le> clock w - w_saved ws then FlushSave
                else Reading) ws1, w1)))"

text \<open>The end of a periodic save: \<open>s\<close> is the start of a completed \<^verbatim>\<open>fdatasync\<close>.\<close>

definition settle :: "instant \<Rightarrow> int \<Rightarrow> instant \<Rightarrow> worker_st \<times> file_world \<Rightarrow> worker_st \<times> file_world" where
  "settle s snap snap_t = (\<lambda>(ws, w).
     (let (durable, pending) =
            (if snap_t \<le> s then (snap, None)
             else (case w_pending ws of
                     Some (off, t) \<Rightarrow> if t \<le> s then off else w_durable ws
                   | None \<Rightarrow> w_durable ws, Some (snap, snap_t)));
          w1 = (if durable \<noteq> w_durable ws
                then w\<lparr>durable_table := bt_insert (w_idx ws) durable (durable_table w),
                       claims := (w_start ws, durable) # claims w\<rparr>
                else w);
          (t, w2) = now w1
      in (goto Reading (ws\<lparr>w_durable := durable, w_pending := pending, w_saved := t\<rparr>), w2)))"

definition conclude_segment :: "bool \<Rightarrow> bool \<Rightarrow> bool \<Rightarrow> worker_st \<times> file_world \<Rightarrow> worker_st \<times> file_world" where
  "conclude_segment boundary cancelled db_ok = (\<lambda>(ws, w).
     (if \<not> boundary \<and> \<not> cancelled then
        let ws1 = ws\<lparr>w_end := shared_end ws w\<rparr>;
            next_pos = w_start ws + w_downloaded ws
        in (goto (Returned
                (if next_pos \<le> w_end ws1
                 then Inl (Because (Truncated (next_pos - w_actual ws) (w_end ws1 - w_actual ws + 1)))
                 else Inr (w_downloaded ws))) ws1, publish db_ok ws w)
      else (goto (Returned (Inr (w_downloaded ws))) ws, publish db_ok ws w)))"

text \<open>
  One step; \<open>None\<close> when the input does not fit the await point.  In the gate's loop a worker that
  has to wait stays where it is.
\<close>

fun worker_step :: "winput \<Rightarrow> worker_st \<times> file_world \<Rightarrow> (worker_st \<times> file_world) option" where
  "worker_step inp (ws, w) =
     (case (w_pc ws, inp) of
        (Reading, InCancel) \<Rightarrow> Some (goto (Leaving (Plain Cancelled)) ws, w)
      | (Reading, InStall) \<Rightarrow> Some (goto (Leaving (Because StalledStream)) ws, w)
      | (Reading, InStreamError) \<Rightarrow> Some (goto (Leaving (Plain (Request None))) ws, w)
      | (Reading, InEnd) \<Rightarrow> Some (goto (FlushEnd False) ws, w)
      | (Reading, InChunk bs) \<Rightarrow> Some (take_chunk bs ws w, w)
      | (Writing piece truncated, InGrant n) \<Rightarrow>
          if 0 < n \<and> n \<le> length piece then Some (write_granted n piece truncated (ws, w)) else None
      | (FlushSave, InFlushed) \<Rightarrow>
          (let (ws1, w1) = flush (ws, w); (t, w2) = now w1
           in Some (goto (Saving (w_downloaded ws) t) ws1, w2))
      | (Saving snap snap_t, InGate) \<Rightarrow>
          (case sync_if_stale w of
             Reuse s \<Rightarrow> Some (settle s snap snap_t (ws, w))
           | WaitForSync \<Rightarrow> Some (ws, w)
           | DoSync \<Rightarrow> (let (s, w1) = begin_sync w in Some (goto (SavingSync snap snap_t s) ws, w1)))
      | (SavingSync snap snap_t s, InSyncDone ok) \<Rightarrow>
          if ok then Some (settle s snap snap_t (ws, end_sync True s w))
          else Some (goto (Returned (Inl (Plain Io))) ws, end_sync False s w)
      | (FlushEnd boundary, InFlushed) \<Rightarrow>
          (let (ws1, w1) = flush (ws, w); (t, w2) = now w1 in Some (goto (Covering boundary t) ws1, w2))
      | (Covering boundary snap_t, InGate) \<Rightarrow>
          (case sync_covering snap_t w of
             Reuse s \<Rightarrow> Some (goto (Concluding boundary) ws, w)
           | WaitForSync \<Rightarrow> Some (ws, w)
           | DoSync \<Rightarrow> (let (s, w1) = begin_sync w in Some (goto (CoverSync boundary snap_t s) ws, w1)))
      | (CoverSync boundary snap_t s, InSyncDone ok) \<Rightarrow>
          if ok then Some (goto (Concluding boundary) ws, end_sync True s w)
          else Some (goto (Returned (Inl (Plain Io))) ws, end_sync False s w)
      | (Concluding boundary, InConclude cancelled db_ok) \<Rightarrow>
          Some (conclude_segment boundary cancelled db_ok (ws, w))
      | (Leaving e, InFlushed) \<Rightarrow>
          (let (ws1, w1) = flush (ws, w) in Some (goto (LeavingSync e (cached w1)) ws1, w1))
      | (LeavingSync e c, InSyncData ok db_ok) \<Rightarrow>
          (let w1 = (if ok then w\<lparr>synced := synced w ++ c\<rparr> else w\<lparr>sync_lost := True\<rparr>)
           in Some (goto (Returned (Inl e)) ws, publish db_ok ws w1))
      | (p, InDrain n) \<Rightarrow>
          (case p of Returned _ \<Rightarrow> None | _ \<Rightarrow> Some (drain n (ws, w)))
      | (p, InIoError) \<Rightarrow>
          (if case p of Writing _ _ \<Rightarrow> True | FlushSave \<Rightarrow> True | FlushEnd _ \<Rightarrow> True | Leaving _ \<Rightarrow> True
                      | _ \<Rightarrow> False
           then Some (goto (Returned (Inl (Plain Io))) ws, w) else None)
      | _ \<Rightarrow> None)"

declare worker_step.simps [simp del]

text \<open>A worker alone, under a sequence of inputs.\<close>

fun worker_run :: "winput list \<Rightarrow> worker_st \<times> file_world \<Rightarrow> (worker_st \<times> file_world) option" where
  "worker_run [] s = Some s"
| "worker_run (i # is) s = Option.bind (worker_step i s) (worker_run is)"

end
