(* ===== verification/Worker_Rows.thy ===== *)
theory Worker_Rows
  imports Worker_Stream
begin

text \<open>
  What the rows of the database and the cells of the file may claim.  \<open>holds res m a n\<close>: the content
  \<open>m\<close> has the bytes of the resource \<open>res\<close> at the \<open>n\<close> offsets from \<open>a\<close>.  The interface
  \<open>prefix_claim\<close> asks of a predicate on (start, count) only that a shorter prefix is easier to
  claim; under it every statement of \<^verbatim>\<open>db.rs\<close> the workers and the coordinator issue keeps the
  claims of the rows true.
\<close>

section \<open>Claims of rows\<close>

locale prefix_claim =
  fixes P :: "int \<Rightarrow> int \<Rightarrow> bool"
  assumes shorter: "P a n \<Longrightarrow> m \<le> n \<Longrightarrow> P a m"
    and empty_claim: "P a 0"
begin

definition rows_sat :: "task_db \<Rightarrow> bool" where
  "rows_sat db \<longleftrightarrow> bt_wf (rows db) \<and>
     (\<forall>i r. bt_get (rows db) i = Some r \<longrightarrow> P (r_start r) (r_downloaded r))"

lemma rows_satD: "rows_sat db \<Longrightarrow> bt_get (rows db) i = Some r \<Longrightarrow> P (r_start r) (r_downloaded r)"
  by (simp add: rows_sat_def)

lemma adjust_sat:
  assumes "rows_sat db"
    and "\<And>r. P (r_start r) (r_downloaded r) \<Longrightarrow> P (r_start (f r)) (r_downloaded (f r))"
  shows "rows_sat (db\<lparr>rows := bt_adjust i f (rows db)\<rparr>)"
  using assms by (auto simp: rows_sat_def bt.get_adj bt_wf_adjust split: if_splits)

lemma bounded_sat:
  assumes "rows_sat db" "P start dl"
  shows "rows_sat (update_segment_progress_bounded i dl start epoch db)"
proof -
  have "P start (if k < dl then k else dl)" for k using assms(2) shorter by simp
  then show ?thesis
    using assms(1) by (auto simp: update_segment_progress_bounded_def intro!: adjust_sat)
qed

lemma batch_row_sat:
  assumes "rows_sat db" "P start dl"
  shows "rows_sat (batch_row epoch (i, dl, start) db)"
proof -
  have "P start k" if "k < dl" for k using assms(2) that shorter by simp
  then show ?thesis using assms by (auto simp: batch_row_def intro!: adjust_sat)
qed

lemma batch_sat:
  assumes "rows_sat db" "\<And>i dl start. (i, dl, start) \<in> set ps \<Longrightarrow> P start dl"
  shows "rows_sat (update_segments_progress_batch epoch ps db)"
  using assms unfolding update_segments_progress_batch_def
proof (induction ps arbitrary: db)
  case (Cons p ps)
  obtain i dl start where p: "p = (i, dl, start)" by (cases p)
  have "rows_sat (batch_row epoch p db)" using Cons.prems unfolding p by (intro batch_row_sat) auto
  moreover have "P start dl" if "(i, dl, start) \<in> set ps" for i dl start
    using Cons.prems(2)[of i dl start] that by simp
  ultimately show ?case using Cons.IH by simp
qed simp

lemma upsert_sat:
  assumes "rows_sat db" "P a n"
  shows "rows_sat (upsert_segment i a b n db)"
  using assms by (auto simp: rows_sat_def upsert_segment_def wf_upsert get_upsert)

lemma split_sat:
  assumes "rows_sat db"
  shows "rows_sat (persist_split ci cs ce 0 par pe db)"
proof -
  have "rows_sat (upsert_segment ci cs ce 0 db)" by (rule upsert_sat[OF assms empty_claim])
  then have "rows_sat ((upsert_segment ci cs ce 0 db)
      \<lparr>rows := bt_adjust par (\<lambda>r. r\<lparr>r_end := pe\<rparr>) (rows (upsert_segment ci cs ce 0 db))\<rparr>)"
    by (rule adjust_sat) simp
  then show ?thesis by (simp add: persist_split_def upsert_segment_def)
qed

lemma remove_sat:
  assumes "bt_wf m" "\<And>i r. bt_get m i = Some r \<Longrightarrow> P (r_start r) (r_downloaded r)"
  shows "bt_wf (foldl (\<lambda>m i. bt_remove i m) m is)
    \<and> (\<forall>i r. bt_get (foldl (\<lambda>m i. bt_remove i m) m is) i = Some r \<longrightarrow> P (r_start r) (r_downloaded r))"
  using assms
proof (induction "is" arbitrary: m)
  case (Cons i "is")
  have "bt_wf (bt_remove i m)" using Cons.prems(1) by (rule bt.wf_del)
  moreover have "P (r_start r) (r_downloaded r)" if "bt_get (bt_remove i m) j = Some r" for j r
    using that Cons.prems by (auto simp: bt.get_del split: if_splits)
  ultimately show ?case using Cons.IH by simp
qed simp

lemma merge_sat:
  assumes "rows_sat db"
  shows "rows_sat (persist_merge par pe absorbed db)"
proof -
  let ?m = "bt_adjust par (\<lambda>r. r\<lparr>r_end := pe\<rparr>) (rows db)"
  have "bt_wf ?m" using assms by (simp add: rows_sat_def bt_wf_adjust)
  moreover have "P (r_start r) (r_downloaded r)" if "bt_get ?m i = Some r" for i r
    using that assms by (auto simp: rows_sat_def bt.get_adj split: if_splits)
  ultimately show ?thesis using remove_sat[of ?m absorbed] by (simp add: rows_sat_def persist_merge_def)
qed

text \<open>Draining the table of watermarks, when the segments have the starts the table counts from.\<close>

lemma drained_sat:
  assumes "rows_sat db" "\<And>i n. (i, n) \<in> set tab \<Longrightarrow> P (origin i) n"
    and "\<And>i s. bt_get m i = Some s \<Longrightarrow> start_byte s = origin i"
  shows "rows_sat (update_segments_progress_batch epoch (take_durable_progress_rows tab m) db)"
proof (rule batch_sat[OF assms(1)])
  fix i dl start
  assume "(i, dl, start) \<in> set (take_durable_progress_rows tab m)"
  then obtain p where p: "p \<in> set tab" "(\<lambda>(idx, bytes). case bt_get m idx of None \<Rightarrow> None
      | Some seg \<Rightarrow> if lstate seg = Completed then None
          else Some (idx, max (min bytes (seg_size seg)) 0, start_byte seg)) p = Some (i, dl, start)"
    unfolding take_durable_progress_rows_def in_map_filter by blast
  obtain n where "p = (i, n)" using p(2) by (cases p) (simp split: option.splits if_splits)
  with p obtain s where "(i, n) \<in> set tab" "bt_get m i = Some s" "dl = max (min n (seg_size s)) 0"
      "start = start_byte s"
    by (auto split: option.splits if_splits)
  then have "P start n" "dl \<le> n \<or> dl \<le> 0" using assms(2,3) by auto
  then show "P start dl" by (metis shorter empty_claim)
qed

end

section \<open>Contents of the file\<close>

definition holds :: "(int \<Rightarrow> byte) \<Rightarrow> content \<Rightarrow> int \<Rightarrow> int \<Rightarrow> bool" where
  "holds res m a n \<longleftrightarrow> (\<forall>x. a \<le> x \<longrightarrow> x < a + n \<longrightarrow> m x = Some (res x))"

definition sound_content :: "(int \<Rightarrow> byte) \<Rightarrow> content \<Rightarrow> bool" where
  "sound_content res m \<longleftrightarrow> (\<forall>x b. m x = Some b \<longrightarrow> b = res x)"

definition below :: "(int \<Rightarrow> byte) \<Rightarrow> content \<Rightarrow> content \<Rightarrow> bool" where
  "below res m m' \<longleftrightarrow> (\<forall>x. m x = Some (res x) \<longrightarrow> m' x = Some (res x))"

text \<open>The bytes \<open>bs\<close> are those of the resource from \<open>a\<close> on.\<close>

definition res_bytes :: "(int \<Rightarrow> byte) \<Rightarrow> int \<Rightarrow> byte list \<Rightarrow> bool" where
  "res_bytes res a bs \<longleftrightarrow> (\<forall>i < length bs. bs ! i = res (a + int i))"

lemma holds_shorter: "holds res m a n \<Longrightarrow> k \<le> n \<Longrightarrow> holds res m a k"
  by (simp add: holds_def)

lemma holds_zero [simp]: "n \<le> 0 \<Longrightarrow> holds res m a n"
  by (simp add: holds_def)

lemma holds_below: "holds res m a n \<Longrightarrow> below res m m' \<Longrightarrow> holds res m' a n"
  by (simp add: holds_def below_def)

lemma below_refl [simp]: "below res m m"
  by (simp add: below_def)

lemma below_trans: "below res m1 m2 \<Longrightarrow> below res m2 m3 \<Longrightarrow> below res m1 m3"
  by (simp add: below_def)

lemma below_add: "sound_content res c \<Longrightarrow> below res m (m ++ c)" "below res c (m ++ c)"
  by (auto simp: below_def sound_content_def map_add_def split: option.splits)

lemma sound_add: "sound_content res m \<Longrightarrow> sound_content res c \<Longrightarrow> sound_content res (m ++ c)"
  by (auto simp: sound_content_def map_add_def split: option.splits)

lemma res_bytes_append:
  "res_bytes res a (bs @ cs) \<longleftrightarrow> res_bytes res a bs \<and> res_bytes res (a + int (length bs)) cs"
proof
  assume l: "res_bytes res a (bs @ cs)"
  have "bs ! i = res (a + int i)" if "i < length bs" for i
    using l that by (auto simp: res_bytes_def nth_append dest: spec[of _ i])
  moreover have "cs ! i = res (a + int (length bs) + int i)" if "i < length cs" for i
    using l that by (auto simp: res_bytes_def nth_append add.assoc dest: spec[of _ "length bs + i"])
  ultimately show "res_bytes res a bs \<and> res_bytes res (a + int (length bs)) cs"
    by (simp add: res_bytes_def)
next
  assume r: "res_bytes res a bs \<and> res_bytes res (a + int (length bs)) cs"
  show "res_bytes res a (bs @ cs)"
    unfolding res_bytes_def
  proof (intro allI impI)
    fix i
    assume i: "i < length (bs @ cs)"
    show "(bs @ cs) ! i = res (a + int i)"
    proof (cases "i < length bs")
      case False
      then have "cs ! (i - length bs) = res (a + int (length bs) + int (i - length bs))"
        using r i by (auto simp: res_bytes_def)
      then show ?thesis using False by (simp add: nth_append)
    qed (use r in \<open>simp add: res_bytes_def nth_append\<close>)
  qed
qed

lemma res_bytes_take: "res_bytes res a bs \<Longrightarrow> res_bytes res a (take n bs)"
  by (simp add: res_bytes_def)

lemma res_bytes_drop: "res_bytes res a bs \<Longrightarrow> n \<le> length bs \<Longrightarrow> res_bytes res (a + int n) (drop n bs)"
  by (auto simp: res_bytes_def add.assoc)

lemma put_sound:
  assumes "sound_content res m" "res_bytes res a bs"
  shows "sound_content res (put_bytes a bs m)" "below res m (put_bytes a bs m)"
    "holds res (put_bytes a bs m) a (int (length bs))"
proof -
  have b: "bs ! nat (x - a) = res x" if "a \<le> x" "x < a + int (length bs)" for x
  proof -
    have "nat (x - a) < length bs" "a + int (nat (x - a)) = x" using that by auto
    then show ?thesis using assms(2) by (metis res_bytes_def)
  qed
  show "sound_content res (put_bytes a bs m)"
    unfolding sound_content_def
  proof (intro allI impI)
    fix x v
    assume "put_bytes a bs m x = Some v"
    then have "a \<le> x \<and> x < a + int (length bs) \<and> v = bs ! nat (x - a) \<or> m x = Some v"
      by (auto simp: put_bytes_def split: if_splits)
    then show "v = res x" using b assms(1) unfolding sound_content_def by metis
  qed
  show "below res m (put_bytes a bs m)" by (simp add: below_def put_bytes_def b)
  show "holds res (put_bytes a bs m) a (int (length bs))" by (simp add: holds_def put_bytes_def b)
qed

lemma holds_extend:
  assumes "holds res m a n" "holds res m (a + n) k"
  shows "holds res m a (n + k)"
  using assms by (force simp: holds_def)

end
