(* ===== verification/Worker_Inv.thy ===== *)
theory Worker_Inv
  imports Worker_Rows
begin

text \<open>
  The invariant of one worker and of the world it shares, and its preservation by every step of the
  worker.  \<open>evolves\<close> is what every step guarantees and every worker relies on: contents only
  grow, and a new completed or running \<^verbatim>\<open>fdatasync\<close> covers what was cached before it began.
\<close>

section \<open>What others may do\<close>

definition evolves :: "(int \<Rightarrow> byte) \<Rightarrow> file_world \<Rightarrow> file_world \<Rightarrow> bool" where
  "evolves res w w' \<longleftrightarrow> clock w \<le> clock w' \<and> below res (cached w) (cached w')
     \<and> below res (synced w) (synced w') \<and> (sync_lost w \<longrightarrow> sync_lost w')
     \<and> (\<forall>s. gate_start w' = Some s \<longrightarrow> gate_start w = Some s
          \<or> (\<exists>c. inflight w = Some (s, c) \<and> below res c (synced w')) \<or> below res (cached w) (synced w'))
     \<and> (\<forall>s c. inflight w' = Some (s, c) \<longrightarrow> inflight w = Some (s, c) \<or> below res (cached w) c)"

lemma evolves_refl [simp]: "evolves res w w"
  by (simp add: evolves_def)

lemma evolves_trans:
  assumes "evolves res w1 w2" "evolves res w2 w3"
  shows "evolves res w1 w3"
proof -
  have g: "gate_start w1 = Some s \<or> (\<exists>c. inflight w1 = Some (s, c) \<and> below res c (synced w3))
      \<or> below res (cached w1) (synced w3)" if "gate_start w3 = Some s" for s
  proof -
    have "gate_start w2 = Some s \<or> (\<exists>c. inflight w2 = Some (s, c) \<and> below res c (synced w3))
        \<or> below res (cached w2) (synced w3)"
      using assms(2) that by (simp add: evolves_def)
    then consider "gate_start w2 = Some s" | c where "inflight w2 = Some (s, c)" "below res c (synced w3)"
      | "below res (cached w2) (synced w3)"
      by blast
    then show ?thesis
    proof cases
      case 1
      then show ?thesis using assms below_trans unfolding evolves_def by blast
    next
      case 2
      then show ?thesis using assms(1) below_trans unfolding evolves_def by blast
    next
      case 3
      then show ?thesis using assms(1) below_trans unfolding evolves_def by blast
    qed
  qed
  have "inflight w1 = Some (s, c) \<or> below res (cached w1) c" if "inflight w3 = Some (s, c)" for s c
    using assms that below_trans unfolding evolves_def by blast
  moreover have "clock w1 \<le> clock w3" "sync_lost w1 \<longrightarrow> sync_lost w3"
    using assms by (auto simp: evolves_def)
  moreover have "below res (cached w1) (cached w3)" "below res (synced w1) (synced w3)"
    using assms below_trans unfolding evolves_def by blast+
  ultimately show ?thesis using g unfolding evolves_def by blast
qed

text \<open>Steps that leave the file and the gate alone.\<close>

definition same_file :: "file_world \<Rightarrow> file_world \<Rightarrow> bool" where
  "same_file w w' \<longleftrightarrow> clock w \<le> clock w' \<and> cached w' = cached w \<and> synced w' = synced w
     \<and> gate_start w' = gate_start w \<and> inflight w' = inflight w \<and> gate_syncing w' = gate_syncing w
     \<and> (sync_lost w \<longrightarrow> sync_lost w')"

lemma same_file_evolves: "same_file w w' \<Longrightarrow> evolves res w w'"
  by (simp add: same_file_def evolves_def)

section \<open>Invariants\<close>

definition world_ok :: "(int \<Rightarrow> byte) \<Rightarrow> file_world \<Rightarrow> bool" where
  "world_ok res w \<longleftrightarrow> sound_content res (cached w) \<and> sound_content res (synced w)
     \<and> (\<forall>s c. inflight w = Some (s, c) \<longrightarrow> sound_content res c \<and> s < clock w)
     \<and> (\<forall>s. gate_start w = Some s \<longrightarrow> s < clock w)
     \<and> (gate_syncing w \<longleftrightarrow> inflight w \<noteq> None)"

text \<open>
  A snapshot taken at \<open>t\<close>, after a flush: its bytes are cached, and every \<^verbatim>\<open>fdatasync\<close> that begins
  at \<open>t\<close> or later covers them.
\<close>

definition snap_ok :: "(int \<Rightarrow> byte) \<Rightarrow> file_world \<Rightarrow> int \<Rightarrow> int \<Rightarrow> instant \<Rightarrow> bool" where
  "snap_ok res w a n t \<longleftrightarrow> t < clock w \<and> holds res (cached w) a n
     \<and> (\<forall>s. gate_start w = Some s \<longrightarrow> t \<le> s \<longrightarrow> holds res (synced w) a n)
     \<and> (\<forall>s c. inflight w = Some (s, c) \<longrightarrow> t \<le> s \<longrightarrow> holds res c a n)"

text \<open>A published count: on disk, unless an ignored \<^verbatim>\<open>fdatasync\<close> failed; visible in any case.\<close>

definition disk_claim :: "(int \<Rightarrow> byte) \<Rightarrow> file_world \<Rightarrow> int \<Rightarrow> int \<Rightarrow> bool" where
  "disk_claim res w a n \<longleftrightarrow> holds res (cached w) a n \<and> (sync_lost w \<or> holds res (synced w) a n)"

interpretation on_disk: prefix_claim "disk_claim res w" for res w
  by unfold_locales (auto simp: disk_claim_def intro: holds_shorter)

definition past_end :: "worker_st \<Rightarrow> bool" where
  "past_end ws \<longleftrightarrow> w_end ws < w_start ws + w_downloaded ws"

definition pc_ok :: "(int \<Rightarrow> byte) \<Rightarrow> file_world \<Rightarrow> worker_st \<Rightarrow> bool" where
  "pc_ok res w ws =
     (case w_pc ws of
        Writing piece truncated \<Rightarrow> res_bytes res (w_start ws + w_downloaded ws) piece
          \<and> (truncated \<longrightarrow> w_start ws + w_downloaded ws + int (length piece) = w_end ws + 1)
      | Saving k t \<Rightarrow> snap_ok res w (w_start ws) k t
      | SavingSync k t s \<Rightarrow> snap_ok res w (w_start ws) k t \<and> t \<le> s
      | FlushEnd b \<Rightarrow> b \<longrightarrow> past_end ws
      | Covering b t \<Rightarrow> (b \<longrightarrow> past_end ws) \<and> w_buffer ws = []
          \<and> snap_ok res w (w_start ws) (w_downloaded ws) t
      | CoverSync b t s \<Rightarrow> (b \<longrightarrow> past_end ws) \<and> w_buffer ws = []
          \<and> snap_ok res w (w_start ws) (w_downloaded ws) t \<and> t \<le> s
      | Concluding b \<Rightarrow> (b \<longrightarrow> past_end ws) \<and> w_buffer ws = []
          \<and> holds res (synced w) (w_start ws) (w_downloaded ws)
      | LeavingSync e c \<Rightarrow> w_buffer ws = [] \<and> sound_content res c
          \<and> holds res c (w_start ws) (w_downloaded ws)
      | Returned (Inr k) \<Rightarrow> k = w_downloaded ws \<and> holds res (synced w) (w_start ws) k
          \<and> holds res (cached w) (w_start ws) k
      | _ \<Rightarrow> True)"

definition worker_ok :: "(int \<Rightarrow> byte) \<Rightarrow> file_world \<Rightarrow> worker_st \<Rightarrow> bool" where
  "worker_ok res w ws \<longleftrightarrow>
     holds res (cached w) (w_start ws) (w_downloaded ws - int (length (w_buffer ws)))
     \<and> res_bytes res (file_pos ws) (w_buffer ws)
     \<and> disk_claim res w (w_start ws) (w_durable ws)
     \<and> (\<forall>off t. w_pending ws = Some (off, t) \<longrightarrow> snap_ok res w (w_start ws) off t)
     \<and> pc_ok res w ws"

definition syncing_at :: "worker_st \<Rightarrow> instant option" where
  "syncing_at ws = (case w_pc ws of SavingSync _ _ s \<Rightarrow> Some s | CoverSync _ _ s \<Rightarrow> Some s | _ \<Rightarrow> None)"

definition sync_owner :: "file_world \<Rightarrow> worker_st \<Rightarrow> bool" where
  "sync_owner w ws \<longleftrightarrow> (\<forall>s. syncing_at ws = Some s \<longrightarrow> (\<exists>c. inflight w = Some (s, c)))"

text \<open>The server keeps its word: the body goes on with the bytes of the resource.\<close>

definition honest :: "(int \<Rightarrow> byte) \<Rightarrow> worker_st \<Rightarrow> winput \<Rightarrow> bool" where
  "honest res ws inp \<longleftrightarrow>
     (case inp of InChunk bs \<Rightarrow> bs \<noteq> [] \<and> res_bytes res (w_start ws + w_downloaded ws) bs | _ \<Rightarrow> True)"

section \<open>Noninterference\<close>

lemma snap_evolves:
  assumes "snap_ok res w a n t" "evolves res w w'"
  shows "snap_ok res w' a n t"
proof -
  note h = assms[unfolded snap_ok_def evolves_def]
  have "holds res (synced w') a n" if "gate_start w' = Some s" "t \<le> s" for s
    using h that holds_below by blast
  moreover have "holds res c a n" if "inflight w' = Some (s, c)" "t \<le> s" for s c
    using h that holds_below by blast
  moreover have "t < clock w'" "holds res (cached w') a n"
    using h holds_below by (auto intro: less_le_trans)
  ultimately show ?thesis by (simp add: snap_ok_def)
qed

lemma holds_evolves:
  assumes "evolves res w w'"
  shows "holds res (cached w) a n \<Longrightarrow> holds res (cached w') a n"
    "holds res (synced w) a n \<Longrightarrow> holds res (synced w') a n"
  using assms by (auto simp: evolves_def intro: holds_below)

lemma claim_evolves: "disk_claim res w a n \<Longrightarrow> evolves res w w' \<Longrightarrow> disk_claim res w' a n"
  using holds_evolves[of res w w' a n] by (auto simp: disk_claim_def evolves_def)

lemma pc_evolves:
  assumes "pc_ok res w ws" "evolves res w w'"
  shows "pc_ok res w' ws"
  using assms(1) snap_evolves[OF _ assms(2)] holds_evolves[OF assms(2)]
  by (auto simp: pc_ok_def split: pc.splits sum.splits)

lemma worker_evolves:
  assumes "worker_ok res w ws" "evolves res w w'"
  shows "worker_ok res w' ws"
  using assms(1) snap_evolves[OF _ assms(2)] holds_evolves(1)[OF assms(2)] claim_evolves[OF _ assms(2)]
    pc_evolves[OF _ assms(2)]
  by (simp add: worker_ok_def)

lemma snap_synced: "snap_ok res w a n t \<Longrightarrow> gate_start w = Some s \<Longrightarrow> t \<le> s \<Longrightarrow> holds res (synced w) a n"
  by (simp add: snap_ok_def)

section \<open>The operations\<close>

lemma now_spec:
  assumes "world_ok res w"
  shows "now w = (clock w, w\<lparr>clock := clock w + 1\<rparr>)" "same_file w (w\<lparr>clock := clock w + 1\<rparr>)"
    "world_ok res (w\<lparr>clock := clock w + 1\<rparr>)"
  using assms by (auto simp: now_def same_file_def world_ok_def)

text \<open>The instant of a snapshot comes after everything the gate has begun.\<close>

lemma snap_now:
  assumes "world_ok res w" "holds res (cached w) a n"
  shows "snap_ok res (w\<lparr>clock := clock w + 1\<rparr>) a n (clock w)"
  using assms by (force simp: snap_ok_def world_ok_def)

lemma drain_spec:
  assumes "worker_ok res w ws" "world_ok res w" "drain k (ws, w) = (ws', w')"
  shows "worker_ok res w' ws'" "world_ok res w'" "evolves res w w'"
    "w' = w\<lparr>cached := cached w'\<rparr>" "ws' = ws\<lparr>w_buffer := drop k (w_buffer ws)\<rparr>"
proof -
  let ?b = "w_buffer ws" and ?p = "file_pos ws"
  have d: "ws' = ws\<lparr>w_buffer := drop k ?b\<rparr>" "w' = w\<lparr>cached := put_bytes ?p (take k ?b) (cached w)\<rparr>"
    using assms(3) by (simp_all add: drain_def)
  have b: "res_bytes res ?p ?b" and s: "sound_content res (cached w)"
    using assms by (simp_all add: worker_ok_def world_ok_def)
  note put = put_sound[OF s res_bytes_take[OF b, of k]]
  show ev: "evolves res w w'" using put(2) by (simp add: evolves_def d)
  show "world_ok res w'" using assms(2) put(1) by (simp add: world_ok_def d)
  have n: "- int (length ?b) + int (length (take k ?b)) = - int (length (drop k ?b))" by simp
  have "holds res (cached w') (w_start ws)
      (w_downloaded ws - int (length ?b) + int (length (take k ?b)))"
    using holds_evolves(1)[OF ev, of "w_start ws" "w_downloaded ws - int (length ?b)"] assms(1) put(3)
    by (intro holds_extend) (simp_all add: worker_ok_def d file_pos_def add_diff_eq)
  then have c: "holds res (cached w') (w_start ws) (w_downloaded ws - int (length (drop k ?b)))"
    by (simp only: diff_conv_add_uminus add.assoc n)
  have "res_bytes res (?p + int (min k (length ?b))) (drop (min k (length ?b)) ?b)"
    using res_bytes_drop[OF b] by simp
  then have "res_bytes res (file_pos ws') (drop k ?b)"
    by (simp add: d file_pos_def min_def of_nat_diff algebra_simps split: if_splits)
  moreover have "worker_ok res w' ws" by (rule worker_evolves[OF assms(1) ev])
  ultimately show "worker_ok res w' ws'"
    using c by (auto simp: worker_ok_def d pc_ok_def past_end_def split: pc.splits sum.splits)
  show "w' = w\<lparr>cached := cached w'\<rparr>" "ws' = ws\<lparr>w_buffer := drop k (w_buffer ws)\<rparr>" by (simp_all add: d)
qed

lemma flush_spec:
  assumes "worker_ok res w ws" "world_ok res w" "flush (ws, w) = (ws', w')"
  shows "worker_ok res w' ws'" "world_ok res w'" "evolves res w w'"
    "w' = w\<lparr>cached := cached w'\<rparr>" "ws' = ws\<lparr>w_buffer := []\<rparr>"
    "holds res (cached w') (w_start ws) (w_downloaded ws)"
proof -
  note d = drain_spec[OF assms(1,2), of "length (w_buffer ws)" ws' w']
  show "worker_ok res w' ws'" "world_ok res w'" "evolves res w w'" "w' = w\<lparr>cached := cached w'\<rparr>"
    "ws' = ws\<lparr>w_buffer := []\<rparr>"
    using d assms(3) by (simp_all add: flush_def)
  then show "holds res (cached w') (w_start ws) (w_downloaded ws)" by (simp add: worker_ok_def)
qed

lemma begin_sync_spec:
  assumes "world_ok res w" "begin_sync w = (s, w')"
  shows "world_ok res w'" "evolves res w w'" "s = clock w" "inflight w' = Some (s, cached w)"
    "wdb w' = wdb w" "durable_table w' = durable_table w" "claims w' = claims w"
  using assms by (auto simp: begin_sync_def now_def world_ok_def evolves_def )

lemma end_sync_spec:
  assumes "world_ok res w" "inflight w = Some (s, c)"
  shows "world_ok res (end_sync ok s w)" "evolves res w (end_sync ok s w)"
    "ok \<Longrightarrow> gate_start (end_sync ok s w) = Some s" "inflight (end_sync ok s w) = None"
    "wdb (end_sync ok s w) = wdb w" "durable_table (end_sync ok s w) = durable_table w"
    "claims (end_sync ok s w) = claims w"
  using assms
  by (auto simp: end_sync_def Let_def world_ok_def evolves_def intro: sound_add below_add)

end
