(* ===== verification/Worker_Steps.thy ===== *)
theory Worker_Steps
  imports Worker_Inv
begin

text \<open>
  Every step of a worker keeps its invariant, the invariant of the shared world and the truth of
  what has been published, and guarantees \<open>evolves\<close> to the others.
\<close>

section \<open>What has been published\<close>

definition records_ok :: "(int \<Rightarrow> byte) \<Rightarrow> (int \<Rightarrow> int) \<Rightarrow> file_world \<Rightarrow> bool" where
  "records_ok res origin w \<longleftrightarrow> on_disk.rows_sat res w (wdb w) \<and> bt_wf (durable_table w)
     \<and> (\<forall>i n. bt_get (durable_table w) i = Some n \<longrightarrow> disk_claim res w (origin i) n)
     \<and> (\<forall>a n. (a, n) \<in> set (claims w) \<longrightarrow> disk_claim res w a n)"

lemma rows_evolve:
  assumes "on_disk.rows_sat res w db" "evolves res w w'"
  shows "on_disk.rows_sat res w' db"
  using assms(1) claim_evolves[OF _ assms(2)] by (auto simp: on_disk.rows_sat_def)

lemma records_evolve:
  assumes "records_ok res origin w" "evolves res w w'"
    and "wdb w' = wdb w" "durable_table w' = durable_table w" "claims w' = claims w"
  shows "records_ok res origin w'"
  using assms(1,3-) rows_evolve[OF _ assms(2)] claim_evolves[OF _ assms(2)]
  by (auto simp: records_ok_def)

lemma publish_same: "same_file w (publish db_ok ws w)"
  by (simp add: publish_def publish_shared_def same_file_def Let_def)

lemma publish_records:
  assumes "records_ok res origin w" "disk_claim res w (w_start ws) (w_downloaded ws)"
  shows "records_ok res origin (publish db_ok ws w)"
proof -
  let ?w = "publish db_ok ws w"
  have ev: "evolves res w ?w" by (rule same_file_evolves[OF publish_same])
  have "on_disk.rows_sat res w (wdb ?w)"
    using assms on_disk.bounded_sat
    by (auto simp: records_ok_def publish_def publish_shared_def Let_def)
  then have "on_disk.rows_sat res ?w (wdb ?w)" by (rule rows_evolve[OF _ ev])
  moreover have "durable_table ?w = durable_table w" "claims ?w = (w_start ws, w_downloaded ws) # claims w"
    by (simp_all add: publish_def publish_shared_def Let_def)
  ultimately show ?thesis
    using assms claim_evolves[OF _ ev] by (auto simp: records_ok_def)
qed

section \<open>Cases\<close>

definition step_ok :: "(int \<Rightarrow> byte) \<Rightarrow> (int \<Rightarrow> int) \<Rightarrow> worker_st \<times> file_world \<Rightarrow> worker_st \<times> file_world \<Rightarrow> bool" where
  "step_ok res origin = (\<lambda>(ws, w) (ws', w').
     world_ok res w' \<and> evolves res w w' \<and> worker_ok res w' ws' \<and> sync_owner w' ws'
     \<and> w_start ws' = w_start ws \<and> w_idx ws' = w_idx ws
     \<and> (records_ok res origin w \<longrightarrow> w_start ws = origin (w_idx ws) \<longrightarrow> records_ok res origin w'))"

lemma goto_fields [simp]:
  "w_pc (goto p ws) = p" "w_start (goto p ws) = w_start ws" "w_idx (goto p ws) = w_idx ws"
  "w_downloaded (goto p ws) = w_downloaded ws" "w_end (goto p ws) = w_end ws"
  "w_buffer (goto p ws) = w_buffer ws" "w_durable (goto p ws) = w_durable ws"
  "w_pending (goto p ws) = w_pending ws" "file_pos (goto p ws) = file_pos ws"
  by (simp_all add: goto_def file_pos_def)

lemma worker_goto: "worker_ok res w ws \<Longrightarrow> pc_ok res w (goto p ws) \<Longrightarrow> worker_ok res w (goto p ws)"
  by (simp add: worker_ok_def)

lemma worker_end: "worker_ok res w ws \<Longrightarrow> pc_ok res w (goto p (ws\<lparr>w_end := e\<rparr>)) \<Longrightarrow>
    worker_ok res w (goto p (ws\<lparr>w_end := e\<rparr>))"
  by (simp add: worker_ok_def file_pos_def)

text \<open>A step that leaves the world as it is.\<close>

lemma stay_ok:
  assumes "world_ok res w" "worker_ok res w ws'" "syncing_at ws' = None"
    "w_start ws' = w_start ws" "w_idx ws' = w_idx ws"
  shows "step_ok res origin (ws, w) (ws', w)"
  using assms by (simp add: step_ok_def sync_owner_def)

lemma chunk_ok:
  assumes "world_ok res w" "worker_ok res w ws" "bs \<noteq> []"
    and "res_bytes res (w_start ws + w_downloaded ws) bs"
  shows "step_ok res origin (ws, w) (take_chunk bs ws w, w)"
proof -
  let ?pos = "w_start ws + w_downloaded ws" and ?e = "shared_end ws w"
  let ?n = "min (length bs) (nat (max (?e - ?pos + 1) 0))"
  show ?thesis
  proof (cases "?n = 0")
    case True
    then have t: "take_chunk bs ws w = goto (FlushEnd True) (ws\<lparr>w_end := ?e\<rparr>)"
      by (simp only: take_chunk_def Let_def if_True simp_thms)
    have "nat (max (?e - ?pos + 1) 0) = 0" using True assms(3) by (simp add: min_def split: if_splits)
    then have "?e < ?pos" by simp
    then show ?thesis
      using assms(1,2) unfolding t by (intro stay_ok worker_end) (simp_all add: syncing_at_def pc_ok_def past_end_def)
  next
    case False
    then have t: "take_chunk bs ws w
        = goto (Writing (take ?n bs) (?n < length bs)) (ws\<lparr>w_end := ?e\<rparr>)"
      by (simp only: take_chunk_def Let_def if_False)
    have "?pos + int ?n = ?e + 1" if "?n < length bs" using that False by auto
    then have "pc_ok res w (goto (Writing (take ?n bs) (?n < length bs)) (ws\<lparr>w_end := ?e\<rparr>))"
      using assms(4) by (auto simp: pc_ok_def res_bytes_take)
    then show ?thesis
      using assms(1,2) unfolding t by (intro stay_ok worker_end) (simp_all add: syncing_at_def)
  qed
qed

lemma grant_ok:
  assumes "world_ok res w" "worker_ok res w ws" "w_pc ws = Writing piece truncated" "n \<le> length piece"
  shows "step_ok res origin (ws, w) (write_granted n piece truncated (ws, w))"
proof -
  obtain ws' w' where g: "write_granted n piece truncated (ws, w) = (ws', w')" by fastforce
  let ?ws = "ws\<lparr>w_buffer := w_buffer ws @ take n piece, w_downloaded := w_downloaded ws + int n\<rparr>"
  have b: "res_bytes res (w_start ws + w_downloaded ws) piece"
    and e: "truncated \<Longrightarrow> w_start ws + w_downloaded ws + int (length piece) = w_end ws + 1"
    using assms(2,3) by (auto simp: worker_ok_def pc_ok_def)
  have sf: "same_file w w'" and rec: "wdb w' = wdb w" "durable_table w' = durable_table w" "claims w' = claims w"
    using g by (auto simp: write_granted_def publish_shared_def same_file_def Let_def)
  obtain p where p: "ws' = goto p ?ws"
    "p = Writing (drop n piece) truncated \<and> n < length piece \<or> n = length piece
       \<and> (p = FlushEnd True \<and> truncated \<or> p = FlushSave \<or> p = Reading)"
    using g assms(4) by (auto simp: write_granted_def Let_def)
  have pos: "file_pos ?ws = file_pos ws" using assms(4) by (simp add: file_pos_def)
  have "res_bytes res (file_pos ?ws) (w_buffer ?ws)"
    using assms(2) res_bytes_take[OF b, of n]
    by (simp add: pos res_bytes_append worker_ok_def) (simp add: file_pos_def)
  moreover have "pc_ok res w' ws'"
    using p e res_bytes_drop[OF b assms(4)] by (auto simp: pc_ok_def past_end_def add.assoc)
  moreover have "worker_ok res w' ws"
    using assms(2) same_file_evolves[OF sf] by (rule worker_evolves)
  ultimately have "worker_ok res w' ws'" using p(1) assms(4) by (simp add: worker_ok_def file_pos_def)
  moreover have "world_ok res w'" using assms(1) sf by (auto simp: same_file_def world_ok_def)
  moreover have "syncing_at ws' = None" using p by (auto simp: syncing_at_def)
  ultimately show ?thesis
    using same_file_evolves[OF sf] records_evolve[OF _ same_file_evolves[OF sf] rec] p(1) g
    by (simp add: step_ok_def sync_owner_def)
qed

text \<open>The end of a periodic save.\<close>

lemma settle_shape:
  assumes "settle s k t (ws, w) = (ws', w')"
  obtains d pend where "ws' = goto Reading (ws\<lparr>w_durable := d, w_pending := pend, w_saved := clock w\<rparr>)"
    "d = k \<and> t \<le> s \<or> d = w_durable ws \<or> (\<exists>u. w_pending ws = Some (d, u) \<and> u \<le> s)"
    "pend = None \<or> pend = Some (k, t)"
    "w' = (if d \<noteq> w_durable ws
       then w\<lparr>durable_table := bt_insert (w_idx ws) d (durable_table w), claims := (w_start ws, d) # claims w\<rparr>
       else w)\<lparr>clock := clock w + 1\<rparr>"
proof (cases "t \<le> s")
  case True
  then show ?thesis using assms by (intro that[of None k]) (auto simp: settle_def now_def Let_def)
next
  case False
  let ?d = "case w_pending ws of Some (off, u) \<Rightarrow> if u \<le> s then off else w_durable ws | None \<Rightarrow> w_durable ws"
  show ?thesis
    using assms False
    by (intro that[of "Some (k, t)" ?d]) (auto simp: settle_def now_def Let_def split: option.splits)
qed

lemma settle_ok:
  assumes "world_ok res w" "worker_ok res w ws" "gate_start w = Some s" "snap_ok res w (w_start ws) k t"
  shows "step_ok res origin (ws, w) (settle s k t (ws, w))"
proof -
  obtain ws' w' where g: "settle s k t (ws, w) = (ws', w')" by fastforce
  obtain d pend where f: "ws' = goto Reading (ws\<lparr>w_durable := d, w_pending := pend, w_saved := clock w\<rparr>)"
    and d: "d = k \<and> t \<le> s \<or> d = w_durable ws \<or> (\<exists>u. w_pending ws = Some (d, u) \<and> u \<le> s)"
    and p: "pend = None \<or> pend = Some (k, t)"
    and w': "w' = (if d \<noteq> w_durable ws
       then w\<lparr>durable_table := bt_insert (w_idx ws) d (durable_table w), claims := (w_start ws, d) # claims w\<rparr>
       else w)\<lparr>clock := clock w + 1\<rparr>"
    by (rule settle_shape[OF g])
  have c: "disk_claim res w (w_start ws) n" if "snap_ok res w (w_start ws) n u" "u \<le> s" for n u
    using that assms(3) by (simp add: disk_claim_def snap_ok_def)
  have d: "disk_claim res w (w_start ws) d" using d c assms(2,4) unfolding worker_ok_def by blast
  have sf: "same_file w w'" by (simp add: w' same_file_def)
  have ev: "evolves res w w'" by (rule same_file_evolves[OF sf])
  have "worker_ok res w' ws" by (rule worker_evolves[OF assms(2) ev])
  then have "worker_ok res w' ws'"
    using p snap_evolves[OF assms(4) ev] claim_evolves[OF d ev]
    by (auto simp: f worker_ok_def file_pos_def pc_ok_def)
  moreover have "world_ok res w'" using assms(1) sf by (auto simp: same_file_def world_ok_def)
  moreover have "records_ok res origin w'"
    if r: "records_ok res origin w" "w_start ws = origin (w_idx ws)"
  proof -
    have "on_disk.rows_sat res w' (wdb w')" using r(1) rows_evolve[OF _ ev] by (simp add: records_ok_def w')
    moreover have "disk_claim res w' (w_start ws) d" by (rule claim_evolves[OF d ev])
    ultimately show ?thesis
      using r claim_evolves[OF _ ev] by (auto simp: records_ok_def bt.get_put bt.wf_put w' split: if_splits)
  qed
  ultimately show ?thesis using ev by (simp add: g step_ok_def sync_owner_def f syncing_at_def)
qed

text \<open>Flushing, and the instant read after it.\<close>

lemma flush_now_ok:
  assumes "world_ok res w" "worker_ok res w ws" "flush (ws, w) = (ws1, w1)"
    and "\<And>t. t = clock w1 \<Longrightarrow> snap_ok res (w1\<lparr>clock := clock w1 + 1\<rparr>) (w_start ws) (w_downloaded ws) t
        \<Longrightarrow> pc_ok res (w1\<lparr>clock := clock w1 + 1\<rparr>) (goto (p t) ws1) \<and> syncing_at (goto (p t) ws1) = None"
  shows "step_ok res origin (ws, w) (goto (p (clock w1)) ws1, w1\<lparr>clock := clock w1 + 1\<rparr>)"
proof -
  let ?w = "w1\<lparr>clock := clock w1 + 1\<rparr>"
  note fl = flush_spec[OF assms(2,1,3)]
  note n = now_spec[OF fl(2)]
  have ev: "evolves res w ?w" using fl(3) same_file_evolves[OF n(2)] by (rule evolves_trans)
  have "snap_ok res ?w (w_start ws) (w_downloaded ws) (clock w1)" by (rule snap_now[OF fl(2,6)])
  then have p: "pc_ok res ?w (goto (p (clock w1)) ws1)" "syncing_at (goto (p (clock w1)) ws1) = None"
    using assms(4) by auto
  have "worker_ok res ?w ws1" by (rule worker_evolves[OF fl(1) same_file_evolves[OF n(2)]])
  then have "worker_ok res ?w (goto (p (clock w1)) ws1)" using p(1) by (rule worker_goto)
  moreover have "wdb w1 = wdb w" "durable_table w1 = durable_table w" "claims w1 = claims w"
    by (subst fl(4), simp)+
  ultimately show ?thesis
    using ev n(3) p(2) records_evolve[OF _ ev] by (simp add: step_ok_def sync_owner_def fl(5))
qed

text \<open>Entering the gate's own \<^verbatim>\<open>fdatasync\<close>.\<close>

lemma begin_ok:
  assumes "world_ok res w" "worker_ok res w ws" "begin_sync w = (s, w1)"
    and "\<And>w'. evolves res w w' \<Longrightarrow> pc_ok res w' (goto p ws)" "syncing_at (goto p ws) = Some s"
  shows "step_ok res origin (ws, w) (goto p ws, w1)"
proof -
  note b = begin_sync_spec[OF assms(1,3)]
  have "worker_ok res w1 (goto p ws)"
    using worker_evolves[OF assms(2) b(2)] assms(4)[OF b(2)] by (rule worker_goto)
  then show ?thesis
    using b records_evolve[OF _ b(2) b(5-7)] assms(5) by (simp add: step_ok_def sync_owner_def)
qed

text \<open>Publishing on the way out.\<close>

lemma publish_ok:
  assumes "world_ok res w" "evolves res w0 w" "worker_ok res w ws'" "syncing_at ws' = None"
    and "w_start ws' = w_start ws" "w_idx ws' = w_idx ws" "w_downloaded ws' = w_downloaded ws"
    and "disk_claim res w (w_start ws) (w_downloaded ws)"
    and "wdb w = wdb w0" "durable_table w = durable_table w0" "claims w = claims w0"
  shows "step_ok res origin (ws, w0) (ws', publish db_ok ws w)"
proof -
  let ?w = "publish db_ok ws w"
  have ev: "evolves res w ?w" by (rule same_file_evolves[OF publish_same])
  have "world_ok res ?w" using assms(1) publish_same[of w db_ok ws] by (auto simp: same_file_def world_ok_def)
  moreover have "worker_ok res ?w ws'" by (rule worker_evolves[OF assms(3) ev])
  ultimately show ?thesis
    using assms evolves_trans[OF assms(2) ev] publish_records[OF records_evolve[OF _ assms(2,9-11)] assms(8)]
    by (simp add: step_ok_def sync_owner_def)
qed

text \<open>A completed \<^verbatim>\<open>fdatasync\<close> of the gate, followed by a step of its owner.\<close>

lemma after_sync_ok:
  assumes "world_ok res w" "worker_ok res w ws" "inflight w = Some (s, c)"
    and "\<lbrakk> world_ok res (end_sync ok s w); worker_ok res (end_sync ok s w) ws;
           evolves res w (end_sync ok s w) \<rbrakk> \<Longrightarrow> step_ok res origin (ws, end_sync ok s w) r"
  shows "step_ok res origin (ws, w) r"
proof -
  note e = end_sync_spec[OF assms(1,3), of ok]
  have "step_ok res origin (ws, end_sync ok s w) r"
    using e(1,2) worker_evolves[OF assms(2) e(2)] by (intro assms(4))
  then show ?thesis
    using evolves_trans[OF e(2)] records_evolve[OF _ e(2) e(5-7)]
    by (cases r) (auto simp: step_ok_def)
qed

section \<open>All steps\<close>

lemma drain_ok:
  assumes "world_ok res w" "worker_ok res w ws" "sync_owner w ws"
  shows "step_ok res origin (ws, w) (drain n (ws, w))"
proof -
  obtain ws' w' where d: "drain n (ws, w) = (ws', w')" by fastforce
  note s = drain_spec[OF assms(2,1) d]
  have "wdb w' = wdb w" "durable_table w' = durable_table w" "claims w' = claims w" "inflight w' = inflight w"
    by (subst s(4), simp)+
  then show ?thesis
    using s(1-3) records_evolve[OF _ s(3)] assms(3)
    by (simp add: d step_ok_def sync_owner_def syncing_at_def s(5))
qed

lemma io_ok:
  assumes "world_ok res w" "worker_ok res w ws"
  shows "step_ok res origin (ws, w) (goto (Returned (Inl e)) ws, w)"
  using assms by (intro stay_ok worker_goto) (simp_all add: pc_ok_def syncing_at_def)

lemma gate_reuse:
  assumes "sync_if_stale w = Reuse s \<or> sync_covering t w = Reuse s"
  shows "gate_start w = Some s" "sync_covering t w = Reuse s \<Longrightarrow> t \<le> s"
  using assms by (auto simp: sync_if_stale_def sync_covering_def split: option.splits if_splits)

lemma conclude_ok:
  assumes "world_ok res w" "worker_ok res w ws" "w_pc ws = Concluding b"
  shows "step_ok res origin (ws, w) (conclude_segment b cancelled db_ok (ws, w))"
proof -
  have h: "w_buffer ws = []" "holds res (synced w) (w_start ws) (w_downloaded ws)"
      "holds res (cached w) (w_start ws) (w_downloaded ws)"
    using assms(2,3) by (auto simp: worker_ok_def pc_ok_def)
  then have c: "disk_claim res w (w_start ws) (w_downloaded ws)" by (simp add: disk_claim_def)
  have "worker_ok res w (goto (Returned x) (ws\<lparr>w_end := e\<rparr>))" if "x = Inr (w_downloaded ws) \<or> isl x" for x e
    using that h by (intro worker_end[OF assms(2)]) (auto simp: pc_ok_def split: sum.split)
  then have "step_ok res origin (ws, w) (goto (Returned x) (ws\<lparr>w_end := e\<rparr>), publish db_ok ws w)"
    if "x = Inr (w_downloaded ws) \<or> isl x" for x e
    using that c by (intro publish_ok[OF assms(1)]) (simp_all add: syncing_at_def)
  from this[of _ "shared_end ws w"] this[of _ "w_end ws"] show ?thesis
    by (simp add: conclude_segment_def Let_def)
qed

theorem worker_step_ok:
  assumes "worker_step inp (ws, w) = Some r" "world_ok res w" "worker_ok res w ws" "sync_owner w ws"
    and "honest res ws inp"
  shows "step_ok res origin (ws, w) r"
proof (cases "(\<exists>n. inp = InDrain n) \<or> inp = InIoError")
  case True
  then have "(\<exists>n. r = drain n (ws, w)) \<or> (\<exists>e. r = (goto (Returned (Inl e)) ws, w))"
    using assms(1) by (cases "w_pc ws") (auto simp: worker_step.simps)
  then show ?thesis using drain_ok[OF assms(2-4)] io_ok[OF assms(2,3)] by blast
next
  case False
  note st = worker_step.simps[of inp ws w] assms(1)
  note base = assms(2,3)
  note pc = assms(3)[unfolded worker_ok_def, THEN conjunct2, THEN conjunct2, THEN conjunct2, THEN conjunct2]
  obtain ws1 w1 where fl: "flush (ws, w) = (ws1, w1)" by fastforce
  note fs = flush_spec[OF base(2,1) fl]
  show ?thesis
  proof (cases "w_pc ws")
    case Reading
    then consider e where "r = (goto (Leaving e) ws, w)" | "r = (goto (FlushEnd False) ws, w)"
      | bs where "inp = InChunk bs" "r = (take_chunk bs ws w, w)"
      using st False by (cases inp) auto
    then show ?thesis
    proof cases
      case 3
      then show ?thesis using chunk_ok[OF base] assms(5) by (simp add: honest_def)
    qed (use base in \<open>auto intro!: stay_ok worker_goto simp: pc_ok_def syncing_at_def\<close>)
  next
    case (Writing piece truncated)
    then show ?thesis using st False grant_ok[OF base Writing] by (cases inp) (auto split: if_splits)
  next
    case FlushSave
    then have "r = (goto (Saving (w_downloaded ws) (clock w1)) ws1, w1\<lparr>clock := clock w1 + 1\<rparr>)"
      using st False fl by (cases inp) (auto simp: now_def fs(5))
    then show ?thesis
      using flush_now_ok[OF base fl, of "Saving (w_downloaded ws)"]
      by (simp add: pc_ok_def syncing_at_def fs(5))
  next
    case (Saving k t)
    then have sn: "snap_ok res w (w_start ws) k t" using pc by (simp add: pc_ok_def)
    show ?thesis
    proof (cases "sync_if_stale w")
      case (Reuse s)
      then show ?thesis
        using st False Saving settle_ok[OF base gate_reuse(1) sn] by (cases inp) auto
    next
      case WaitForSync
      then have "r = (ws, w)" using st False Saving by (cases inp) auto
      then show ?thesis using base Saving by (simp add: stay_ok syncing_at_def)
    next
      case DoSync
      obtain s w2 where b: "begin_sync w = (s, w2)" by fastforce
      have "t \<le> s" using begin_sync_spec(3)[OF base(1) b] sn by (simp add: snap_ok_def)
      then have "pc_ok res w' (goto (SavingSync k t s) ws)" if "evolves res w w'" for w'
        using snap_evolves[OF sn that] by (simp add: pc_ok_def)
      then show ?thesis
        using st False Saving DoSync b begin_ok[OF base b, of "SavingSync k t s"]
        by (cases inp) (auto simp: syncing_at_def)
    qed
  next
    case (SavingSync k t s)
    then have sn: "snap_ok res w (w_start ws) k t" and "t \<le> s" using pc by (simp_all add: pc_ok_def)
    obtain c where c: "inflight w = Some (s, c)"
      using assms(4) SavingSync by (auto simp: sync_owner_def syncing_at_def)
    obtain ok where "inp = InSyncDone ok" "r = (if ok then settle s k t (ws, end_sync True s w)
        else (goto (Returned (Inl (Plain Io))) ws, end_sync False s w))"
      using st False SavingSync by (cases inp) (auto split: if_splits)
    then show ?thesis
      using settle_ok[OF _ _ end_sync_spec(3)[OF base(1) c] snap_evolves[OF sn]] io_ok
      by (intro after_sync_ok[OF base c, of ok]) auto
  next
    case (FlushEnd b)
    then have "r = (goto (Covering b (clock w1)) ws1, w1\<lparr>clock := clock w1 + 1\<rparr>)"
      using st False fl by (cases inp) (auto simp: now_def)
    then show ?thesis
      using flush_now_ok[OF base fl, of "Covering b"] pc FlushEnd
      by (simp add: pc_ok_def syncing_at_def fs(5) past_end_def)
  next
    case (Covering b t)
    then have p: "b \<longrightarrow> past_end ws" "w_buffer ws = []" "snap_ok res w (w_start ws) (w_downloaded ws) t"
      using pc by (simp_all add: pc_ok_def)
    show ?thesis
    proof (cases "sync_covering t w")
      case (Reuse s)
      then have "r = (goto (Concluding b) ws, w)" using st False Covering by (cases inp) auto
      moreover have "holds res (synced w) (w_start ws) (w_downloaded ws)"
        using snap_synced[OF p(3) gate_reuse(1,2)] Reuse by blast
      ultimately show ?thesis
        using base p by (auto intro!: stay_ok worker_goto simp: pc_ok_def past_end_def syncing_at_def)
    next
      case WaitForSync
      then have "r = (ws, w)" using st False Covering by (cases inp) auto
      then show ?thesis using base Covering by (simp add: stay_ok syncing_at_def)
    next
      case DoSync
      obtain s w2 where d: "begin_sync w = (s, w2)" by fastforce
      have "t \<le> s" using begin_sync_spec(3)[OF base(1) d] p(3) by (simp add: snap_ok_def)
      then have "pc_ok res w' (goto (CoverSync b t s) ws)" if "evolves res w w'" for w'
        using snap_evolves[OF p(3) that] p by (simp add: pc_ok_def past_end_def)
      then show ?thesis
        using st False Covering DoSync d begin_ok[OF base d, of "CoverSync b t s"]
        by (cases inp) (auto simp: syncing_at_def)
    qed
  next
    case (CoverSync b t s)
    then have p: "b \<longrightarrow> past_end ws" "w_buffer ws = []" "snap_ok res w (w_start ws) (w_downloaded ws) t" "t \<le> s"
      using pc by (simp_all add: pc_ok_def)
    obtain c where c: "inflight w = Some (s, c)"
      using assms(4) CoverSync by (auto simp: sync_owner_def syncing_at_def)
    obtain ok where "inp = InSyncDone ok" "r = (if ok then (goto (Concluding b) ws, end_sync True s w)
        else (goto (Returned (Inl (Plain Io))) ws, end_sync False s w))"
      using st False CoverSync by (cases inp) (auto split: if_splits)
    moreover have "step_ok res origin (ws, w') (goto (Concluding b) ws, w')"
      if "world_ok res w'" "worker_ok res w' ws" "evolves res w w'" "gate_start w' = Some s" for w'
      using that p snap_synced[OF snap_evolves[OF p(3) that(3)] that(4) p(4)]
      by (auto intro!: stay_ok worker_goto simp: pc_ok_def past_end_def syncing_at_def)
    ultimately show ?thesis
      using end_sync_spec(3)[OF base(1) c] io_ok by (intro after_sync_ok[OF base c, of ok]) auto
  next
    case (Concluding b)
    then show ?thesis using st False conclude_ok[OF base Concluding] by (cases inp) auto
  next
    case (Leaving e)
    then have "r = (goto (LeavingSync e (cached w1)) ws1, w1)" using st False fl by (cases inp) auto
    moreover have "worker_ok res w1 (goto (LeavingSync e (cached w1)) ws1)"
      using fs by (intro worker_goto) (simp_all add: pc_ok_def world_ok_def)
    moreover have "wdb w1 = wdb w" "durable_table w1 = durable_table w" "claims w1 = claims w"
      by (subst fs(4), simp)+
    ultimately show ?thesis
      using fs(2,3,5) records_evolve[OF _ fs(3)] by (simp add: step_ok_def sync_owner_def syncing_at_def)
  next
    case (LeavingSync e c)
    then have p: "w_buffer ws = []" "sound_content res c" "holds res c (w_start ws) (w_downloaded ws)"
      using pc by (simp_all add: pc_ok_def)
    obtain ok db_ok where "inp = InSyncData ok db_ok" using st False LeavingSync by (cases inp) auto
    then have r: "r = (goto (Returned (Inl e)) ws,
        publish db_ok ws (if ok then w\<lparr>synced := synced w ++ c\<rparr> else w\<lparr>sync_lost := True\<rparr>))"
      using st LeavingSync by (simp split: if_splits)
    let ?w = "if ok then w\<lparr>synced := synced w ++ c\<rparr> else w\<lparr>sync_lost := True\<rparr>"
    have ev: "evolves res w ?w" using p(2) by (auto simp: evolves_def intro: below_add)
    have "holds res (cached w) (w_start ws) (w_downloaded ws)" using base(2) p(1) by (simp add: worker_ok_def)
    then have "disk_claim res ?w (w_start ws) (w_downloaded ws)"
      using holds_below[OF p(3) below_add(2)] by (simp add: disk_claim_def)
    moreover have "world_ok res ?w" using base(1) p(2) by (auto simp: world_ok_def intro: sound_add)
    moreover have "worker_ok res ?w (goto (Returned (Inl e)) ws)"
      by (rule worker_goto[OF worker_evolves[OF base(2) ev]]) (simp add: pc_ok_def)
    ultimately show ?thesis
      unfolding r using ev by (intro publish_ok) (simp_all add: syncing_at_def)
  next
    case (Returned x)
    then show ?thesis using st False by (cases inp) auto
  qed
qed

end
