(* ===== verification/Worker_System.thy ===== *)
theory Worker_System
  imports Worker_Steps
begin

text \<open>
  All workers of one file and their surroundings: the coordinator, which rebuilds the progress
  vector, drains the table of watermarks into the rows, splits, merges and re-assigns segments and
  sends workers to work; the kernel, which may write back cached bytes whenever it likes; and time.
  One rule lets any worker take a step, the others are the environment's.  A power loss leaves of
  the file what is \<open>synced\<close>, and of the database its rows.
\<close>

record wsys =
  world :: file_world
  crew :: "nat \<Rightarrow> worker_st option"

datatype env_event =
    EnvPass nat
  | EnvWriteback "int list"
  | EnvShare "progress_info list"
  | EnvDrain bool int segments
  | EnvSplit int int int int int
  | EnvMerge int int "int list"
  | EnvUpsert int int int int
  | EnvSpawn nat int int int int int

text \<open>
  A count of bytes that some worker has published for a segment, or that its row holds: the
  coordinator hands out, and writes to the rows of segments it re-assigns, only such counts.
\<close>

definition claimed :: "file_world \<Rightarrow> int \<Rightarrow> int \<Rightarrow> bool" where
  "claimed w a n \<longleftrightarrow> n \<le> 0 \<or> list_ex (\<lambda>(b, m). b = a \<and> n \<le> m) (claims w)
     \<or> list_ex (\<lambda>(i, r). r_start r = a \<and> n \<le> r_downloaded r) (rows (wdb w))"

definition slot_free :: "wsys \<Rightarrow> nat \<Rightarrow> bool" where
  "slot_free s k \<longleftrightarrow>
     (case crew s k of None \<Rightarrow> True | Some ws \<Rightarrow> (case w_pc ws of Returned _ \<Rightarrow> True | _ \<Rightarrow> False))"

text \<open>
  \<open>origin\<close> is the first byte of the segment with a given index: a segment keeps its first byte for
  life, and an index is never used for another segment.
\<close>

definition env_ok :: "(int \<Rightarrow> int) \<Rightarrow> env_event \<Rightarrow> wsys \<Rightarrow> bool" where
  "env_ok origin e s =
     (case e of
        EnvDrain ok gen m \<Rightarrow> list_all (\<lambda>(i, l). start_byte l = origin i) m
      | EnvUpsert i a b n \<Rightarrow> claimed (world s) a n
      | EnvSpawn k idx start actual seg_end gen \<Rightarrow>
          slot_free s k \<and> start = origin idx \<and> claimed (world s) start (actual - start)
      | _ \<Rightarrow> True)"

definition env_step :: "env_event \<Rightarrow> wsys \<Rightarrow> wsys" where
  "env_step e s =
     (let w = world s in
      case e of
        EnvPass d \<Rightarrow> s\<lparr>world := w\<lparr>clock := clock w + int d\<rparr>\<rparr>
      | EnvWriteback xs \<Rightarrow>
          s\<lparr>world := w\<lparr>synced := (\<lambda>x. if x \<in> set xs \<and> cached w x \<noteq> None then cached w x else synced w x)\<rparr>\<rparr>
      | EnvShare v \<Rightarrow> s\<lparr>world := w\<lparr>seg_states := v\<rparr>\<rparr>
      | EnvDrain ok gen m \<Rightarrow>
          s\<lparr>world := w\<lparr>durable_table := [],
             wdb := (if ok then update_segments_progress_batch gen
                             (take_durable_progress_rows (durable_table w) m) (wdb w) else wdb w)\<rparr>\<rparr>
      | EnvSplit ci cs ce par pe \<Rightarrow> s\<lparr>world := w\<lparr>wdb := persist_split ci cs ce 0 par pe (wdb w)\<rparr>\<rparr>
      | EnvMerge par pe absorbed \<Rightarrow> s\<lparr>world := w\<lparr>wdb := persist_merge par pe absorbed (wdb w)\<rparr>\<rparr>
      | EnvUpsert i a b n \<Rightarrow> s\<lparr>world := w\<lparr>wdb := upsert_segment i a b n (wdb w)\<rparr>\<rparr>
      | EnvSpawn k idx start actual seg_end gen \<Rightarrow>
          s\<lparr>crew := (crew s)(k \<mapsto> enter_loop idx start actual seg_end gen (clock w))\<rparr>)"

inductive sys_reach :: "(int \<Rightarrow> byte) \<Rightarrow> (int \<Rightarrow> int) \<Rightarrow> wsys \<Rightarrow> wsys \<Rightarrow> bool" for res origin s0 where
  start: "sys_reach res origin s0 s0"
| work: "sys_reach res origin s0 s \<Longrightarrow> crew s k = Some ws \<Longrightarrow> honest res ws inp
    \<Longrightarrow> worker_step inp (ws, world s) = Some (ws', w')
    \<Longrightarrow> sys_reach res origin s0 (s\<lparr>world := w', crew := (crew s)(k \<mapsto> ws')\<rparr>)"
| env: "sys_reach res origin s0 s \<Longrightarrow> env_ok origin e s \<Longrightarrow> sys_reach res origin s0 (env_step e s)"

text \<open>
  A task begins, or begins again after a crash: nobody works, the gate is new, and the bytes the
  rows speak of are in the file.
\<close>

definition sys_start :: "(int \<Rightarrow> byte) \<Rightarrow> wsys \<Rightarrow> bool" where
  "sys_start res s \<longleftrightarrow> crew s = (\<lambda>k. None) \<and> gate_start (world s) = None \<and> \<not> gate_syncing (world s)
     \<and> inflight (world s) = None \<and> durable_table (world s) = [] \<and> claims (world s) = []
     \<and> \<not> sync_lost (world s) \<and> sound_content res (cached (world s)) \<and> sound_content res (synced (world s))
     \<and> on_disk.rows_sat res (world s) (wdb (world s))"

section \<open>The invariant of the system\<close>

definition sys_ok :: "(int \<Rightarrow> byte) \<Rightarrow> (int \<Rightarrow> int) \<Rightarrow> wsys \<Rightarrow> bool" where
  "sys_ok res origin s \<longleftrightarrow> world_ok res (world s) \<and> records_ok res origin (world s)
     \<and> (\<forall>k ws. crew s k = Some ws \<longrightarrow> worker_ok res (world s) ws \<and> sync_owner (world s) ws
          \<and> w_start ws = origin (w_idx ws))
     \<and> (\<forall>j k a b. j \<noteq> k \<longrightarrow> crew s j = Some a \<longrightarrow> crew s k = Some b \<longrightarrow>
          syncing_at a = None \<or> syncing_at b = None)"

lemma start_ok: "sys_start res s \<Longrightarrow> sys_ok res origin s"
  by (simp add: sys_start_def sys_ok_def world_ok_def records_ok_def bt_wf_def)

text \<open>Only the owner ends the gate's \<^verbatim>\<open>fdatasync\<close>, and only one begins when none runs.\<close>

definition gate_use :: "worker_st \<times> file_world \<Rightarrow> worker_st \<times> file_world \<Rightarrow> bool" where
  "gate_use = (\<lambda>(ws, w) (ws', w').
     inflight w' = inflight w \<and> syncing_at ws' = syncing_at ws
     \<or> syncing_at ws \<noteq> None \<and> syncing_at ws' = None \<or> \<not> gate_syncing w)"

lemma syncing_goto: "syncing_at (goto p ws) = (case p of SavingSync _ _ s \<Rightarrow> Some s | CoverSync _ _ s \<Rightarrow> Some s | _ \<Rightarrow> None)"
  by (simp add: syncing_at_def)

lemma quiet_ops:
  "inflight (snd (drain n (ws, w))) = inflight w" "syncing_at (fst (drain n (ws, w))) = syncing_at ws"
  "inflight (snd (flush (ws, w))) = inflight w"
  "inflight (snd (settle s k t (ws, w))) = inflight w" "syncing_at (fst (settle s k t (ws, w))) = None"
  "inflight (snd (write_granted n piece truncated (ws, w))) = inflight w"
  "syncing_at (fst (write_granted n piece truncated (ws, w))) = None"
  "inflight (snd (conclude_segment b c d (ws, w))) = inflight w"
  "syncing_at (fst (conclude_segment b c d (ws, w))) = None"
  "syncing_at (take_chunk bs ws w) = None" "inflight (publish d ws w) = inflight w"
  by (auto simp: drain_def flush_def settle_def now_def write_granted_def conclude_segment_def publish_def
      publish_shared_def take_chunk_def syncing_goto Let_def syncing_at_def split: option.split)

lemma idle_gate: "sync_if_stale w = DoSync \<or> sync_covering t w = DoSync \<Longrightarrow> \<not> gate_syncing w"
  by (auto simp: sync_if_stale_def sync_covering_def split: option.splits if_splits)

lemma worker_gate_use:
  assumes "worker_step inp (ws, w) = Some r"
  shows "gate_use (ws, w) r"
proof -
  note st = worker_step.simps[of inp ws w] assms
  have keep: "gate_use (ws, w) q"
    if "inflight (snd q) = inflight w" "syncing_at (fst q) = syncing_at ws" for q
    using that by (cases q) (auto simp: gate_use_def)
  have leave: "gate_use (ws, w) q" if "syncing_at (fst q) = None" "syncing_at ws \<noteq> None" for q
    using that by (cases q) (simp add: gate_use_def)
  show ?thesis
  proof (cases "(\<exists>n. inp = InDrain n) \<or> inp = InIoError")
    case True
    then have "(\<exists>n. r = drain n (ws, w))
        \<or> (\<exists>e. r = (goto (Returned (Inl e)) ws, w) \<and> syncing_at ws = None)"
      using assms by (cases "w_pc ws") (auto simp: worker_step.simps syncing_at_def[of ws])
    then show ?thesis by (auto intro!: keep simp: quiet_ops syncing_goto)
  next
    case False
    show ?thesis
    proof (cases "w_pc ws")
      case Reading
      then show ?thesis
        using st False by (cases inp) (auto intro!: keep simp: syncing_goto quiet_ops syncing_at_def[of ws])
    next
      case (Writing piece truncated)
      then show ?thesis
        using st False by (cases inp) (auto intro!: keep simp: quiet_ops syncing_at_def[of ws] split: if_splits)
    next
      case FlushSave
      then show ?thesis
        using st False quiet_ops(3)[of ws w]
        by (cases inp) (auto intro!: keep simp: syncing_goto now_def syncing_at_def[of ws] split: prod.splits)
    next
      case (Saving k t)
      then have n: "syncing_at ws = None" by (simp add: syncing_at_def[of ws])
      show ?thesis
      proof (cases "sync_if_stale w")
        case DoSync
        then show ?thesis using idle_gate by (cases r) (auto simp: gate_use_def)
      qed (use st False Saving n in \<open>cases inp; auto intro!: keep simp: quiet_ops\<close>)+
    next
      case (SavingSync k t s)
      then show ?thesis
        using st False
        by (cases inp) (auto intro!: leave simp: quiet_ops syncing_goto syncing_at_def[of ws] split: if_splits)
    next
      case (FlushEnd b)
      then show ?thesis
        using st False quiet_ops(3)[of ws w]
        by (cases inp) (auto intro!: keep simp: syncing_goto now_def syncing_at_def[of ws] split: prod.splits)
    next
      case (Covering b t)
      then have n: "syncing_at ws = None" by (simp add: syncing_at_def[of ws])
      show ?thesis
      proof (cases "sync_covering t w")
        case DoSync
        then show ?thesis using idle_gate by (cases r) (auto simp: gate_use_def)
      qed (use st False Covering n in \<open>cases inp; auto intro!: keep simp: quiet_ops syncing_goto\<close>)+
    next
      case (CoverSync b t s)
      then show ?thesis
        using st False
        by (cases inp) (auto intro!: leave simp: syncing_goto syncing_at_def[of ws] split: if_splits)
    next
      case (Concluding b)
      then show ?thesis
        using st False by (cases inp) (auto intro!: keep simp: quiet_ops syncing_at_def[of ws])
    next
      case (Leaving e)
      then show ?thesis
        using st False quiet_ops(3)[of ws w]
        by (cases inp) (auto intro!: keep simp: syncing_goto syncing_at_def[of ws] split: prod.splits)
    next
      case (LeavingSync e c)
      then show ?thesis
        using st False
        by (cases inp) (auto intro!: keep simp: quiet_ops syncing_goto syncing_at_def[of ws] split: if_splits)
    next
      case (Returned x)
      then show ?thesis using st False by (cases inp) auto
    qed
  qed
qed

lemma work_ok:
  assumes "sys_ok res origin s" "crew s k = Some ws" "honest res ws inp"
    and "worker_step inp (ws, world s) = Some (ws', w')"
  shows "sys_ok res origin (s\<lparr>world := w', crew := (crew s)(k \<mapsto> ws')\<rparr>)"
proof -
  note h = assms(1)[unfolded sys_ok_def]
  have world: "world_ok res (world s)" "records_ok res origin (world s)" using h by simp_all
  note crew = h[THEN conjunct2, THEN conjunct2, THEN conjunct1, rule_format]
  note one = h[THEN conjunct2, THEN conjunct2, THEN conjunct2, rule_format]
  note ws = crew[OF assms(2)]
  have st: "step_ok res origin (ws, world s) (ws', w')"
    using worker_step_ok[OF assms(4) world(1)] ws assms(3) by blast
  then have ev: "evolves res (world s) w'" by (simp add: step_ok_def)
  have others: "sync_owner w' a \<and> (syncing_at ws' = None \<or> syncing_at a = None)"
    if a: "crew s j = Some a" "j \<noteq> k" for j a
  proof (cases "syncing_at a")
    case None
    then show ?thesis by (simp add: sync_owner_def)
  next
    case (Some t)
    then obtain c where c: "inflight (world s) = Some (t, c)" using crew[OF a(1)] by (auto simp: sync_owner_def)
    have n: "syncing_at ws = None" using one[OF a(2) a(1) assms(2)] Some by simp
    have "gate_syncing (world s)" using world(1) c by (simp add: world_ok_def)
    then have "inflight w' = inflight (world s) \<and> syncing_at ws' = None"
      using worker_gate_use[OF assms(4)] n by (auto simp: gate_use_def)
    then show ?thesis using c Some by (simp add: sync_owner_def)
  qed
  have old: "worker_ok res w' a \<and> sync_owner w' a \<and> w_start a = origin (w_idx a)"
    if "crew s j = Some a" "j \<noteq> k" for j a
    using worker_evolves[OF _ ev] crew[OF that(1)] others[OF that] by blast
  have new: "world_ok res w' \<and> records_ok res origin w' \<and> worker_ok res w' ws' \<and> sync_owner w' ws'
      \<and> w_start ws' = origin (w_idx ws')"
    using st ws world(2) by (simp add: step_ok_def)
  have "syncing_at a = None \<or> syncing_at b = None"
    if "i \<noteq> j" "((crew s)(k \<mapsto> ws')) i = Some a" "((crew s)(k \<mapsto> ws')) j = Some b" for i j a b
    using that others one[of i j a b] by (cases "i = k"; cases "j = k") auto
  moreover have "worker_ok res w' a \<and> sync_owner w' a \<and> w_start a = origin (w_idx a)"
    if "((crew s)(k \<mapsto> ws')) j = Some a" for j a
    using that old[of j a] new by (cases "j = k") auto
  ultimately show ?thesis using new unfolding sys_ok_def by simp
qed

section \<open>Steps of the environment\<close>

lemma claimed_disk:
  assumes "records_ok res origin w" "claimed w a n"
  shows "disk_claim res w a n"
proof -
  note r = assms(1)[unfolded records_ok_def]
  have wf: "bt_wf (rows (wdb w))" using r by (simp add: on_disk.rows_sat_def)
  consider "n \<le> 0" | m where "(a, m) \<in> set (claims w)" "n \<le> m"
    | i r where "(i, r) \<in> set (rows (wdb w))" "r_start r = a" "n \<le> r_downloaded r"
    using assms(2) by (auto simp: claimed_def list_ex_iff)
  then show ?thesis
  proof cases
    case 1
    then show ?thesis using on_disk.shorter[OF on_disk.empty_claim] by blast
  next
    case 2
    then show ?thesis using r on_disk.shorter by blast
  next
    case 3
    then have "bt_get (rows (wdb w)) i = Some r" using bt.in_entries[OF wf] by simp
    then show ?thesis using r on_disk.rows_satD 3 on_disk.shorter by blast
  qed
qed

text \<open>A change of the world that every worker tolerates.\<close>

lemma env_world:
  assumes "sys_ok res origin s" "evolves res (world s) w'" "world_ok res w'" "records_ok res origin w'"
    and "inflight w' = inflight (world s)"
  shows "sys_ok res origin (s\<lparr>world := w'\<rparr>)"
  using assms(1,3,4) worker_evolves[OF _ assms(2)]
  by (simp add: sys_ok_def sync_owner_def assms(5))

text \<open>A change of the rows or the table alone.\<close>

lemma env_rows:
  assumes "sys_ok res origin s" "on_disk.rows_sat res (world s) db"
    and "tab = durable_table (world s) \<or> tab = []"
  shows "sys_ok res origin (s\<lparr>world := (world s)\<lparr>durable_table := tab, wdb := db\<rparr>\<rparr>)"
proof -
  let ?w = "(world s)\<lparr>durable_table := tab, wdb := db\<rparr>"
  have sf: "same_file (world s) ?w" by (simp add: same_file_def)
  note ev = same_file_evolves[OF sf]
  have "records_ok res origin ?w"
    using assms rows_evolve[OF assms(2) ev] claim_evolves[OF _ ev]
    by (auto simp: sys_ok_def records_ok_def bt_wf_def)
  moreover have "world_ok res ?w" using assms(1) by (simp add: sys_ok_def world_ok_def)
  ultimately show ?thesis using env_world[OF assms(1) ev] by simp
qed

lemma env_db:
  assumes "sys_ok res origin s" "on_disk.rows_sat res (world s) db"
  shows "sys_ok res origin (s\<lparr>world := (world s)\<lparr>wdb := db\<rparr>\<rparr>)"
proof -
  have "(world s)\<lparr>durable_table := durable_table (world s), wdb := db\<rparr> = (world s)\<lparr>wdb := db\<rparr>" by simp
  then show ?thesis using env_rows[OF assms, of "durable_table (world s)"] by simp
qed

lemma enter_ok:
  assumes "disk_claim res w start (actual - start)"
  shows "worker_ok res w (enter_loop idx start actual seg_end gen t)"
    "syncing_at (enter_loop idx start actual seg_end gen t) = None"
  using assms
  by (simp_all add: worker_ok_def enter_loop_def disk_claim_def pc_ok_def res_bytes_def syncing_at_def)

lemma spawn_ok:
  assumes "sys_ok res origin s" "env_ok origin (EnvSpawn k idx start actual seg_end gen) s"
  shows "sys_ok res origin (env_step (EnvSpawn k idx start actual seg_end gen) s)"
proof -
  note h = assms(1)[unfolded sys_ok_def]
  note one = h[THEN conjunct2, THEN conjunct2, THEN conjunct2, rule_format]
  let ?ws = "enter_loop idx start actual seg_end gen (clock (world s))"
  have c: "disk_claim res (world s) start (actual - start)" "start = origin idx"
    using assms(2) h claimed_disk by (auto simp: env_ok_def)
  note e = enter_ok[OF c(1), of idx seg_end gen "clock (world s)"]
  have "syncing_at a = None \<or> syncing_at b = None"
    if "i \<noteq> j" "((crew s)(k \<mapsto> ?ws)) i = Some a" "((crew s)(k \<mapsto> ?ws)) j = Some b" for i j a b
    using that e(2) one[of i j a b] by (cases "i = k"; cases "j = k") auto
  moreover have "worker_ok res (world s) a \<and> sync_owner (world s) a \<and> w_start a = origin (w_idx a)"
    if "((crew s)(k \<mapsto> ?ws)) j = Some a" for j a
    using that e c(2) h by (cases "j = k") (auto simp: sync_owner_def enter_loop_def)
  ultimately show ?thesis using h by (simp add: env_step_def sys_ok_def)
qed

lemma writeback_ok:
  assumes "sys_ok res origin s"
  shows "sys_ok res origin (env_step (EnvWriteback xs) s)"
proof -
  let ?w = "world s"
  let ?c = "\<lambda>x. if x \<in> set xs \<and> cached ?w x \<noteq> None then cached ?w x else synced ?w x"
  have s: "sound_content res (cached ?w)" "sound_content res (synced ?w)"
    using assms by (simp_all add: sys_ok_def world_ok_def)
  have "below res (synced ?w) ?c"
    using s(1) unfolding below_def sound_content_def by fastforce
  moreover have "sound_content res ?c" using s unfolding sound_content_def by metis
  ultimately have "evolves res ?w (?w\<lparr>synced := ?c\<rparr>)" "world_ok res (?w\<lparr>synced := ?c\<rparr>)"
    using assms below_trans by (auto simp: evolves_def sys_ok_def world_ok_def)
  then show ?thesis
    using env_world[OF assms, of "?w\<lparr>synced := ?c\<rparr>"] assms records_evolve[of res origin ?w "?w\<lparr>synced := ?c\<rparr>"]
    by (simp add: env_step_def Let_def sys_ok_def)
qed

lemma env_step_ok:
  assumes "sys_ok res origin s" "env_ok origin e s"
  shows "sys_ok res origin (env_step e s)"
proof -
  have rows: "on_disk.rows_sat res (world s) (wdb (world s))"
    using assms(1) by (simp add: sys_ok_def records_ok_def)
  show ?thesis
proof (cases e)
  case (EnvPass d)
  let ?w = "(world s)\<lparr>clock := clock (world s) + int d\<rparr>"
  have "evolves res (world s) ?w" by (rule same_file_evolves) (simp add: same_file_def)
  moreover have "world_ok res ?w" using assms(1) by (auto simp: sys_ok_def world_ok_def intro: trans_less_add1)
  ultimately show ?thesis
    using env_world[OF assms(1), of ?w] assms(1) records_evolve[of res origin "world s" ?w]
    by (simp add: EnvPass env_step_def sys_ok_def Let_def)
next
  case (EnvWriteback xs)
  then show ?thesis using writeback_ok[OF assms(1)] by simp
next
  case (EnvShare v)
  let ?w = "(world s)\<lparr>seg_states := v\<rparr>"
  have "evolves res (world s) ?w" by (rule same_file_evolves) (simp add: same_file_def)
  moreover have "world_ok res ?w" using assms(1) by (simp add: sys_ok_def world_ok_def)
  ultimately show ?thesis
    using env_world[OF assms(1), of ?w] assms(1) records_evolve[of res origin "world s" ?w]
    by (simp add: EnvShare env_step_def sys_ok_def Let_def)
next
  case (EnvSpawn k idx start actual seg_end gen)
  then show ?thesis using spawn_ok assms by simp
next
  case (EnvDrain ok gen m)
  have r: "records_ok res origin (world s)" using assms(1) by (simp add: sys_ok_def)
  have "disk_claim res (world s) (origin i) n" if "(i, n) \<in> set (durable_table (world s))" for i n
    using that r bt.in_entries[of "durable_table (world s)" i n] by (simp add: records_ok_def)
  moreover have "start_byte l = origin i" if "bt_get m i = Some l" for i l
    using assms(2) that map_of_SomeD[of m i l] by (auto simp: EnvDrain env_ok_def list_all_iff bt_get_map_of)
  ultimately have "on_disk.rows_sat res (world s) (update_segments_progress_batch gen
      (take_durable_progress_rows (durable_table (world s)) m) (wdb (world s)))"
    using r by (intro on_disk.drained_sat[where origin = origin]) (auto simp: records_ok_def)
  then show ?thesis
    using env_rows[OF assms(1)] r by (auto simp: EnvDrain env_step_def Let_def records_ok_def)
next
  case (EnvSplit ci cs ce par pe)
  then show ?thesis
    using env_db[OF assms(1) on_disk.split_sat[OF rows]] by (simp add: env_step_def Let_def)
next
  case (EnvMerge par pe absorbed)
  then show ?thesis
    using env_db[OF assms(1) on_disk.merge_sat[OF rows]] by (simp add: env_step_def Let_def)
next
  case (EnvUpsert i a b n)
  then have "disk_claim res (world s) a n" using assms claimed_disk by (auto simp: sys_ok_def env_ok_def)
  then show ?thesis
    using env_db[OF assms(1) on_disk.upsert_sat[OF rows]] EnvUpsert by (simp add: env_step_def Let_def)
qed
qed

lemma sys_reach_ok: "sys_reach res origin s0 s \<Longrightarrow> sys_start res s0 \<Longrightarrow> sys_ok res origin s"
  by (induction rule: sys_reach.induct) (auto intro: start_ok work_ok env_step_ok)

end
