(* ===== verification/Worker_Retry.thy ===== *)
theory Worker_Retry
  imports Worker_Response
begin

text \<open>
  The retry loop \<^verbatim>\<open>do_segment_with_retry\<close> and the assignment loop of \<^verbatim>\<open>spawn_worker\<close>
  (\<^verbatim>\<open>segment_coordinator.rs\<close>), with \<^verbatim>\<open>is_node_attributable\<close> of \<^verbatim>\<open>cdn/mod.rs\<close>.  An attempt is what one call
  of \<^verbatim>\<open>do_segment\<close> returns, with what the loop then reads: the shared counter, the verdict, the row of
  the segment, and whether the token is cancelled during the wait.
\<close>

definition max_retries :: nat where "max_retries = 5"
definition pinned_node_max_retries :: nat where "pinned_node_max_retries = 2"
definition retry_base_delay :: nat where "retry_base_delay = 2"  \<comment> \<open>seconds\<close>

record attempt =
  at_result :: "worker_error + int"
  at_total :: int
  at_verdict :: range_verdict
  at_row :: "(int \<times> int) option"  \<comment> \<open>\<^verbatim>\<open>end_byte\<close>, \<^verbatim>\<open>downloaded_bytes\<close>; none when the read fails\<close>
  at_cancelled :: bool

record retry_env =
  re_start :: int
  re_no_range :: bool
  re_budget :: nat

section \<open>One decision\<close>

datatype retry_choice = Finish "worker_error + int" | Again nat int int \<comment> \<open>wait, \<^verbatim>\<open>actual_start\<close>, \<^verbatim>\<open>seg_end\<close>\<close>

text \<open>Errors that no retry can change.\<close>

definition systematic :: "attempt \<Rightarrow> worker_error \<Rightarrow> bool" where
  "systematic a e =
     (case e of
        Plain d \<Rightarrow> d = Cancelled \<or> d = VersionChanged \<or> d = RangeMisaligned
          \<or> (case d of TrueSizeLarger _ \<Rightarrow> True | _ \<Rightarrow> False)
          \<or> (d = RangeNotSupported \<and> at_total a = 0)
      | Because _ \<Rightarrow> False)"

definition rejected :: "worker_error \<Rightarrow> bool" where
  "rejected e \<longleftrightarrow> is_server_rejection (error_class e) \<or> is_http_400 (error_class e)"

text \<open>\<open>tries\<close> counts the failed attempts before this one.\<close>

definition retry_decision :: "retry_env \<Rightarrow> nat \<Rightarrow> int \<Rightarrow> int \<Rightarrow> attempt \<Rightarrow> retry_choice" where
  "retry_decision env tries actual seg_end a =
     (case at_result a of
        Inr n \<Rightarrow> Finish (Inr n)
      | Inl e \<Rightarrow>
          if systematic a e then Finish (Inl e)
          else if rejected e then Finish (Inl e)
          else if re_no_range env \<and> re_start env < actual \<and> at_verdict a = VUnsupported
          then Finish (Inl e)
          else if re_budget env \<le> tries + 1 then Finish (Inl e)
          else
            let (actual', seg_end') =
                  (case at_row a of
                     Some (row_end, row_dl) \<Rightarrow> (re_start env + row_dl, row_end)
                   | None \<Rightarrow> (actual, seg_end))
            in if (case at_row a of Some _ \<Rightarrow> seg_end' < actual' | None \<Rightarrow> False)
               then Finish (Inr (actual' - re_start env))
               else if at_cancelled a then Finish (Inl (Plain Cancelled))
               else Again (retry_base_delay * 2 ^ tries) actual' seg_end')"

section \<open>The loop\<close>

text \<open>
  The result is the list of the requests made, as \<open>(actual_start, seg_end)\<close>, the list of the waits,
  and what the loop returns; \<open>None\<close> when the attempts given are used up before it returns.
\<close>

fun segment_with_retry ::
  "retry_env \<Rightarrow> nat \<Rightarrow> int \<Rightarrow> int \<Rightarrow> attempt list
   \<Rightarrow> (int \<times> int) list \<times> nat list \<times> (worker_error + int) option" where
  "segment_with_retry env tries actual seg_end [] = ([], [], None)"
| "segment_with_retry env tries actual seg_end (a # as) =
     (case retry_decision env tries actual seg_end a of
        Finish r \<Rightarrow> ([(actual, seg_end)], [], Some r)
      | Again d actual' seg_end' \<Rightarrow>
          (let (reqs, waits, r) = segment_with_retry env (tries + 1) actual' seg_end' as
           in ((actual, seg_end) # reqs, d # waits, r)))"

section \<open>Reporting\<close>

definition mentions_stall :: "other_reason \<Rightarrow> bool" where
  "mentions_stall why =
     (case why of
        StalledStream \<Rightarrow> True
      | EtagMismatch a b \<Rightarrow> sublist ''stalled'' a \<or> sublist ''stalled'' b
      | LastModifiedMismatch a b \<Rightarrow> sublist ''stalled'' a \<or> sublist ''stalled'' b
      | UnsupportedEncoding u \<Rightarrow> sublist ''stalled'' u
      | _ \<Rightarrow> False)"

definition is_node_attributable :: "worker_error \<Rightarrow> bool" where
  "is_node_attributable e =
     (case e of
        Plain (Request _) \<Rightarrow> True
      | Plain VersionChanged \<Rightarrow> True
      | Because why \<Rightarrow> mentions_stall why
      | _ \<Rightarrow> False)"

text \<open>
  What the worker sends for a finished assignment (a \<^verbatim>\<open>Done\<close> with the count or a \<^verbatim>\<open>Failed\<close>), and
  whether it stays for the next one.
\<close>

datatype report = ReportDone int | ReportFailed download_error | Silent

definition budget_of :: "bool \<Rightarrow> nat" where
  "budget_of lease_pinned = (if lease_pinned then pinned_node_max_retries else max_retries)"

definition report_result :: "bool \<Rightarrow> worker_error + int \<Rightarrow> report \<times> bool" where
  "report_result lease_pinned r =
     (case r of
        Inr downloaded \<Rightarrow> (ReportDone downloaded, True)
      | Inl e \<Rightarrow>
          if e = Plain Cancelled then (Silent, False)
          else
            let d = (if lease_pinned \<and> is_node_attributable e then CdnNodeFailed else error_class e);
                recoverable = (case d of TrueSizeLarger _ \<Rightarrow> True | CdnNodeFailed \<Rightarrow> True | _ \<Rightarrow> False)
            in (ReportFailed d, recoverable))"

text \<open>The event the coordinator receives.\<close>

definition report_event :: "obs \<Rightarrow> nat \<Rightarrow> int \<Rightarrow> report \<Rightarrow> coord_event option" where
  "report_event ob worker_id seg_index rep =
     (case rep of
        ReportDone n \<Rightarrow> Some (EvDone ob worker_id seg_index n)
      | ReportFailed d \<Rightarrow> Some (EvFailed ob worker_id seg_index d)
      | Silent \<Rightarrow> None)"

section \<open>Facts\<close>

lemma again_budget: "retry_decision env tries actual e a = Again d x y \<Longrightarrow> tries + 1 < re_budget env"
  by (auto simp: retry_decision_def Let_def split: sum.splits if_splits option.splits)

lemma again_wait: "retry_decision env tries actual e a = Again d x y \<Longrightarrow> d = 2 ^ (tries + 1)"
  by (auto simp: retry_decision_def retry_base_delay_def Let_def split: sum.splits if_splits option.splits)

lemma again_transient:
  assumes "retry_decision env tries actual e a = Again d x y"
  shows "\<exists>err. at_result a = Inl err \<and> \<not> systematic a err \<and> \<not> rejected err
    \<and> \<not> (re_no_range env \<and> re_start env < actual \<and> at_verdict a = VUnsupported)"
  using assms by (auto simp: retry_decision_def Let_def split: sum.splits if_splits option.splits)

text \<open>The requests stay within the budget, whatever the server does.\<close>

lemma retry_requests:
  assumes "segment_with_retry env tries actual e as = (reqs, waits, r)"
  shows "length reqs \<le> max 1 (re_budget env - tries) \<and> length waits \<le> length reqs
    \<and> waits = map (\<lambda>i. 2 ^ (tries + 1 + i)) [0..<length waits]
    \<and> (tries < re_budget env \<longrightarrow> length waits + tries < re_budget env)"
  using assms
proof (induction as arbitrary: tries actual e reqs waits)
  case (Cons a as)
  show ?case
  proof (cases "retry_decision env tries actual e a")
    case (Finish x)
    then show ?thesis using Cons.prems by auto
  next
    case (Again d x y)
    then obtain reqs' waits' where s: "segment_with_retry env (tries + 1) x y as = (reqs', waits', r)"
      "reqs = (actual, e) # reqs'" "waits = d # waits'"
      using Cons.prems by (auto split: prod.splits)
    have "map (\<lambda>i. (2::nat) ^ (tries + 1 + i)) [0..<Suc (length waits')]
        = 2 ^ (tries + 1) # map (\<lambda>i. 2 ^ (tries + 2 + i)) [0..<length waits']"
      by (simp only: upt_conv_Cons zero_less_Suc map_Suc_upt[symmetric] list.map map_map o_def) simp
    then show ?thesis
      using Cons.IH[OF s(1)] again_budget[OF Again] again_wait[OF Again] s(2,3) by auto
  qed
qed auto

text \<open>Every error that ends the loop is the error of the last attempt, or the cancellation.\<close>

lemma retry_result:
  assumes "segment_with_retry env tries actual e as = (reqs, waits, Some (Inl x))"
  shows "x = Plain Cancelled \<or> (\<exists>a \<in> set as. at_result a = Inl x)"
  using assms
proof (induction as arbitrary: tries actual e reqs waits)
  case (Cons a as)
  show ?case
  proof (cases "retry_decision env tries actual e a")
    case (Finish y)
    then have "y = Inl x" using Cons.prems by simp
    then show ?thesis
      using Finish by (auto simp: retry_decision_def Let_def split: sum.splits if_splits option.splits)
  next
    case (Again d y z)
    then obtain reqs' waits' where "segment_with_retry env (tries + 1) y z as = (reqs', waits', Some (Inl x))"
      using Cons.prems by (auto split: prod.splits)
    from Cons.IH[OF this] show ?thesis by auto
  qed
qed simp

text \<open>With as many attempts as the budget allows the loop has returned.\<close>

lemma retry_returns:
  assumes "segment_with_retry env tries actual e as = (reqs, waits, r)" "max 1 (re_budget env - tries) \<le> length as"
  shows "r \<noteq> None"
  using assms
proof (induction as arbitrary: tries actual e reqs waits)
  case (Cons a as)
  show ?case
  proof (cases "retry_decision env tries actual e a")
    case (Finish x)
    then show ?thesis using Cons.prems by auto
  next
    case (Again d x y)
    then obtain reqs' waits' where s: "segment_with_retry env (tries + 1) x y as = (reqs', waits', r)"
      using Cons.prems(1) by (auto split: prod.splits)
    have "max 1 (re_budget env - (tries + 1)) \<le> length as" using again_budget[OF Again] Cons.prems(2) by simp
    then show ?thesis by (rule Cons.IH[OF s])
  qed
qed simp

text \<open>A request is repeated only after an error that may pass, and never after a plain stream broke.\<close>

lemma retry_repeats:
  assumes "segment_with_retry env tries actual e as = (reqs, waits, r)" "Suc i < length reqs"
  shows "\<exists>err. at_result (as ! i) = Inl err \<and> \<not> systematic (as ! i) err \<and> \<not> rejected err
    \<and> \<not> (re_no_range env \<and> re_start env < fst (reqs ! i) \<and> at_verdict (as ! i) = VUnsupported)"
  using assms
proof (induction as arbitrary: i tries actual e reqs waits)
  case (Cons a as)
  show ?case
  proof (cases "retry_decision env tries actual e a")
    case (Finish x)
    then show ?thesis using Cons.prems by auto
  next
    case (Again d x y)
    then obtain reqs' waits' where s: "segment_with_retry env (tries + 1) x y as = (reqs', waits', r)"
      "reqs = (actual, e) # reqs'"
      using Cons.prems(1) by (auto split: prod.splits)
    show ?thesis
    proof (cases i)
      case 0
      then show ?thesis using again_transient[OF Again] s(2) by simp
    next
      case (Suc j)
      then show ?thesis using Cons.IH[OF s(1), of j] Cons.prems(2) s(2) by simp
    qed
  qed
qed simp

end
