(* ===== verification/Worker_Props.thy ===== *)
theory Worker_Props
  imports Worker_System Worker_Retry Download_Props
begin

text \<open>
  The properties of the segment workers: what they accept, what they write, what they publish, how
  often they ask, and how their reports fit the coordinator.
\<close>

section \<open>Responses\<close>


definition demo_check :: check_env where
  "demo_check = \<lparr> ce_etag = [], ce_last_modified = [], ce_downloaded = 0, ce_planned = 10, ce_estimate = True,
     ce_strict = False, ce_validator_ok = True \<rparr>"

definition demo_cells :: worker_cells where
  "demo_cells = \<lparr> wc_verdict = VUnknown, wc_sensitive = False, wc_latch = None, wc_established = False,
     wc_sent = [], wc_single = False, wc_validators = None \<rparr>"

definition demo_response :: "string \<Rightarrow> response" where
  "demo_response tag = \<lparr> status = 206, header = (\<lambda>h.
     if h = ''content-range'' then Some ''bytes 5-9/10'' else if h = ''etag'' then Some tag else None) \<rparr>"

definition demo_request :: segment_request where
  "demo_request = \<lparr> rq_start = 5, rq_end = 9, rq_open_ended = False, rq_no_range = False \<rparr>"

lemma demo_range:
  "parse_content_range_start (demo_response t) = Some 5" "parse_content_range_total (demo_response t) = Some 10"
proof -
  have "show_nat 5 = ''5''" "show_nat 9 = ''9''" "show_nat 10 = ''10''" by code_simp+
  then show "parse_content_range_start (demo_response t) = Some 5"
    "parse_content_range_total (demo_response t) = Some 10"
    using content_range_parses[of "demo_response t" 5 9 10] by (simp_all add: demo_response_def)
qed

lemma demo_accepts: "snd (check_response demo_check demo_request (demo_response ''A'') demo_cells) = Inr ()"
proof -
  let ?r = "demo_response ''A''"
  have s: "check_status demo_check demo_request ?r w = (w, Inr ())" for w
    by (simp add: check_status_def demo_response_def)
  have v: "snd (check_validators demo_check ?r (judge_range ?r demo_cells)) = Inr ()" by code_simp
  have t: "check_total demo_check ?r = Inr ()"
    by (simp add: check_total_def reported_total_def demo_range demo_check_def drift_tolerance_def)
  have e: "check_encoding ?r = Inr ()" by (simp add: check_encoding_raw raw_body_def demo_response_def)
  have "rq_start demo_request = 5" "status ?r = 206" by (simp_all add: demo_request_def demo_response_def)
  then show ?thesis
    using v by (cases "check_validators demo_check ?r (judge_range ?r demo_cells)")
       (simp add: check_response_def s t e demo_range is_range_response_misaligned_def)
qed



definition demo_serve :: "(check_env \<times> segment_request \<times> response) list" where
  "demo_serve = map (\<lambda>t. (demo_check, demo_request\<lparr>rq_start := 0\<rparr>,
     \<lparr> status = 206, header = (\<lambda>h. if h = ''etag'' then Some t else None) \<rparr>)) [''A'', ''B'', ''A'']"


section \<open>Bytes on disk\<close>

text \<open>A run of the system given by its inputs.\<close>

datatype sys_input = EnvIn env_event | WorkIn nat winput

fun sys_exec :: "(int \<Rightarrow> byte) \<Rightarrow> (int \<Rightarrow> int) \<Rightarrow> sys_input list \<Rightarrow> wsys \<Rightarrow> wsys option" where
  "sys_exec res origin [] s = Some s"
| "sys_exec res origin (EnvIn e # is) s =
     (if env_ok origin e s then sys_exec res origin is (env_step e s) else None)"
| "sys_exec res origin (WorkIn k i # is) s =
     (case crew s k of
        None \<Rightarrow> None
      | Some ws \<Rightarrow>
          if honest res ws i
          then (case worker_step i (ws, world s) of
                  None \<Rightarrow> None
                | Some (ws', w') \<Rightarrow>
                    sys_exec res origin is (s\<lparr>world := w', crew := (crew s)(k \<mapsto> ws')\<rparr>))
          else None)"

lemma sys_exec_reach:
  assumes "sys_exec res origin is s = Some s'" "sys_reach res origin s0 s"
  shows "sys_reach res origin s0 s'"
  using assms
proof (induction res origin "is" s rule: sys_exec.induct)
  case (2 res origin e "is" s)
  then show ?case using sys_reach.env[of res origin s0 s e] by (auto split: if_splits)
next
  case (3 res origin k i "is" s)
  then obtain ws ws' w' where w: "crew s k = Some ws" "honest res ws i"
      "worker_step i (ws, world s) = Some (ws', w')"
      "sys_exec res origin is (s\<lparr>world := w', crew := (crew s)(k \<mapsto> ws')\<rparr>) = Some s'"
    by (auto split: if_splits option.splits)
  show ?case using "3.IH"[OF w(1-3) refl w(4)] sys_reach.work[OF "3.prems"(2) w(1-3)] by blast
qed simp


definition demo_res :: "int \<Rightarrow> byte" where "demo_res x = word_of_int (x + 65)"

definition demo_origin :: "int \<Rightarrow> int" where "demo_origin i = 5 * i"

definition demo_world :: file_world where
  "demo_world = \<lparr> clock = 0, gate_syncing = False, gate_start = None, cached = (\<lambda>x. None), synced = (\<lambda>x. None),
     inflight = None, seg_states = build_seg_state_vec (segs demo_start), durable_table = [], wdb = demo_rows,
     counted = 0, claims = [], sync_lost = False \<rparr>"

definition demo_sys :: wsys where "demo_sys = \<lparr> world = demo_world, crew = (\<lambda>k. None) \<rparr>"

lemma demo_sys_start: "sys_start demo_res demo_sys"
  by (auto simp: sys_start_def demo_sys_def demo_world_def sound_content_def on_disk.rows_sat_def demo_rows_def
      bt_wf_def disk_claim_def split: if_splits)

text \<open>Two workers fetch five bytes each; the second one's closing \<^verbatim>\<open>fdatasync\<close> waits for the first.\<close>

definition demo_inputs :: "sys_input list" where
  "demo_inputs =
     [EnvIn (EnvSpawn 0 0 0 0 4 7), EnvIn (EnvSpawn 1 1 5 5 9 7),
      WorkIn 0 (InChunk (map demo_res [0, 1, 2])), WorkIn 1 (InChunk (map demo_res [5, 6, 7, 8, 9, 10])),
      WorkIn 0 (InGrant 3), WorkIn 1 (InGrant 2), WorkIn 0 (InDrain 2), WorkIn 1 (InGrant 3),
      WorkIn 0 (InChunk (map demo_res [3, 4])), WorkIn 0 (InGrant 2), WorkIn 0 InEnd,
      WorkIn 0 InFlushed, WorkIn 1 InFlushed, WorkIn 0 InGate, WorkIn 1 InGate,
      WorkIn 0 (InSyncDone True), WorkIn 1 InGate, WorkIn 0 (InConclude False True)]"

definition demo_near :: wsys where
  "demo_near = the (sys_exec demo_res demo_origin demo_inputs demo_sys)"

definition demo_full :: wsys where
  "demo_full = the (sys_exec demo_res demo_origin (demo_inputs @ [WorkIn 1 (InConclude False True)]) demo_sys)"

lemma demo_near_row:
  "case sys_exec demo_res demo_origin demo_inputs demo_sys of None \<Rightarrow> False
   | Some s \<Rightarrow> (case bt_get (rows (wdb (world s))) 0 of None \<Rightarrow> False
       | Some r \<Rightarrow> r_start r = 0 \<and> r_downloaded r = 5)"
  by code_simp

lemma demo_near_worker:
  "case sys_exec demo_res demo_origin demo_inputs demo_sys of None \<Rightarrow> False
   | Some s \<Rightarrow> (case crew s 1 of None \<Rightarrow> False
       | Some ws \<Rightarrow> (case w_pc ws of Concluding b \<Rightarrow> b \<and> w_downloaded ws = 5 | _ \<Rightarrow> False))"
  by code_simp

lemma demo_near_synced:
  "case sys_exec demo_res demo_origin demo_inputs demo_sys of None \<Rightarrow> False | Some s \<Rightarrow> \<not> sync_lost (world s)"
  by code_simp

lemma demo_full_run:
  "case sys_exec demo_res demo_origin (demo_inputs @ [WorkIn 1 (InConclude False True)]) demo_sys of
     None \<Rightarrow> False | Some s \<Rightarrow> \<not> sync_lost (world s) \<and> claims (world s) = [(5, 5), (0, 5)]"
  by code_simp

lemma run_some:
  assumes "case m of None \<Rightarrow> False | Some s \<Rightarrow> P s"
  shows "m = Some (the m)" "P (the m)"
  using assms by (cases m; simp)+

lemmas demo_near_some = run_some(1)[OF demo_near_synced, folded demo_near_def]
lemmas demo_near_facts =
  demo_near_row[THEN run_some(2), folded demo_near_def] demo_near_worker[THEN run_some(2), folded demo_near_def]
  demo_near_synced[THEN run_some(2), folded demo_near_def]
lemmas demo_full_some = run_some(1)[OF demo_full_run, folded demo_full_def]
lemmas demo_full_facts = run_some(2)[OF demo_full_run, folded demo_full_def]

lemma demo_near_reach: "sys_reach demo_res demo_origin demo_sys demo_near"
  by (rule sys_exec_reach[OF demo_near_some sys_reach.start])

lemma demo_full_reach: "sys_reach demo_res demo_origin demo_sys demo_full"
  by (rule sys_exec_reach[OF demo_full_some sys_reach.start])






section \<open>Retries and reports\<close>

text \<open>
  C27.  A segment is asked for a bounded number of times: at most as often as its budget (five on a
  system lease, two on a pinned one), with waits of 2, 4, 8, 16 seconds, and then the loop has
  returned.  A request is repeated only after an error that may pass: never after a rejection or an
  error no retry can change, and never after a plain stream broke off on a server without ranges,
  where a second request would spend a one-time token.
\<close>

theorem retries_are_bounded:
  assumes "segment_with_retry env 0 actual e as = (reqs, waits, r)"
  shows "length reqs \<le> max 1 (re_budget env)
    \<and> waits = map (\<lambda>i. 2 ^ (i + 1)) [0..<length waits]
    \<and> (0 < re_budget env \<longrightarrow> length waits < re_budget env)
    \<and> (max 1 (re_budget env) \<le> length as \<longrightarrow> r \<noteq> None)
    \<and> (Suc i < length reqs \<longrightarrow> (\<exists>err. at_result (as ! i) = Inl err \<and> \<not> systematic (as ! i) err \<and> \<not> rejected err
        \<and> \<not> (re_no_range env \<and> re_start env < fst (reqs ! i) \<and> at_verdict (as ! i) = VUnsupported)))"
  using retry_requests[OF assms] retry_returns[OF assms] retry_repeats[OF assms, of i] by simp

definition stalled_attempt :: attempt where
  "stalled_attempt = \<lparr> at_result = Inl (Because StalledStream), at_total = 3, at_verdict = VSupported,
     at_row = Some (9, 2), at_cancelled = False \<rparr>"

lemma retries_are_bounded_witness:
  "length (fst (segment_with_retry \<lparr> re_start = 0, re_no_range = False, re_budget = budget_of True \<rparr> 0 0 9
     (replicate 7 stalled_attempt))) \<le> 2"
proof -
  let ?e = "\<lparr> re_start = 0, re_no_range = False, re_budget = budget_of True \<rparr>"
  obtain reqs waits r where s: "segment_with_retry ?e 0 0 9 (replicate 7 stalled_attempt) = (reqs, waits, r)"
    by (cases "segment_with_retry ?e 0 0 9 (replicate 7 stalled_attempt)") auto
  have "length reqs \<le> max 1 2" using retries_are_bounded[OF s, THEN conjunct1]
    by (simp add: budget_of_def pinned_node_max_retries_def)
  then show ?thesis unfolding s by simp
qed

text \<open>
  One bad node never fails the task: whatever error of a pinned node is the node's fault reaches
  the coordinator as the recoverable kind, the worker stays for its next assignment, and the
  coordinator goes on in every state it can be in.
\<close>

theorem pinned_failure_never_fatal:
  assumes "is_node_attributable e"
  shows "report_result True (Inl e) = (ReportFailed CdnNodeFailed, True)
    \<and> (case report_event ob wid i (fst (report_result True (Inl e))) of
         None \<Rightarrow> False
       | Some ev \<Rightarrow> \<exists>c'. coord_handle cfg ev c = Some (c', Continue))"
proof -
  have "e \<noteq> Plain Cancelled" using assms by (auto simp: is_node_attributable_def)
  then have r: "report_result True (Inl e) = (ReportFailed CdnNodeFailed, True)"
    using assms by (simp add: report_result_def)
  have "\<exists>c'. coord_handle cfg (EvFailed ob wid i CdnNodeFailed) c = Some (c', Continue)"
    by (simp add: coord_handle_def on_failed_def Let_def)
  then show ?thesis by (simp add: r report_event_def)
qed

lemma pinned_failure_never_fatal_witness:
  "report_result True (Inl (Plain (Request (Some 503)))) = (ReportFailed CdnNodeFailed, True)"
  using pinned_failure_never_fatal[of "Plain (Request (Some 503))"] by (simp add: is_node_attributable_def)

section \<open>A hole in the truncation check\<close>

text \<open>
  C39.  An empty chunk is taken for the end of the segment: whatever the shared end says, the worker
  closes the segment as finished with what it has, and the check for a truncated stream is not
  made.  At the start of a segment it reports zero bytes, and the coordinator marks the segment
  completed without a byte of it.
\<close>

theorem empty_chunk_ends_segment:
  assumes "w_pc ws = Reading" "gate_start w = None" "\<not> gate_syncing w"
    and "bt_get (segs c) i = Some l" "bt_wf (segs c)" "0 \<le> seg_size l"
  shows "(case worker_run [InChunk [], InFlushed, InGate, InSyncDone True, InConclude False True] (ws, w) of
      None \<Rightarrow> False | Some (ws', w') \<Rightarrow> w_pc ws' = Returned (Inr (w_downloaded ws)))
    \<and> bt_get (segs (fst (mark_done i 0 c))) i = Some (l\<lparr>downloaded_bytes := 0, lstate := Completed\<rparr>)"
proof -
  have "(case worker_run [InChunk [], InFlushed, InGate, InSyncDone True, InConclude False True] (ws, w) of
      None \<Rightarrow> False | Some (ws', w') \<Rightarrow> w_pc ws' = Returned (Inr (w_downloaded ws)))"
    using assms(1-3)
    by (simp add: worker_step.simps take_chunk_def flush_def drain_def now_def sync_covering_def
        begin_sync_def conclude_segment_def goto_def Let_def)
  moreover have "bt_get (segs (fst (mark_done i 0 c))) i = Some (l\<lparr>downloaded_bytes := 0, lstate := Completed\<rparr>)"
    using assms(4-6) by (simp add: mark_done_def bt.get_adj)
  ultimately show ?thesis by blast
qed

lemma empty_chunk_ends_segment_witness:
  "bt_get (segs (fst (mark_done 0 0 demo_start))) 0
     = Some \<lparr> index = 0, start_byte = 0, end_byte = 4, downloaded_bytes = 0, lstate = Completed \<rparr>"
proof -
  have g: "bt_get (segs demo_start) 0
      = Some \<lparr> index = 0, start_byte = 0, end_byte = 4, downloaded_bytes = 0, lstate = Active \<rparr>"
    "bt_wf (segs demo_start)"
    by code_simp+
  show ?thesis
    using empty_chunk_ends_segment[of "enter_loop 0 0 0 4 7 0" demo_world, OF _ _ _ g]
    by (simp add: enter_loop_def demo_world_def seg_size_def)
qed

end
