(* ===== verification/Conn_Policy.thy ===== *)
theory Conn_Policy
  imports Prelude Rust_Text
begin

text \<open>
  The per-host connection policy cache of \<^verbatim>\<open>native/engine/src/segment_coordinator.rs\<close>: two faces per
  host, a cap learned from rejections and a starting hint learned from clean downloads, each with
  its own 24-hour lifetime, and the text form kept in the configuration table.  The cache is a
  \<^verbatim>\<open>HashMap\<close>; it is modelled as an ordered map, whose iteration order no operation depends on
  (the text form is sorted).  The host key is what \<^verbatim>\<open>extract_host\<close>, a call into the \<^verbatim>\<open>url\<close> crate,
  yields: operations take it as an optional argument.  The clock is an argument too.
\<close>

section \<open>Entries\<close>

record conn_entry =
  pol_cap :: int
  cap_ts :: nat
  pol_hint :: int
  hint_ts :: nat

type_synonym conn_cache = "(string, conn_entry) btree"

definition conn_cap_ttl :: nat where "conn_cap_ttl = 24 * 3600"

definition empty_entry :: conn_entry where
  "empty_entry = \<lparr> pol_cap = 0, cap_ts = 0, pol_hint = 0, hint_ts = 0 \<rparr>"

definition conn_cap_fresh :: "nat \<Rightarrow> nat \<Rightarrow> bool" where
  "conn_cap_fresh recorded_secs now_secs \<longleftrightarrow> now_secs - recorded_secs < conn_cap_ttl"

definition prune_stale_faces :: "conn_entry \<Rightarrow> nat \<Rightarrow> conn_entry \<times> bool" where
  "prune_stale_faces e0 now =
     (let e1 = (if 0 < pol_cap e0 \<and> \<not> conn_cap_fresh (cap_ts e0) now
                then e0\<lparr>pol_cap := 0, cap_ts := 0\<rparr> else e0);
          e2 = (if 0 < pol_hint e1 \<and> \<not> conn_cap_fresh (hint_ts e1) now
                then e1\<lparr>pol_hint := 0, hint_ts := 0\<rparr> else e1)
      in (e2, pol_cap e2 = 0 \<and> pol_hint e2 = 0))"

section \<open>Learning and reading\<close>

text \<open>\<^verbatim>\<open>cache.entry(host).or_default()\<close>\<close>

definition entry_of :: "conn_cache \<Rightarrow> string \<Rightarrow> conn_entry" where
  "entry_of cache host = (case bt_get cache host of None \<Rightarrow> empty_entry | Some e \<Rightarrow> e)"

definition record_domain_conn_cap :: "string option \<Rightarrow> int \<Rightarrow> nat \<Rightarrow> conn_cache \<Rightarrow> conn_cache" where
  "record_domain_conn_cap host_opt cap0 now cache =
     (let cap = max cap0 1 in
      case host_opt of None \<Rightarrow> cache
      | Some host \<Rightarrow>
          let e = entry_of cache host;
              effective = (if 0 < pol_cap e \<and> conn_cap_fresh (cap_ts e) now then min (pol_cap e) cap else cap)
          in bt_insert host (e\<lparr>pol_cap := effective, cap_ts := now\<rparr>) cache)"

definition record_domain_conn_hint :: "string option \<Rightarrow> int \<Rightarrow> nat \<Rightarrow> conn_cache \<Rightarrow> conn_cache" where
  "record_domain_conn_hint host_opt scale0 now cache =
     (let scale = max scale0 1 in
      case host_opt of None \<Rightarrow> cache
      | Some host \<Rightarrow>
          let e = entry_of cache host;
              effective = (if 0 < pol_hint e \<and> conn_cap_fresh (hint_ts e) now
                           then max (pol_hint e) scale else scale)
          in bt_insert host (e\<lparr>pol_hint := effective, hint_ts := now\<rparr>) cache)"

definition read_conn_policy :: "string option \<Rightarrow> nat \<Rightarrow> conn_cache \<Rightarrow> conn_entry option \<times> conn_cache" where
  "read_conn_policy host_opt now cache =
     (case host_opt of None \<Rightarrow> (None, cache)
      | Some host \<Rightarrow>
          (case bt_get cache host of None \<Rightarrow> (None, cache)
           | Some e \<Rightarrow>
               let (e', gone) = prune_stale_faces e now in
               if gone then (None, bt_remove host cache)
               else (Some e', bt_insert host e' cache)))"

definition domain_conn_cap :: "string option \<Rightarrow> nat \<Rightarrow> conn_cache \<Rightarrow> int option" where
  "domain_conn_cap host_opt now cache =
     (case fst (read_conn_policy host_opt now cache) of
        None \<Rightarrow> None | Some e \<Rightarrow> if 0 < pol_cap e then Some (pol_cap e) else None)"

definition domain_conn_hint :: "string option \<Rightarrow> nat \<Rightarrow> conn_cache \<Rightarrow> int option" where
  "domain_conn_hint host_opt now cache =
     (case fst (read_conn_policy host_opt now cache) of
        None \<Rightarrow> None
      | Some e \<Rightarrow>
          if 0 < pol_hint e
          then Some (if 0 < pol_cap e then min (pol_hint e) (pol_cap e) else pol_hint e) else None)"

definition is_single_conn_domain :: "string option \<Rightarrow> nat \<Rightarrow> conn_cache \<Rightarrow> bool" where
  "is_single_conn_domain host_opt now cache \<longleftrightarrow> domain_conn_cap host_opt now cache = Some 1"

section \<open>The stored form\<close>

definition format_version :: string where "format_version = ''v3''"

definition entry_line :: "string \<Rightarrow> conn_entry \<Rightarrow> string" where
  "entry_line host e =
     join_with (CHR 0x09) [host, show_int (pol_cap e), show_nat (cap_ts e), show_int (pol_hint e), show_nat (hint_ts e)]"

definition serialize_conn_caps :: "conn_cache \<Rightarrow> string" where
  "serialize_conn_caps cache =
     join_with (CHR 0x0A) (format_version # sort (map (\<lambda>(host, e). entry_line host e) cache))"

definition i32_max :: nat where "i32_max = 2 ^ 31 - 1"

definition parse_line :: "string \<Rightarrow> (string \<times> conn_entry) option" where
  "parse_line line =
     (case split_on (CHR 0x09) line of
        host # a # b # c # d # _ \<Rightarrow>
          (case (parse_signed i32_max a, parse_unsigned u64_max b, parse_signed i32_max c,
                 parse_unsigned u64_max d) of
             (Some cp, Some cts, Some hn, Some hts) \<Rightarrow>
               if host = [] \<or> cp < 0 \<or> hn < 0 \<or> (cp = 0 \<and> hn = 0) then None
               else Some (host, \<lparr> pol_cap = cp, cap_ts = cts, pol_hint = hn, hint_ts = hts \<rparr>)
           | _ \<Rightarrow> None)
      | _ \<Rightarrow> None)"

definition parse_conn_caps :: "string \<Rightarrow> conn_cache" where
  "parse_conn_caps raw =
     (case lines_of raw of
        [] \<Rightarrow> []
      | l # ls \<Rightarrow>
          if trim l \<noteq> format_version then []
          else foldl (\<lambda>m line. case parse_line line of None \<Rightarrow> m | Some (host, e) \<Rightarrow> bt_insert host e m) [] ls)"

definition count_domain_conn_policies :: "string \<Rightarrow> nat \<Rightarrow> nat" where
  "count_domain_conn_policies raw now =
     length (filter (\<lambda>(_, e). \<not> snd (prune_stale_faces e now)) (parse_conn_caps raw))"

definition merge_loaded :: "nat \<Rightarrow> conn_cache \<Rightarrow> string \<times> conn_entry \<Rightarrow> conn_cache" where
  "merge_loaded now cache = (\<lambda>(host, e0).
     let (e, gone) = prune_stale_faces e0 now in
     if gone then cache
     else
       let m0 = entry_of cache host;
           m1 = (if 0 < pol_cap e
                    \<and> (pol_cap m0 = 0 \<or> \<not> conn_cap_fresh (cap_ts m0) now \<or> pol_cap e < pol_cap m0)
                 then m0\<lparr>pol_cap := pol_cap e, cap_ts := cap_ts e\<rparr> else m0);
           m2 = (if 0 < pol_hint e
                    \<and> (pol_hint m1 = 0 \<or> \<not> conn_cap_fresh (hint_ts m1) now \<or> pol_hint m1 < pol_hint e)
                 then m1\<lparr>pol_hint := pol_hint e, hint_ts := hint_ts e\<rparr> else m1)
       in bt_insert host m2 cache)"

text \<open>\<open>stored\<close> is what \<^verbatim>\<open>get_config\<close> answers; an error or a missing key leaves the cache alone.\<close>

definition load_domain_conn_caps :: "string option \<Rightarrow> nat \<Rightarrow> conn_cache \<Rightarrow> conn_cache" where
  "load_domain_conn_caps stored now cache =
     (case stored of None \<Rightarrow> cache | Some raw \<Rightarrow> foldl (merge_loaded now) cache (parse_conn_caps raw))"

text \<open>The text written to the configuration table, and the cache with its stale faces dropped.\<close>

definition persist_domain_conn_caps :: "nat \<Rightarrow> conn_cache \<Rightarrow> string \<times> conn_cache" where
  "persist_domain_conn_caps now cache =
     (let kept = List.map_filter (\<lambda>(host, e). let (e', gone) = prune_stale_faces e now in
                    if gone then None else Some (host, e')) cache
      in (serialize_conn_caps kept, kept))"

definition clear_domain_conn_caps :: "nat \<Rightarrow> conn_cache \<Rightarrow> string option \<times> conn_cache" where
  "clear_domain_conn_caps now cache =
     (if cache = [] then (None, cache) else (Some (fst (persist_domain_conn_caps now [])), []))"

section \<open>Lemmas\<close>

lemma prune_fresh:
  "prune_stale_faces e now = (e', gone) \<Longrightarrow> 0 < pol_cap e' \<Longrightarrow> pol_cap e' = pol_cap e \<and> conn_cap_fresh (cap_ts e) now"
  by (auto simp: prune_stale_faces_def Let_def split: if_splits)

lemma domain_conn_cap_eq:
  "domain_conn_cap (Some host) now cache =
     (case bt_get cache host of None \<Rightarrow> None
      | Some e \<Rightarrow> if 0 < pol_cap e \<and> conn_cap_fresh (cap_ts e) now then Some (pol_cap e) else None)"
  by (auto simp: domain_conn_cap_def read_conn_policy_def prune_stale_faces_def Let_def split: option.split)

lemma domain_conn_hint_eq:
  "domain_conn_hint (Some host) now cache =
     (case bt_get cache host of None \<Rightarrow> None
      | Some e \<Rightarrow> if 0 < pol_hint e \<and> conn_cap_fresh (hint_ts e) now
          then Some (if 0 < pol_cap e \<and> conn_cap_fresh (cap_ts e) now then min (pol_hint e) (pol_cap e)
                     else pol_hint e) else None)"
  by (auto simp: domain_conn_hint_def read_conn_policy_def prune_stale_faces_def Let_def split: option.split)

lemma fresh_mono: "conn_cap_fresh r now \<Longrightarrow> r \<le> r' \<Longrightarrow> conn_cap_fresh r' now"
  by (simp add: conn_cap_fresh_def)

lemma fresh_earlier: "conn_cap_fresh r now \<Longrightarrow> t \<le> now \<Longrightarrow> conn_cap_fresh r t"
  by (simp add: conn_cap_fresh_def)

lemma persisted_entry:
  assumes "(host, e') \<in> set (snd (persist_domain_conn_caps now cache))"
  shows "\<exists>e. (host, e) \<in> set cache \<and> \<not> snd (prune_stale_faces e now)"
proof -
  obtain x where "x \<in> set cache" "(if snd (prune_stale_faces (snd x) now) then None
      else Some (fst x, fst (prune_stale_faces (snd x) now))) = Some (host, e')"
    using assms by (auto simp: persist_domain_conn_caps_def in_map_filter Let_def split_def)
  then show ?thesis by (intro exI[of _ "snd x"]) (auto split: if_splits)
qed

definition record_caps :: "string \<Rightarrow> (nat \<times> int) list \<Rightarrow> conn_cache \<Rightarrow> conn_cache" where
  "record_caps host obs_list cache = foldl (\<lambda>m (t, c). record_domain_conn_cap (Some host) c t m) cache obs_list"

text \<open>A run of observations on one host inside one lifetime.\<close>

lemma record_caps_get:
  assumes "bt_wf cache" "obs_list \<noteq> []" "sorted (map fst obs_list)" "conn_cap_fresh t0 now"
    and "\<forall>(t, c) \<in> set obs_list. t0 \<le> t \<and> t \<le> now"
    and "bt_get cache host = None \<or> pol_cap (the (bt_get cache host)) = 0"
  shows "bt_wf (record_caps host obs_list cache)
    \<and> (\<exists>e. bt_get (record_caps host obs_list cache) host = Some e
        \<and> pol_cap e = Min ((\<lambda>(t, c). max c 1) ` set obs_list) \<and> cap_ts e = fst (last obs_list))"
  using assms
proof (induction obs_list rule: rev_induct)
  case (snoc x xs)
  obtain t c where x: "x = (t, c)" by (cases x)
  let ?m = "record_caps host xs cache"
  have step: "record_caps host (xs @ [x]) cache = record_domain_conn_cap (Some host) c t ?m"
    by (simp add: record_caps_def x)
  show ?case
  proof (cases "xs = []")
    case True
    then show ?thesis
      using snoc.prems
      by (auto simp: step record_caps_def record_domain_conn_cap_def Let_def entry_of_def x
          bt.wf_put bt.get_put empty_entry_def split: option.split)
  next
    case False
    have "bt_wf ?m \<and> (\<exists>e. bt_get ?m host = Some e \<and> pol_cap e = Min ((\<lambda>(t, c). max c 1) ` set xs)
        \<and> cap_ts e = fst (last xs))"
      using snoc.prems False by (intro snoc.IH) (auto simp: sorted_append)
    then obtain e where e: "bt_wf ?m" "bt_get ?m host = Some e" "pol_cap e = Min ((\<lambda>(t, c). max c 1) ` set xs)"
        "cap_ts e = fst (last xs)" by blast
    have "last xs \<in> set (xs @ [x])" using False by simp
    then have "t0 \<le> fst (last xs)" using snoc.prems(5) by (cases "last xs") auto
    moreover have "t \<le> now" using snoc.prems(5) x by auto
    ultimately have fr: "conn_cap_fresh (cap_ts e) t"
      using snoc.prems(4) e(4) fresh_mono fresh_earlier by metis
    have pos: "0 < pol_cap e" using e(3) False by (auto simp: Min_gr_iff)
    have "Min ((\<lambda>(t, c). max c 1) ` set (xs @ [x])) = min (pol_cap e) (max c 1)"
      using False by (simp add: e(3) x min.commute)
    then show ?thesis
      using fr pos e by (simp add: step[unfolded x] record_domain_conn_cap_def Let_def entry_of_def bt.wf_put bt.get_put x)
  qed
qed simp

text \<open>Hosts and entries the stored form can represent.\<close>

definition storable :: "string \<Rightarrow> conn_entry \<Rightarrow> bool" where
  "storable host e \<longleftrightarrow> host \<noteq> [] \<and> CHR 0x09 \<notin> set host \<and> CHR 0x0A \<notin> set host
     \<and> 0 \<le> pol_cap e \<and> pol_cap e \<le> int i32_max \<and> 0 \<le> pol_hint e \<and> pol_hint e \<le> int i32_max
     \<and> (0 < pol_cap e \<or> 0 < pol_hint e) \<and> cap_ts e \<le> u64_max \<and> hint_ts e \<le> u64_max"

lemma show_nat_chars: "c \<in> set (show_nat n) \<Longrightarrow> is_digit c"
  using show_nat_digits[of n] by (auto simp: all_digits_def list_all_iff)

lemma show_int_chars: "c \<in> set (show_int i) \<Longrightarrow> is_digit c \<or> c = CHR ''-''"
  by (auto simp: show_int_def split: if_splits dest: show_nat_chars)

lemma entry_line_pieces:
  assumes "storable host e"
  shows "split_on (CHR 0x09) (entry_line host e)
    = [host, show_int (pol_cap e), show_nat (cap_ts e), show_int (pol_hint e), show_nat (hint_ts e)]"
  unfolding entry_line_def
  using assms show_nat_chars show_int_chars not_digit
  by (intro split_join) (fastforce simp: storable_def)+

lemma parse_entry_line:
  assumes "storable host e"
  shows "parse_line (entry_line host e) = Some (host, e)"
proof -
  have "parse_signed i32_max (show_int i) = Some i" if "0 \<le> i" "i \<le> int i32_max" for i
    using that by (intro parse_show_signed) auto
  then show ?thesis
    using assms entry_line_pieces[OF assms] by (auto simp: parse_line_def parse_show_unsigned storable_def)
qed

lemma entry_line_shape:
  assumes "storable host e"
  shows "CHR 0x0A \<notin> set (entry_line host e) \<and> entry_line host e \<noteq> [] \<and> last (entry_line host e) \<noteq> CHR 0x0D"
proof -
  have "last (show_nat (hint_ts e)) \<in> set (show_nat (hint_ts e))" using show_nat_ne by simp
  then have "last (show_nat (hint_ts e)) \<noteq> CHR 0x0D" using show_nat_chars not_digit by metis
  then show ?thesis
    using assms show_nat_ne show_nat_chars show_int_chars not_digit
    by (fastforce simp: entry_line_def storable_def)
qed

lemma foldl_parse_lines:
  assumes "\<forall>l \<in> set ls. \<exists>host e. parse_line l = Some (host, e)"
  shows "foldl (\<lambda>m line. case parse_line line of None \<Rightarrow> m | Some (host, e) \<Rightarrow> bt_insert host e m) m0 ls
    = foldl (\<lambda>m (host, e). bt_insert host e m) m0 (map (\<lambda>l. the (parse_line l)) ls)"
  using assms by (induction ls arbitrary: m0) auto

lemma foldl_insert_get:
  assumes "bt_wf m" "distinct (map fst xs)"
  shows "bt_wf (foldl (\<lambda>m (k, v). bt_insert k v m) m xs)
    \<and> bt_get (foldl (\<lambda>m (k, v). bt_insert k v m) m xs) = bt_get m ++ map_of xs"
  using assms
proof (induction xs arbitrary: m)
  case (Cons x xs)
  obtain k v where x: "x = (k, v)" by (cases x)
  have none: "map_of xs k = None" using Cons.prems(2) x by (simp add: map_of_eq_None_iff)
  have "bt_get (foldl (\<lambda>m (k, v). bt_insert k v m) m (x # xs)) = (bt_get m)(k \<mapsto> v) ++ map_of xs"
    using Cons x by (simp add: bt.wf_put bt.get_put)
  also have "\<dots> = bt_get m ++ map_of (x # xs)"
    using none by (intro ext) (auto simp: x map_add_def split: option.split)
  finally have "bt_get (foldl (\<lambda>m (k, v). bt_insert k v m) m (x # xs)) = bt_get m ++ map_of (x # xs)" .
  moreover have "bt_wf (foldl (\<lambda>m (k, v). bt_insert k v m) m (x # xs))"
    using Cons x by (simp add: bt.wf_put)
  ultimately show ?case by blast
qed simp

text \<open>An ordered map is determined by its lookup.\<close>

lemma bt_ext:
  assumes "bt_wf m" "bt_wf m'" "bt_get m = bt_get m'"
  shows "m = m'"
proof -
  have "set m = set m'"
    using assms by (auto simp: bt.in_entries)
  then have "set (map fst m) = set (map fst m')" by auto
  then have k: "map fst m = map fst m'"
    by (intro strict_sorted_equal) (use assms(1,2) in \<open>simp_all add: bt_wf_def\<close>)
  have "m = map (\<lambda>k. (k, the (bt_get m k))) (map fst m)" if "bt_wf m" for m :: "('a \<times> 'b) list"
    using that by (auto simp: map_idI bt.in_entries o_def intro!: map_idI[symmetric])
  then show ?thesis using assms k by metis
qed

section \<open>Properties\<close>

text \<open>
  The stored form is faithful: what is written to the configuration table reads back as the
  same cache, for every cache of representable entries (hosts without tab and line feed, counts
  and times within their machine types).
\<close>

theorem conn_caps_roundtrip:
  assumes "bt_wf cache" "\<forall>(host, e) \<in> set cache. storable host e"
  shows "parse_conn_caps (serialize_conn_caps cache) = cache"
proof -
  let ?ls = "sort (map (\<lambda>(host, e). entry_line host e) cache)"
  have st: "\<exists>host e. (host, e) \<in> set cache \<and> l = entry_line host e \<and> storable host e" if "l \<in> set ?ls" for l
    using that assms(2) by fastforce
  have "lines_of (serialize_conn_caps cache) = format_version # ?ls"
    unfolding serialize_conn_caps_def
  proof (rule lines_join)
    show "\<forall>p \<in> set (format_version # ?ls). CHR 0x0A \<notin> set p \<and> p \<noteq> [] \<and> last p \<noteq> CHR 0x0D"
      using st entry_line_shape by (fastforce simp: format_version_def)
  qed simp
  moreover have "trim format_version = format_version"
    by (rule trim_id) (simp_all add: format_version_def is_space_def)
  moreover have "\<forall>l \<in> set ?ls. \<exists>host e. parse_line l = Some (host, e)"
    using st parse_entry_line by blast
  ultimately have p: "parse_conn_caps (serialize_conn_caps cache)
      = foldl (\<lambda>m (host, e). bt_insert host e m) [] (map (\<lambda>l. the (parse_line l)) ?ls)"
    by (simp add: parse_conn_caps_def foldl_parse_lines)
  let ?xs = "map (\<lambda>l. the (parse_line l)) ?ls"
  have "mset ?xs = mset (map (\<lambda>l. the (parse_line l)) (map (\<lambda>(host, e). entry_line host e) cache))"
    by (metis mset_map mset_sort)
  also have "map (\<lambda>l. the (parse_line l)) (map (\<lambda>(host, e). entry_line host e) cache) = cache"
    using assms(2) parse_entry_line by (auto simp: o_def intro!: map_idI)
  finally have ms: "mset ?xs = mset cache" .
  have dc: "distinct (map fst cache)" using assms(1) by (rule bt.distinct_entries)
  moreover have "mset (map fst ?xs) = mset (map fst cache)" using ms by (metis mset_map)
  ultimately have dx: "distinct (map fst ?xs)" using mset_eq_imp_distinct_iff by blast
  have "map_of ?xs = map_of cache"
    using dx dc mset_eq_setD[OF ms] by (simp add: map_of_inject_set)
  then have "bt_get (foldl (\<lambda>m (host, e). bt_insert host e m) [] ?xs) = bt_get cache"
    using foldl_insert_get[OF _ dx, of "[]"] by (simp add: bt_wf_def bt_get_map_of)
  moreover have "bt_wf (foldl (\<lambda>m (host, e). bt_insert host e m) [] ?xs)"
    using foldl_insert_get[OF _ dx, of "[]"] by (simp add: bt_wf_def)
  ultimately show ?thesis unfolding p using assms(1) by (intro bt_ext)
qed

definition demo_cache :: conn_cache where
  "demo_cache = [(''a.org'', \<lparr> pol_cap = 4, cap_ts = 100, pol_hint = 0, hint_ts = 0 \<rparr>),
     (''b.net:81'', \<lparr> pol_cap = 0, cap_ts = 0, pol_hint = 16, hint_ts = 90 \<rparr>)]"

lemma conn_caps_roundtrip_witness: "parse_conn_caps (serialize_conn_caps demo_cache) = demo_cache"
  by (rule conn_caps_roundtrip) (simp_all add: demo_cache_def bt_wf_def storable_def i32_max_def u64_max_def list_less_def[symmetric] less_char_def)

text \<open>
  Rejections accumulate conservatively: after any sequence of observations of one host within
  a lifetime, the cap that new tasks read is the smallest of them, at least 1.
\<close>

theorem cap_is_minimum:
  assumes "bt_wf cache" "obs_list \<noteq> []" "sorted (map fst obs_list)" "conn_cap_fresh t0 now"
    and "\<forall>(t, c) \<in> set obs_list. t0 \<le> t \<and> t \<le> now"
    and "bt_get cache host = None \<or> pol_cap (the (bt_get cache host)) = 0"
  shows "domain_conn_cap (Some host) now (record_caps host obs_list cache)
    = Some (Min ((\<lambda>(t, c). max c 1) ` set obs_list))"
proof -
  obtain e where e: "bt_get (record_caps host obs_list cache) host = Some e"
      "pol_cap e = Min ((\<lambda>(t, c). max c 1) ` set obs_list)" "cap_ts e = fst (last obs_list)"
    using record_caps_get[OF assms] by blast
  have l: "fst (last obs_list) \<in> fst ` set obs_list" using assms(2) by simp
  have "\<forall>t \<in> fst ` set obs_list. t0 \<le> t" using assms(5) by auto
  then have "t0 \<le> cap_ts e" unfolding e(3) using l by (rule bspec)
  then have "conn_cap_fresh (cap_ts e) now" by (rule fresh_mono[OF assms(4)])
  moreover have "0 < pol_cap e" using e(2) assms(2) by (auto simp: Min_gr_iff)
  ultimately show ?thesis using e by (simp add: domain_conn_cap_eq)
qed

lemma cap_is_minimum_witness:
  "domain_conn_cap (Some ''h'') 500 (record_caps ''h'' [(100, 8), (200, 3), (300, 5)] []) = Some 3"
  by (subst cap_is_minimum[of _ _ 100]) (simp_all add: bt_wf_def conn_cap_fresh_def conn_cap_ttl_def)

text \<open>
  Negative evidence dominates: the starting hint read for a host never exceeds the cap read
  at the same time.
\<close>

theorem hint_below_cap:
  assumes "domain_conn_cap h now cache = Some c" "domain_conn_hint h now cache = Some k"
  shows "k \<le> c"
proof (cases h)
  case None
  then show ?thesis using assms(1) by (simp add: domain_conn_cap_def read_conn_policy_def)
next
  case (Some host)
  then show ?thesis
    using assms by (auto simp: domain_conn_cap_eq domain_conn_hint_eq split: option.splits if_splits)
qed

lemma hint_below_cap_witness:
  "the (domain_conn_hint (Some ''h'') 60 (record_domain_conn_hint (Some ''h'') 32 50
      (record_domain_conn_cap (Some ''h'') 4 40 []))) \<le> 4"
proof -
  let ?m = "record_domain_conn_hint (Some ''h'') 32 50 (record_domain_conn_cap (Some ''h'') 4 40 [])"
  have "domain_conn_cap (Some ''h'') 60 ?m = Some 4" "domain_conn_hint (Some ''h'') 60 ?m = Some 4"
    by (simp_all add: domain_conn_cap_eq domain_conn_hint_eq record_domain_conn_hint_def
        record_domain_conn_cap_def Let_def entry_of_def empty_entry_def conn_cap_fresh_def conn_cap_ttl_def)
  from hint_below_cap[OF this] show ?thesis using \<open>domain_conn_hint _ _ _ = Some 4\<close> by simp
qed

text \<open>
  Learned policy expires: once a host's observations are 24 hours old, reading it answers
  nothing for both faces and drops the entry, and the stored form no longer counts it.
\<close>

theorem policy_expires:
  assumes "bt_wf cache" "bt_get cache host = Some e" "cap_ts e + conn_cap_ttl \<le> now"
    and "hint_ts e + conn_cap_ttl \<le> now" "0 \<le> pol_cap e" "0 \<le> pol_hint e"
  shows "domain_conn_cap (Some host) now cache = None \<and> domain_conn_hint (Some host) now cache = None
    \<and> bt_get (snd (read_conn_policy (Some host) now cache)) host = None
    \<and> host \<notin> fst ` set (snd (persist_domain_conn_caps now cache))"
proof -
  have nf: "\<not> conn_cap_fresh (cap_ts e) now" "\<not> conn_cap_fresh (hint_ts e) now"
    using assms(3,4) by (simp_all add: conn_cap_fresh_def)
  then have gone: "snd (prune_stale_faces e now)"
    using assms(5,6) by (auto simp: prune_stale_faces_def Let_def)
  then obtain e' where e': "prune_stale_faces e now = (e', True)" by (metis prod.collapse)
  have only: "(host, e') \<in> set cache \<Longrightarrow> e' = e" for e'
    using assms(1,2) by (simp add: bt.in_entries)
  have "host \<notin> fst ` set (snd (persist_domain_conn_caps now cache))"
    using gone only persisted_entry[of host _ now cache] by fastforce
  then show ?thesis
    using nf gone assms(1,2)
    by (simp add: domain_conn_cap_eq domain_conn_hint_eq read_conn_policy_def e' bt.get_del)
qed

lemma policy_expires_witness: "domain_conn_cap (Some ''a.org'') 200000 demo_cache = None"
  using policy_expires[of demo_cache "''a.org''" "\<lparr> pol_cap = 4, cap_ts = 100, pol_hint = 0, hint_ts = 0 \<rparr>" 200000]
  by (simp add: demo_cache_def bt_wf_def conn_cap_ttl_def less_char_def)

end
