(* ===== verification/Speed_Limiter.thy ===== *)
theory Speed_Limiter
  imports Prelude
begin

text \<open>
  The layered token-bucket limiter (\<^verbatim>\<open>native/engine/src/speed_limiter.rs\<close>).  A limiter is a chain of
  layers, each an \<^verbatim>\<open>Arc\<close> that other limiters may share: the layers live in a store, a limiter is the
  list of its layer's key followed by those of its fallbacks.  One step of \<open>consume\<close> is one pass of
  its loop with the compare-and-swap taken as atomic; one step of the refill task is one timer tick.
  Notifications only wake waiters early and are left out; time is in microseconds.  Products that
  the code forms in \<^verbatim>\<open>u64\<close> wrap, as in a release build.
\<close>

record layer =
  limit_bps :: nat
  tokens :: nat
  refill_started :: bool

type_synonym store = "nat \<Rightarrow> layer"

definition refill_interval_ms :: nat where "refill_interval_ms = 50"
definition cap_duration_ms :: nat where "cap_duration_ms = 100"

definition wrap_u64 :: "nat \<Rightarrow> nat" where "wrap_u64 n = n mod 2 ^ 64"

section \<open>Limits and delegation\<close>

definition new_layer :: "nat \<Rightarrow> layer" where
  "new_layer bps = \<lparr> limit_bps = bps, tokens = 0, refill_started = 0 < bps \<rparr>"

definition set_limit :: "nat \<Rightarrow> nat \<Rightarrow> store \<Rightarrow> store" where
  "set_limit i bps st =
     st(i := (st i)\<lparr>limit_bps := bps, refill_started := refill_started (st i) \<or> 0 < bps\<rparr>)"

definition own_limit :: "store \<Rightarrow> nat list \<Rightarrow> nat" where
  "own_limit st chain = limit_bps (st (hd chain))"

fun resolve :: "store \<Rightarrow> nat list \<Rightarrow> nat option" where
  "resolve st [] = None"
| "resolve st (i # chain) = (if 0 < limit_bps (st i) then Some i else resolve st chain)"

definition limit :: "store \<Rightarrow> nat list \<Rightarrow> nat" where
  "limit st chain = (case resolve st chain of None \<Rightarrow> 0 | Some i \<Rightarrow> limit_bps (st i))"

text \<open>\<open>None\<close>: no token yet, the caller waits and tries again.\<close>

definition consume_step :: "nat list \<Rightarrow> nat \<Rightarrow> store \<Rightarrow> (nat \<times> store) option" where
  "consume_step chain requested st =
     (if requested = 0 then Some (0, st)
      else case resolve st chain of
          None \<Rightarrow> Some (requested, st)
        | Some i \<Rightarrow>
            let available = tokens (st i) in
            if 0 < available
            then let take = min requested available in
              Some (take, st(i := (st i)\<lparr>tokens := available - take\<rparr>))
            else None)"

section \<open>Refilling\<close>

definition bucket_cap :: "nat \<Rightarrow> nat" where
  "bucket_cap bps =
     (let nominal_tick = wrap_u64 (bps * refill_interval_ms) div 1000 in
      max (max (wrap_u64 (bps * cap_duration_ms) div 1000) (wrap_u64 (nominal_tick * 2))) 1)"

definition refill_amount :: "nat \<Rightarrow> nat \<Rightarrow> nat" where
  "refill_amount bps elapsed_us = wrap_u64 (bps * wrap_u64 elapsed_us div 1000000)"

text \<open>
  One tick at time \<open>now\<close>; the second component is \<^verbatim>\<open>last_refill\<close>.  With no limit the loop empties
  the bucket, sleeps and restarts its clock: \<open>now\<close> is then the end of that sleep.
\<close>

definition refill_tick :: "nat \<Rightarrow> layer \<times> nat \<Rightarrow> layer \<times> nat" where
  "refill_tick now = (\<lambda>(l, last_refill).
     if limit_bps l = 0 then (l\<lparr>tokens := 0\<rparr>, now)
     else
       let amount = refill_amount (limit_bps l) (now - last_refill) in
       if amount = 0 then (l, last_refill)
       else (l\<lparr>tokens := min (sat_add_u64 (tokens l) amount) (bucket_cap (limit_bps l))\<rparr>, now))"

section \<open>Runs of one layer\<close>

text \<open>Ticks and withdrawals on a layer; the last component counts the tokens handed out.\<close>

datatype limiter_event = Tick nat | Take nat

definition limiter_step :: "limiter_event \<Rightarrow> layer \<times> nat \<times> nat \<Rightarrow> layer \<times> nat \<times> nat" where
  "limiter_step ev = (\<lambda>(l, last_refill, taken).
     case ev of
       Tick now \<Rightarrow> (let (l', r) = refill_tick now (l, last_refill) in (l', r, taken))
     | Take n \<Rightarrow>
         (case consume_step [0] n (\<lambda>_. l) of
            None \<Rightarrow> (l, last_refill, taken)
          | Some (k, st) \<Rightarrow> (st 0, last_refill, taken + k)))"

fun limiter_run :: "limiter_event list \<Rightarrow> layer \<times> nat \<times> nat \<Rightarrow> layer \<times> nat \<times> nat" where
  "limiter_run [] s = s"
| "limiter_run (e # es) s = limiter_run es (limiter_step e s)"

text \<open>Ticks come in time order and do not run past \<open>t1\<close>.\<close>

fun timed :: "nat \<Rightarrow> nat \<Rightarrow> limiter_event list \<Rightarrow> bool" where
  "timed t0 t1 [] \<longleftrightarrow> t0 \<le> t1"
| "timed t0 t1 (Tick now # es) \<longleftrightarrow> t0 \<le> now \<and> timed now t1 es"
| "timed t0 t1 (Take n # es) \<longleftrightarrow> timed t0 t1 es"

lemma wrap_le: "wrap_u64 n \<le> n"
  by (simp add: wrap_u64_def)

lemma refill_amount_le: "1000000 * refill_amount bps e \<le> bps * e"
proof -
  have "1000000 * refill_amount bps e \<le> 1000000 * (bps * wrap_u64 e div 1000000)"
    using wrap_le by (simp add: refill_amount_def)
  also have "\<dots> \<le> bps * wrap_u64 e" by (rule times_div_less_eq_dividend)
  also have "\<dots> \<le> bps * e" using wrap_le by simp
  finally show ?thesis .
qed

lemma bucket_cap_pos: "1 \<le> bucket_cap bps"
  by (simp add: bucket_cap_def Let_def)

lemma bucket_cap_eq:
  assumes "bps * 100 < 2 ^ 64"
  shows "bucket_cap bps = max (bps div 10) 1"
proof -
  have w: "wrap_u64 (bps * 100) = bps * 100" "wrap_u64 (bps * 50) = bps * 50"
    using assms by (simp_all add: wrap_u64_def)
  have "bps * 50 div 1000 * 2 \<le> bps * 100 div 1000" by linarith
  moreover have "wrap_u64 (bps * 50 div 1000 * 2) \<le> bps * 50 div 1000 * 2" by (rule wrap_le)
  moreover have "bps * 100 div 1000 = bps div 10" by linarith
  ultimately show ?thesis
    by (simp add: bucket_cap_def Let_def refill_interval_ms_def cap_duration_ms_def w)
qed

lemma take_step:
  assumes "limiter_step (Take k) (l, r, n) = (l1, r1, n1)" "0 < limit_bps l"
  shows "r1 = r \<and> limit_bps l1 = limit_bps l \<and> tokens l1 + n1 = tokens l + n \<and> n \<le> n1"
  using assms
  by (auto simp: limiter_step_def consume_step_def Let_def split: option.splits if_splits)

lemma tick_step:
  assumes "limiter_step (Tick now) (l, r, n) = (l1, r1, n1)" "0 < limit_bps l" "r \<le> now"
  shows "n1 = n \<and> limit_bps l1 = limit_bps l \<and> r \<le> r1 \<and> r1 \<le> now
    \<and> 1000000 * tokens l1 + limit_bps l * r \<le> 1000000 * tokens l + limit_bps l * r1"
proof -
  let ?a = "refill_amount (limit_bps l) (now - r)"
  have "1000000 * ?a \<le> limit_bps l * (now - r)" by (rule refill_amount_le)
  moreover have "limit_bps l * (now - r) + limit_bps l * r = limit_bps l * now"
    using assms(3) by (simp flip: distrib_left)
  ultimately have a: "1000000 * ?a + limit_bps l * r \<le> limit_bps l * now" by linarith
  have t: "min (sat_add_u64 (tokens l) ?a) c \<le> tokens l + ?a" for c by (simp add: sat_add_u64_def min_def)
  show ?thesis
  proof (cases "?a = 0")
    case True
    then show ?thesis using assms by (simp add: limiter_step_def refill_tick_def)
  next
    case False
    then have "l1 = l\<lparr>tokens := min (sat_add_u64 (tokens l) ?a) (bucket_cap (limit_bps l))\<rparr>" "r1 = now" "n1 = n"
      using assms by (auto simp: limiter_step_def refill_tick_def Let_def)
    then show ?thesis using a assms(3) t[of "bucket_cap (limit_bps l)"] by simp
  qed
qed

text \<open>The account: tokens held and handed out never exceed what time has paid in.\<close>

lemma limiter_account:
  assumes "limiter_run es (l, r, n) = (l', r', n')" "timed t t1 es" "r \<le> t" "0 < limit_bps l"
  shows "limit_bps l' = limit_bps l \<and> r' \<le> t1 \<and> n \<le> n'
    \<and> 1000000 * (tokens l' + n') + limit_bps l * r \<le> 1000000 * (tokens l + n) + limit_bps l * r'"
  using assms
proof (induction es arbitrary: l r n t)
  case Nil
  then show ?case by simp
next
  case (Cons e es)
  obtain l1 r1 n1 where s: "limiter_step e (l, r, n) = (l1, r1, n1)" by (cases "limiter_step e (l, r, n)")
  have run: "limiter_run es (l1, r1, n1) = (l', r', n')" using Cons.prems(1) s by simp
  show ?case
  proof (cases e)
    case (Take k)
    note t = take_step[OF s[unfolded Take] Cons.prems(4)]
    have "timed t t1 es" "r1 \<le> t" "0 < limit_bps l1" using Cons.prems t Take by simp_all
    from Cons.IH[OF run this] show ?thesis using t by auto
  next
    case (Tick now)
    have now: "t \<le> now" "timed now t1 es" using Cons.prems(2) Tick by simp_all
    note t = tick_step[OF s[unfolded Tick] Cons.prems(4) order_trans[OF Cons.prems(3) now(1)]]
    have "r1 \<le> now" "0 < limit_bps l1" using t Cons.prems(4) by simp_all
    from Cons.IH[OF run now(2) this] show ?thesis using t by auto
  qed
qed

section \<open>Properties\<close>

text \<open>
  C28.  The configured rate is a hard bound: over any interleaving of refill ticks and withdrawals
  on one layer with a constant positive limit (small enough that the capacity does not wrap), the
  bytes handed out between two instants are at most limit times elapsed time plus one full
  bucket, and a full bucket is a tenth of a second of the limit (at least one byte).
\<close>

theorem rate_is_bounded:
  assumes "limiter_run es (l, t0, 0) = (l', r', n')" "timed t0 t1 es" "0 < limit_bps l"
    and "limit_bps l * 100 < 2 ^ 64" "tokens l \<le> bucket_cap (limit_bps l)"
  shows "1000000 * n' \<le> 1000000 * max (limit_bps l div 10) 1 + limit_bps l * (t1 - t0)"
proof -
  note a = limiter_account[OF assms(1,2) _ assms(3)]
  have "1000000 * n' + limit_bps l * t0 \<le> 1000000 * tokens l + limit_bps l * r'" and r: "r' \<le> t1"
    using a by auto
  moreover have "limit_bps l * r' \<le> limit_bps l * t1" using r by simp
  ultimately have "1000000 * n' + limit_bps l * t0 \<le> 1000000 * tokens l + limit_bps l * t1" by linarith
  then have "1000000 * n' \<le> 1000000 * tokens l + limit_bps l * (t1 - t0)"
    by (simp add: diff_mult_distrib2)
  moreover have "tokens l \<le> max (limit_bps l div 10) 1"
    using assms(5) bucket_cap_eq[OF assms(4)] by simp
  ultimately show ?thesis by linarith
qed

lemma rate_is_bounded_witness:
  "snd (snd (limiter_run [Tick 50000, Take 40, Tick 100000, Take 400] (new_layer 1000, 0, 0))) \<le> 200"
proof -
  obtain l r n where run: "limiter_run [Tick 50000, Take 40, Tick 100000, Take 400] (new_layer 1000, 0, 0) = (l, r, n)"
    by (cases "limiter_run [Tick 50000, Take 40, Tick 100000, Take 400] (new_layer 1000, 0, 0)")
  have "1000000 * n \<le> 1000000 * max (1000 div 10) 1 + 1000 * (100000 - 0)"
    using rate_is_bounded[OF run, of 100000] bucket_cap_pos[of 1000] by (simp add: new_layer_def)
  then show ?thesis using run by simp
qed

text \<open>
  A limited caller is not starved: as soon as the time since the last refill is worth one
  byte, the next tick leaves at least one token, and a withdrawal then succeeds.
\<close>

theorem tick_feeds_waiters:
  assumes "0 < limit_bps l" "1000000 \<le> limit_bps l * (now - r)" "now - r < 2 ^ 64"
    and "limit_bps l * (now - r) < 1000000 * 2 ^ 64" "0 < k"
  shows "\<exists>n. 0 < n \<and> n \<le> k \<and>
    map_option fst (consume_step [0] k (\<lambda>_. fst (refill_tick now (l, r)))) = Some n"
proof -
  have e: "wrap_u64 (now - r) = now - r" using assms(3) by (simp add: wrap_u64_def)
  have q: "limit_bps l * (now - r) div 1000000 < 2 ^ 64"
    using assms(4) by (simp add: div_less_iff_less_mult mult.commute)
  have "1 \<le> limit_bps l * (now - r) div 1000000" using assms(2) by (simp add: Suc_le_eq div_greater_zero_iff)
  moreover have "refill_amount (limit_bps l) (now - r) = limit_bps l * (now - r) div 1000000"
    unfolding refill_amount_def e unfolding wrap_u64_def using q by (rule mod_less)
  ultimately have a: "1 \<le> refill_amount (limit_bps l) (now - r)" by simp
  define l' where "l' = fst (refill_tick now (l, r))"
  have "tokens l' = min (sat_add_u64 (tokens l) (refill_amount (limit_bps l) (now - r))) (bucket_cap (limit_bps l))"
    "limit_bps l' = limit_bps l"
    using a assms(1) by (simp_all add: l'_def refill_tick_def Let_def)
  moreover have "1 \<le> sat_add_u64 (tokens l) (refill_amount (limit_bps l) (now - r))"
    using a by (simp add: sat_add_u64_def u64_max_def)
  ultimately have "1 \<le> tokens l'" "0 < limit_bps l'" using bucket_cap_pos assms(1) by simp_all
  then show ?thesis using assms(5) by (simp add: consume_step_def Let_def flip: l'_def)
qed

lemma tick_feeds_waiters_witness:
  "\<exists>n. 0 < n \<and> n \<le> 9 \<and> map_option fst (consume_step [0] 9 (\<lambda>_. fst (refill_tick 50000 (new_layer 40, 0)))) = Some n"
  by (rule tick_feeds_waiters) (simp_all add: new_layer_def)

text \<open>
  A task without a limit of its own behaves exactly like the limiter it falls back to, and
  resetting a task's limit to zero puts it back there; a task with its own limit draws only from
  its own bucket.
\<close>

theorem fallback_is_transparent:
  assumes "i \<notin> set chain"
  shows "consume_step (i # chain) k (set_limit i 0 st) = consume_step chain k (set_limit i 0 st)
    \<and> limit (set_limit i 0 st) (i # chain) = limit st chain
    \<and> (0 < b \<longrightarrow> limit (set_limit i b st) (i # chain) = b
        \<and> (\<forall>n st'. consume_step (i # chain) k (set_limit i b st) = Some (n, st') \<longrightarrow>
             (\<forall>j. j \<noteq> i \<longrightarrow> st' j = st j)))"
proof -
  have r: "resolve (set_limit i b st) chain = resolve st chain" for b
    using assms by (induction chain) (auto simp: set_limit_def)
  have l: "limit (set_limit i 0 st) chain = limit st chain"
  proof (cases "resolve st chain")
    case (Some j)
    then have "j \<in> set chain" by (induction chain) (auto split: if_splits)
    then have "j \<noteq> i" using assms by auto
    then show ?thesis using Some r[of 0] by (simp add: limit_def set_limit_def)
  qed (use r[of 0] in \<open>simp add: limit_def\<close>)
  have "resolve (set_limit i 0 st) (i # chain) = resolve (set_limit i 0 st) chain"
    by (simp add: set_limit_def)
  then have "consume_step (i # chain) k (set_limit i 0 st) = consume_step chain k (set_limit i 0 st)"
    "limit (set_limit i 0 st) (i # chain) = limit (set_limit i 0 st) chain"
    by (simp_all only: consume_step_def limit_def)
  then show ?thesis
    using l by (auto simp: limit_def consume_step_def set_limit_def Let_def split: if_splits)
qed

lemma fallback_is_transparent_witness:
  "limit (set_limit 1 0 (\<lambda>j. new_layer (100 * j))) [1, 2] = 200"
  using fallback_is_transparent[of 1 "[2]" 5 "\<lambda>j. new_layer (100 * j)" 7]
  by (simp add: limit_def new_layer_def)

end
