(* ===== verification/Kad_Proto.thy ===== *)
theory Kad_Proto
  imports Wire_Reader
begin

unbundle bit_operations_syntax

text \<open>
  The eMule Kad wire protocol (\<^verbatim>\<open>native/engine/src/ed2k/kad/proto.rs\<close>): identifiers and their XOR
  distance, contacts, tags, search entries, frames, replies and the \<^verbatim>\<open>nodes.dat\<close> file, with the
  bounded decompression of \<^verbatim>\<open>ed2k/proto.rs\<close>.  The zlib decoder is third-party code: its successive
  \<^verbatim>\<open>read\<close> results are a parameter.  \<^verbatim>\<open>Ipv4Addr\<close> is its four octets, \<^verbatim>\<open>[u8; 16]\<close> a list of length 16.
\<close>

section \<open>Identifiers\<close>

datatype kad_id = KadId (mem: bytes)

definition kad_id_ok :: "kad_id \<Rightarrow> bool" where "kad_id_ok i \<longleftrightarrow> length (mem i) = 16"

definition dword_reverse :: "bytes \<Rightarrow> bytes" where
  "dword_reverse src =
     foldl (\<lambda>out i. out[(i div 4) * 4 + 3 - (i mod 4) := src ! i]) (replicate 16 0) [0..<16]"

definition kad_id_decode :: "kad_id reader" where
  "kad_id_decode = rd_bind rd_array16 (\<lambda>wire. rd_ret (KadId (dword_reverse wire)))"

definition kad_id_encode :: "kad_id \<Rightarrow> bytes" where
  "kad_id_encode i = dword_reverse (mem i)"

datatype ordering = OrdLess | OrdEqual | OrdGreater

fun xor_cmp_scan :: "bytes \<Rightarrow> bytes \<Rightarrow> bytes \<Rightarrow> nat list \<Rightarrow> ordering" where
  "xor_cmp_scan a b t [] = OrdEqual"
| "xor_cmp_scan a b t (i # is) =
     (let da = a ! i XOR t ! i; db = b ! i XOR t ! i in
      if da < db then OrdLess else if db < da then OrdGreater else xor_cmp_scan a b t is)"

definition xor_cmp :: "kad_id \<Rightarrow> kad_id \<Rightarrow> kad_id \<Rightarrow> ordering" where
  "xor_cmp self other tgt = xor_cmp_scan (mem self) (mem other) (mem tgt) [0..<16]"

section \<open>Endpoints and contacts\<close>

datatype ipv4 = Ipv4 byte byte byte byte

fun octets :: "ipv4 \<Rightarrow> bytes" where "octets (Ipv4 a b c d) = [a, b, c, d]"

record endpoint =
  ep_ip :: ipv4
  ep_udp :: "16 word"
  ep_tcp :: "16 word"

definition endpoint_decode :: "endpoint reader" where
  "endpoint_decode =
     rd_bind (rd_take 4) (\<lambda>b. rd_bind rd_u16 (\<lambda>udp. rd_bind rd_u16 (\<lambda>tcp.
       rd_ret \<lparr> ep_ip = Ipv4 (b ! 3) (b ! 2) (b ! 1) (b ! 0), ep_udp = udp, ep_tcp = tcp \<rparr>)))"

definition endpoint_encode :: "endpoint \<Rightarrow> bytes" where
  "endpoint_encode e =
     (let oc = octets (ep_ip e) in
      [oc ! 3, oc ! 2, oc ! 1, oc ! 0] @ to_le_bytes (ep_udp e) @ to_le_bytes (ep_tcp e))"

record contact =
  ct_id :: kad_id
  ct_endpoint :: endpoint
  ct_version :: byte

definition contact_wire_size :: nat where "contact_wire_size = 25"

definition contact_decode :: "contact reader" where
  "contact_decode =
     rd_bind kad_id_decode (\<lambda>i. rd_bind endpoint_decode (\<lambda>e. rd_bind rd_u8 (\<lambda>v.
       rd_ret \<lparr> ct_id = i, ct_endpoint = e, ct_version = v \<rparr>)))"

definition contact_encode :: "contact \<Rightarrow> bytes" where
  "contact_encode c = kad_id_encode (ct_id c) @ endpoint_encode (ct_endpoint c) @ [ct_version c]"

definition contact_ok :: "contact \<Rightarrow> bool" where "contact_ok c \<longleftrightarrow> kad_id_ok (ct_id c)"

section \<open>Tags\<close>

datatype tag_value = TagU8 byte | TagU16 "16 word" | TagU32 "32 word" | TagU64 "64 word" | TagStr bytes

record tag =
  tag_id :: byte
  tag_val :: tag_value

definition tag_string :: byte where "tag_string = 0x02"
definition tag_uint32 :: byte where "tag_uint32 = 0x03"
definition tag_uint16 :: byte where "tag_uint16 = 0x08"
definition tag_uint8 :: byte where "tag_uint8 = 0x09"
definition tag_uint64 :: byte where "tag_uint64 = 0x0B"
definition tag_str1 :: byte where "tag_str1 = 0x11"
definition tag_str16 :: byte where "tag_str16 = 0x20"

lemmas tag_consts = tag_string_def tag_uint32_def tag_uint16_def tag_uint8_def tag_uint64_def
  tag_str1_def tag_str16_def

definition tag_name :: "byte \<Rightarrow> byte reader" where
  "tag_name type_byte =
     (if type_byte AND 0x80 \<noteq> 0 then rd_u8
      else rd_bind rd_u16 (\<lambda>name_len. rd_bind (rd_take (unat name_len)) (\<lambda>nm.
        rd_ret (if name_len = 1 then nm ! 0 else 0))))"

definition tag_body :: "byte \<Rightarrow> tag_value reader" where
  "tag_body ty =
     (if ty = tag_string then rd_bind rd_u16 (\<lambda>n. rd_bind (rd_take (unat n)) (\<lambda>s. rd_ret (TagStr s)))
      else if ty = tag_uint8 then rd_bind rd_u8 (\<lambda>v. rd_ret (TagU8 v))
      else if ty = tag_uint16 then rd_bind rd_u16 (\<lambda>v. rd_ret (TagU16 v))
      else if ty = tag_uint32 then rd_bind rd_u32 (\<lambda>v. rd_ret (TagU32 v))
      else if ty = tag_uint64 then rd_bind rd_u64 (\<lambda>v. rd_ret (TagU64 v))
      else if tag_str1 \<le> ty \<and> ty \<le> tag_str16
      then rd_bind (rd_take (unat (ty - tag_str1 + 1))) (\<lambda>s. rd_ret (TagStr s))
      else rd_fail)"

definition tag_decode :: "tag reader" where
  "tag_decode =
     rd_bind rd_u8 (\<lambda>type_byte. rd_bind (tag_name type_byte) (\<lambda>i.
       rd_bind (tag_body (type_byte AND 0x7F)) (\<lambda>v. rd_ret \<lparr> tag_id = i, tag_val = v \<rparr>)))"

fun tag_payload :: "tag_value \<Rightarrow> byte \<times> bytes" where
  "tag_payload (TagU8 v) = (tag_uint8, [v])"
| "tag_payload (TagU16 v) = (tag_uint16, to_le_bytes v)"
| "tag_payload (TagU32 v) = (tag_uint32, to_le_bytes v)"
| "tag_payload (TagU64 v) = (tag_uint64, to_le_bytes v)"
| "tag_payload (TagStr s) = (tag_string, to_le_bytes (word_of_nat (length s) :: 16 word) @ s)"

definition tag_encode :: "tag \<Rightarrow> bytes" where
  "tag_encode t = (let (ty, payload) = tag_payload (tag_val t) in [ty OR 0x80, tag_id t] @ payload)"

fun tag_ok :: "tag_value \<Rightarrow> bool" where
  "tag_ok (TagStr s) = (length s < 2 ^ 16)"
| "tag_ok _ = True"

fun tag_as_u64 :: "tag_value \<Rightarrow> 64 word option" where
  "tag_as_u64 (TagU8 v) = Some (ucast v)"
| "tag_as_u64 (TagU16 v) = Some (ucast v)"
| "tag_as_u64 (TagU32 v) = Some (ucast v)"
| "tag_as_u64 (TagU64 v) = Some v"
| "tag_as_u64 (TagStr _) = None"

section \<open>Search entries\<close>

record search_entry =
  se_id :: kad_id
  se_tags :: "tag list"

definition search_entry_decode :: "search_entry reader" where
  "search_entry_decode =
     rd_bind kad_id_decode (\<lambda>i. rd_bind rd_u8 (\<lambda>n. \<lambda>bs.
       let (tags, r) = read_upto tag_decode (unat n) bs in (Some \<lparr> se_id = i, se_tags = tags \<rparr>, r)))"

definition search_entry_encode :: "search_entry \<Rightarrow> bytes" where
  "search_entry_encode e =
     kad_id_encode (se_id e) @ [word_of_nat (min (length (se_tags e)) 255)]
       @ concat (map tag_encode (take 255 (se_tags e)))"

definition search_entry_ok :: "search_entry \<Rightarrow> bool" where
  "search_entry_ok e \<longleftrightarrow> kad_id_ok (se_id e) \<and> length (se_tags e) \<le> 255
     \<and> (\<forall>t \<in> set (se_tags e). tag_ok (tag_val t))"

definition tag_source_type :: byte where "tag_source_type = 0xFF"
definition tag_source_ip :: byte where "tag_source_ip = 0xFE"
definition tag_source_port :: byte where "tag_source_port = 0xFD"

definition ipv4_from_u32 :: "32 word \<Rightarrow> ipv4" where
  "ipv4_from_u32 v = Ipv4 (ucast (drop_bit 24 v)) (ucast (drop_bit 16 v)) (ucast (drop_bit 8 v)) (ucast v)"

type_synonym source_acc = "64 word option \<times> 32 word option \<times> 16 word option"

definition note_tag :: "source_acc \<Rightarrow> tag \<Rightarrow> source_acc" where
  "note_tag = (\<lambda>(ty, ip, port) t.
     if tag_id t = tag_source_type then (tag_as_u64 (tag_val t), ip, port)
     else if tag_id t = tag_source_ip then (ty, map_option ucast (tag_as_u64 (tag_val t)), port)
     else if tag_id t = tag_source_port then (ty, ip, map_option ucast (tag_as_u64 (tag_val t)))
     else (ty, ip, port))"

definition source_peer :: "search_entry \<Rightarrow> (ipv4 \<times> 16 word) option" where
  "source_peer e =
     (case foldl note_tag (None, None, None) (se_tags e) of
        (Some ty, Some ip, Some port) \<Rightarrow>
          if ty \<noteq> 0 \<and> ty \<noteq> 1 \<and> ty \<noteq> 4 then None
          else if ip = 0 \<or> port = 0 then None
          else
            let addr = ipv4_from_u32 ip in
            if addr = Ipv4 0 0 0 0 \<or> addr = Ipv4 255 255 255 255 then None else Some (addr, port)
      | _ \<Rightarrow> None)"

section \<open>Frames and replies\<close>

definition proto_kad :: byte where "proto_kad = 0xE4"
definition proto_kad_packed :: byte where "proto_kad_packed = 0xE5"
definition op_bootstrap_res :: byte where "op_bootstrap_res = 0x09"
definition op_res :: byte where "op_res = 0x29"
definition op_search_res :: byte where "op_search_res = 0x3B"
definition kademlia_version :: byte where "kademlia_version = 0x05"

definition frame :: "byte \<Rightarrow> bytes \<Rightarrow> bytes" where
  "frame opcode payload = [proto_kad, opcode] @ payload"

definition parse_frame :: "bytes \<Rightarrow> (byte \<times> byte \<times> bytes) option" where
  "parse_frame dg =
     (if length dg < 2 then None
      else if dg ! 0 \<noteq> proto_kad then None
      else Some (dg ! 0, dg ! 1, drop 2 dg))"

text \<open>
  \<open>reads\<close> lists what the decoder's successive \<^verbatim>\<open>read\<close> calls yield: an error, or a chunk (the empty
  chunk and the end of the list are the end of the stream).
\<close>

fun decompress_loop :: "bytes option list \<Rightarrow> nat \<Rightarrow> bytes \<Rightarrow> bytes option" where
  "decompress_loop [] max_output out = Some out"
| "decompress_loop (None # reads) max_output out = None"
| "decompress_loop (Some chunk # reads) max_output out =
     (if chunk = [] then Some out
      else if max_output < length out + length chunk then None
      else decompress_loop reads max_output (out @ chunk))"

definition decompress_bounded :: "(bytes \<Rightarrow> bytes option list) \<Rightarrow> bytes \<Rightarrow> nat \<Rightarrow> bytes option" where
  "decompress_bounded zlib inp max_output = decompress_loop (zlib inp) max_output []"

definition parse_datagram :: "(bytes \<Rightarrow> bytes option list) \<Rightarrow> bytes \<Rightarrow> nat \<Rightarrow> (byte \<times> bytes) option" where
  "parse_datagram zlib dg max_decompressed =
     (if length dg < 2 then None
      else if dg ! 0 = proto_kad then Some (dg ! 1, drop 2 dg)
      else if dg ! 0 = proto_kad_packed then
        map_option (\<lambda>p. (dg ! 1, p)) (decompress_bounded zlib (drop 2 dg) max_decompressed)
      else None)"

definition build_bootstrap_res :: "kad_id \<Rightarrow> 16 word \<Rightarrow> contact list \<Rightarrow> bytes" where
  "build_bootstrap_res self_id tcp_port contacts =
     frame op_bootstrap_res
       (kad_id_encode self_id @ to_le_bytes tcp_port @ [kademlia_version]
         @ to_le_bytes (word_of_nat (length contacts) :: 16 word) @ concat (map contact_encode contacts))"

definition build_find_node_res :: "kad_id \<Rightarrow> contact list \<Rightarrow> bytes" where
  "build_find_node_res tgt contacts =
     frame op_res
       (kad_id_encode tgt @ [word_of_nat (min (length contacts) 255)]
         @ concat (map contact_encode (take 255 contacts)))"

definition build_search_res :: "kad_id \<Rightarrow> kad_id \<Rightarrow> search_entry list \<Rightarrow> bytes" where
  "build_search_res source tgt entries =
     frame op_search_res
       (kad_id_encode source @ kad_id_encode tgt
         @ to_le_bytes (word_of_nat (length entries) :: 16 word) @ concat (map search_entry_encode entries))"

text \<open>The tail of a reply: at most the declared number of items, clamped by the bytes left.\<close>

definition counted :: "'a reader \<Rightarrow> (nat \<Rightarrow> nat) \<Rightarrow> nat \<Rightarrow> 'a list reader" where
  "counted dec max_of declared =
     (\<lambda>bs. let (xs, r) = read_upto dec (min declared (max_of (length bs))) bs in (Some xs, r))"

definition decode_bootstrap_res :: "bytes \<Rightarrow> contact list option" where
  "decode_bootstrap_res payload = fst (rd_bind kad_id_decode (\<lambda>_. rd_bind rd_u16 (\<lambda>_. rd_bind rd_u8 (\<lambda>_.
     rd_bind rd_u16 (\<lambda>declared.
       counted contact_decode (\<lambda>left. left div contact_wire_size) (unat declared))))) payload)"

definition decode_find_node_res :: "bytes \<Rightarrow> contact list option" where
  "decode_find_node_res payload = fst (rd_bind kad_id_decode (\<lambda>_. rd_bind rd_u8 (\<lambda>declared.
     counted contact_decode (\<lambda>left. left div contact_wire_size) (unat declared))) payload)"

definition decode_search_res :: "bytes \<Rightarrow> search_entry list option" where
  "decode_search_res payload = fst (rd_bind kad_id_decode (\<lambda>_. rd_bind kad_id_decode (\<lambda>_.
     rd_bind rd_u16 (\<lambda>declared.
       counted search_entry_decode (\<lambda>left. left div 17 + 1) (unat declared)))) payload)"

section \<open>The \<open>nodes.dat\<close> file\<close>

definition node_item :: "nat \<Rightarrow> contact reader" where
  "node_item extra = rd_bind contact_decode (\<lambda>c.
     if 0 < extra then rd_bind (rd_take extra) (\<lambda>_. rd_ret c) else rd_ret c)"

definition node_list :: "32 word \<Rightarrow> 32 word \<Rightarrow> 32 word \<Rightarrow> contact list reader" where
  "node_list version edition num_contacts =
     (let extra = (if 2 \<le> version \<and> edition = 0 then 9 else 0) in
      counted (node_item extra) (\<lambda>left. left div max (contact_wire_size + extra) 1) (unat num_contacts))"

definition parse_nodes_dat :: "bytes \<Rightarrow> contact list" where
  "parse_nodes_dat bs =
     (case fst (rd_bind rd_u32 (\<lambda>first.
        if first \<noteq> 0 then node_list 0 0 first
        else rd_bind rd_u32 (\<lambda>version.
          if \<not> (1 \<le> version \<and> version \<le> 3) then rd_fail
          else rd_bind (if 3 \<le> version then rd_u32 else rd_ret 0) (\<lambda>edition.
            rd_bind rd_u32 (\<lambda>n. node_list version edition n)))) bs) of
      None \<Rightarrow> [] | Some cs \<Rightarrow> cs)"

end
