(* ===== verification/Kad_Codec.thy ===== *)
theory Kad_Codec
  imports Kad_Proto
begin

text \<open>
  The Kad encoders and decoders against the codec contract, and what the replies guarantee: round
  trips, bounds on what a hostile reply can make the decoder produce, the XOR order as a distance,
  and the \<^verbatim>\<open>nodes.dat\<close> layouts.
\<close>

section \<open>Identifiers, endpoints and contacts\<close>

text \<open>Byte \<open>i\<close> of an identifier is byte \<open>dword_at i\<close> of its wire form.\<close>

definition dword_at :: "nat \<Rightarrow> nat" where "dword_at i = (i div 4) * 4 + 3 - (i mod 4)"

lemma dword_at_involution: "dword_at (dword_at i) = i"
proof -
  obtain q r where i: "i = 4 * q + r" "r < 4" using mod_less_divisor[of 4 i] by (metis div_mult_mod_eq mult.commute zero_less_numeral)
  have f: "dword_at (4 * q + s) = 4 * q + (3 - s)" if "s < 4" for s
    using that by (simp add: dword_at_def)
  have "dword_at (4 * q + r) = 4 * q + (3 - r)" "dword_at (4 * q + (3 - r)) = 4 * q + (3 - (3 - r))"
    by (rule f, use i(2) in simp)+
  then show ?thesis using i by simp
qed

lemma dword_at_less:
  assumes "i < 16"
  shows "dword_at i < 16"
proof -
  have "i div 4 \<le> 3" using assms div_le_mono[of i 15 4] by simp
  then show ?thesis unfolding dword_at_def by linarith
qed

lemma length_foldl_update: "length (foldl (\<lambda>out i. out[f i := g i]) out is) = length out"
  by (induction "is" arbitrary: out) simp_all

lemma foldl_update_nth:
  assumes "inj f" "f i < length out"
  shows "foldl (\<lambda>out i. out[f i := g i]) out is ! f i = (if i \<in> set is then g i else out ! f i)"
  using assms(2)
proof (induction "is" arbitrary: out)
  case (Cons j js)
  have "out[f j := g j] ! f i = (if j = i then g i else out ! f i)"
    using injD[OF assms(1), of j i] Cons.prems
    by (cases "j = i") (simp, metis nth_list_update_neq)
  then show ?case using Cons.IH[of "out[f j := g j]"] Cons.prems by auto
qed simp

lemma dword_reverse_nth: "i < 16 \<Longrightarrow> dword_reverse src ! i = src ! dword_at i"
proof -
  assume i: "i < 16"
  have inj: "inj dword_at" by (metis dword_at_involution injI)
  have "dword_reverse src ! dword_at (dword_at i) = src ! dword_at i"
    unfolding dword_reverse_def dword_at_def[symmetric]
    using i by (subst foldl_update_nth[OF inj]) (simp_all add: dword_at_involution dword_at_less)
  then show ?thesis by (simp add: dword_at_involution)
qed

lemma length_dword_reverse [simp]: "length (dword_reverse src) = 16"
  by (simp add: dword_reverse_def length_foldl_update)

lemma dword_reverse_involution: "length src = 16 \<Longrightarrow> dword_reverse (dword_reverse src) = src"
  by (rule nth_equalityI) (simp_all add: dword_reverse_nth dword_at_less dword_at_involution)

interpretation kad_id: sized_codec kad_id_ok kad_id_encode kad_id_decode 16
proof unfold_locales
  show "kad_id_decode (kad_id_encode i @ r) = (Some i, r)" if "kad_id_ok i" for i r
    using that by (cases i) (simp add: kad_id_decode_def kad_id_encode_def rd_array16_def rd_bind_def
        take_enc rd_ret_def dword_reverse_involution kad_id_ok_def)
  show "forward kad_id_decode" unfolding kad_id_decode_def rd_array16_def by (intro reader_intros)
  show "consumes 16 kad_id_decode"
    unfolding kad_id_decode_def rd_array16_def using consumes_bind[OF consumes_take consumes_ret] by simp
qed

lemma length_kad_id_encode [simp]: "length (kad_id_encode i) = 16"
  by (simp add: kad_id_encode_def)

lemma kad_id_forward [reader_intros]: "forward kad_id_decode" by (rule kad_id.dec_forward)
lemma kad_id_consumes [reader_intros]: "consumes 16 kad_id_decode" by (rule kad_id.dec_consumes)

interpretation endpoint: sized_codec "\<lambda>_. True" endpoint_encode endpoint_decode 8
proof unfold_locales
  show "endpoint_decode (endpoint_encode e @ r) = (Some e, r)" for e r
  proof (cases e)
    case (fields ip udp tcp)
    obtain a b c d where "ip = Ipv4 a b c d" by (cases ip)
    then show ?thesis using fields
      by (simp add: endpoint_decode_def endpoint_encode_def Let_def wire_simps)
  qed
  show "forward endpoint_decode" unfolding endpoint_decode_def by (intro reader_intros)
  show "consumes 8 endpoint_decode"
    unfolding endpoint_decode_def
    by (rule consumes_mono[OF consumes_bind[OF consumes_take consumes_bind[OF u16.dec_consumes consumes_bind[OF u16.dec_consumes consumes_ret]]]]) simp
qed

lemma length_endpoint_encode [simp]: "length (endpoint_encode e) = 8"
  by (simp add: endpoint_encode_def Let_def)

interpretation contact: sized_codec contact_ok contact_encode contact_decode contact_wire_size
proof unfold_locales
  show "contact_decode (contact_encode c @ r) = (Some c, r)" if "contact_ok c" for c r
    using that by (cases c) (simp add: contact_decode_def contact_encode_def contact_ok_def wire_simps
        kad_id.bind_dec_enc endpoint.bind_dec_enc)
  show "forward contact_decode"
    unfolding contact_decode_def by (intro reader_intros endpoint.dec_forward)
  show "consumes contact_wire_size contact_decode"
    unfolding contact_decode_def contact_wire_size_def
    by (rule consumes_mono[OF consumes_bind[OF kad_id.dec_consumes consumes_bind[OF endpoint.dec_consumes
          consumes_bind[OF u8.dec_consumes consumes_ret]]]]) simp
qed

lemma length_contact_encode [simp]: "length (contact_encode c) = contact_wire_size"
  by (simp add: contact_encode_def contact_wire_size_def)

section \<open>Tags and search entries\<close>

lemma unat_word_of_nat16: "n < 2 ^ 16 \<Longrightarrow> unat (word_of_nat n :: 16 word) = n"
  by (simp add: unat_of_nat)

lemma tag_body_enc:
  assumes "tag_payload v = (ty, p)" "tag_ok v"
  shows "tag_body ty (p @ r) = (Some v, r) \<and> (ty OR 0x80) AND 0x7F = ty \<and> (ty OR 0x80) AND 0x80 \<noteq> 0"
  using assms
  by (cases v) (auto simp: tag_body_def tag_consts wire_simps unat_word_of_nat16)

lemma tag_name_forward: "forward (tag_name b)"
  unfolding tag_name_def by (simp add: reader_intros)

lemma tag_body_forward: "forward (tag_body b)"
  unfolding tag_body_def by (simp add: reader_intros)

interpretation tag: sized_codec "\<lambda>t. tag_ok (tag_val t)" tag_encode tag_decode 2
proof unfold_locales
  show "tag_decode (tag_encode t @ r) = (Some t, r)" if "tag_ok (tag_val t)" for t r
  proof (cases t)
    case (fields i v)
    obtain ty p where p: "tag_payload v = (ty, p)" by (cases "tag_payload v")
    have v: "tag_body ty (p @ r) = (Some v, r)" "(ty OR 0x80) AND 0x7F = ty" "(ty OR 0x80) AND 0x80 \<noteq> 0"
      using tag_body_enc[OF p] that fields by auto
    have n: "tag_name (ty OR 0x80) = rd_u8" using v(3) by (simp add: tag_name_def)
    have b: "rd_bind (tag_body ty) f (p @ r) = f v r" for f :: "tag_value \<Rightarrow> tag reader"
      using v(1) by (simp add: rd_bind_def)
    show ?thesis
      using fields p by (simp add: tag_decode_def tag_encode_def wire_simps n v(2) b)
  qed
  show "forward tag_decode"
    unfolding tag_decode_def by (intro reader_intros tag_name_forward tag_body_forward)
  have n: "consumes 1 (tag_name b)" for b
    unfolding tag_name_def using u8.dec_consumes
    by (simp add: reader_intros consumes_mono[OF consumes_bind[OF u16.dec_consumes consumes_forward]])
  show "consumes 2 tag_decode"
    unfolding tag_decode_def
    by (rule consumes_mono[OF consumes_bind[OF u8.dec_consumes consumes_bind[OF n consumes_forward]]])
      (simp_all add: reader_intros tag_body_forward)
qed

lemma search_entry_decode_alt:
  "search_entry_decode = rd_bind kad_id_decode (\<lambda>i. rd_bind rd_u8 (\<lambda>n.
     rd_bind (\<lambda>bs. (Some (fst (read_upto tag_decode (unat n) bs)), snd (read_upto tag_decode (unat n) bs)))
       (\<lambda>ts. rd_ret \<lparr> se_id = i, se_tags = ts \<rparr>)))"
proof -
  have "rd_bind (\<lambda>bs. (Some (fst (g bs)), snd (g bs))) (\<lambda>ts. rd_ret (h ts))
      = (\<lambda>bs. let (ts, r) = g bs in (Some (h ts), r))"
    for g :: "bytes \<Rightarrow> tag list \<times> bytes" and h :: "tag list \<Rightarrow> search_entry"
    by (simp add: fun_eq_iff rd_bind_def split_def Let_def rd_ret_def)
  then show ?thesis by (simp add: search_entry_decode_def)
qed

interpretation search_entry: sized_codec search_entry_ok search_entry_encode search_entry_decode 17
proof unfold_locales
  show "search_entry_decode (search_entry_encode e @ r) = (Some e, r)" if "search_entry_ok e" for e r
  proof (cases e)
    case (fields i ts)
    have ts: "length ts \<le> 255" "\<forall>t \<in> set ts. tag_ok (tag_val t)" "kad_id_ok i"
      using that fields by (simp_all add: search_entry_ok_def)
    then have "unat (word_of_nat (length ts) :: byte) = length ts" by (simp add: unat_of_nat)
    then show ?thesis
      using fields ts tag.read_upto_enc[OF ts(2), of r]
      by (simp add: search_entry_decode_def search_entry_encode_def kad_id.bind_dec_enc wire_simps min_absorb1)
  qed
  show "forward search_entry_decode"
    unfolding search_entry_decode_alt by (intro reader_intros tag.forward_read_upto)
  show "consumes 17 search_entry_decode"
    unfolding search_entry_decode_alt
    by (rule consumes_mono[OF consumes_bind[OF kad_id.dec_consumes consumes_bind[OF u8.dec_consumes consumes_forward]]])
      (intro reader_intros tag.forward_read_upto, simp)
qed

section \<open>Replies\<close>

text \<open>A list decoder that pays \<open>a\<close> bytes for its header and \<open>k\<close> for every item.\<close>

definition pays :: "nat \<Rightarrow> nat \<Rightarrow> 'a list reader \<Rightarrow> bool" where
  "pays a k m \<longleftrightarrow> (\<forall>bs xs. fst (m bs) = Some xs \<longrightarrow> a + k * length xs \<le> length bs)"

lemma pays_fail: "pays a k rd_fail" by (simp add: pays_def rd_fail_def)

lemma pays_mono: "pays a k m \<Longrightarrow> b \<le> a \<Longrightarrow> pays b k m" by (force simp: pays_def)

lemma pays_bind:
  assumes "consumes a m" "\<And>x. pays b k (f x)"
  shows "pays (a + b) k (rd_bind m f)"
  unfolding pays_def
proof (intro allI impI)
  fix bs xs
  assume "fst (rd_bind m f bs) = Some xs"
  then obtain x r where "m bs = (Some x, r)" "fst (f x r) = Some xs"
    by (auto simp: rd_bind_def split: prod.splits option.splits)
  then have "a + length r \<le> length bs" "b + k * length xs \<le> length r"
    using assms by (auto simp: consumes_def pays_def)
  then show "a + b + k * length xs \<le> length bs" by linarith
qed

context stream_reader
begin

lemma counted_pays: "pays 0 min_len (counted dec max_of n)"
proof -
  have "min_len * length xs \<le> length bs" if "fst (counted dec max_of n bs) = Some xs" for bs xs
    using that read_upto_paid[of "min n (max_of (length bs))" bs]
    by (auto simp: counted_def split_def Let_def)
  then show ?thesis by (simp add: pays_def)
qed

lemma counted_length: "fst (counted dec max_of n bs) = Some xs \<Longrightarrow> length xs \<le> n"
  using read_upto_length[of "min n (max_of (length bs))" bs]
  by (auto simp: counted_def split_def Let_def)

end

lemma counted_all:
  assumes "read_upto dec (length xs) bs = (xs, r)" "length xs \<le> max_of (length bs)"
  shows "counted dec max_of (length xs) bs = (Some xs, r)"
  using assms by (simp add: counted_def min_absorb1)

lemma frame_parts: "parse_frame (frame opc p) = Some (proto_kad, opc, p)"
  by (simp add: parse_frame_def frame_def)

lemma contact_counted:
  assumes "\<forall>c \<in> set cs. contact_ok c"
  shows "counted contact_decode (\<lambda>left. left div contact_wire_size) (length cs) (concat (map contact_encode cs))
    = (Some cs, [])"
proof (rule counted_all)
  show "read_upto contact_decode (length cs) (concat (map contact_encode cs)) = (cs, [])"
    using contact.read_upto_enc[OF assms, of "[]"] by simp
  show "length cs \<le> length (concat (map contact_encode cs)) div contact_wire_size"
    using contact.enc_list_min[OF assms]
    by (simp add: less_eq_div_iff_mult_less_eq contact_wire_size_def mult.commute)
qed

lemma search_entry_counted:
  assumes "\<forall>e \<in> set es. search_entry_ok e"
  shows "counted search_entry_decode (\<lambda>left. left div 17 + 1) (length es) (concat (map search_entry_encode es))
    = (Some es, [])"
proof (rule counted_all)
  show "read_upto search_entry_decode (length es) (concat (map search_entry_encode es)) = (es, [])"
    using search_entry.read_upto_enc[OF assms, of "[]"] by simp
  show "length es \<le> length (concat (map search_entry_encode es)) div 17 + 1"
    using search_entry.enc_list_min[OF assms] by linarith
qed

lemma replies_roundtrip:
  assumes "kad_id_ok i" "kad_id_ok j" "\<forall>c \<in> set cs. contact_ok c" "length cs < 2 ^ 16"
    and "\<forall>e \<in> set es. search_entry_ok e" "length es < 2 ^ 16"
  shows "(\<exists>p. parse_frame (build_bootstrap_res i port cs) = Some (proto_kad, op_bootstrap_res, p)
             \<and> decode_bootstrap_res p = Some cs)
    \<and> (\<exists>p. parse_frame (build_find_node_res i cs) = Some (proto_kad, op_res, p)
             \<and> decode_find_node_res p = Some (take 255 cs))
    \<and> (\<exists>p. parse_frame (build_search_res i j es) = Some (proto_kad, op_search_res, p)
             \<and> decode_search_res p = Some es)"
proof (intro conjI)
  note S = wire_simps kad_id.bind_dec_enc[OF assms(1)] kad_id.bind_dec_enc[OF assms(2)] frame_parts
    unat_word_of_nat16
  show "\<exists>p. parse_frame (build_bootstrap_res i port cs) = Some (proto_kad, op_bootstrap_res, p)
      \<and> decode_bootstrap_res p = Some cs"
    using contact_counted[OF assms(3)] assms(4)
    by (simp add: build_bootstrap_res_def decode_bootstrap_res_def S)
  have t: "\<forall>c \<in> set (take 255 cs). contact_ok c" using assms(3) by (auto dest: in_set_takeD)
  have "unat (word_of_nat (min (length cs) 255) :: byte) = length (take 255 cs)"
    by (simp add: unat_of_nat)
  then show "\<exists>p. parse_frame (build_find_node_res i cs) = Some (proto_kad, op_res, p)
      \<and> decode_find_node_res p = Some (take 255 cs)"
    using contact_counted[OF t]
    by (simp add: build_find_node_res_def decode_find_node_res_def S)
  show "\<exists>p. parse_frame (build_search_res i j es) = Some (proto_kad, op_search_res, p)
      \<and> decode_search_res p = Some es"
    using search_entry_counted[OF assms(5)] assms(6)
    by (simp add: build_search_res_def decode_search_res_def S)
qed

text \<open>
  C24.  Kad replies round-trip: a bootstrap reply gives back its contacts, a find-node reply the first
  255 of them, a search reply its entries with all their tags, each inside a frame with the right
  protocol byte and opcode.  (Entry counts fit the 16-bit field, string tags are shorter than
  64 KiB, an entry has at most 255 tags.)
\<close>

theorem kad_replies_roundtrip:
  assumes "kad_id_ok i" "kad_id_ok j" "\<forall>c \<in> set cs. contact_ok c" "length cs < 2 ^ 16"
    and "\<forall>e \<in> set es. search_entry_ok e" "length es < 2 ^ 16"
  shows "(\<exists>p. parse_frame (build_bootstrap_res i port cs) = Some (proto_kad, op_bootstrap_res, p)
             \<and> decode_bootstrap_res p = Some cs)
    \<and> (\<exists>p. parse_frame (build_find_node_res i cs) = Some (proto_kad, op_res, p)
             \<and> decode_find_node_res p = Some (take 255 cs))
    \<and> (\<exists>p. parse_frame (build_search_res i j es) = Some (proto_kad, op_search_res, p)
             \<and> decode_search_res p = Some es)"
  using replies_roundtrip[OF assms] .

definition demo_id :: "byte \<Rightarrow> kad_id" where "demo_id b = KadId (replicate 16 b)"

definition demo_contact :: "byte \<Rightarrow> contact" where
  "demo_contact b = \<lparr> ct_id = demo_id b,
     ct_endpoint = \<lparr> ep_ip = Ipv4 10 0 0 b, ep_udp = 4672, ep_tcp = 4662 \<rparr>, ct_version = 5 \<rparr>"

definition demo_source :: search_entry where
  "demo_source = \<lparr> se_id = demo_id 3, se_tags =
     [\<lparr> tag_id = tag_source_type, tag_val = TagU8 1 \<rparr>, \<lparr> tag_id = tag_source_ip, tag_val = TagU32 0x0A000001 \<rparr>,
      \<lparr> tag_id = tag_source_port, tag_val = TagU16 4662 \<rparr>] \<rparr>"

lemma demo_ok: "kad_id_ok (demo_id b)" "contact_ok (demo_contact b)" "search_entry_ok demo_source"
  by (simp_all add: kad_id_ok_def demo_id_def contact_ok_def demo_contact_def search_entry_ok_def demo_source_def)

lemma kad_replies_roundtrip_witness:
  "\<exists>p. parse_frame (build_search_res (demo_id 1) (demo_id 2) [demo_source]) = Some (proto_kad, op_search_res, p)
    \<and> decode_search_res p = Some [demo_source]"
  using kad_replies_roundtrip[of "demo_id 1" "demo_id 2" "[demo_contact 7]" "[demo_source]" 4662] demo_ok
  by simp

subsection \<open>Bounds\<close>

lemma node_item_consumes: "consumes contact_wire_size (node_item extra)"
  unfolding node_item_def
  by (rule consumes_mono[OF consumes_bind[OF contact.dec_consumes consumes_forward]])
    (simp_all add: reader_intros)

interpretation node_item: stream_reader "node_item extra" contact_wire_size for extra
proof unfold_locales
  show "forward (node_item extra)"
    unfolding node_item_def by (rule forward_bind[OF contact.dec_forward]) (simp add: reader_intros)
  show "consumes contact_wire_size (node_item extra)" by (rule node_item_consumes)
qed

lemma node_list_pays: "pays 0 25 (node_list v e n)"
  unfolding node_list_def Let_def using node_item.counted_pays by (simp add: contact_wire_size_def)

lemma decompress_loop_bound:
  "decompress_loop reads m out = Some b \<Longrightarrow> length out \<le> m \<Longrightarrow> length b \<le> m"
  by (induction reads m out rule: decompress_loop.induct) (auto split: if_splits)

lemma parse_nodes_paid: "4 + 25 * length (parse_nodes_dat p) \<le> max 4 (length p)"
proof -
  have b: "pays 4 25 (rd_bind rd_u32 (\<lambda>n. node_list v e n))" for v e
    using pays_bind[OF u32.dec_consumes node_list_pays] by simp
  have e: "pays 4 25 (rd_bind (if 3 \<le> v then rd_u32 else rd_ret 0) (\<lambda>e. rd_bind rd_u32 (\<lambda>n. node_list v e n)))"
    for v :: "32 word"
  proof -
    have "consumes 0 (if 3 \<le> v then rd_u32 else rd_ret 0)"
      by (rule consumes_forward) (simp add: reader_intros)
    from pays_bind[OF this b] show ?thesis by simp
  qed
  have v: "pays 0 25 (rd_bind rd_u32 (\<lambda>v. if \<not> (1 \<le> v \<and> v \<le> 3) then rd_fail
      else rd_bind (if 3 \<le> v then rd_u32 else rd_ret 0) (\<lambda>e. rd_bind rd_u32 (\<lambda>n. node_list v e n))))"
    by (rule pays_mono[OF pays_bind[OF u32.dec_consumes, where b = 4]]) (simp_all only: e pays_fail split: if_split, simp)
  have "pays (4 + 0) 25 (rd_bind rd_u32 (\<lambda>first. if first \<noteq> 0 then node_list 0 0 first
      else rd_bind rd_u32 (\<lambda>v. if \<not> (1 \<le> v \<and> v \<le> 3) then rd_fail
        else rd_bind (if 3 \<le> v then rd_u32 else rd_ret 0) (\<lambda>e. rd_bind rd_u32 (\<lambda>n. node_list v e n)))))"
    by (rule pays_bind[OF u32.dec_consumes]) (simp only: v node_list_pays split: if_split, simp)
  then show ?thesis by (auto simp: parse_nodes_dat_def pays_def intro: max.coboundedI2 split: option.splits)
qed

lemma replies_pay:
  "decode_bootstrap_res p = Some cs \<Longrightarrow> 21 + 25 * length cs \<le> length p"
  "decode_find_node_res p = Some cs \<Longrightarrow> 17 + 25 * length cs \<le> length p"
  "decode_search_res p = Some es \<Longrightarrow> 34 + 17 * length es \<le> length p"
proof -
  note c = contact.counted_pays[unfolded contact_wire_size_def]
  have "pays (16 + (2 + (1 + (2 + 0)))) 25 (rd_bind kad_id_decode (\<lambda>_. rd_bind rd_u16 (\<lambda>_. rd_bind rd_u8 (\<lambda>_.
     rd_bind rd_u16 (\<lambda>n. counted contact_decode (\<lambda>left. left div 25) (unat n))))))"
    by (intro pays_bind kad_id.dec_consumes u16.dec_consumes u8.dec_consumes c)
  then show "decode_bootstrap_res p = Some cs \<Longrightarrow> 21 + 25 * length cs \<le> length p"
    by (simp add: decode_bootstrap_res_def pays_def contact_wire_size_def)
  have "pays (16 + (1 + 0)) 25 (rd_bind kad_id_decode (\<lambda>_. rd_bind rd_u8 (\<lambda>n.
     counted contact_decode (\<lambda>left. left div 25) (unat n))))"
    by (intro pays_bind kad_id.dec_consumes u8.dec_consumes c)
  then show "decode_find_node_res p = Some cs \<Longrightarrow> 17 + 25 * length cs \<le> length p"
    by (simp add: decode_find_node_res_def pays_def contact_wire_size_def)
  have "pays (16 + (16 + (2 + 0))) 17 (rd_bind kad_id_decode (\<lambda>_. rd_bind kad_id_decode (\<lambda>_.
     rd_bind rd_u16 (\<lambda>n. counted search_entry_decode (\<lambda>left. left div 17 + 1) (unat n)))))"
    by (intro pays_bind kad_id.dec_consumes u16.dec_consumes search_entry.counted_pays)
  then show "decode_search_res p = Some es \<Longrightarrow> 34 + 17 * length es \<le> length p"
    by (simp add: decode_search_res_def pays_def)
qed

lemma find_node_length: "decode_find_node_res p = Some cs \<Longrightarrow> length cs \<le> 255"
proof -
  assume "decode_find_node_res p = Some cs"
  then obtain n :: byte and bs where
    "fst (counted contact_decode (\<lambda>left. left div contact_wire_size) (unat n) bs) = Some cs"
    by (auto simp: decode_find_node_res_def rd_bind_def split: prod.splits option.splits)
  then have "length cs \<le> unat n" by (rule contact.counted_length)
  moreover have "unat n < 256" using unsigned_less[of n] by simp
  ultimately show ?thesis by simp
qed

text \<open>
  A hostile reply cannot make the decoders produce more than it pays for: every contact costs
  25 payload bytes and every search entry 17, whatever counts the payload declares, a \<^verbatim>\<open>nodes.dat\<close>
  file likewise, and a compressed datagram never expands beyond the caller's limit.
\<close>

theorem kad_decode_bounded:
  "(decode_bootstrap_res p = Some cs \<longrightarrow> 21 + 25 * length cs \<le> length p)
    \<and> (decode_find_node_res p = Some cs \<longrightarrow> 17 + 25 * length cs \<le> length p \<and> length cs \<le> 255)
    \<and> (decode_search_res p = Some es \<longrightarrow> 34 + 17 * length es \<le> length p)
    \<and> 4 + 25 * length (parse_nodes_dat p) \<le> max 4 (length p)
    \<and> (parse_datagram zlib p limit = Some (opc, body) \<longrightarrow> length body \<le> max limit (length p))"
proof (intro conjI impI parse_nodes_paid replies_pay find_node_length)
  assume "parse_datagram zlib p limit = Some (opc, body)"
  then show "length body \<le> max limit (length p)"
    using decompress_loop_bound[of "zlib (drop 2 p)" limit "[]" body]
    by (auto simp: parse_datagram_def decompress_bounded_def split: if_splits)
qed

lemma kad_decode_bounded_witness:
  "parse_datagram (\<lambda>_. [Some (replicate 100 7)]) [proto_kad_packed, op_search_res, 1] 50 = None
    \<and> length (snd (the (parse_datagram (\<lambda>_. [Some (replicate 40 7), Some []]) [proto_kad_packed, op_search_res, 1] 50)))
       \<le> max 50 3"
  using kad_decode_bounded[of "[proto_kad_packed, op_search_res, 1]" _ _ "\<lambda>_. [Some (replicate 40 7), Some []]" 50]
  by (simp add: parse_datagram_def proto_kad_def proto_kad_packed_def decompress_bounded_def)

section \<open>The XOR metric\<close>

text \<open>The distance of two identifiers: their bytewise exclusive or, read as a 128-bit big-endian number.\<close>

definition nat_of_be :: "bytes \<Rightarrow> nat" where
  "nat_of_be bs = foldl (\<lambda>n b. 256 * n + unat b) 0 bs"

definition kad_distance :: "kad_id \<Rightarrow> kad_id \<Rightarrow> nat" where
  "kad_distance i j = nat_of_be (map2 (XOR) (mem i) (mem j))"

definition compare_nat :: "nat \<Rightarrow> nat \<Rightarrow> ordering" where
  "compare_nat m n = (if m < n then OrdLess else if n < m then OrdGreater else OrdEqual)"

fun lex_cmp :: "bytes \<Rightarrow> bytes \<Rightarrow> ordering" where
  "lex_cmp (x # xs) (y # ys) = (if x < y then OrdLess else if y < x then OrdGreater else lex_cmp xs ys)"
| "lex_cmp xs ys = OrdEqual"

lemma foldl_be: "foldl (\<lambda>n b. 256 * n + unat b) s bs = s * 256 ^ length bs + nat_of_be bs"
proof (induction bs arbitrary: s)
  case (Cons b bs)
  have "foldl (\<lambda>n b. 256 * n + unat b) s (b # bs) = (256 * s + unat b) * 256 ^ length bs + nat_of_be bs"
    using Cons.IH[of "256 * s + unat b"] by simp
  moreover have "nat_of_be (b # bs) = unat b * 256 ^ length bs + nat_of_be bs"
    using Cons.IH[of "unat b"] by (simp add: nat_of_be_def)
  ultimately show ?case by (simp add: algebra_simps)
qed (simp add: nat_of_be_def)

lemma nat_of_be_Cons: "nat_of_be (b # bs) = unat b * 256 ^ length bs + nat_of_be bs"
  using foldl_be[of "unat b" bs] by (simp add: nat_of_be_def)

lemma nat_of_be_less: "nat_of_be bs < 256 ^ length bs"
proof (induction bs)
  case (Cons b bs)
  have "unat b < 256" using unsigned_less[of b] by simp
  then have "unat b + 1 \<le> 256" by simp
  from mult_le_mono1[OF this, of "256 ^ length bs"]
  have "unat b * 256 ^ length bs + 256 ^ length bs \<le> 256 ^ length (b # bs)"
    by (simp add: algebra_simps del: mult_le_cancel2)
  then show ?case using Cons unfolding nat_of_be_Cons by linarith
qed (simp add: nat_of_be_def)

lemma be_less:
  assumes "x < y" "length xs = length ys"
  shows "nat_of_be (x # xs) < nat_of_be (y # ys)"
proof -
  have "unat x + 1 \<le> unat y" using assms(1) by (simp add: word_less_nat_alt)
  then have "(unat x + 1) * 256 ^ length ys \<le> unat y * 256 ^ length ys" by (rule mult_le_mono1)
  then show ?thesis using nat_of_be_less[of xs] assms(2) by (simp add: nat_of_be_Cons)
qed

lemma lex_cmp_be: "length xs = length ys \<Longrightarrow> lex_cmp xs ys = compare_nat (nat_of_be xs) (nat_of_be ys)"
proof (induction xs ys rule: list_induct2)
  case (Cons x xs y ys)
  consider "x < y" | "y < x" | "x = y" by (metis linorder_neqE)
  then show ?case
  proof cases
    case 1
    then show ?thesis using be_less[OF 1 Cons.hyps] by (simp add: compare_nat_def)
  next
    case 2
    then show ?thesis using be_less[OF 2, of ys xs] Cons.hyps by (simp add: compare_nat_def)
  next
    case 3
    then show ?thesis using Cons by (simp add: compare_nat_def nat_of_be_Cons)
  qed
qed (simp add: compare_nat_def)

lemma xor_cmp_scan_lex:
  assumes "length a = n" "length b = n" "length t = n" "k \<le> n"
  shows "xor_cmp_scan a b t [k..<n] = lex_cmp (drop k (map2 (XOR) a t)) (drop k (map2 (XOR) b t))"
  using assms(4)
proof (induction k rule: inc_induct)
  case (step m)
  have "drop m (map2 (XOR) x t) = (x ! m XOR t ! m) # drop (Suc m) (map2 (XOR) x t)" if "length x = n" for x
    using that assms(3) step.hyps by (simp add: Cons_nth_drop_Suc[symmetric])
  then show ?case using step assms by (simp add: upt_conv_Cons Let_def)
qed (use assms in simp)

lemma lex_cmp_eq: "length xs = length ys \<Longrightarrow> lex_cmp xs ys = OrdEqual \<longleftrightarrow> xs = ys"
  by (induction xs ys rule: list_induct2) auto

lemma map2_xor_inj:
  "length a = length t \<Longrightarrow> length b = length t \<Longrightarrow> map2 (XOR) a t = map2 (XOR) b t \<longleftrightarrow> a = (b :: bytes)"
proof (induction t arbitrary: a b)
  case (Cons x t)
  then obtain p a' q b' where "a = p # a'" "b = q # b'" by (auto simp: length_Suc_conv)
  moreover have "p XOR x = q XOR x \<longleftrightarrow> p = q" by (metis xor.right_neutral xor_self_eq xor.assoc)
  ultimately show ?case using Cons by auto
qed simp

lemma distance_self: "nat_of_be (map2 (XOR) a a) = 0"
proof (induction a)
  case Nil
  then show ?case by (simp add: nat_of_be_def)
next
  case (Cons x a)
  then show ?case by (simp add: nat_of_be_Cons)
qed

text \<open>
  The comparison the node lookup sorts by is the comparison of XOR distances: with the order
  read as numbers, \<open>xor_cmp\<close> answers exactly how the two 128-bit distances to the target compare,
  so it is a total order up to equality of identifiers, and the target itself is nearest.
\<close>

theorem xor_cmp_is_distance:
  assumes "kad_id_ok a" "kad_id_ok b" "kad_id_ok t"
  shows "xor_cmp a b t = compare_nat (kad_distance a t) (kad_distance b t)
    \<and> (xor_cmp a b t = OrdEqual \<longleftrightarrow> a = b) \<and> kad_distance t t = 0"
proof -
  have lex: "xor_cmp a b t = lex_cmp (map2 (XOR) (mem a) (mem t)) (map2 (XOR) (mem b) (mem t))"
    using xor_cmp_scan_lex[of "mem a" 16 "mem b" "mem t" 0] assms by (simp add: xor_cmp_def kad_id_ok_def)
  then have c: "xor_cmp a b t = compare_nat (kad_distance a t) (kad_distance b t)"
    using assms by (simp add: lex_cmp_be kad_distance_def kad_id_ok_def)
  have "xor_cmp a b t = OrdEqual \<longleftrightarrow> mem a = mem b"
    using lex assms by (simp add: lex_cmp_eq map2_xor_inj kad_id_ok_def)
  then show ?thesis using c by (simp add: kad_id.expand kad_distance_def distance_self)
    (metis kad_id.expand)
qed

lemma xor_cmp_is_distance_witness:
  "xor_cmp (demo_id 1) (demo_id 6) (demo_id 3) = OrdLess \<and> xor_cmp (demo_id 5) (demo_id 5) (demo_id 3) = OrdEqual"
  using xor_cmp_is_distance[of "demo_id 5" "demo_id 5" "demo_id 3"] demo_ok
  by (simp add: xor_cmp_def demo_id_def Let_def upt_conv_Cons)

section \<open>Unknown tags\<close>

text \<open>
  A tag of a type the decoder does not know ends its entry but not the reply: the reader stays
  at the tag's value, and the outer loop decodes the next entry from there.  With one unknown tag
  (here a 32-bit float, type 4, as the protocol allows) in the first of two entries, what the
  second result is depends on the value's bytes: an entry spelled out inside the value is returned
  as a result of its own, and the entry the reply really holds next is lost.
\<close>

theorem unknown_tag_desyncs:
  assumes "kad_id_ok i" "kad_id_ok j" "kad_id_ok k" "search_entry_ok hidden"
  shows "decode_search_res
      (kad_id_encode i @ kad_id_encode j @ [2, 0]
        @ kad_id_encode k @ [1, 0x84, name] @ search_entry_encode hidden @ rest)
    = Some [\<lparr> se_id = k, se_tags = [] \<rparr>, hidden]"
proof -
  have two: "rd_bind rd_u16 f (2 # 0 # r) = f 2 r" for f :: "16 word \<Rightarrow> search_entry list reader" and r
    by (simp add: rd_bind_def rd_u16_def rd_le_def rd_take_def rd_ret_def from_le_bytes_def)
  have bad: "tag_decode (0x84 # name # r) = (None, r)" for r
    by (simp add: tag_decode_def wire_simps tag_name_def tag_body_def tag_consts rd_bind_def rd_fail_def u8_enc rd_u8_def rd_take_def rd_ret_def)
  define tail where "tail = search_entry_encode hidden @ rest"
  have e1: "search_entry_decode (kad_id_encode k @ [1, 0x84, name] @ tail) = (Some \<lparr> se_id = k, se_tags = [] \<rparr>, tail)"
    using assms(3) bad[of tail] by (simp add: search_entry_decode_def kad_id.bind_dec_enc wire_simps)
  have e2: "search_entry_decode tail = (Some hidden, rest)"
    unfolding tail_def by (rule search_entry.dec_enc[OF assms(4)])
  define body where "body = kad_id_encode k @ [1, 0x84, name] @ tail"
  have "17 \<le> length body" by (simp add: body_def)
  then have "min 2 (length body div 17 + 1) = Suc (Suc 0)" using div_le_mono[of 17 "length body" 17] by simp
  then have "counted search_entry_decode (\<lambda>left. left div 17 + 1) 2 body
      = (Some [\<lparr> se_id = k, se_tags = [] \<rparr>, hidden], rest)"
    using e1 e2 by (simp add: counted_def body_def)
  then have "decode_search_res (kad_id_encode i @ kad_id_encode j @ [2, 0] @ body)
      = Some [\<lparr> se_id = k, se_tags = [] \<rparr>, hidden]"
    using assms(1,2) by (simp add: decode_search_res_def kad_id.bind_dec_enc two)
  then show ?thesis by (simp add: body_def tail_def)
qed

lemma unknown_tag_desyncs_witness:
  "decode_search_res
      (kad_id_encode (demo_id 1) @ kad_id_encode (demo_id 2) @ [2, 0]
        @ kad_id_encode (demo_id 8) @ [1, 0x84, 0x15] @ search_entry_encode demo_source @ [])
    = Some [\<lparr> se_id = demo_id 8, se_tags = [] \<rparr>, demo_source]"
  by (rule unknown_tag_desyncs) (rule demo_ok)+

section \<open>The bootstrap file\<close>

text \<open>
  The layouts the format documents: the old one (a non-zero count, then the contacts), and versions
  1 to 3 (a zero, the version, from version 3 on an edition, the count, then the contacts, each
  followed by nine bytes of key and flag when the version is at least 2 and the edition is zero).
\<close>

definition nodes_entry :: "contact \<times> bytes \<Rightarrow> bytes" where
  "nodes_entry = (\<lambda>(c, trailer). contact_encode c @ trailer)"

definition nodes_old :: "contact list \<Rightarrow> bytes" where
  "nodes_old cs = to_le_bytes (word_of_nat (length cs) :: 32 word) @ concat (map contact_encode cs)"

definition nodes_new :: "32 word \<Rightarrow> 32 word \<Rightarrow> (contact \<times> bytes) list \<Rightarrow> bytes" where
  "nodes_new version edition items =
     to_le_bytes (0 :: 32 word) @ to_le_bytes version @ (if 3 \<le> version then to_le_bytes edition else [])
       @ to_le_bytes (word_of_nat (length items) :: 32 word) @ concat (map nodes_entry items)"

definition trailer_len :: "32 word \<Rightarrow> 32 word \<Rightarrow> nat" where
  "trailer_len version edition = (if 2 \<le> version \<and> (version < 3 \<or> edition = 0) then 9 else 0)"

lemma node_item_enc:
  assumes "contact_ok c" "length trailer = extra"
  shows "node_item extra (nodes_entry (c, trailer) @ r) = (Some c, r)"
  using assms by (auto simp: node_item_def nodes_entry_def contact.bind_dec_enc wire_simps)

lemma node_items_enc:
  assumes "\<forall>(c, trailer) \<in> set items. contact_ok c \<and> length trailer = extra"
  shows "read_upto (node_item extra) (length items) (concat (map nodes_entry items)) = (map fst items, [])"
  using assms
proof (induction items)
  case (Cons x items)
  obtain c t where "x = (c, t)" by (cases x)
  then show ?case using Cons node_item_enc[of c t extra] by simp
qed simp

lemma node_list_enc:
  assumes "\<forall>(c, trailer) \<in> set items. contact_ok c \<and> length trailer = (if 2 \<le> v \<and> e = 0 then 9 else 0)"
    and "length items < 2 ^ 32"
  shows "node_list v e (word_of_nat (length items)) (concat (map nodes_entry items)) = (Some (map fst items), [])"
proof -
  define extra where "extra = (if 2 \<le> v \<and> e = 0 then 9 else 0 :: nat)"
  have "length (concat (map nodes_entry items)) = (25 + extra) * length items"
    using assms(1) by (induction items) (auto simp: nodes_entry_def extra_def contact_wire_size_def)
  then have "length items \<le> length (concat (map nodes_entry items)) div max (contact_wire_size + extra) 1"
    by (simp add: contact_wire_size_def)
  moreover have "unat (word_of_nat (length items) :: 32 word) = length items"
    using assms(2) by (simp add: unat_of_nat)
  ultimately show ?thesis
    using node_items_enc[of items extra] assms(1)
    by (simp add: node_list_def Let_def counted_def min_absorb1 flip: extra_def)
qed

text \<open>
  A bootstrap file in any of the documented layouts is read completely: every contact comes
  back, in order, and the keys and flags of the newer layouts are skipped.
\<close>

theorem nodes_dat_layouts:
  "(cs \<noteq> [] \<and> length cs < 2 ^ 32 \<and> (\<forall>c \<in> set cs. contact_ok c) \<longrightarrow> parse_nodes_dat (nodes_old cs) = cs)
    \<and> (1 \<le> v \<and> v \<le> 3 \<and> length items < 2 ^ 32
        \<and> (\<forall>(c, trailer) \<in> set items. contact_ok c \<and> length trailer = trailer_len v e) \<longrightarrow>
        parse_nodes_dat (nodes_new v e items) = map fst items)"
proof (intro conjI impI; elim conjE)
  assume cs: "cs \<noteq> []" "length cs < 2 ^ 32" "\<forall>c \<in> set cs. contact_ok c"
  have "unat (word_of_nat (length cs) :: 32 word) = length cs" using cs(2) by (simp add: unat_of_nat)
  then have "(word_of_nat (length cs) :: 32 word) \<noteq> 0" using cs(1) by auto
  moreover have "node_list 0 0 (word_of_nat (length cs)) (concat (map contact_encode cs)) = (Some cs, [])"
    using node_list_enc[of "map (\<lambda>c. (c, [])) cs" 0 0] cs(2,3)
    by (auto simp: nodes_entry_def comp_def)
  ultimately show "parse_nodes_dat (nodes_old cs) = cs"
    by (simp add: parse_nodes_dat_def nodes_old_def wire_simps)
next
  assume a: "1 \<le> v" "v \<le> 3" "length items < 2 ^ 32"
    "\<forall>(c, trailer) \<in> set items. contact_ok c \<and> length trailer = trailer_len v e"
  define e' where "e' = (if 3 \<le> v then e else 0)"
  have "trailer_len v e = (if 2 \<le> v \<and> e' = 0 then 9 else 0)"
    by (auto simp: trailer_len_def e'_def)
  from node_list_enc[of items v e'] a(3,4) this
  have "node_list v e' (word_of_nat (length items)) (concat (map nodes_entry items)) = (Some (map fst items), [])"
    by simp
  then show "parse_nodes_dat (nodes_new v e items) = map fst items"
    using a(1,2) by (cases "3 \<le> v") (simp_all add: parse_nodes_dat_def nodes_new_def wire_simps e'_def)
qed

lemma nodes_dat_layouts_witness:
  "parse_nodes_dat (nodes_new 2 0 [(demo_contact 1, replicate 9 1), (demo_contact 2, replicate 9 0)])
     = [demo_contact 1, demo_contact 2]
    \<and> parse_nodes_dat (nodes_old [demo_contact 3]) = [demo_contact 3]"
  using nodes_dat_layouts[of "[demo_contact 3]" 2 "[(demo_contact 1, replicate 9 1), (demo_contact 2, replicate 9 0)]" 0] demo_ok
  by (simp add: trailer_len_def)

end
