(* ===== verification/Kad_Typed.thy ===== *)
theory Kad_Typed
  imports Kad_Codec
begin

text \<open>
  What comes out of the Kad decoders is well formed: \<open>yields P r\<close> says that whenever the reader \<open>r\<close>
  succeeds, its result satisfies \<open>P\<close>.
\<close>

definition yields :: "('a \<Rightarrow> bool) \<Rightarrow> 'a reader \<Rightarrow> bool" where
  "yields P r \<longleftrightarrow> (\<forall>bs x rest. r bs = (Some x, rest) \<longrightarrow> P x)"

named_theorems yields_intro

lemma yieldsI: "(\<And>bs x rest. r bs = (Some x, rest) \<Longrightarrow> P x) \<Longrightarrow> yields P r"
  by (auto simp: yields_def)

lemma yields_mono: "yields P r \<Longrightarrow> (\<And>x. P x \<Longrightarrow> Q x) \<Longrightarrow> yields Q r"
  unfolding yields_def by blast

lemma unat_byte_less: "unat (w :: byte) < 256"
proof -
  have "unat w < 2 ^ LENGTH(8)" by (rule unsigned_less)
  then show ?thesis by simp
qed

lemma unat_16_less: "unat (w :: 16 word) < 65536"
proof -
  have "unat w < 2 ^ LENGTH(16)" by (rule unsigned_less)
  then show ?thesis by simp
qed

lemma yields_ret [yields_intro]: "P x \<Longrightarrow> yields P (rd_ret x)"
  by (simp add: yields_def rd_ret_def)

lemma yields_fail [yields_intro]: "yields P rd_fail"
  by (simp add: yields_def rd_fail_def)

lemma yields_bind: "yields Q m \<Longrightarrow> (\<And>x. Q x \<Longrightarrow> yields P (f x)) \<Longrightarrow> yields P (rd_bind m f)"
  unfolding yields_def rd_bind_def by (fastforce split: prod.splits option.splits)

lemma yields_any [yields_intro]: "(\<And>x. yields P (f x)) \<Longrightarrow> yields P (rd_bind m f)"
  unfolding yields_def rd_bind_def by (fastforce split: prod.splits option.splits)

lemma yields_take: "yields (\<lambda>s. length s = n) (rd_take n)"
  by (auto simp: yields_def rd_take_def)

lemma yields_if: "(c \<Longrightarrow> yields P a) \<Longrightarrow> (\<not> c \<Longrightarrow> yields P b) \<Longrightarrow> yields P (if c then a else b)"
  by simp

lemma yields_upto: "yields P dec \<Longrightarrow> read_upto dec n bs = (xs, r) \<Longrightarrow> (\<forall>x \<in> set xs. P x) \<and> length xs \<le> n"
proof (induction dec n bs arbitrary: xs r rule: read_upto.induct)
  case (2 dec n bs)
  then show ?case by (fastforce simp: yields_def split: prod.splits option.splits)
qed simp

lemma yields_counted: "yields P dec \<Longrightarrow> yields (\<lambda>xs. (\<forall>x \<in> set xs. P x) \<and> length xs \<le> n) (counted dec f n)"
proof (rule yieldsI)
  fix bs xs rest assume y: "yields P dec" and "counted dec f n bs = (Some xs, rest)"
  then have "read_upto dec (min n (f (length bs))) bs = (xs, rest)" by (auto simp: counted_def split: prod.splits)
  from yields_upto[OF y this] show "(\<forall>x \<in> set xs. P x) \<and> length xs \<le> n" by simp
qed

lemma yields_kad_id: "yields kad_id_ok kad_id_decode"
  unfolding kad_id_decode_def by (intro yields_intro) (simp add: kad_id_ok_def)

lemma yields_contact: "yields contact_ok contact_decode"
  unfolding contact_decode_def
  by (rule yields_bind[OF yields_kad_id], intro yields_intro) (simp add: contact_ok_def)

lemma yields_node_item: "yields contact_ok (node_item extra)"
  unfolding node_item_def by (rule yields_bind[OF yields_contact], intro yields_if yields_intro)

lemma yields_tag_body: "yields tag_ok (tag_body ty)"
proof -
  have s1: "yields tag_ok (rd_bind rd_u16 (\<lambda>n. rd_bind (rd_take (unat n)) (\<lambda>s. rd_ret (TagStr s))))"
  proof (rule yields_any, rule yields_bind[OF yields_take], rule yields_ret)
    fix n :: "16 word" and s :: bytes assume "length s = unat n"
    then show "tag_ok (TagStr s)" using unat_16_less[of n] by simp
  qed
  have s2: "yields tag_ok (rd_bind (rd_take (unat (ty - tag_str1 + 1))) (\<lambda>s. rd_ret (TagStr s)))"
  proof (rule yields_bind[OF yields_take], rule yields_ret)
    fix s :: bytes assume "length s = unat (ty - tag_str1 + 1)"
    then show "tag_ok (TagStr s)" using unat_byte_less[of "ty - tag_str1 + 1"] by simp
  qed
  show ?thesis unfolding tag_body_def by (intro yields_if s1 s2 yields_intro) simp_all
qed

lemma yields_tag: "yields (\<lambda>t. tag_ok (tag_val t)) tag_decode"
  unfolding tag_decode_def
  by (intro yields_any yields_bind[OF yields_tag_body] yields_ret) simp

lemma yields_search_entry: "yields search_entry_ok search_entry_decode"
  unfolding search_entry_decode_def
proof (rule yields_bind[OF yields_kad_id], rule yields_any, rule yieldsI)
  fix i :: kad_id and n :: byte and bs e rest
  assume i: "kad_id_ok i"
    and e: "(let (tags, r) = read_upto tag_decode (unat n) bs in (Some \<lparr> se_id = i, se_tags = tags \<rparr>, r)) = (Some e, rest)"
  obtain tags where t: "read_upto tag_decode (unat n) bs = (tags, rest)" "e = \<lparr> se_id = i, se_tags = tags \<rparr>"
    using e by (auto split: prod.splits)
  show "search_entry_ok e" using yields_upto[OF yields_tag t(1)] unat_byte_less[of n] i by (simp add: t(2) search_entry_ok_def)
qed

text \<open>A decoder's result, as the functions below return it.\<close>

lemma yields_fst: "yields P r \<Longrightarrow> fst (r bs) = Some x \<Longrightarrow> P x"
  unfolding yields_def by (metis prod.collapse)

lemma decoded_bootstrap:
  assumes "decode_bootstrap_res bs = Some cs" shows "(\<forall>c \<in> set cs. contact_ok c) \<and> length cs < 2 ^ 16"
proof -
  have k: "yields (\<lambda>xs. (\<forall>x \<in> set xs. contact_ok x) \<and> length xs < 2 ^ 16)
      (counted contact_decode (\<lambda>left. left div contact_wire_size) (unat declared))" for declared :: "16 word"
    by (rule yields_mono[OF yields_counted[OF yields_contact]]) (use unat_16_less[of declared] in auto)
  have "yields (\<lambda>xs. (\<forall>x \<in> set xs. contact_ok x) \<and> length xs < 2 ^ 16)
      (rd_bind kad_id_decode (\<lambda>_. rd_bind rd_u16 (\<lambda>_. rd_bind rd_u8 (\<lambda>_.
     rd_bind rd_u16 (\<lambda>declared. counted contact_decode (\<lambda>left. left div contact_wire_size) (unat declared))))))"
    by (intro yields_any k)
  from yields_fst[OF this assms[unfolded decode_bootstrap_res_def]] show ?thesis .
qed

lemma decoded_find_node:
  assumes "decode_find_node_res bs = Some cs" shows "(\<forall>c \<in> set cs. contact_ok c) \<and> length cs \<le> 255"
proof -
  have k: "yields (\<lambda>xs. (\<forall>x \<in> set xs. contact_ok x) \<and> length xs \<le> 255)
      (counted contact_decode (\<lambda>left. left div contact_wire_size) (unat declared))" for declared :: "byte"
    by (rule yields_mono[OF yields_counted[OF yields_contact]]) (use unat_byte_less[of declared] in auto)
  have "yields (\<lambda>xs. (\<forall>x \<in> set xs. contact_ok x) \<and> length xs \<le> 255)
      (rd_bind kad_id_decode (\<lambda>_. rd_bind rd_u8 (\<lambda>declared. counted contact_decode (\<lambda>left. left div contact_wire_size) (unat declared))))"
    by (intro yields_any k)
  from yields_fst[OF this assms[unfolded decode_find_node_res_def]] show ?thesis .
qed

lemma decoded_search:
  assumes "decode_search_res bs = Some cs" shows "(\<forall>c \<in> set cs. search_entry_ok c) \<and> length cs < 2 ^ 16"
proof -
  have k: "yields (\<lambda>xs. (\<forall>x \<in> set xs. search_entry_ok x) \<and> length xs < 2 ^ 16)
      (counted search_entry_decode (\<lambda>left. left div 17 + 1) (unat declared))" for declared :: "16 word"
    by (rule yields_mono[OF yields_counted[OF yields_search_entry]]) (use unat_16_less[of declared] in auto)
  have "yields (\<lambda>xs. (\<forall>x \<in> set xs. search_entry_ok x) \<and> length xs < 2 ^ 16)
      (rd_bind kad_id_decode (\<lambda>_. rd_bind kad_id_decode (\<lambda>_.
     rd_bind rd_u16 (\<lambda>declared. counted search_entry_decode (\<lambda>left. left div 17 + 1) (unat declared)))))"
    by (intro yields_any k)
  from yields_fst[OF this assms[unfolded decode_search_res_def]] show ?thesis .
qed

lemma decoded_nodes: "\<forall>c \<in> set (parse_nodes_dat bs). contact_ok c"
proof -
  have l: "yields (\<lambda>xs. \<forall>x \<in> set xs. contact_ok x) (node_list v e n)" for v e n
    using yields_counted[OF yields_node_item] by (fastforce simp: node_list_def Let_def yields_def)
  define r where "r = rd_bind rd_u32 (\<lambda>first.
        if first \<noteq> 0 then node_list 0 0 first
        else rd_bind rd_u32 (\<lambda>version.
          if \<not> (1 \<le> version \<and> version \<le> 3) then rd_fail
          else rd_bind (if 3 \<le> version then rd_u32 else rd_ret 0) (\<lambda>edition.
            rd_bind rd_u32 (\<lambda>n. node_list version edition n))))"
  have "yields (\<lambda>xs. \<forall>x \<in> set xs. contact_ok x) r"
    unfolding r_def by (intro yields_any yields_if l yields_fail)
  then show ?thesis unfolding parse_nodes_dat_def r_def[symmetric]
    by (cases "fst (r bs)") (auto dest: yields_fst)
qed

text \<open>
  Whatever bytes a peer or a \<^verbatim>\<open>nodes.dat\<close> file supplies, the decoders return only well-formed
  values: identifiers of 16 bytes, at most 255 tags to an entry, no string too long for its length
  field.  What was decoded can therefore be sent on: encoding it again and decoding gives the same
  contacts and entries.
\<close>

theorem kad_decode_typed:
  "(\<forall>c \<in> set (parse_nodes_dat bs). contact_ok c)
   \<and> (\<forall>cs. decode_find_node_res bs = Some cs \<longrightarrow> (\<forall>c \<in> set cs. contact_ok c)
        \<and> (\<exists>p. parse_frame (build_find_node_res (demo_id 0) cs) = Some (proto_kad, op_res, p)
             \<and> decode_find_node_res p = Some cs))
   \<and> (\<forall>cs. decode_bootstrap_res bs = Some cs \<longrightarrow> (\<forall>c \<in> set cs. contact_ok c)
        \<and> (\<exists>p. parse_frame (build_bootstrap_res (demo_id 0) 0 cs) = Some (proto_kad, op_bootstrap_res, p)
             \<and> decode_bootstrap_res p = Some cs))
   \<and> (\<forall>es. decode_search_res bs = Some es \<longrightarrow> (\<forall>e \<in> set es. search_entry_ok e)
        \<and> (\<exists>p. parse_frame (build_search_res (demo_id 0) (demo_id 0) es) = Some (proto_kad, op_search_res, p)
             \<and> decode_search_res p = Some es))"
proof -
  note rt = replies_roundtrip[OF demo_ok(1)[of 0] demo_ok(1)[of 0]]
  have f: "(\<forall>c \<in> set cs. contact_ok c) \<and> (\<exists>p. parse_frame (build_find_node_res (demo_id 0) cs) = Some (proto_kad, op_res, p)
      \<and> decode_find_node_res p = Some cs)" if "decode_find_node_res bs = Some cs" for cs
    using decoded_find_node[OF that] rt[of cs "[]"] by auto
  have b: "(\<forall>c \<in> set cs. contact_ok c) \<and> (\<exists>p. parse_frame (build_bootstrap_res (demo_id 0) 0 cs) = Some (proto_kad, op_bootstrap_res, p)
      \<and> decode_bootstrap_res p = Some cs)" if "decode_bootstrap_res bs = Some cs" for cs
    using decoded_bootstrap[OF that] rt[of cs "[]" 0] by auto
  have e: "(\<forall>e \<in> set es. search_entry_ok e) \<and> (\<exists>p. parse_frame (build_search_res (demo_id 0) (demo_id 0) es) = Some (proto_kad, op_search_res, p)
      \<and> decode_search_res p = Some es)" if "decode_search_res bs = Some es" for es
    using decoded_search[OF that] rt[of "[]" es 0] by auto
  show ?thesis using decoded_nodes f b e by blast
qed

lemma kad_decode_typed_witness:
  "\<exists>p q. parse_frame (build_find_node_res (demo_id 0) [demo_contact 7]) = Some (proto_kad, op_res, p)
     \<and> decode_find_node_res p = Some [demo_contact 7]
     \<and> parse_frame (build_find_node_res (demo_id 0) [demo_contact 7]) = Some (proto_kad, op_res, q)
     \<and> decode_find_node_res q = Some [demo_contact 7]"
proof -
  obtain p where "parse_frame (build_find_node_res (demo_id 0) [demo_contact 7]) = Some (proto_kad, op_res, p)"
    "decode_find_node_res p = Some [demo_contact 7]"
    using replies_roundtrip[of "demo_id 0" "demo_id 0" "[demo_contact 7]" "[]" 0] demo_ok by auto
  then show ?thesis using kad_decode_typed[of p] by blast
qed

end
