(* ===== verification/Bt_Seeding.thy ===== *)
theory Bt_Seeding
  imports Prelude Complex_Main "HOL-Library.List_Lexorder" "HOL-Library.Char_ord"
begin

text \<open>
  The seeding manager (\<^verbatim>\<open>native/engine/src/bt_seeding.rs\<close>): the active seeders, the FIFO queue behind
  the cap, the seeding clock and the stop conditions.  Every method holds the mutex for its whole
  body, so each is one step.  Instants are nanoseconds on the process clock and arguments of the
  operations; \<^verbatim>\<open>i64\<close> values are \<open>int\<close> with the saturation and the casts written out; ratios are real
  numbers, \<open>None\<close> standing for the infinite ratio.  The torrent handle is an opaque number, the
  \<^verbatim>\<open>HashMap\<close> an ordered map; where the code's choice depends on the map's iteration order, that order
  is a parameter.
\<close>

section \<open>Configuration\<close>

datatype seed_stop = StopNone | RatioReached | TimeReached | InactiveTimeReached | UserStopped
  | TaskDeleted | SessionReleased

datatype seed_operator = OpAnd | OpOr

datatype then_action = ThenStop | DeleteTask | DeleteTaskAndFiles

record seed_limits =
  ratio_limit :: real
  post_ratio_limit :: real
  seed_time_minutes :: nat
  inactive_minutes :: nat
  operator :: seed_operator
  then_action :: then_action

definition has_enabled_conditions :: "seed_limits \<Rightarrow> bool" where
  "has_enabled_conditions c \<longleftrightarrow> 0 < ratio_limit c \<or> 0 < post_ratio_limit c
     \<or> 0 < seed_time_minutes c \<or> 0 < inactive_minutes c"

definition seed_limit_inherit :: int where "seed_limit_inherit = -2"

record seed_overrides =
  ov_ratio_milli :: int
  ov_post_ratio_milli :: int
  ov_seed_time :: int
  ov_inactive :: int

definition override_ratio :: "int \<Rightarrow> real \<Rightarrow> real" where
  "override_ratio v global =
     (if v = seed_limit_inherit then global else if v \<le> 0 then 0 else real_of_int v / 1000)"

definition override_minutes :: "int \<Rightarrow> nat \<Rightarrow> nat" where
  "override_minutes v global =
     (if v = seed_limit_inherit then global else if v \<le> 0 then 0 else nat v)"

definition apply_overrides :: "seed_overrides \<Rightarrow> seed_limits \<Rightarrow> seed_limits" where
  "apply_overrides ov global =
     \<lparr> ratio_limit = override_ratio (ov_ratio_milli ov) (ratio_limit global),
       post_ratio_limit = override_ratio (ov_post_ratio_milli ov) (post_ratio_limit global),
       seed_time_minutes = override_minutes (ov_seed_time ov) (seed_time_minutes global),
       inactive_minutes = override_minutes (ov_inactive ov) (inactive_minutes global),
       operator = operator global, then_action = then_action global \<rparr>"

section \<open>State\<close>

record seeding_entry =
  handle :: nat
  base_secs :: int
  stint_started :: nat
  last_upload :: nat
  last_uploaded_bytes :: int
  uploaded_at_completion :: int
  last_session_uploaded :: int
  stop_reason :: seed_stop

record queued_seed =
  q_handle :: nat
  q_uploaded_at_completion :: int
  q_base_secs :: int

record seed_state =
  active :: "(string, seeding_entry) btree"
  queued :: "(string \<times> queued_seed) list"
  seed_cap :: nat

definition i64_max :: int where "i64_max = 2 ^ 63 - 1"
definition i64_min :: int where "i64_min = - (2 ^ 63)"

definition sat_i64 :: "int \<Rightarrow> int" where
  "sat_i64 x = (if x < i64_min then i64_min else if i64_max < x then i64_max else x)"

text \<open>\<^verbatim>\<open>u64 as i64\<close>\<close>

definition u64_as_i64 :: "nat \<Rightarrow> int" where
  "u64_as_i64 n = (let k = int n mod 2 ^ 64 in if k < 2 ^ 63 then k else k - 2 ^ 64)"

definition stint_secs :: "nat \<Rightarrow> nat \<Rightarrow> nat" where
  "stint_secs now started = (now - started) div 10 ^ 9"

definition effective_seed_time_secs :: "seeding_entry \<Rightarrow> nat \<Rightarrow> int" where
  "effective_seed_time_secs e now = sat_i64 (base_secs e + u64_as_i64 (stint_secs now (stint_started e)))"

definition has_free_slot :: "nat \<Rightarrow> nat \<Rightarrow> bool" where
  "has_free_slot cap active_len \<longleftrightarrow> cap = 0 \<or> active_len < cap"

definition set_cap :: "nat \<Rightarrow> seed_state \<Rightarrow> seed_state" where
  "set_cap cap st = st\<lparr>seed_cap := cap\<rparr>"

section \<open>Registration\<close>

datatype registration = Activated | QueuedUp | AlreadyPresent

definition new_entry :: "nat \<Rightarrow> int \<Rightarrow> int \<Rightarrow> int \<Rightarrow> nat \<Rightarrow> seeding_entry" where
  "new_entry h uploaded session base now =
     \<lparr> handle = h, base_secs = base, stint_started = now, last_upload = now,
       last_uploaded_bytes = uploaded, uploaded_at_completion = uploaded,
       last_session_uploaded = session, stop_reason = StopNone \<rparr>"

definition register ::
  "string \<Rightarrow> nat \<Rightarrow> int \<Rightarrow> int \<Rightarrow> int \<Rightarrow> nat \<Rightarrow> seed_state \<Rightarrow> registration \<times> seed_state" where
  "register task h uploaded session base now st =
     (if bt_get (active st) task \<noteq> None \<or> task \<in> fst ` set (queued st) then (AlreadyPresent, st)
      else if has_free_slot (seed_cap st) (length (active st)) then
        (Activated, st\<lparr>active := bt_insert task (new_entry h uploaded session base now) (active st)\<rparr>)
      else
        (QueuedUp, st\<lparr>queued := queued st @
           [(task, \<lparr> q_handle = h, q_uploaded_at_completion = uploaded, q_base_secs = base \<rparr>)]\<rparr>))"

section \<open>Rebalancing\<close>

text \<open>The first loop of \<open>reconcile\<close>; turn \<open>n\<close> reads the instant \<open>clock n\<close>.\<close>

fun promote :: "nat \<Rightarrow> (nat \<Rightarrow> nat) \<Rightarrow> (string, seeding_entry) btree \<Rightarrow> (string \<times> queued_seed) list
    \<Rightarrow> string list \<times> (string, seeding_entry) btree \<times> (string \<times> queued_seed) list" where
  "promote cap clock act [] = ([], act, [])"
| "promote cap clock act ((task, q) # rest) =
     (if has_free_slot cap (length act) then
        let entry = new_entry (q_handle q) (q_uploaded_at_completion q) 0 (q_base_secs q) (clock 0);
            (ids, act', rest') = promote cap (\<lambda>n. clock (Suc n)) (bt_insert task entry act) rest
        in (task # ids, act', rest')
      else ([], act, (task, q) # rest))"

text \<open>
  The second loop: while over the cap, the most recently activated seeder goes back to the front
  of the queue.  \<open>iter\<close> is the order in which the hash map yields its entries.
\<close>

type_synonym iter_order = "(string \<times> seeding_entry) list \<Rightarrow> (string \<times> seeding_entry) list"

function demote :: "iter_order \<Rightarrow> nat \<Rightarrow> nat \<Rightarrow> (string, seeding_entry) btree \<Rightarrow> (string \<times> queued_seed) list
    \<Rightarrow> (string \<times> int) list \<times> (string, seeding_entry) btree \<times> (string \<times> queued_seed) list" where
  "demote iter cap now act que =
     (if cap < length act then
        case max_by_key (\<lambda>(_, e). stint_started e) (iter act) of
          None \<Rightarrow> ([], act, que)
        | Some (task, _) \<Rightarrow>
            (case bt_get act task of
               None \<Rightarrow> ([], act, que)
             | Some e \<Rightarrow>
                 let folded = effective_seed_time_secs e now;
                     seed = \<lparr> q_handle = handle e, q_uploaded_at_completion = uploaded_at_completion e,
                              q_base_secs = folded \<rparr>;
                     (ds, act', que') = demote iter cap now (bt_remove task act) ((task, seed) # que)
                 in ((task, folded) # ds, act', que'))
      else ([], act, que))"
  by pat_completeness auto

lemma bt_remove_shrinks: "bt_get m k = Some v \<Longrightarrow> length (bt_remove k m) < length m"
proof (induction m)
  case (Cons x m)
  have "length (bt_remove k m) \<le> length m" by (simp add: bt_remove_def)
  then show ?case using Cons by (cases x) (auto simp: bt_remove_def le_imp_less_Suc split: if_splits)
qed simp

termination demote
  by (relation "measure (\<lambda>(iter, cap, now, act, que). length act)") (auto simp: bt_remove_shrinks)

declare demote.simps [simp del]

definition reconcile ::
  "iter_order \<Rightarrow> (nat \<Rightarrow> nat) \<Rightarrow> nat \<Rightarrow> seed_state \<Rightarrow> (string list \<times> (string \<times> int) list) \<times> seed_state" where
  "reconcile iter clock now st =
     (let (ids, act1, que1) = promote (seed_cap st) clock (active st) (queued st);
          (ds, act2, que2) =
            (if 0 < seed_cap st then demote iter (seed_cap st) now act1 que1 else ([], act1, que1))
      in ((ids, ds), st\<lparr>active := act2, queued := que2\<rparr>))"

section \<open>Progress and removal\<close>

definition apply_upload_snapshot ::
  "string \<Rightarrow> int \<Rightarrow> int \<Rightarrow> nat \<Rightarrow> seed_state \<Rightarrow> int option \<times> seed_state" where
  "apply_upload_snapshot task snapshot speed now st =
     (if snapshot < 0 then (None, st)
      else case bt_get (active st) task of
          None \<Rightarrow> (None, st)
        | Some e0 \<Rightarrow>
            let e1 = (if snapshot < last_session_uploaded e0 then e0\<lparr>last_session_uploaded := 0\<rparr> else e0);
                delta = snapshot - last_session_uploaded e1;
                e2 = (if 0 \<le> delta then e1\<lparr>last_session_uploaded := snapshot\<rparr> else e1);
                e3 = (if 0 < speed \<or> 0 < delta then e2\<lparr>last_upload := now\<rparr> else e2)
            in (Some delta, st\<lparr>active := bt_adjust task (\<lambda>_. e3) (active st)\<rparr>))"

fun remove_queued :: "string \<Rightarrow> (string \<times> queued_seed) list \<Rightarrow> (queued_seed \<times> (string \<times> queued_seed) list) option" where
  "remove_queued task [] = None"
| "remove_queued task ((t, q) # rest) =
     (if t = task then Some (q, rest)
      else map_option (\<lambda>(q', rest'). (q', (t, q) # rest')) (remove_queued task rest))"

definition unregister :: "string \<Rightarrow> nat \<Rightarrow> seed_state \<Rightarrow> (bool \<times> int) option \<times> seed_state" where
  "unregister task now st =
     (case bt_get (active st) task of
        Some e \<Rightarrow> (Some (True, effective_seed_time_secs e now), st\<lparr>active := bt_remove task (active st)\<rparr>)
      | None \<Rightarrow>
          (case remove_queued task (queued st) of
             None \<Rightarrow> (None, st)
           | Some (q, rest) \<Rightarrow> (Some (False, q_base_secs q), st\<lparr>queued := rest\<rparr>)))"

definition is_seeding :: "string \<Rightarrow> seed_state \<Rightarrow> bool" where
  "is_seeding task st \<longleftrightarrow> bt_get (active st) task \<noteq> None"

definition total_seeders :: "seed_state \<Rightarrow> nat" where
  "total_seeders st = length (active st) + length (queued st)"

definition all_task_ids :: "seed_state \<Rightarrow> string list" where
  "all_task_ids st = map fst (active st) @ map fst (queued st)"

definition seed_time_snapshot :: "nat \<Rightarrow> seed_state \<Rightarrow> (string \<times> int) list" where
  "seed_time_snapshot now st = map (\<lambda>(task, e). (task, effective_seed_time_secs e now)) (active st)"

section \<open>Stop conditions\<close>

record upload_snapshot =
  total_uploaded :: int
  total_downloaded :: int
  total_size :: int
  upload_speed :: int

definition ratio_of :: "int \<Rightarrow> int \<Rightarrow> int \<Rightarrow> real option" where
  "ratio_of uploaded downloaded torrent_size =
     (let divisor = (if downloaded < torrent_size sdiv 100 then torrent_size else downloaded) in
      if divisor \<le> 0 then (if 0 < uploaded then None else Some 0)
      else Some (real_of_int uploaded / real_of_int divisor))"

definition ratio_ge :: "real option \<Rightarrow> real \<Rightarrow> bool" where
  "ratio_ge r l \<longleftrightarrow> (case r of None \<Rightarrow> True | Some x \<Rightarrow> l \<le> x)"

text \<open>Which of the four conditions hold: ratio, ratio since completion, time, inactivity.\<close>

definition ratio_hit :: "upload_snapshot \<Rightarrow> seed_limits \<Rightarrow> bool" where
  "ratio_hit snap c \<longleftrightarrow> 0 < ratio_limit c
     \<and> ratio_ge (ratio_of (total_uploaded snap) (total_downloaded snap) (total_size snap)) (ratio_limit c)"

definition post_ratio_hit :: "int \<Rightarrow> upload_snapshot \<Rightarrow> seed_limits \<Rightarrow> bool" where
  "post_ratio_hit at_completion snap c \<longleftrightarrow> 0 < post_ratio_limit c
     \<and> ratio_ge (ratio_of (sat_i64 (total_uploaded snap - at_completion)) (total_downloaded snap) (total_size snap))
          (post_ratio_limit c)"

definition time_hit :: "int \<Rightarrow> seed_limits \<Rightarrow> bool" where
  "time_hit secs c \<longleftrightarrow> 0 < seed_time_minutes c \<and> u64_as_i64 (seed_time_minutes c * 60) \<le> secs"

definition inactive_hit :: "nat \<Rightarrow> nat \<Rightarrow> upload_snapshot \<Rightarrow> seed_limits \<Rightarrow> bool" where
  "inactive_hit now last_up snap c \<longleftrightarrow> 0 < inactive_minutes c \<and> upload_speed snap = 0
     \<and> (inactive_minutes c * 60 mod 2 ^ 64) * 10 ^ 9 \<le> now - last_up"

definition evaluate_entry ::
  "nat \<Rightarrow> int \<Rightarrow> nat \<Rightarrow> int \<Rightarrow> upload_snapshot \<Rightarrow> seed_limits \<Rightarrow> seed_stop" where
  "evaluate_entry now secs last_up at_completion snap c =
     (let ratio = ratio_hit snap c \<or> post_ratio_hit at_completion snap c;
          time = time_hit secs c; inactive = inactive_hit now last_up snap c in
      if \<not> has_enabled_conditions c then StopNone
      else case operator c of
          OpAnd \<Rightarrow>
            (if (ratio_limit c \<le> 0 \<or> ratio_hit snap c)
                 \<and> (post_ratio_limit c \<le> 0 \<or> post_ratio_hit at_completion snap c)
                 \<and> (seed_time_minutes c = 0 \<or> time) \<and> (inactive_minutes c = 0 \<or> inactive)
             then if ratio then RatioReached else if time then TimeReached else InactiveTimeReached
             else StopNone)
        | OpOr \<Rightarrow>
            (if ratio then RatioReached else if time then TimeReached
             else if inactive then InactiveTimeReached else StopNone))"

definition note_activity :: "nat \<Rightarrow> upload_snapshot \<Rightarrow> seeding_entry \<Rightarrow> seeding_entry" where
  "note_activity now snap e =
     (if 0 < upload_speed snap \<or> last_uploaded_bytes e < total_uploaded snap
      then e\<lparr>last_upload := now, last_uploaded_bytes := total_uploaded snap\<rparr> else e)"

definition evaluate_one ::
  "nat \<Rightarrow> seed_limits \<Rightarrow> upload_snapshot \<Rightarrow> seeding_entry \<Rightarrow> seed_stop \<times> seeding_entry" where
  "evaluate_one now c snap e0 =
     (let e = note_activity now snap e0 in
      if \<not> has_enabled_conditions c then (StopNone, e)
      else
        let reason = evaluate_entry now (effective_seed_time_secs e now) (last_upload e)
                       (uploaded_at_completion e) snap c
        in (reason, if reason \<noteq> StopNone then e\<lparr>stop_reason := reason\<rparr> else e))"

definition evaluate_limits ::
  "nat \<Rightarrow> (string \<Rightarrow> seed_limits \<times> upload_snapshot) \<Rightarrow> seed_state \<Rightarrow> (string \<times> seed_stop) list \<times> seed_state" where
  "evaluate_limits now res st =
     (let results = map (\<lambda>(task, e). (task, evaluate_one now (fst (res task)) (snd (res task)) e)) (active st) in
      (map (\<lambda>(task, r, _). (task, r)) (filter (\<lambda>(_, r, _). r \<noteq> StopNone) results),
       st\<lparr>active := map (\<lambda>(task, _, e). (task, e)) results\<rparr>))"

end
