(* ===== verification/Seeding_Inv.thy ===== *)
theory Seeding_Inv
  imports Bt_Seeding
begin

text \<open>
  Runs of the seeding manager: the two loops of the rebalancing, the invariant that every task has
  one place and every clock is in the past, and what one event can do to one task.
\<close>

section \<open>Runs\<close>

datatype seed_event =
  Register string nat int int int
| Reconcile "nat \<Rightarrow> nat"
| Snapshot string int int
| Unregister string
| Evaluate "string \<Rightarrow> seed_limits \<times> upload_snapshot"
| SetCap nat

fun seed_handle :: "iter_order \<Rightarrow> nat \<Rightarrow> seed_event \<Rightarrow> seed_state \<Rightarrow> seed_state" where
  "seed_handle iter now (Register task h up sess base) st = snd (register task h up sess base now st)"
| "seed_handle iter now (Reconcile clock) st = snd (reconcile iter clock now st)"
| "seed_handle iter now (Snapshot task up speed) st = snd (apply_upload_snapshot task up speed now st)"
| "seed_handle iter now (Unregister task) st = snd (unregister task now st)"
| "seed_handle iter now (Evaluate res) st = snd (evaluate_limits now res st)"
| "seed_handle iter now (SetCap n) st = set_cap n st"

definition in_i64 :: "int \<Rightarrow> bool" where "in_i64 x \<longleftrightarrow> i64_min \<le> x \<and> x \<le> i64_max"

fun event_ok :: "nat \<Rightarrow> nat \<Rightarrow> seed_event \<Rightarrow> bool" where
  "event_ok t now (Register task h up sess base) = in_i64 base"
| "event_ok t now (Reconcile clock) = (\<forall>n. t \<le> clock n \<and> clock n \<le> now)"
| "event_ok t now _ = True"

text \<open>A run: events with the instants at which they are handled.\<close>

fun seed_exec :: "iter_order \<Rightarrow> seed_state \<Rightarrow> (nat \<times> seed_event) list \<Rightarrow> seed_state" where
  "seed_exec iter st [] = st"
| "seed_exec iter st ((now, ev) # evs) = seed_exec iter (seed_handle iter now ev st) evs"

fun end_time :: "nat \<Rightarrow> (nat \<times> seed_event) list \<Rightarrow> nat" where
  "end_time t [] = t"
| "end_time t ((now, ev) # evs) = end_time now evs"

fun timed_events :: "nat \<Rightarrow> (nat \<times> seed_event) list \<Rightarrow> bool" where
  "timed_events t [] = True"
| "timed_events t ((now, ev) # evs) \<longleftrightarrow> t \<le> now \<and> event_ok t now ev \<and> timed_events now evs"

definition fair_iter :: "iter_order \<Rightarrow> bool" where
  "fair_iter iter \<longleftrightarrow> (\<forall>m. mset (iter m) = mset m)"

definition seed_ok :: "nat \<Rightarrow> seed_state \<Rightarrow> bool" where
  "seed_ok t st \<longleftrightarrow> bt_wf (active st) \<and> distinct (all_task_ids st)
     \<and> (\<forall>(task, e) \<in> set (active st). stint_started e \<le> t \<and> in_i64 (base_secs e))
     \<and> (\<forall>(task, q) \<in> set (queued st). in_i64 (q_base_secs q))"

section \<open>Maps\<close>

lemma length_bt_insert: "k \<notin> fst ` set m \<Longrightarrow> length (bt_insert k v m) = Suc (length m)"
  by (induction k v m rule: bt_insert.induct) auto

lemma bt_get_iff: "bt_get m k \<noteq> None \<longleftrightarrow> k \<in> fst ` set m"
  by (simp add: bt_get_map_of map_of_eq_None_iff)

lemma bt_get_in: "bt_wf m \<Longrightarrow> bt_get m k = Some v \<longleftrightarrow> (k, v) \<in> set m"
  using bt.in_entries[of m k v] by simp

lemma keys_bt_remove: "map fst (bt_remove k m) = filter (\<lambda>x. x \<noteq> k) (map fst m)"
  by (induction m) (auto simp: bt_remove_def)

lemma length_bt_remove:
  assumes "bt_wf m" "bt_get m k = Some v"
  shows "Suc (length (bt_remove k m)) = length m"
proof -
  have d: "distinct (map fst m)" using assms(1) by (rule bt.distinct_entries)
  have "k \<in> set (map fst m)" using assms(2) bt_get_iff[of m k] by simp
  moreover have "length (bt_remove k m) = length (filter (\<lambda>x. x \<noteq> k) (map fst m))"
    using keys_bt_remove[of k m] by (metis length_map)
  moreover have "length (filter (\<lambda>x. x \<noteq> k) (map fst m)) = card (set (map fst m) - {k})"
    using d by (metis distinct_card distinct_filter set_minus_filter_out)
  ultimately show ?thesis
    using d by (metis card_Suc_Diff1 distinct_card finite_set length_map)
qed

section \<open>Rebalancing\<close>

lemma promote_spec:
  assumes "promote cap clock act que = (ids, act', que')"
    and "bt_wf act" "distinct (map fst act @ map fst que)"
  shows "take (length ids) que @ que' = que \<and> map fst (take (length ids) que) = ids
    \<and> bt_wf act' \<and> fst ` set act' = fst ` set act \<union> set ids
    \<and> length act' = length act + length ids
    \<and> (que' = [] \<or> \<not> has_free_slot cap (length act'))
    \<and> (ids = [] \<or> cap = 0 \<or> length act' \<le> cap)
    \<and> (\<forall>k. k \<notin> set ids \<longrightarrow> bt_get act' k = bt_get act k)
    \<and> (\<forall>k q. (k, q) \<in> set (take (length ids) que) \<longrightarrow>
         (\<exists>n. bt_get act' k = Some (new_entry (q_handle q) (q_uploaded_at_completion q) 0 (q_base_secs q) (clock n))))"
  using assms
proof (induction cap clock act que arbitrary: ids act' que' rule: promote.induct)
  case (1 cap clock act)
  then show ?case by simp
next
  case (2 cap clock act task q rest)
  show ?case
  proof (cases "has_free_slot cap (length act)")
    case False
    then show ?thesis using 2 by auto
  next
    case True
    define e where "e = new_entry (q_handle q) (q_uploaded_at_completion q) 0 (q_base_secs q) (clock 0)"
    obtain ids1 act1 que1 where p: "promote cap (\<lambda>n. clock (Suc n)) (bt_insert task e act) rest = (ids1, act1, que1)"
      by (cases "promote cap (\<lambda>n. clock (Suc n)) (bt_insert task e act) rest")
    have res: "ids = task # ids1" "act' = act1" "que' = que1"
      using "2.prems"(1) True p by (simp_all add: e_def Let_def)
    have fresh: "task \<notin> fst ` set act" "task \<notin> fst ` set rest" using "2.prems"(3) by auto
    have wf1: "bt_wf (bt_insert task e act)" by (rule bt_wf_insert[OF "2.prems"(2)])
    have "distinct (map fst (bt_insert task e act))" using wf1 by (rule bt.distinct_entries)
    moreover have "fst ` set (bt_insert task e act) = insert task (fst ` set act)" by (rule keys_bt_insert)
    ultimately have d1: "distinct (map fst (bt_insert task e act) @ map fst rest)"
      using "2.prems"(3) fresh by auto
    note IH = "2.IH"[OF True refl, folded e_def, OF p wf1 d1]
    note split1 = IH[THEN conjunct1] and x0 = IH[THEN conjunct2]
    note ids1 = x0[THEN conjunct1] and x1 = x0[THEN conjunct2]
    note wf = x1[THEN conjunct1] and x2 = x1[THEN conjunct2]
    note keys = x2[THEN conjunct1] and x3 = x2[THEN conjunct2]
    note len1 = x3[THEN conjunct1] and x4 = x3[THEN conjunct2]
    note full = x4[THEN conjunct1] and x5 = x4[THEN conjunct2]
    note cap0 = x5[THEN conjunct1] and x6 = x5[THEN conjunct2]
    note get1 = x6[THEN conjunct1, rule_format] and new1 = x6[THEN conjunct2, rule_format]
    have "set ids1 \<subseteq> fst ` set rest"
      by (subst ids1[symmetric]) (auto dest: in_set_takeD)
    then have notin: "task \<notin> set ids1" using fresh(2) by blast
    have len: "length act1 = Suc (length act + length ids1)" using len1 length_bt_insert[OF fresh(1)] by simp
    have cap1: "cap = 0 \<or> length act1 \<le> cap"
      using cap0 True len by (auto simp: has_free_slot_def)
    have at_task: "bt_get act1 task = Some e"
      using get1[OF notin] "2.prems"(2) by (simp add: bt_get_map_of map_of_bt_insert)
    have other: "bt_get act1 k = bt_get act k" if "k \<notin> set (task # ids1)" for k
      using get1[of k] that "2.prems"(2) by (simp add: bt_get_map_of map_of_bt_insert)
    have new: "\<exists>n. bt_get act1 k = Some (new_entry (q_handle s) (q_uploaded_at_completion s) 0 (q_base_secs s) (clock n))"
      if "(k, s) \<in> set (take (length (task # ids1)) ((task, q) # rest))" for k s
    proof (cases "(k, s) = (task, q)")
      case True
      then show ?thesis using at_task by (auto simp: e_def)
    next
      case False
      then have "(k, s) \<in> set (take (length ids1) rest)" using that by auto
      then show ?thesis using new1 by blast
    qed
    show ?thesis unfolding res
    proof (intro conjI allI impI)
      show "fst ` set act1 = fst ` set act \<union> set (task # ids1)" using keys by (simp add: keys_bt_insert)
      show "bt_get act1 k = bt_get act k" if "k \<notin> set (task # ids1)" for k using that by (rule other)
      show "\<exists>n. bt_get act1 k = Some (new_entry (q_handle s) (q_uploaded_at_completion s) 0 (q_base_secs s) (clock n))"
        if "(k, s) \<in> set (take (length (task # ids1)) ((task, q) # rest))" for k s using that by (rule new)
    qed (use split1 ids1 wf len full cap1 in simp_all)
  qed
qed

lemma take_Suc_of_drop: "drop n xs = x # ys \<Longrightarrow> take (Suc n) xs = take n xs @ [x]"
  by (induction n arbitrary: xs) (case_tac xs; simp)+

lemma drop_Suc_of_drop: "drop n xs = x # ys \<Longrightarrow> drop (Suc n) xs = ys"
  by (induction n arbitrary: xs) (case_tac xs; simp)+

lemma demote_spec:
  assumes "demote iter cap now act que = (ds, act', que')" "bt_wf act" "fair_iter iter"
  shows "length act' = min (length act) cap \<and> bt_wf act'
    \<and> map fst que' = rev (map fst ds) @ map fst que \<and> drop (length ds) que' = que
    \<and> (\<forall>k. k \<notin> fst ` set ds \<longrightarrow> bt_get act' k = bt_get act k)
    \<and> (\<forall>(k, folded) \<in> set ds. bt_get act' k = None \<and> (\<exists>e. bt_get act k = Some e
         \<and> folded = effective_seed_time_secs e now
         \<and> (\<forall>(k', e') \<in> set act'. stint_started e' \<le> stint_started e)))
    \<and> distinct (map fst ds)
    \<and> map (\<lambda>(k, s). (k, q_base_secs s)) (take (length ds) que') = rev ds"
  using assms(1,2)
proof (induction act arbitrary: que ds act' que' rule: measure_induct_rule[of length])
  case (less act)
  show ?case
  proof (cases "cap < length act")
    case False
    then have "ds = []" "act' = act" "que' = que" using less.prems(1) demote.simps[of iter cap now act que] by simp_all
    then show ?thesis using False less.prems(2) by simp
  next
    case True
    have same: "set (iter act) = set act" using assms(3) unfolding fair_iter_def by (metis set_mset_mset)
    moreover have "act \<noteq> []" using True by auto
    ultimately obtain task e where mx: "max_by_key (\<lambda>(_, e). stint_started e) (iter act) = Some (task, e)"
      by (cases "max_by_key (\<lambda>(_, e). stint_started e) (iter act)") (auto simp: max_by_key_None)
    have mem: "(task, e) \<in> set act" using max_by_key_Some(1)[OF mx] same by simp
    have newest: "stint_started e' \<le> stint_started e" if "(k', e') \<in> set act" for k' e'
      using max_by_key_Some(2)[OF mx, of "(k', e')"] that same by simp
    have got: "bt_get act task = Some e" using mem bt_get_in[OF less.prems(2)] by blast
    define folded where "folded = effective_seed_time_secs e now"
    define s where "s = \<lparr> q_handle = handle e, q_uploaded_at_completion = uploaded_at_completion e, q_base_secs = folded \<rparr>"
    obtain ds1 act1 que1 where d: "demote iter cap now (bt_remove task act) ((task, s) # que) = (ds1, act1, que1)"
      by (cases "demote iter cap now (bt_remove task act) ((task, s) # que)")
    have res: "ds = (task, folded) # ds1" "act' = act1" "que' = que1"
      using less.prems(1) True mx got d by (simp_all add: demote.simps[of iter cap now act que] folded_def s_def Let_def)
    have wf1: "bt_wf (bt_remove task act)" by (rule bt_wf_remove[OF less.prems(2)])
    have rm: "bt_get (bt_remove task act) k = (if k = task then None else bt_get act k)" for k
      by (simp add: bt_get_map_of map_of_bt_remove)
    note IH = less.IH[OF bt_remove_shrinks[OF got] d wf1]
    note len1 = IH[THEN conjunct1] and x1 = IH[THEN conjunct2]
    note wf = x1[THEN conjunct1] and x2 = x1[THEN conjunct2]
    note que1 = x2[THEN conjunct1] and x3 = x2[THEN conjunct2]
    note drop1 = x3[THEN conjunct1] and x4 = x3[THEN conjunct2]
    note get1 = x4[THEN conjunct1, rule_format] and x5 = x4[THEN conjunct2]
    note ds1 = x5[THEN conjunct1] and x6 = x5[THEN conjunct2]
    note dist1 = x6[THEN conjunct1] and bases1 = x6[THEN conjunct2]
    have ds1': "bt_get act1 k = None" "\<exists>e. bt_get (bt_remove task act) k = Some e
         \<and> f = effective_seed_time_secs e now
         \<and> (\<forall>(k', e') \<in> set act1. stint_started e' \<le> stint_started e)" if "(k, f) \<in> set ds1" for k f
      using bspec[OF ds1 that] by simp_all
    have sub: "bt_get act k = Some e' \<and> k \<noteq> task" if "bt_get act1 k = Some e'" for k e'
    proof -
      have "k \<notin> fst ` set ds1" using ds1'(1) that by fastforce
      from get1[OF this] show ?thesis using rm[of k] that by (auto split: if_splits)
    qed
    have nth: "drop (length ds1) que1 = (task, s) # que" by (rule drop1)
    have tk: "take (Suc (length ds1)) que1 = take (length ds1) que1 @ [(task, s)]"
      using nth by (rule take_Suc_of_drop)
    have fresh: "task \<notin> fst ` set ds1" using ds1'(2) rm by fastforce
    have all: "stint_started e' \<le> stint_started e" if "(k', e') \<in> set act1" for k' e'
      using newest[of k' e'] that sub[of k' e'] by (simp add: bt_get_in[OF wf] bt_get_in[OF less.prems(2)])
    show ?thesis unfolding res
    proof (intro conjI)
      show "length act1 = min (length act) cap"
        using len1 length_bt_remove[OF less.prems(2) got] True by simp
      show "drop (length ((task, folded) # ds1)) que1 = que"
        using nth by (simp add: drop_Suc_of_drop)
      show "\<forall>k. k \<notin> fst ` set ((task, folded) # ds1) \<longrightarrow> bt_get act1 k = bt_get act k"
        using get1 rm by simp
      show "\<forall>(k, f) \<in> set ((task, folded) # ds1). bt_get act1 k = None \<and> (\<exists>e. bt_get act k = Some e
         \<and> f = effective_seed_time_secs e now
         \<and> (\<forall>(k', e') \<in> set act1. stint_started e' \<le> stint_started e))"
      proof (clarify, goal_cases)
        case (1 k f)
        show ?case
        proof (cases "(k, f) = (task, folded)")
          case True
          have "bt_get act1 task = None" using get1[OF fresh] rm by simp
          then show ?thesis using True got all by (auto simp: folded_def)
        next
          case False
          then have m: "(k, f) \<in> set ds1" using 1 by auto
          then obtain e' where e': "bt_get (bt_remove task act) k = Some e'" "f = effective_seed_time_secs e' now"
            "\<forall>(k', e'') \<in> set act1. stint_started e'' \<le> stint_started e'"
            using ds1'(2) by blast
          then have "bt_get act k = Some e'" using rm[of k] by (simp split: if_splits)
          then show ?thesis using ds1'(1)[OF m] e'(2,3) by blast
        qed
      qed
      show "map (\<lambda>(k, s). (k, q_base_secs s)) (take (length ((task, folded) # ds1)) que1) = rev ((task, folded) # ds1)"
        using bases1 tk by (simp add: s_def)
    qed (use wf que1 fresh dist1 in simp_all)
  qed
qed

text \<open>A rebalancing either promotes (or does nothing) or demotes, never both.\<close>

lemma promote_none: "promote cap clock act que = ([], act', que') \<Longrightarrow> act' = act \<and> que' = que"
  by (cases "(cap, clock, act, que)" rule: promote.cases) (auto simp: Let_def split: if_splits prod.splits)

lemma demote_none: "length act \<le> cap \<Longrightarrow> demote iter cap now act que = ([], act, que)"
  by (simp add: demote.simps)

lemma seed_ok_parts:
  assumes "seed_ok t st"
  shows "bt_wf (active st)" "distinct (map fst (active st) @ map fst (queued st))"
    "(k, e) \<in> set (active st) \<Longrightarrow> stint_started e \<le> t \<and> in_i64 (base_secs e)"
    "(k, q) \<in> set (queued st) \<Longrightarrow> in_i64 (q_base_secs q)"
  using assms by (auto simp: seed_ok_def all_task_ids_def)

lemma reconcile_cases:
  assumes "reconcile iter clock now st = ((ids, ds), st')" "seed_ok t st"
  obtains (promoted) "ds = []" "promote (seed_cap st) clock (active st) (queued st) = (ids, active st', queued st')"
      "seed_cap st = 0 \<or> length (active st') \<le> seed_cap st" "seed_cap st' = seed_cap st"
    | (demoted) "ids = []" "0 < seed_cap st" "seed_cap st < length (active st)" "seed_cap st' = seed_cap st"
      "demote iter (seed_cap st) now (active st) (queued st) = (ds, active st', queued st')"
proof -
  note ok = seed_ok_parts[OF assms(2)]
  obtain ids1 act1 que1 where p: "promote (seed_cap st) clock (active st) (queued st) = (ids1, act1, que1)"
    by (cases "promote (seed_cap st) clock (active st) (queued st)")
  obtain ds2 act2 que2 where d: "(if 0 < seed_cap st then demote iter (seed_cap st) now act1 que1 else ([], act1, que1))
      = (ds2, act2, que2)"
    by (metis prod_cases3)
  have r: "ids = ids1" "ds = ds2" "active st' = act2" "queued st' = que2" "seed_cap st' = seed_cap st"
    using assms(1) p d by (auto simp: reconcile_def Let_def split_def)
  show thesis
  proof (cases "seed_cap st = 0 \<or> length act1 \<le> seed_cap st")
    case True
    then have "ds2 = [] \<and> act2 = act1 \<and> que2 = que1" using d demote_none by (auto split: if_splits)
    then show ?thesis using promoted p True r by simp
  next
    case False
    then have "ids1 = []" using promote_spec[OF p ok(1,2)] by auto
    then have "act1 = active st" "que1 = queued st" using p promote_none by auto
    then show ?thesis using demoted False d r \<open>ids1 = []\<close> by simp
  qed
qed

section \<open>What an event does to one task\<close>

definition slot_step :: "nat \<Rightarrow> nat \<Rightarrow> seeding_entry option \<Rightarrow> queued_seed option
    \<Rightarrow> seeding_entry option \<Rightarrow> queued_seed option \<Rightarrow> bool" where
  "slot_step t now a q a' q' \<longleftrightarrow>
     (\<exists>e e'. a = Some e \<and> a' = Some e' \<and> base_secs e' = base_secs e \<and> stint_started e' = stint_started e)
   \<or> (\<exists>e s. a = Some e \<and> a' = None \<and> q' = Some s \<and> q_base_secs s = effective_seed_time_secs e now)
   \<or> (\<exists>s e. a = None \<and> q = Some s \<and> a' = Some e \<and> base_secs e = q_base_secs s
        \<and> t \<le> stint_started e \<and> stint_started e \<le> now)
   \<or> (\<exists>s. a = None \<and> a' = None \<and> q = Some s \<and> q' = Some s)"

abbreviation slot_step_of :: "nat \<Rightarrow> nat \<Rightarrow> string \<Rightarrow> seed_state \<Rightarrow> seed_state \<Rightarrow> bool" where
  "slot_step_of t now k st st' \<equiv> slot_step t now (bt_get (active st) k) (map_of (queued st) k)
     (bt_get (active st') k) (map_of (queued st') k)"

definition registered :: "string \<Rightarrow> seed_state \<Rightarrow> bool" where
  "registered k st \<longleftrightarrow> k \<in> set (all_task_ids st)"

lemma registered_iff: "registered k st \<longleftrightarrow> bt_get (active st) k \<noteq> None \<or> map_of (queued st) k \<noteq> None"
  by (auto simp: registered_def all_task_ids_def bt_get_map_of map_of_eq_None_iff)

lemma not_both:
  assumes "seed_ok t st" "bt_get (active st) k = Some e"
  shows "map_of (queued st) k = None"
proof -
  have "k \<in> fst ` set (active st)" using assms(2) bt_get_iff[of "active st" k] by simp
  then show ?thesis using seed_ok_parts(2)[OF assms(1)] by (auto simp: map_of_eq_None_iff)
qed

lemma slot_same:
  "registered k st \<Longrightarrow> bt_get (active st') k = bt_get (active st) k \<Longrightarrow> map_of (queued st') k = map_of (queued st) k
    \<Longrightarrow> slot_step_of t now k st st'"
  by (cases "bt_get (active st) k") (auto simp: slot_step_def registered_iff)

lemma map_of_split: "distinct (map fst (xs @ ys)) \<Longrightarrow> k \<in> fst ` set xs \<Longrightarrow> map_of (xs @ ys) k = map_of xs k"
  by (auto simp: map_add_def map_of_eq_None_iff split: option.splits dest: map_of_SomeD)

lemma map_of_map_snd: "map_of (map (\<lambda>(k, s). (k, g s)) xs) k = map_option g (map_of xs k)"
  by (induction xs) auto

lemma reconcile_slot:
  assumes "reconcile iter clock now st = ((ids, ds), st')" "seed_ok t st" "fair_iter iter"
    and "\<forall>n. t \<le> clock n \<and> clock n \<le> now" "registered k st"
  shows "slot_step_of t now k st st'"
  using assms(1,2)
proof (cases rule: reconcile_cases)
  case promoted
  note ok = seed_ok_parts[OF assms(2)]
  note sp = promote_spec[OF promoted(2) ok(1,2)]
  note que = sp[THEN conjunct1] and x1 = sp[THEN conjunct2]
  note ids = x1[THEN conjunct1] 
  have sids: "fst ` set (take (length ids) (queued st)) = set ids"
    using arg_cong[OF ids, of set] by (simp only: set_map)
  show ?thesis
  proof (cases "k \<in> set ids")
    case True
    then obtain q where q: "(k, q) \<in> set (take (length ids) (queued st))" unfolding sids[symmetric] by auto
    then have "(k, q) \<in> set (queued st)" by (rule in_set_takeD)
    then have "map_of (queued st) k = Some q" using ok(2) by simp
    moreover have "bt_get (active st) k = None"
      using \<open>(k, q) \<in> set (queued st)\<close> ok(2) bt_get_iff[of "active st" k] by force
    moreover obtain n where "bt_get (active st') k = Some (new_entry (q_handle q) (q_uploaded_at_completion q) 0 (q_base_secs q) (clock n))"
      using sp q by blast
    ultimately show ?thesis using assms(4) by (simp add: slot_step_def new_entry_def)
  next
    case False
    then have "k \<notin> fst ` set (take (length ids) (queued st))" by (simp only: sids not_False_eq_True)
    then have "map_of (take (length ids) (queued st)) k = None" by (simp only: map_of_eq_None_iff not_False_eq_True)
    then have "map_of (queued st) k = map_of (queued st') k"
      by (subst que[symmetric]) (simp add: map_add_def split: option.splits)
    moreover have "bt_get (active st') k = bt_get (active st) k" using sp False by blast
    ultimately show ?thesis using assms(5) by (intro slot_same) simp_all
  qed
next
  case demoted
  note ok = seed_ok_parts[OF assms(2)]
  note sp = demote_spec[OF demoted(5) ok(1) assms(3)]
  have ks: "map fst (queued st') = rev (map fst ds) @ map fst (queued st)"
    and dr: "drop (length ds) (queued st') = queued st"
    and ba: "map (\<lambda>(k, s). (k, q_base_secs s)) (take (length ds) (queued st')) = rev ds"
    and di: "distinct (map fst ds)"
    using sp by auto
  have split: "queued st' = take (length ds) (queued st') @ queued st" using append_take_drop_id[of "length ds" "queued st'"] dr by simp
  show ?thesis
  proof (cases "k \<in> fst ` set ds")
    case True
    then obtain f where f: "(k, f) \<in> set ds" by auto
    then obtain e where e: "bt_get (active st) k = Some e" "f = effective_seed_time_secs e now" "bt_get (active st') k = None"
      using sp by fastforce
    have "map_option q_base_secs (map_of (take (length ds) (queued st')) k) = map_of (rev ds) k"
      using map_of_map_snd[of q_base_secs "take (length ds) (queued st')" k] ba by simp
    also have "\<dots> = Some f" using f di by (simp add: rev_map[symmetric])
    finally obtain s where s: "map_of (take (length ds) (queued st')) k = Some s" "q_base_secs s = f" by auto
    have "map_of (queued st) k = None" by (rule not_both[OF assms(2) e(1)])
    then have "map_of (queued st') k = Some s" using s(1) by (subst split) (simp add: map_add_def)
    then show ?thesis using e s(2) by (simp add: slot_step_def)
  next
    case False
    then have "map_of (rev ds) k = None" by (simp add: map_of_eq_None_iff)
    then have "map_of (take (length ds) (queued st')) k = None"
      using ba map_of_map_snd[of q_base_secs "take (length ds) (queued st')" k] by simp
    then have "map_of (queued st') k = map_of (queued st) k" by (subst split) (simp add: map_add_def split: option.splits)
    moreover have "bt_get (active st') k = bt_get (active st) k" using sp False by blast
    ultimately show ?thesis using assms(5) by (intro slot_same) simp_all
  qed
qed

lemma get_map_entries: "bt_get (map (\<lambda>(k, e). (k, f k e)) m) k = map_option (f k) (bt_get m k)"
  by (induction m) auto

lemma evaluate_active:
  "active (snd (evaluate_limits now res st))
     = map (\<lambda>(k, e). (k, snd (evaluate_one now (fst (res k)) (snd (res k)) e))) (active st)"
  by (simp add: evaluate_limits_def split_def Let_def)

lemma evaluate_queued: "queued (snd (evaluate_limits now res st)) = queued st"
  "seed_cap (snd (evaluate_limits now res st)) = seed_cap st"
  by (simp_all add: evaluate_limits_def Let_def)

lemma evaluate_one_clock:
  "base_secs (snd (evaluate_one now c snap e)) = base_secs e"
  "stint_started (snd (evaluate_one now c snap e)) = stint_started e"
  by (simp_all add: evaluate_one_def note_activity_def Let_def)

lemma map_of_remove_queued:
  "remove_queued task qs = Some (q, rest) \<Longrightarrow> map_of qs task = Some q \<and> (\<forall>k. k \<noteq> task \<longrightarrow> map_of rest k = map_of qs k)"
proof (induction qs arbitrary: q rest)
  case (Cons x qs)
  then show ?case by (cases x) (fastforce split: if_splits)
qed simp

lemma remove_queued_sub:
  "remove_queued task qs = Some (q, rest) \<Longrightarrow>
     set rest \<subseteq> set qs \<and> (distinct (map fst qs) \<longrightarrow> distinct (map fst rest))"
proof (induction qs arbitrary: q rest)
  case (Cons x qs)
  then show ?case by (cases x) (fastforce split: if_splits)
qed simp

lemma snapshot_cases:
  obtains "snd (apply_upload_snapshot task up speed now st) = st"
    | e e' where "bt_get (active st) task = Some e" "base_secs e' = base_secs e" "stint_started e' = stint_started e"
      "snd (apply_upload_snapshot task up speed now st) = st\<lparr>active := bt_adjust task (\<lambda>_. e') (active st)\<rparr>"
proof (cases "up < 0 \<or> bt_get (active st) task = None")
  case True
  then have "snd (apply_upload_snapshot task up speed now st) = st" by (auto simp: apply_upload_snapshot_def)
  then show thesis by (rule that(1))
next
  case False
  then obtain e where e: "bt_get (active st) task = Some e" "\<not> up < 0" by auto
  let ?e1 = "if up < last_session_uploaded e then e\<lparr>last_session_uploaded := 0\<rparr> else e"
  let ?d = "up - last_session_uploaded ?e1"
  let ?e2 = "if 0 \<le> ?d then ?e1\<lparr>last_session_uploaded := up\<rparr> else ?e1"
  let ?e3 = "if 0 < speed \<or> 0 < ?d then ?e2\<lparr>last_upload := now\<rparr> else ?e2"
  have "snd (apply_upload_snapshot task up speed now st) = st\<lparr>active := bt_adjust task (\<lambda>_. ?e3) (active st)\<rparr>"
    using e by (simp add: apply_upload_snapshot_def Let_def)
  moreover have "base_secs ?e3 = base_secs e" "stint_started ?e3 = stint_started e" by simp_all
  ultimately show thesis using that(2) e(1) by blast
qed

lemma seed_handle_slot:
  assumes "seed_ok t st" "fair_iter iter" "event_ok t now ev" "registered k st" "ev \<noteq> Unregister k"
  shows "slot_step_of t now k st (seed_handle iter now ev st)"
proof (cases ev)
  case (Register task h up sess base)
  show ?thesis
  proof (cases "task = k")
    case True
    then have "snd (register k h up sess base now st) = st"
      using assms(4) unfolding registered_iff register_def by (auto simp: map_of_eq_None_iff)
    then show ?thesis using Register True assms(4) by (simp add: slot_same)
  next
    case False
    then show ?thesis using Register assms(4) seed_ok_parts(1)[OF assms(1)]
      by (intro slot_same)
        (auto simp: register_def bt_get_map_of map_of_bt_insert map_add_def split: option.splits)
  qed
next
  case (Reconcile clock)
  obtain r st' where r: "reconcile iter clock now st = (r, st')" by (cases "reconcile iter clock now st")
  obtain ids ds where "r = (ids, ds)" by (cases r)
  then show ?thesis using reconcile_slot[of iter clock now st ids ds st' t k] r assms Reconcile by simp
next
  case (Snapshot task up speed)
  show ?thesis
  proof (cases rule: snapshot_cases[of task up speed now st])
    case 1
    then show ?thesis using Snapshot assms(4) by (simp add: slot_same)
  next
    case (2 e e')
    show ?thesis
    proof (cases "task = k")
      case True
      then show ?thesis using 2 Snapshot by (simp add: slot_step_def bt_get_map_of map_of_bt_adjust)
    next
      case False
      then show ?thesis using 2 Snapshot assms(4)
        by (intro slot_same) (simp_all add: bt_get_map_of map_of_bt_adjust)
    qed
  qed
next
  case (Unregister task)
  then have "k \<noteq> task" using assms(5) by simp
  then show ?thesis using Unregister assms(4) map_of_remove_queued[of task "queued st"]
    by (intro slot_same) (auto simp: unregister_def bt_get_map_of map_of_bt_remove split: option.splits)
next
  case (Evaluate res)
  show ?thesis
  proof (cases "bt_get (active st) k")
    case None
    then show ?thesis using Evaluate assms(4)
      by (intro slot_same) (simp_all add: evaluate_active evaluate_queued get_map_entries)
  next
    case (Some e)
    then show ?thesis using Evaluate
      by (simp add: slot_step_def evaluate_active get_map_entries evaluate_one_clock)
  qed
next
  case (SetCap n)
  then show ?thesis using assms(4) by (simp add: set_cap_def slot_same)
qed

section \<open>The invariant\<close>

lemma seed_okI:
  assumes "bt_wf (active st)" "distinct (map fst (queued st))" "fst ` set (active st) \<inter> fst ` set (queued st) = {}"
    and "\<And>k e. bt_get (active st) k = Some e \<Longrightarrow> stint_started e \<le> t \<and> in_i64 (base_secs e)"
    and "\<And>k q. (k, q) \<in> set (queued st) \<Longrightarrow> in_i64 (q_base_secs q)"
  shows "seed_ok t st"
  using assms bt.distinct_entries[OF assms(1)] bt_get_in[OF assms(1)]
  by (auto simp: seed_ok_def all_task_ids_def)

lemma in_i64_sat: "in_i64 (sat_i64 x)"
  by (simp add: in_i64_def sat_i64_def i64_min_def i64_max_def)

lemma reconcile_ok:
  assumes "reconcile iter clock now st = ((ids, ds), st')" "seed_ok t st" "fair_iter iter" "t \<le> now"
    and "\<forall>n. t \<le> clock n \<and> clock n \<le> now"
  shows "seed_ok now st'"
  using assms(1,2)
proof (cases rule: reconcile_cases)
  case promoted
  note ok = seed_ok_parts[OF assms(2)]
  note sp = promote_spec[OF promoted(2) ok(1,2)]
  have que: "take (length ids) (queued st) @ queued st' = queued st" and ids: "map fst (take (length ids) (queued st)) = ids"
    and keys: "fst ` set (active st') = fst ` set (active st) \<union> set ids" and wf: "bt_wf (active st')"
    using sp by blast+
  have d: "distinct (ids @ map fst (queued st'))" and disj: "fst ` set (active st) \<inter> fst ` set (queued st) = {}"
    using ok(2) arg_cong[OF que, of "map fst"] ids by auto
  have sub: "set (queued st') \<subseteq> set (queued st)" using arg_cong[OF que, of set] by auto
  show ?thesis
  proof (rule seed_okI[OF wf])
    show "distinct (map fst (queued st'))" using d by simp
    show "fst ` set (active st') \<inter> fst ` set (queued st') = {}"
      using keys d disj sub by auto
    show "stint_started e \<le> now \<and> in_i64 (base_secs e)" if e: "bt_get (active st') k = Some e" for k e
    proof (cases "k \<in> set ids")
      case True
      then have "k \<in> fst ` set (take (length ids) (queued st))" using arg_cong[OF ids, of set] by simp
      then obtain q where q: "(k, q) \<in> set (take (length ids) (queued st))" by auto
      then obtain n where "bt_get (active st') k = Some (new_entry (q_handle q) (q_uploaded_at_completion q) 0 (q_base_secs q) (clock n))"
        using sp by blast
      then show ?thesis using e assms(5) ok(4)[OF in_set_takeD[OF q]] by (auto simp: new_entry_def)
    next
      case False
      then have "bt_get (active st) k = Some e" using sp e by metis
      then show ?thesis using ok(3)[of k e] bt_get_in[OF ok(1)] assms(4) by fastforce
    qed
    show "in_i64 (q_base_secs q)" if "(k, q) \<in> set (queued st')" for k q using that sub ok(4) by blast
  qed
next
  case demoted
  note ok = seed_ok_parts[OF assms(2)]
  note sp = demote_spec[OF demoted(5) ok(1) assms(3)]
  have wf: "bt_wf (active st')" and ks: "map fst (queued st') = rev (map fst ds) @ map fst (queued st)"
    and dr: "drop (length ds) (queued st') = queued st"
    and ba: "map (\<lambda>(k, s). (k, q_base_secs s)) (take (length ds) (queued st')) = rev ds"
    and di: "distinct (map fst ds)"
    using sp by blast+
  have gone: "bt_get (active st') k = None \<and> k \<in> fst ` set (active st)" if "k \<in> fst ` set ds" for k
    using sp that bt_get_iff[of "active st" k] by fastforce
  have kept: "bt_get (active st) k = Some e" if "bt_get (active st') k = Some e" for k e
  proof -
    have "k \<notin> fst ` set ds" using gone[of k] that by (metis option.distinct(1))
    then show ?thesis using sp that by metis
  qed
  have disj: "fst ` set (active st) \<inter> fst ` set (queued st) = {}" using ok(2) by auto
  show ?thesis
  proof (rule seed_okI[OF wf])
    show "distinct (map fst (queued st'))" unfolding ks using di ok(2) gone disj by auto
    have "k \<notin> fst ` set (queued st')" if key: "k \<in> fst ` set (active st')" for k
    proof -
      obtain e where e: "bt_get (active st') k = Some e" using key bt_get_iff[of "active st'" k] by blast
      have "k \<in> fst ` set (active st)" using kept[OF e] bt_get_iff[of "active st" k] by simp
      moreover have "k \<notin> fst ` set ds" using gone[of k] e by (metis option.distinct(1))
      ultimately show ?thesis using arg_cong[OF ks, of set] disj by auto
    qed
    then show "fst ` set (active st') \<inter> fst ` set (queued st') = {}" by blast
    show "stint_started e \<le> now \<and> in_i64 (base_secs e)" if "bt_get (active st') k = Some e" for k e
      using kept[OF that] ok(3)[of k e] bt_get_in[OF ok(1)] assms(4) by fastforce
    show "in_i64 (q_base_secs q)" if "(k, q) \<in> set (queued st')" for k q
    proof (cases "(k, q) \<in> set (queued st)")
      case True
      then show ?thesis by (rule ok(4))
    next
      case False
      then have "(k, q) \<in> set (take (length ds) (queued st'))"
        using that dr by (metis Un_iff append_take_drop_id set_append)
      then have "(k, q_base_secs q) \<in> set (rev ds)" unfolding ba[symmetric] by force
      then obtain e where "q_base_secs q = effective_seed_time_secs e now" using sp by fastforce
      then show ?thesis by (simp add: effective_seed_time_secs_def in_i64_sat)
    qed
  qed
qed

lemma register_cases:
  obtains (same) "snd (register task h up sess base now st) = st"
    | (act) "task \<notin> fst ` set (active st)" "task \<notin> fst ` set (queued st)"
      "snd (register task h up sess base now st) = st\<lparr>active := bt_insert task (new_entry h up sess base now) (active st)\<rparr>"
    | (que) "task \<notin> fst ` set (active st)" "task \<notin> fst ` set (queued st)"
      "snd (register task h up sess base now st) = st\<lparr>queued := queued st @
         [(task, \<lparr> q_handle = h, q_uploaded_at_completion = up, q_base_secs = base \<rparr>)]\<rparr>"
proof (cases "task \<in> fst ` set (active st) \<or> task \<in> fst ` set (queued st)")
  case True
  then have "snd (register task h up sess base now st) = st"
    using bt_get_iff[of "active st" task] by (simp only: register_def if_True snd_conv) 
  then show thesis by (rule same)
next
  case False
  then have "snd (register task h up sess base now st)
     = (if has_free_slot (seed_cap st) (length (active st))
        then st\<lparr>active := bt_insert task (new_entry h up sess base now) (active st)\<rparr>
        else st\<lparr>queued := queued st @ [(task, \<lparr> q_handle = h, q_uploaded_at_completion = up, q_base_secs = base \<rparr>)]\<rparr>)"
    using bt_get_iff[of "active st" task] by (simp add: register_def)
  then show thesis using False act que by (cases "has_free_slot (seed_cap st) (length (active st))") auto
qed

lemma seed_handle_ok:
  assumes "seed_ok t st" "fair_iter iter" "event_ok t now ev" "t \<le> now"
  shows "seed_ok now (seed_handle iter now ev st)"
proof (cases ev)
  case (Register task h up sess base)
  note ok = seed_ok_parts[OF assms(1)]
  have b: "in_i64 base" using assms(3) Register by simp
  have later: "stint_started e \<le> now \<and> in_i64 (base_secs e)" if "bt_get (active st) k = Some e" for k e
    using ok(3)[of k e] that bt_get_in[OF ok(1)] assms(4) by fastforce
  show ?thesis
  proof (cases rule: register_cases[of task h up sess base now st])
    case same
    have "seed_ok now st" by (rule seed_okI) (use ok later in auto)
    then show ?thesis using same Register by simp
  next
    case act
    have "seed_ok now (st\<lparr>active := bt_insert task (new_entry h up sess base now) (active st)\<rparr>)"
    proof (rule seed_okI)
      show "stint_started e \<le> now \<and> in_i64 (base_secs e)"
        if "bt_get (active (st\<lparr>active := bt_insert task (new_entry h up sess base now) (active st)\<rparr>)) k = Some e" for k e
        using that later[of k e] b ok(1)
        by (cases "k = task") (auto simp: bt_get_map_of map_of_bt_insert new_entry_def)
    qed (use ok act in \<open>auto simp: bt_wf_insert keys_bt_insert\<close>)
    then show ?thesis using act Register by simp
  next
    case que
    have "seed_ok now (st\<lparr>queued := queued st @
         [(task, \<lparr> q_handle = h, q_uploaded_at_completion = up, q_base_secs = base \<rparr>)]\<rparr>)"
      by (rule seed_okI) (use ok later que b in auto)
    then show ?thesis using que Register by simp
  qed
next
  case (Reconcile clock)
  obtain r st' where r: "reconcile iter clock now st = (r, st')" by (cases "reconcile iter clock now st")
  obtain ids ds where "r = (ids, ds)" by (cases r)
  then show ?thesis using reconcile_ok[of iter clock now st ids ds st' t] r assms Reconcile by simp
next
  case (Snapshot task up speed)
  note ok = seed_ok_parts[OF assms(1)]
  have later: "stint_started e \<le> now \<and> in_i64 (base_secs e)" if "bt_get (active st) k = Some e" for k e
    using ok(3)[of k e] that bt_get_in[OF ok(1)] assms(4) by fastforce
  show ?thesis
  proof (cases rule: snapshot_cases[of task up speed now st])
    case 1
    have "seed_ok now st" by (rule seed_okI) (use ok later in auto)
    then show ?thesis using 1 Snapshot by simp
  next
    case (2 e e')
    have "seed_ok now (st\<lparr>active := bt_adjust task (\<lambda>_. e') (active st)\<rparr>)"
    proof (rule seed_okI)
      have "fst ` set (bt_adjust task (\<lambda>_. e') (active st)) = fst ` set (active st)"
        using arg_cong[OF keys_bt_adjust[of task "\<lambda>_. e'" "active st"], of set] by simp
      then show "fst ` set (active (st\<lparr>active := bt_adjust task (\<lambda>_. e') (active st)\<rparr>))
          \<inter> fst ` set (queued (st\<lparr>active := bt_adjust task (\<lambda>_. e') (active st)\<rparr>)) = {}"
        using ok(2) by auto
      show "stint_started x \<le> now \<and> in_i64 (base_secs x)"
        if "bt_get (active (st\<lparr>active := bt_adjust task (\<lambda>_. e') (active st)\<rparr>)) k = Some x" for k x
      proof (cases "k = task")
        case True
        then have "x = e'" using that 2(1) by (simp add: bt_get_map_of map_of_bt_adjust)
        then show ?thesis using later[OF 2(1)] 2(2,3) by simp
      next
        case False
        then have "bt_get (active st) k = Some x" using that by (simp add: bt_get_map_of map_of_bt_adjust)
        then show ?thesis by (rule later)
      qed
    qed (use ok in \<open>auto simp: bt_wf_adjust\<close>)
    then show ?thesis using 2 Snapshot by simp
  qed
next
  case (Unregister task)
  note ok = seed_ok_parts[OF assms(1)]
  have later: "stint_started e \<le> now \<and> in_i64 (base_secs e)" if "bt_get (active st) k = Some e" for k e
    using ok(3)[of k e] that bt_get_in[OF ok(1)] assms(4) by fastforce
  show ?thesis
  proof (cases "bt_get (active st) task")
    case (Some e)
    have "seed_ok now (st\<lparr>active := bt_remove task (active st)\<rparr>)"
    proof (rule seed_okI)
      show "stint_started x \<le> now \<and> in_i64 (base_secs x)"
        if "bt_get (active (st\<lparr>active := bt_remove task (active st)\<rparr>)) k = Some x" for k x
        using that later[of k x] by (cases "k = task") (auto simp: bt_get_map_of map_of_bt_remove)
      show "bt_wf (active (st\<lparr>active := bt_remove task (active st)\<rparr>))" using bt_wf_remove[OF ok(1)] by simp
    qed (use ok in \<open>auto simp: bt_remove_def\<close>)
    then show ?thesis using Unregister Some by (simp add: unregister_def)
  next
    case None
    show ?thesis
    proof (cases "remove_queued task (queued st)")
      case r: None
      have "seed_ok now st" by (rule seed_okI) (use ok later in auto)
      then show ?thesis using Unregister None r by (simp add: unregister_def)
    next
      case r: (Some x)
      obtain q rest where x: "x = (q, rest)" by (cases x)
      have sub: "set rest \<subseteq> set (queued st)" "distinct (map fst rest)"
        using remove_queued_sub[of task "queued st" q rest] r x ok(2) by auto
      have "seed_ok now (st\<lparr>queued := rest\<rparr>)"
      proof (rule seed_okI)
        have "fst ` set rest \<subseteq> fst ` set (queued st)" using sub(1) by (rule image_mono)
        then show "fst ` set (active (st\<lparr>queued := rest\<rparr>)) \<inter> fst ` set (queued (st\<lparr>queued := rest\<rparr>)) = {}"
          using ok(2) by auto
      qed (use ok(1,4) later sub in auto)
      then show ?thesis using Unregister None r x by (simp add: unregister_def)
    qed
  qed
next
  case (Evaluate res)
  note ok = seed_ok_parts[OF assms(1)]
  have later: "stint_started e \<le> now \<and> in_i64 (base_secs e)" if "bt_get (active st) k = Some e" for k e
    using ok(3)[of k e] that bt_get_in[OF ok(1)] assms(4) by fastforce
  let ?st = "snd (evaluate_limits now res st)"
  have keys: "map fst (active ?st) = map fst (active st)" by (simp add: evaluate_active split_def comp_def)
  have "seed_ok now ?st"
  proof (rule seed_okI)
    show "bt_wf (active ?st)" using ok(1) keys by (simp add: bt_wf_def)
    show "fst ` set (active ?st) \<inter> fst ` set (queued ?st) = {}"
      using ok(2) arg_cong[OF keys, of set] by (auto simp: evaluate_queued)
    show "stint_started e \<le> now \<and> in_i64 (base_secs e)" if "bt_get (active ?st) k = Some e" for k e
      using that later[of k] by (auto simp: evaluate_active get_map_entries evaluate_one_clock)
  qed (use ok in \<open>auto simp: evaluate_queued\<close>)
  then show ?thesis using Evaluate by simp
next
  case (SetCap n)
  note ok = seed_ok_parts[OF assms(1)]
  have "stint_started e \<le> now \<and> in_i64 (base_secs e)" if "bt_get (active st) k = Some e" for k e
    using ok(3)[of k e] that bt_get_in[OF ok(1)] assms(4) by fastforce
  then have "seed_ok now (st\<lparr>seed_cap := n\<rparr>)" by (intro seed_okI) (use ok in auto)
  then show ?thesis using SetCap by (simp add: set_cap_def)
qed

end
