(* ===== verification/Seeding_Props.thy ===== *)
theory Seeding_Props
  imports Seeding_Inv
begin

text \<open>
  Properties of the seeding manager: it implements a simple specification of running and waiting
  tasks, a rebalancing sends the newest seeders back first, seeding time counts the time a task
  was active, and a seeder is stopped exactly when its conditions say so.
\<close>

section \<open>The abstract manager\<close>

text \<open>What a user sees: which tasks run, which wait and in which order, and the cap.\<close>

record seed_view =
  running :: "string set"
  waiting :: "string list"
  view_cap :: nat

definition seed_abs :: "seed_state \<Rightarrow> seed_view" where
  "seed_abs st = \<lparr> running = fst ` set (active st), waiting = map fst (queued st), view_cap = seed_cap st \<rparr>"

text \<open>
  A rebalancing fills the free slots from the head of the queue; if there are more running tasks
  than slots instead, it moves the surplus to the head of the queue and starts nobody.
\<close>

definition rebalanced :: "seed_view \<Rightarrow> seed_view \<Rightarrow> bool" where
  "rebalanced v v' \<longleftrightarrow> view_cap v' = view_cap v \<and>
     (if view_cap v = 0 \<or> card (running v) \<le> view_cap v then
        let k = (if view_cap v = 0 then length (waiting v) else min (view_cap v - card (running v)) (length (waiting v)))
        in running v' = running v \<union> set (take k (waiting v)) \<and> waiting v' = drop k (waiting v)
      else running v' \<subseteq> running v \<and> card (running v') = view_cap v
        \<and> (\<exists>yielded. set yielded = running v - running v' \<and> distinct yielded \<and> waiting v' = yielded @ waiting v))"

fun seed_spec :: "seed_event \<Rightarrow> seed_view \<Rightarrow> seed_view \<Rightarrow> bool" where
  "seed_spec (Register task h up sess base) v v' \<longleftrightarrow>
     v' = (if task \<in> running v \<union> set (waiting v) then v
           else if view_cap v = 0 \<or> card (running v) < view_cap v then v\<lparr>running := insert task (running v)\<rparr>
           else v\<lparr>waiting := waiting v @ [task]\<rparr>)"
| "seed_spec (Unregister task) v v' \<longleftrightarrow>
     v' = v\<lparr>running := running v - {task}, waiting := removeAll task (waiting v)\<rparr>"
| "seed_spec (SetCap n) v v' \<longleftrightarrow> v' = v\<lparr>view_cap := n\<rparr>"
| "seed_spec (Reconcile clock) v v' \<longleftrightarrow> rebalanced v v'"
| "seed_spec (Snapshot task up speed) v v' \<longleftrightarrow> v' = v"
| "seed_spec (Evaluate res) v v' \<longleftrightarrow> v' = v"

lemma card_active: "bt_wf m \<Longrightarrow> card (fst ` set m) = length m"
  using bt.distinct_entries[of m] by (metis distinct_card length_map set_map)

lemma remove_queued_view:
  assumes "distinct (map fst qs)"
  shows "map fst (case remove_queued task qs of None \<Rightarrow> qs | Some (q, rest) \<Rightarrow> rest) = removeAll task (map fst qs)"
  using assms
proof (induction qs)
  case (Cons x qs)
  obtain t q where "x = (t, q)" by (cases x)
  then show ?case using Cons by (auto split: option.splits)
qed simp

lemma promote_view:
  assumes "promote cap clock act que = (ids, act', que')" "bt_wf act" "distinct (map fst act @ map fst que)"
    and "cap = 0 \<or> length act \<le> cap"
  shows "let k = (if cap = 0 then length que else min (cap - length act) (length que)) in
     fst ` set act' = fst ` set act \<union> set (take k (map fst que)) \<and> map fst que' = drop k (map fst que)"
proof -
  note sp = promote_spec[OF assms(1-3)]
  have split: "take (length ids) que @ que' = que" and ids: "map fst (take (length ids) que) = ids"
    and len: "length act' = length act + length ids"
    and full: "que' = [] \<or> \<not> has_free_slot cap (length act')"
    and room: "ids = [] \<or> cap = 0 \<or> length act' \<le> cap"
    using sp by blast+
  have le: "length ids \<le> length que" using arg_cong[OF ids, of length] by simp
  have que': "que' = drop (length ids) que" using split by (metis append_take_drop_id same_append_eq)
  have k: "length ids = (if cap = 0 then length que else min (cap - length act) (length que))"
  proof (cases "que' = []")
    case True
    then have "length ids = length que" using que' le by simp
    then show ?thesis using room len assms(4) by auto
  next
    case False
    then have "cap \<noteq> 0" "cap \<le> length act'" using full by (auto simp: has_free_slot_def)
    then show ?thesis using len room assms(4) le by auto
  qed
  have "set ids = set (take (length ids) (map fst que))" using ids by (simp add: take_map)
  then show ?thesis using sp que' unfolding Let_def k[symmetric] by (simp add: drop_map)
qed

lemma reconcile_view:
  assumes "reconcile iter clock now st = ((ids, ds), st')" "seed_ok t st" "fair_iter iter"
  shows "rebalanced (seed_abs st) (seed_abs st')"
  using assms(1,2)
proof (cases rule: reconcile_cases)
  case promoted
  note ok = seed_ok_parts[OF assms(2)]
  have "seed_cap st = 0 \<or> length (active st) \<le> seed_cap st"
    using promote_spec[OF promoted(2) ok(1,2)] promoted(3) by auto
  from promote_view[OF promoted(2) ok(1,2) this] this show ?thesis
    using promoted(4) by (simp add: rebalanced_def seed_abs_def card_active[OF ok(1)] Let_def)
next
  case demoted
  note ok = seed_ok_parts[OF assms(2)]
  note sp = demote_spec[OF demoted(5) ok(1) assms(3)]
  have wf: "bt_wf (active st')" and len: "length (active st') = min (length (active st)) (seed_cap st)"
    and ks: "map fst (queued st') = rev (map fst ds) @ map fst (queued st)" and di: "distinct (map fst ds)"
    using sp by blast+
  have get: "bt_get (active st') k = (if k \<in> fst ` set ds then None else bt_get (active st) k)" for k
    using sp by fastforce
  have in_ds: "k \<in> fst ` set ds \<Longrightarrow> bt_get (active st) k \<noteq> None" for k using sp by fastforce
  have run: "fst ` set (active st') = fst ` set (active st) - fst ` set ds"
    by (rule set_eqI) (simp add: get bt_get_iff[symmetric] del: not_None_eq)
  have yield: "set (rev (map fst ds)) = fst ` set (active st) - fst ` set (active st')"
    using in_ds bt_get_iff[of "active st"] unfolding run by auto
  show ?thesis
    using demoted(2-4) len ks di yield card_active[OF ok(1)] card_active[OF wf] run
    by (auto simp: rebalanced_def seed_abs_def intro!: exI[of _ "rev (map fst ds)"])
qed

lemma seed_handle_refines:
  assumes "seed_ok t st" "fair_iter iter"
  shows "seed_spec ev (seed_abs st) (seed_abs (seed_handle iter now ev st))"
proof (cases ev)
  case (Register task h up sess base)
  note ok = seed_ok_parts[OF assms(1)]
  show ?thesis
    using Register bt_get_iff[of "active st" task]
    by (auto simp: register_def seed_abs_def has_free_slot_def card_active[OF ok(1)] keys_bt_insert)
next
  case (Reconcile clock)
  obtain r st' where r: "reconcile iter clock now st = (r, st')" by (cases "reconcile iter clock now st")
  obtain ids ds where "r = (ids, ds)" by (cases r)
  then show ?thesis using reconcile_view[OF _ assms] r Reconcile by simp
next
  case (Snapshot task up speed)
  show ?thesis
  proof (cases rule: snapshot_cases[of task up speed now st])
    case (2 e e')
    have "fst ` set (bt_adjust task (\<lambda>_. e') (active st)) = fst ` set (active st)"
      using arg_cong[OF keys_bt_adjust[of task "\<lambda>_. e'" "active st"], of set] by simp
    then show ?thesis using 2 Snapshot by (simp add: seed_abs_def)
  qed (use Snapshot in simp)
next
  case (Unregister task)
  note ok = seed_ok_parts[OF assms(1)]
  have dq: "distinct (map fst (queued st))" using ok(2) by simp
  show ?thesis
  proof (cases "bt_get (active st) task")
    case (Some e)
    have "task \<notin> set (map fst (queued st))"
      using ok(2) Some bt_get_iff[of "active st" task] by auto
    moreover have "fst ` set (bt_remove task (active st)) = fst ` set (active st) - {task}"
      using arg_cong[OF keys_bt_remove[of task "active st"], of set] by auto
    ultimately show ?thesis using Unregister Some by (simp add: unregister_def seed_abs_def)
  next
    case None
    then have "task \<notin> fst ` set (active st)" using bt_get_iff[of "active st" task] by blast
    then show ?thesis using Unregister None remove_queued_view[OF dq, of task]
      by (auto simp: unregister_def seed_abs_def split: option.splits)
  qed
next
  case (Evaluate res)
  have "map fst (active (snd (evaluate_limits now res st))) = map fst (active st)"
    by (simp add: evaluate_active split_def comp_def)
  from arg_cong[OF this, of set] show ?thesis using Evaluate by (simp add: seed_abs_def evaluate_queued)
next
  case (SetCap n)
  then show ?thesis by (simp add: set_cap_def seed_abs_def)
qed

section \<open>Runs from the empty manager\<close>

definition new_manager :: seed_state where
  "new_manager = \<lparr> active = [], queued = [], seed_cap = 0 \<rparr>"

lemma seed_exec_ok:
  "seed_ok t st \<Longrightarrow> fair_iter iter \<Longrightarrow> timed_events t evs \<Longrightarrow> seed_ok (end_time t evs) (seed_exec iter st evs)"
proof (induction evs arbitrary: t st)
  case (Cons x evs)
  obtain now ev where x: "x = (now, ev)" by (cases x)
  then have "seed_ok now (seed_handle iter now ev st)"
    using Cons.prems seed_handle_ok[of t st iter now ev] by simp
  then show ?case using Cons x by simp
qed simp

lemma new_manager_ok: "seed_ok 0 new_manager"
  by (simp add: seed_ok_def new_manager_def all_task_ids_def bt_wf_def)

text \<open>
  C17.  The seeding manager implements its specification: whatever happened since it was created and
  in whichever order the hash map yields its entries, every operation acts on the running tasks,
  the waiting line and the cap as the abstract manager does.  In particular no task is in two
  places, a rebalancing fills every free slot in queue order and never exceeds the cap, and no
  task is lost.
\<close>

theorem seeding_refines:
  assumes "fair_iter iter" "timed_events 0 evs"
  shows "seed_spec ev (seed_abs (seed_exec iter new_manager evs))
           (seed_abs (seed_handle iter now ev (seed_exec iter new_manager evs)))
    \<and> distinct (all_task_ids (seed_exec iter new_manager evs))"
proof -
  have ok: "seed_ok (end_time 0 evs) (seed_exec iter new_manager evs)"
    by (rule seed_exec_ok[OF new_manager_ok assms])
  then show ?thesis using seed_handle_refines[OF ok assms(1)] by (simp add: seed_ok_def)
qed

lemma fair_id: "fair_iter (\<lambda>m. m)" by (simp add: fair_iter_def)

definition demo_seed_run :: "(nat \<times> seed_event) list" where
  "demo_seed_run = [(10, SetCap 1), (20, Register ''a'' 1 0 0 0), (30, Register ''b'' 2 0 0 5)]"

lemma seeding_refines_witness:
  "rebalanced (seed_abs (seed_exec (\<lambda>m. m) new_manager (demo_seed_run @ [(40, Unregister ''a'')])))
     (seed_abs (seed_handle (\<lambda>m. m) 60 (Reconcile (\<lambda>_. 50))
        (seed_exec (\<lambda>m. m) new_manager (demo_seed_run @ [(40, Unregister ''a'')]))))"
  using seeding_refines[OF fair_id, of "demo_seed_run @ [(40, Unregister ''a'')]" "Reconcile (\<lambda>_. 50)" 60]
  by (simp add: demo_seed_run_def in_i64_def i64_min_def i64_max_def)

text \<open>
  When the cap shrinks, the most recently activated seeders yield: a rebalancing never both
  starts and stops tasks; every task it sends back was running, nobody still running was activated
  later, and the seeding time it reports for the database is the time the task has really seeded,
  which is also what the queue keeps for its next turn.  The tasks it starts are the head of the
  queue, in order.
\<close>

theorem newest_yield_first:
  assumes "reconcile iter clock now st = ((ids, ds), st')" "seed_ok t st" "fair_iter iter"
  shows "(ids = [] \<or> ds = []) \<and> ids = take (length ids) (map fst (queued st))
    \<and> (\<forall>(task, secs) \<in> set ds. \<exists>e. bt_get (active st) task = Some e
         \<and> secs = effective_seed_time_secs e now
         \<and> (\<exists>q. (task, q) \<in> set (queued st') \<and> q_base_secs q = secs)
         \<and> (\<forall>(k, e') \<in> set (active st'). stint_started e' \<le> stint_started e))"
  using assms(1,2)
proof (cases rule: reconcile_cases)
  case promoted
  note ok = seed_ok_parts[OF assms(2)]
  have "map fst (take (length ids) (queued st)) = ids" using promote_spec[OF promoted(2) ok(1,2)] by blast
  then show ?thesis using promoted(1) by (simp add: take_map)
next
  case demoted
  note sp = demote_spec[OF demoted(5) seed_ok_parts(1)[OF assms(2)] assms(3)]
  have ba: "map (\<lambda>(k, s). (k, q_base_secs s)) (take (length ds) (queued st')) = rev ds" using sp by blast
  have kept: "\<exists>q. (task, q) \<in> set (queued st') \<and> q_base_secs q = secs" if "(task, secs) \<in> set ds" for task secs
  proof -
    have "(task, secs) \<in> set (map (\<lambda>(k, s). (k, q_base_secs s)) (take (length ds) (queued st')))"
      using that unfolding ba by simp
    then show ?thesis by (auto dest: in_set_takeD)
  qed
  show ?thesis using demoted(1) sp kept by fastforce
qed

definition crowded :: seed_state where
  "crowded = \<lparr> active = [(''a'', new_entry 1 0 0 0 10), (''b'', new_entry 2 0 0 7 20)], queued = [], seed_cap = 1 \<rparr>"

lemma crowded_reconcile:
  "\<exists>st'. reconcile (\<lambda>m. m) (\<lambda>_. 30) (5 * 10 ^ 9) crowded = (([], [(''b'', 11)]), st')"
  by (simp add: reconcile_def crowded_def new_entry_def has_free_slot_def demote.simps bt_get_map_of bt_remove_def
      effective_seed_time_secs_def sat_i64_def u64_as_i64_def stint_secs_def i64_min_def i64_max_def)

lemma newest_yield_first_witness:
  "\<exists>e. bt_get (active crowded) ''b'' = Some e \<and> effective_seed_time_secs e (5 * 10 ^ 9) = 11"
proof -
  obtain st' where r: "reconcile (\<lambda>m. m) (\<lambda>_. 30) (5 * 10 ^ 9) crowded = (([], [(''b'', 11)]), st')"
    using crowded_reconcile by blast
  have ok: "seed_ok 25 crowded"
    by (simp add: seed_ok_def crowded_def new_entry_def all_task_ids_def bt_wf_def in_i64_def i64_min_def i64_max_def)
  from newest_yield_first[OF r ok fair_id] show ?thesis by auto
qed

section \<open>Seeding time\<close>

text \<open>The cumulative seconds the manager would report for a task at an instant.\<close>

definition seed_secs :: "nat \<Rightarrow> seed_state \<Rightarrow> string \<Rightarrow> int" where
  "seed_secs now st k = (case bt_get (active st) k of
       Some e \<Rightarrow> effective_seed_time_secs e now
     | None \<Rightarrow> (case map_of (queued st) k of Some q \<Rightarrow> q_base_secs q | None \<Rightarrow> 0))"

text \<open>The nanoseconds of a run in whose step the task was active before or after the event.\<close>

fun active_ns :: "iter_order \<Rightarrow> string \<Rightarrow> nat \<Rightarrow> seed_state \<Rightarrow> (nat \<times> seed_event) list \<Rightarrow> nat" where
  "active_ns iter k t st [] = 0"
| "active_ns iter k t st ((now, ev) # evs) =
     (let st' = seed_handle iter now ev st in
      (if is_seeding k st \<or> is_seeding k st' then now - t else 0) + active_ns iter k now st' evs)"

definition seed_phi :: "nat \<Rightarrow> seed_state \<Rightarrow> string \<Rightarrow> int" where
  "seed_phi now st k = (case bt_get (active st) k of
       Some e \<Rightarrow> base_secs e * 10 ^ 9 + int (now - stint_started e)
     | None \<Rightarrow> (case map_of (queued st) k of Some q \<Rightarrow> q_base_secs q * 10 ^ 9 | None \<Rightarrow> 0))"

lemma stint_cast: "now < 2 ^ 63 * 10 ^ 9 \<Longrightarrow> u64_as_i64 (stint_secs now s) = int ((now - s) div 10 ^ 9)"
proof -
  assume "now < 2 ^ 63 * 10 ^ 9"
  then have "(now - s) div 10 ^ 9 < 2 ^ 63" by (simp add: less_mult_imp_div_less)
  then have "int ((now - s) div 10 ^ 9) < int (2 ^ 63)" by (simp only: of_nat_less_iff)
  then show ?thesis by (simp add: u64_as_i64_def stint_secs_def)
qed

lemma sat_le: "i64_min \<le> x \<Longrightarrow> sat_i64 x \<le> x"
  by (simp add: sat_i64_def)

lemma sat_mono: "x \<le> y \<Longrightarrow> sat_i64 x \<le> sat_i64 y"
  by (simp add: sat_i64_def i64_min_def i64_max_def)

lemma sat_ge: "in_i64 b \<Longrightarrow> b \<le> x \<Longrightarrow> b \<le> sat_i64 x"
  by (simp add: sat_i64_def in_i64_def)

lemma sat_below: "sat_i64 x < i64_max \<Longrightarrow> x \<le> sat_i64 x"
  by (simp add: sat_i64_def split: if_splits)

lemma effective_facts:
  assumes "now < 2 ^ 63 * 10 ^ 9" "in_i64 (base_secs e)"
  shows "base_secs e \<le> effective_seed_time_secs e now"
    and "effective_seed_time_secs e now * 10 ^ 9 \<le> base_secs e * 10 ^ 9 + int (now - stint_started e)"
    and "effective_seed_time_secs e now < i64_max \<Longrightarrow>
      base_secs e * 10 ^ 9 + int (now - stint_started e) < (effective_seed_time_secs e now + 1) * 10 ^ 9"
proof -
  let ?d = "(now - stint_started e) div 10 ^ 9"
  have eff: "effective_seed_time_secs e now = sat_i64 (base_secs e + int ?d)"
    using stint_cast[OF assms(1)] by (simp add: effective_seed_time_secs_def)
  show "base_secs e \<le> effective_seed_time_secs e now" unfolding eff by (rule sat_ge[OF assms(2)]) simp
  have "i64_min \<le> base_secs e + int ?d" using assms(2) unfolding in_i64_def by linarith
  then have "effective_seed_time_secs e now \<le> base_secs e + int ?d" unfolding eff by (rule sat_le)
  moreover have "?d * 10 ^ 9 \<le> now - stint_started e" by (rule div_times_less_eq_dividend)
  then have "int (?d * 10 ^ 9) \<le> int (now - stint_started e)" by (simp only: of_nat_le_iff)
  then have "int ?d * 10 ^ 9 \<le> int (now - stint_started e)" by simp
  ultimately show "effective_seed_time_secs e now * 10 ^ 9 \<le> base_secs e * 10 ^ 9 + int (now - stint_started e)"
    by simp
  assume "effective_seed_time_secs e now < i64_max"
  then have "base_secs e + int ?d \<le> effective_seed_time_secs e now" unfolding eff by (rule sat_below)
  moreover have "now - stint_started e < (?d + 1) * 10 ^ 9" using dividend_less_div_times[of "10 ^ 9" "now - stint_started e"] by simp
  then have "int (now - stint_started e) < int ((?d + 1) * 10 ^ 9)" by (simp only: of_nat_less_iff)
  then have "int (now - stint_started e) < (int ?d + 1) * 10 ^ 9" by (simp add: algebra_simps)
  ultimately show "base_secs e * 10 ^ 9 + int (now - stint_started e) < (effective_seed_time_secs e now + 1) * 10 ^ 9"
    by simp
qed

lemma effective_mono:
  "t \<le> now \<Longrightarrow> now < 2 ^ 63 * 10 ^ 9 \<Longrightarrow> effective_seed_time_secs e t \<le> effective_seed_time_secs e now"
  using stint_cast[of t] stint_cast[of now]
  by (simp add: effective_seed_time_secs_def sat_mono div_le_mono diff_le_mono)

lemma slot_time:
  assumes "slot_step_of t now k st st'" "seed_ok t st" "seed_ok now st'" "t \<le> now" "now < 2 ^ 63 * 10 ^ 9"
  shows "seed_secs t st k \<le> seed_secs now st' k
    \<and> seed_phi now st' k \<le> seed_phi t st k + int (if is_seeding k st \<or> is_seeding k st' then now - t else 0)"
proof -
  have past: "stint_started e \<le> t \<and> in_i64 (base_secs e)" if "bt_get (active st) k = Some e" for e
    using seed_ok_parts(1,3)[OF assms(2)] bt_get_in that by metis
  consider (stay) e e' where "bt_get (active st) k = Some e" "bt_get (active st') k = Some e'"
      "base_secs e' = base_secs e" "stint_started e' = stint_started e"
    | (down) e s where "bt_get (active st) k = Some e" "bt_get (active st') k = None"
      "map_of (queued st') k = Some s" "q_base_secs s = effective_seed_time_secs e now"
    | (up) s e where "bt_get (active st) k = None" "map_of (queued st) k = Some s" "bt_get (active st') k = Some e"
      "base_secs e = q_base_secs s" "t \<le> stint_started e" "stint_started e \<le> now"
    | (wait) s where "bt_get (active st) k = None" "bt_get (active st') k = None"
      "map_of (queued st) k = Some s" "map_of (queued st') k = Some s"
    using assms(1) unfolding slot_step_def by blast
  then show ?thesis
  proof cases
    case stay
    have "effective_seed_time_secs e' now = effective_seed_time_secs e now"
      using stay by (simp add: effective_seed_time_secs_def)
    then show ?thesis using stay past[OF stay(1)] effective_mono[OF assms(4,5)] assms(4)
      by (simp add: seed_secs_def seed_phi_def is_seeding_def of_nat_diff)
  next
    case down
    then show ?thesis
      using past[OF down(1)] effective_mono[OF assms(4,5), of e] effective_facts(2)[OF assms(5), of e] assms(4)
      by (simp add: seed_secs_def seed_phi_def is_seeding_def of_nat_diff)
  next
    case up
    have "in_i64 (base_secs e)" using seed_ok_parts(1,3)[OF assms(3)] bt_get_in up(3) by metis
    from effective_facts(1)[OF assms(5) this] show ?thesis using up
      by (simp add: seed_secs_def seed_phi_def is_seeding_def of_nat_diff)
  next
    case wait
    then show ?thesis by (simp add: seed_secs_def seed_phi_def)
  qed
qed

lemma slot_registered: "slot_step_of t now k st st' \<Longrightarrow> registered k st'"
  by (auto simp: slot_step_def registered_iff)

lemma phi_secs:
  assumes "seed_ok t st" "t < 2 ^ 63 * 10 ^ 9" "registered k st"
  shows "seed_secs t st k * 10 ^ 9 \<le> seed_phi t st k"
    and "seed_secs t st k < i64_max \<Longrightarrow> seed_phi t st k < (seed_secs t st k + 1) * 10 ^ 9"
proof -
  have b: "in_i64 (base_secs e)" if "bt_get (active st) k = Some e" for e
    using seed_ok_parts(1,3)[OF assms(1)] bt_get_in that by metis
  show "seed_secs t st k * 10 ^ 9 \<le> seed_phi t st k"
    using effective_facts(2)[OF assms(2) b]
    by (auto simp: seed_secs_def seed_phi_def split: option.splits)
  show "seed_secs t st k < i64_max \<Longrightarrow> seed_phi t st k < (seed_secs t st k + 1) * 10 ^ 9"
    using effective_facts(3)[OF assms(2) b]
    by (auto simp: seed_secs_def seed_phi_def split: option.splits)
qed

lemma run_time:
  assumes "seed_ok t st" "fair_iter iter" "timed_events t evs" "registered k st"
    and "\<forall>now. (now, Unregister k) \<notin> set evs" "end_time t evs < 2 ^ 63 * 10 ^ 9"
  shows "seed_secs t st k \<le> seed_secs (end_time t evs) (seed_exec iter st evs) k
    \<and> seed_phi (end_time t evs) (seed_exec iter st evs) k \<le> seed_phi t st k + int (active_ns iter k t st evs)
    \<and> registered k (seed_exec iter st evs)"
  using assms(1,3-6)
proof (induction evs arbitrary: t st)
  case (Cons x evs)
  obtain now ev where x: "x = (now, ev)" by (cases x)
  let ?st = "seed_handle iter now ev st"
  have ev: "t \<le> now" "event_ok t now ev" "timed_events now evs" "ev \<noteq> Unregister k"
    using Cons.prems x by auto
  have "now \<le> end_time now evs" using ev(3) by (induction evs arbitrary: now) (auto intro: order_trans)
  then have lim: "now < 2 ^ 63 * 10 ^ 9" using Cons.prems(5) x by simp
  have s: "slot_step_of t now k st ?st"
    by (rule seed_handle_slot[OF Cons.prems(1) assms(2) ev(2) Cons.prems(3) ev(4)])
  have ok: "seed_ok now ?st" by (rule seed_handle_ok[OF Cons.prems(1) assms(2) ev(2,1)])
  note one = slot_time[OF s Cons.prems(1) ok ev(1) lim]
  have "\<forall>now. (now, Unregister k) \<notin> set evs" "end_time now evs < 2 ^ 63 * 10 ^ 9"
    using Cons.prems(4,5) x by auto
  from Cons.IH[OF ok ev(3) slot_registered[OF s] this] one show ?case
    by (simp add: x Let_def)
qed simp

text \<open>
  Seeding time counts the time a task was active, across any number of queueings and
  activations: over a run in which a task stays registered its recorded seconds never decrease,
  and they grow by at most one second more than the time in which the task was running; waiting
  in the queue adds nothing.  (Up to the range of the 64-bit counters.)
\<close>

theorem seeding_time_counts_activity:
  assumes "seed_ok t st" "fair_iter iter" "timed_events t evs" "registered k st"
    and "\<forall>now. (now, Unregister k) \<notin> set evs" "end_time t evs < 2 ^ 63 * 10 ^ 9" "seed_secs t st k < i64_max"
  shows "seed_secs t st k \<le> seed_secs (end_time t evs) (seed_exec iter st evs) k
    \<and> (seed_secs (end_time t evs) (seed_exec iter st evs) k - seed_secs t st k - 1) * 10 ^ 9
        < int (active_ns iter k t st evs)"
proof -
  note r = run_time[OF assms(1-6)]
  have ok: "seed_ok (end_time t evs) (seed_exec iter st evs)" by (rule seed_exec_ok[OF assms(1-3)])
  have "t \<le> end_time t evs" using assms(3) by (induction evs arbitrary: t) (auto intro: order_trans)
  then have lim: "t < 2 ^ 63 * 10 ^ 9" using assms(6) by simp
  have "seed_secs (end_time t evs) (seed_exec iter st evs) k * 10 ^ 9 \<le> seed_phi (end_time t evs) (seed_exec iter st evs) k"
    using phi_secs(1)[OF ok assms(6)] r by blast
  also have "\<dots> \<le> seed_phi t st k + int (active_ns iter k t st evs)" using r by blast
  finally show ?thesis
    using phi_secs(2)[OF assms(1) lim assms(4,7)] r by (simp add: algebra_simps)
qed

lemma seeding_time_counts_activity_witness:
  "seed_secs 25 crowded ''b'' \<le>
     seed_secs (6 * 10 ^ 9) (seed_exec (\<lambda>m. m) crowded [(5 * 10 ^ 9, Reconcile (\<lambda>_. 30)), (6 * 10 ^ 9, SetCap 2)]) ''b''"
proof -
  have "seed_ok 25 crowded"
    by (simp add: seed_ok_def crowded_def new_entry_def all_task_ids_def bt_wf_def in_i64_def i64_min_def i64_max_def)
  then show ?thesis
    using seeding_time_counts_activity[of 25 crowded "\<lambda>m. m" "[(5 * 10 ^ 9, Reconcile (\<lambda>_. 30)), (6 * 10 ^ 9, SetCap 2)]" "''b''"]
    by (simp add: fair_id registered_def all_task_ids_def crowded_def new_entry_def seed_secs_def
        effective_seed_time_secs_def stint_secs_def u64_as_i64_def sat_i64_def i64_max_def i64_min_def del: seed_exec.simps)
qed

section \<open>Stopping\<close>

text \<open>The conditions of a configuration that are switched on, each with whether it holds.\<close>

definition conditions :: "nat \<Rightarrow> seeding_entry \<Rightarrow> upload_snapshot \<Rightarrow> seed_limits \<Rightarrow> (seed_stop \<times> bool) list" where
  "conditions now e snap c =
     (if 0 < ratio_limit c then [(RatioReached, ratio_hit snap c)] else [])
   @ (if 0 < post_ratio_limit c then [(RatioReached, post_ratio_hit (uploaded_at_completion e) snap c)] else [])
   @ (if 0 < seed_time_minutes c then [(TimeReached, time_hit (effective_seed_time_secs e now) c)] else [])
   @ (if 0 < inactive_minutes c then [(InactiveTimeReached, inactive_hit now (last_upload e) snap c)] else [])"

definition must_stop :: "nat \<Rightarrow> seeding_entry \<Rightarrow> upload_snapshot \<Rightarrow> seed_limits \<Rightarrow> bool" where
  "must_stop now e snap c \<longleftrightarrow> (case operator c of
       OpAnd \<Rightarrow> conditions now e snap c \<noteq> [] \<and> (\<forall>(r, b) \<in> set (conditions now e snap c). b)
     | OpOr \<Rightarrow> (\<exists>(r, b) \<in> set (conditions now e snap c). b))"

lemma hits_enabled:
  "ratio_hit snap c \<Longrightarrow> 0 < ratio_limit c" "post_ratio_hit a snap c \<Longrightarrow> 0 < post_ratio_limit c"
  "time_hit secs c \<Longrightarrow> 0 < seed_time_minutes c" "inactive_hit now lu snap c \<Longrightarrow> 0 < inactive_minutes c"
  by (simp_all add: ratio_hit_def post_ratio_hit_def time_hit_def inactive_hit_def)

lemma evaluate_entry_spec:
  assumes "hit = evaluate_entry now (effective_seed_time_secs e now) (last_upload e) (uploaded_at_completion e) snap c"
  shows "hit = (if must_stop now e snap c then fst (hd (filter snd (conditions now e snap c))) else StopNone)
    \<and> (must_stop now e snap c \<longrightarrow> hit \<noteq> StopNone)"
proof -
  define r where "r = ratio_hit snap c"
  define p where "p = post_ratio_hit (uploaded_at_completion e) snap c"
  define t where "t = time_hit (effective_seed_time_secs e now) c"
  define i where "i = inactive_hit now (last_upload e) snap c"
  have en: "r \<Longrightarrow> 0 < ratio_limit c" "p \<Longrightarrow> 0 < post_ratio_limit c" "t \<Longrightarrow> 0 < seed_time_minutes c" "i \<Longrightarrow> 0 < inactive_minutes c"
    unfolding r_def p_def t_def i_def using hits_enabled by blast+
  have h: "hit = (if \<not> has_enabled_conditions c then StopNone
      else case operator c of
          OpAnd \<Rightarrow> (if (ratio_limit c \<le> 0 \<or> r) \<and> (post_ratio_limit c \<le> 0 \<or> p)
                 \<and> (seed_time_minutes c = 0 \<or> t) \<and> (inactive_minutes c = 0 \<or> i)
             then if r \<or> p then RatioReached else if t then TimeReached else InactiveTimeReached else StopNone)
        | OpOr \<Rightarrow> (if r \<or> p then RatioReached else if t then TimeReached else if i then InactiveTimeReached else StopNone))"
    unfolding assms evaluate_entry_def Let_def r_def p_def t_def i_def by (rule refl)
  have cs: "conditions now e snap c =
      (if 0 < ratio_limit c then [(RatioReached, r)] else []) @ (if 0 < post_ratio_limit c then [(RatioReached, p)] else [])
      @ (if 0 < seed_time_minutes c then [(TimeReached, t)] else []) @ (if 0 < inactive_minutes c then [(InactiveTimeReached, i)] else [])"
    by (simp add: conditions_def r_def p_def t_def i_def)
  show ?thesis unfolding must_stop_def h cs has_enabled_conditions_def
    using en
    by (cases "0 < ratio_limit c"; cases "0 < post_ratio_limit c"; cases "0 < seed_time_minutes c";
        cases "0 < inactive_minutes c"; cases "operator c"; cases r; cases p; cases t; cases i) simp_all
qed

lemma evaluate_one_spec:
  "fst (evaluate_one now c snap e) =
     (if must_stop now (note_activity now snap e) snap c
      then fst (hd (filter snd (conditions now (note_activity now snap e) snap c))) else StopNone)
   \<and> (fst (evaluate_one now c snap e) \<noteq> StopNone \<longleftrightarrow> must_stop now (note_activity now snap e) snap c)"
proof (cases "has_enabled_conditions c")
  case True
  then show ?thesis
    using evaluate_entry_spec[OF refl, of now "note_activity now snap e" snap c] by (auto simp: evaluate_one_def Let_def)
next
  case False
  then have "conditions now e' snap c = []" for e' by (simp add: conditions_def has_enabled_conditions_def)
  then have "\<not> must_stop now e' snap c" for e' by (simp add: must_stop_def split: seed_operator.split)
  then show ?thesis using False by (simp add: evaluate_one_def Let_def)
qed

text \<open>
  A seeder is stopped exactly when its effective limits say so: under \<^verbatim>\<open>or\<close> when some enabled
  condition holds, under \<^verbatim>\<open>and\<close> when some condition is enabled and all enabled ones hold; the reason
  given is that of the first condition that holds, in the order ratio, time, inactivity.  Without
  enabled conditions nothing ever stops, queued tasks are not looked at, and an upload observed
  now restarts the inactivity clock before the decision.
\<close>

theorem stops_exactly_when_due:
  "fst (evaluate_limits now res st) =
     map (\<lambda>(k, e). (k, fst (hd (filter snd (conditions now (note_activity now (snd (res k)) e) (snd (res k)) (fst (res k)))))))
       (filter (\<lambda>(k, e). must_stop now (note_activity now (snd (res k)) e) (snd (res k)) (fst (res k))) (active st))
    \<and> queued (snd (evaluate_limits now res st)) = queued st"
proof -
  have "filter (\<lambda>(_, r, _). r \<noteq> StopNone) (map (\<lambda>(k, e). (k, evaluate_one now (fst (res k)) (snd (res k)) e)) m)
    = map (\<lambda>(k, e). (k, evaluate_one now (fst (res k)) (snd (res k)) e))
        (filter (\<lambda>(k, e). must_stop now (note_activity now (snd (res k)) e) (snd (res k)) (fst (res k))) m)" for m
    by (induction m) (simp_all add: evaluate_one_spec[THEN conjunct2] split_def)
  then show ?thesis
    using evaluate_one_spec[THEN conjunct1]
    by (auto simp: evaluate_limits_def Let_def split_def comp_def intro!: map_cong)
qed

end
