(* ===== verification/Task_Policy.thy ===== *)
theory Task_Policy
  imports Prelude Rust_Text
begin

unbundle bit_operations_syntax

text \<open>
  The pure decisions of the task manager (\<^verbatim>\<open>native/engine/src/download_manager.rs\<close>): which addresses
  are BitTorrent, which errors are retried, which route is tried next in automatic proxy mode, how
  long a retry waits, and which edges of the daily queue schedule are due.  Error messages are
  lower-cased on ASCII letters only; \<^verbatim>\<open>str::to_lowercase\<close> also maps other scripts, which the patterns
  never mention.
\<close>

section \<open>Text patterns\<close>

definition starts_with :: "string \<Rightarrow> string \<Rightarrow> bool" where
  "starts_with s p \<longleftrightarrow> take (length p) s = p"

definition ends_with :: "string \<Rightarrow> string \<Rightarrow> bool" where
  "ends_with s p \<longleftrightarrow> length p \<le> length s \<and> drop (length s - length p) s = p"

fun has_substring :: "string \<Rightarrow> string \<Rightarrow> bool" where
  "has_substring [] p \<longleftrightarrow> p = []"
| "has_substring (c # cs) p \<longleftrightarrow> starts_with (c # cs) p \<or> has_substring cs p"

definition ascii_lower :: "char \<Rightarrow> char" where
  "ascii_lower c = (let n = (of_char c :: nat) in if 65 \<le> n \<and> n \<le> 90 then char_of (n + 32) else c)"

definition to_lowercase :: "string \<Rightarrow> string" where
  "to_lowercase s = map ascii_lower s"

text \<open>\<^verbatim>\<open>url.get(..n)\<close> compared with \<^verbatim>\<open>eq_ignore_ascii_case\<close>\<close>

definition is_magnet :: "string \<Rightarrow> bool" where
  "is_magnet url \<longleftrightarrow> to_lowercase (take 8 url) = ''magnet:?''"

definition is_torrent_file_url :: "string \<Rightarrow> bool" where
  "is_torrent_file_url url \<longleftrightarrow> starts_with url ''torrent-file://''"

definition is_bt_url :: "string \<Rightarrow> bool" where
  "is_bt_url url \<longleftrightarrow> is_magnet url \<or> is_torrent_file_url url"

section \<open>Errors worth another attempt\<close>

definition retriable_words :: "string list" where
  "retriable_words =
     [''stalled'', ''error sending request'', ''request failed'', ''segment 0 failed'',
      ''connection reset'', ''connection refused'', ''timed out'', ''timeout'', ''broken pipe'',
      ''network unreachable'', ''network is down'', ''no route to host'', ''eof'',
      ''connection closed'', ''connection abort'', ''incomplete download'',
      ''error decoding response body'', ''dns'', ''lookup'', ''no such host'',
      ''name or service not known'', ''nodename nor servname provided'',
      ''temporary failure in name resolution'', ''503 service unavailable'', ''502 bad gateway'',
      ''429 too many requests'', ''content-encoding'', ''piece verification failed'',
      ''track probe failed'']"

definition is_retriable_error :: "string \<Rightarrow> bool" where
  "is_retriable_error msg \<longleftrightarrow>
     (let lower = to_lowercase msg in
      list_ex (has_substring lower) retriable_words
      \<or> has_substring lower ''segment '' \<and> has_substring lower '' failed after ''
      \<or> has_substring lower ''resolve'' \<and> has_substring lower ''failed'')"

definition transport_words :: "string list" where
  "transport_words =
     [''connection refused'', ''connection reset'', ''timed out'', ''timeout'',
      ''network unreachable'', ''network is down'', ''no route to host'', ''dns'', ''stalled'',
      ''broken pipe'', ''eof'', ''connection closed'', ''connection abort'',
      ''incomplete download'', ''error decoding response body'']"

definition is_route_transport_error :: "string \<Rightarrow> bool" where
  "is_route_transport_error msg \<longleftrightarrow> list_ex (has_substring (to_lowercase msg)) transport_words"

text \<open>The wait before the \<open>attempt\<close>-th automatic retry; \<open>max_retries\<close> is \<open>-1\<close> for no limit.\<close>

definition max_auto_retry_delay_secs :: nat where "max_auto_retry_delay_secs = 300"

definition retry_delay :: "int \<Rightarrow> nat \<Rightarrow> nat \<Rightarrow> nat" where
  "retry_delay max_retries delay attempt =
     (let base = (if max_retries = -1 then max delay 1 else delay)
      in min (sat_mul_u64 base attempt) max_auto_retry_delay_secs)"

section \<open>The next route in automatic proxy mode\<close>

datatype candidate_source = ManualFields | SystemProxy

datatype failover_target = ViaProxy candidate_source | Direct

record failover_attempts =
  tried_direct :: bool
  tried_manual :: bool
  tried_system :: bool

definition no_attempts :: failover_attempts where
  "no_attempts = \<lparr> tried_direct = False, tried_manual = False, tried_system = False \<rparr>"

definition mark_source :: "candidate_source \<Rightarrow> failover_attempts \<Rightarrow> failover_attempts" where
  "mark_source src a = (case src of
       ManualFields \<Rightarrow> a\<lparr>tried_manual := True\<rparr> | SystemProxy \<Rightarrow> a\<lparr>tried_system := True\<rparr>)"

definition source_attempted :: "failover_attempts \<Rightarrow> candidate_source \<Rightarrow> bool" where
  "source_attempted a src = (case src of ManualFields \<Rightarrow> tried_manual a | SystemProxy \<Rightarrow> tried_system a)"

text \<open>The route that has just failed is marked as tried.\<close>

definition mark_failed_route :: "string \<Rightarrow> candidate_source list \<Rightarrow> failover_attempts \<Rightarrow> failover_attempts" where
  "mark_failed_route route sources a =
     (if starts_with route ''proxy'' then
        if ends_with route '':manual'' then mark_source ManualFields a
        else if ends_with route '':system'' then mark_source SystemProxy a
        else if length sources = 1 then mark_source (hd sources) a
        else a
      else a\<lparr>tried_direct := True\<rparr>)"

definition auto_failover_target ::
  "string \<Rightarrow> string \<Rightarrow> candidate_source list \<Rightarrow> bool \<Rightarrow> failover_attempts
     \<Rightarrow> failover_target option \<times> failover_attempts" where
  "auto_failover_target route err sources reachable a =
     (if \<not> is_route_transport_error err then (None, a)
      else
        let a1 = mark_failed_route route sources a in
        case find (\<lambda>src. \<not> source_attempted a1 src) sources of
          Some src \<Rightarrow> (Some (ViaProxy src), mark_source src a1)
        | None \<Rightarrow>
            if reachable \<and> \<not> tried_direct a1 then (Some Direct, a1\<lparr>tried_direct := True\<rparr>)
            else (None, a1))"

section \<open>The daily schedule of a queue\<close>

record queue_info =
  queue_name :: string
  queue_max :: int
  is_running :: bool
  schedule_enabled :: bool
  schedule_start :: string
  schedule_stop :: string
  schedule_days :: int

fun split_once :: "char \<Rightarrow> string \<Rightarrow> (string \<times> string) option" where
  "split_once sep [] = None"
| "split_once sep (c # cs) =
     (if c = sep then Some ([], cs) else map_option (\<lambda>(a, b). (c # a, b)) (split_once sep cs))"

definition parse_hhmm :: "string \<Rightarrow> nat option" where
  "parse_hhmm s =
     Option.bind (split_once (CHR '':'') s) (\<lambda>(h, m).
     Option.bind (parse_unsigned (2 ^ 32 - 1) h) (\<lambda>h.
     Option.bind (parse_unsigned (2 ^ 32 - 1) m) (\<lambda>m.
     if h < 24 \<and> m < 60 then Some (h * 60 + m) else None)))"

definition effective_upload_bps :: "int \<Rightarrow> int option \<Rightarrow> nat" where
  "effective_upload_bps task_bps queue_kbps =
     (if 0 < task_bps then nat task_bps
      else nat (max (case queue_kbps of None \<Rightarrow> 0 | Some k \<Rightarrow> k) 0) * 1024)"

text \<open>An edge is a queue and whether it starts (\<open>True\<close>) or stops it; \<open>fired\<close> is the day it last fired.\<close>

type_synonym edge = "string \<times> bool"
type_synonym fired_book = "edge \<Rightarrow> nat option"

definition edge_step ::
  "string \<Rightarrow> fired_book \<Rightarrow> nat \<Rightarrow> nat \<Rightarrow> edge list \<times> (nat \<times> bool) option
     \<Rightarrow> nat option \<times> bool \<Rightarrow> edge list \<times> (nat \<times> bool) option" where
  "edge_step = (\<lambda>qid fired today now (passed, newest) (time, start).
     case time of
       None \<Rightarrow> (passed, newest)
     | Some minute \<Rightarrow>
         if now < minute then (passed, newest)
         else if fired (qid, start) = Some today then (passed, newest)
         else (passed @ [(qid, start)],
               if (case newest of None \<Rightarrow> True | Some (m, _) \<Rightarrow> m \<le> minute) then Some (minute, start)
               else newest))"

definition due_queue ::
  "fired_book \<Rightarrow> nat \<Rightarrow> int \<Rightarrow> nat \<Rightarrow> string \<times> queue_info \<Rightarrow> edge list \<times> edge list" where
  "due_queue fired today day_bit now = (\<lambda>(qid, q).
     if \<not> schedule_enabled q \<or> schedule_days q AND day_bit = 0 then ([], [])
     else
       let (passed, newest) = foldl (edge_step qid fired today now) ([], None)
             [(parse_hhmm (schedule_start q), True), (parse_hhmm (schedule_stop q), False)]
       in (passed, case newest of Some (_, start) \<Rightarrow> [(qid, start)] | None \<Rightarrow> []))"

definition due_schedule_actions ::
  "(string \<times> queue_info) list \<Rightarrow> fired_book \<Rightarrow> nat \<Rightarrow> int \<Rightarrow> nat \<Rightarrow> edge list \<times> edge list" where
  "due_schedule_actions queues fired today day_bit now =
     (concat (map (fst \<circ> due_queue fired today day_bit now) queues),
      concat (map (snd \<circ> due_queue fired today day_bit now) queues))"

definition note_fired :: "nat \<Rightarrow> edge list \<Rightarrow> fired_book \<Rightarrow> fired_book" where
  "note_fired today passed fired = foldl (\<lambda>f e. f(e := Some today)) fired passed"

text \<open>The guards of \<open>set_queue_schedule\<close>: \<open>None\<close> when the update is ignored.\<close>

definition schedule_update :: "bool \<Rightarrow> string \<Rightarrow> string \<Rightarrow> int \<Rightarrow> queue_info \<Rightarrow> queue_info option" where
  "schedule_update enabled start stop days q =
     (if start \<noteq> [] \<and> parse_hhmm start = None \<or> stop \<noteq> [] \<and> parse_hhmm stop = None then None
      else Some (q\<lparr> schedule_enabled := enabled \<and> \<not> (start = [] \<and> stop = []),
                    schedule_start := start, schedule_stop := stop,
                    schedule_days := (if days AND 0x7f = 0 then 0x7f else days AND 0x7f) \<rparr>))"

section \<open>Facts\<close>

lemma edge_step_passed:
  "set (fst (edge_step qid fired today now (passed, newest) (time, start))) =
     set passed \<union> (case time of Some m \<Rightarrow> if m \<le> now \<and> fired (qid, start) \<noteq> Some today then {(qid, start)} else {}
                       | None \<Rightarrow> {})"
  by (auto simp: edge_step_def split: option.split)

lemma note_fired_apply: "note_fired today passed fired e = (if e \<in> set passed then Some today else fired e)"
  unfolding note_fired_def by (induction passed arbitrary: fired) auto

end
