(* ===== verification/Task_Queue.thy ===== *)
theory Task_Queue
  imports Task_Policy
begin

text \<open>
  The task scheduler (\<^verbatim>\<open>DownloadManager\<close> of \<^verbatim>\<open>native/engine/src/download_manager.rs\<close>).  The manager is
  owned by one actor, so each method runs as one step; what the spawned downloaders do in between
  arrives as separate events.  The part of a database row the scheduler reads is in the state, and
  writes to it are assumed to succeed.  Hash maps are ordered maps; where the code iterates over
  one, the order is the parameter \<open>hash_order\<close>.  Whether the BitTorrent session can be opened for a
  spawn is the parameter \<open>bt_error\<close>, and the route label the automatic proxy mode picks for a spawn,
  given the target a failover forces, the parameter \<open>route_label\<close>.  Webhook events for drained queues and user pauses are logged;
  other events to the interface only read the state.
\<close>

section \<open>State\<close>

record env =
  hash_order :: "string list \<Rightarrow> string list"
  bt_error :: "nat \<Rightarrow> string option"
  route_label :: "nat \<Rightarrow> failover_target option \<Rightarrow> string"

record queued_task =
  task_id :: string
  url :: string
  is_resume :: bool
  torrent_file_bytes :: "nat list"
  queue_id :: string
  resolver_plugin_id :: string
  resolved :: bool

text \<open>\<open>entry_spawned\<close>: the join handle has been filled in.\<close>

record task_entry =
  entry_gen :: nat
  entry_spawned :: bool
  entry_bt :: bool
  entry_queue :: string

record pending_pause =
  pause_gen :: nat
  pause_notify :: bool
  resume_requested :: bool

datatype pending_resolve = ResolveStart queued_task nat | ResolveResume nat

fun resolve_gen :: "pending_resolve \<Rightarrow> nat" where
  "resolve_gen (ResolveStart q g) = g"
| "resolve_gen (ResolveResume g) = g"

text \<open>A row of \<^verbatim>\<open>tasks\<close>; status 0 pending, 1 downloading, 2 paused, 3 completed, 4 error, 5 preparing.\<close>

record task_row =
  status :: int
  error_message :: string
  row_url :: string
  row_queue :: string
  row_order :: int
  created_at :: string
  seeding_status :: int
  row_torrent :: "nat list"
  row_resolver :: string
  row_route :: string

datatype manager_log = QueueDrained string | TaskPaused string | DuplicateTorrent string string

text \<open>
  Besides the fields of the code: \<open>live\<close> are the spawned downloaders whose \<^verbatim>\<open>TaskDone\<close> has not been
  handled, \<open>cancelled\<close> the generations whose token is cancelled, \<open>timers\<close> the retries sent or waiting
  to be sent with their delays, newest first.
\<close>

record manager =
  max_concurrent :: nat
  queues :: "(string, queue_info) btree"
  schedule_fired :: fired_book
  active_tasks :: "(string, task_entry) btree"
  pending_queue :: "queued_task list"
  pending_pauses :: "(string, pending_pause) btree"
  pending_resolves :: "(string, pending_resolve) btree"
  resume_applied :: "(string, string) btree"
  priority_task_id :: "string option"
  auto_paused_ids :: "string list"
  generation :: nat
  max_auto_retries :: int
  auto_retry_delay_secs :: nat
  auto_retry_counts :: "(string, nat) btree"
  auto_failover_pending :: "(string, failover_target) btree"
  auto_failover_attempts :: "(string, failover_attempts) btree"
  retry_scheduled :: "(string, string) btree"
  occupied_queues :: "string list"
  rows :: "(string, task_row) btree"
  log :: "manager_log list"
  timers :: "(string \<times> nat) list"
  live :: "(string \<times> nat) list"
  cancelled :: "nat list"

definition set_status :: "string \<Rightarrow> int \<Rightarrow> string \<Rightarrow> manager \<Rightarrow> manager" where
  "set_status tid st msg m =
     m\<lparr>rows := bt_adjust tid (\<lambda>r. r\<lparr>status := st, error_message := msg\<rparr>) (rows m)\<rparr>"

definition row_status :: "manager \<Rightarrow> string \<Rightarrow> int option" where
  "row_status m tid = map_option status (bt_get (rows m) tid)"

definition queued_ids :: "manager \<Rightarrow> string list" where
  "queued_ids m = map task_id (pending_queue m)"

definition is_task_in_error :: "manager \<Rightarrow> string \<Rightarrow> bool" where
  "is_task_in_error m tid = (case bt_get (rows m) tid of
       Some r \<Rightarrow> status r = 4 \<and> error_message r \<noteq> ''cancelled'' | None \<Rightarrow> False)"

section \<open>Capacity\<close>

definition http_active :: "manager \<Rightarrow> nat" where
  "http_active m = length (filter (\<lambda>e. \<not> entry_bt e) (bt_values (active_tasks m)))"

definition has_capacity :: "manager \<Rightarrow> bool" where
  "has_capacity m \<longleftrightarrow> max_concurrent m = 0 \<or> http_active m < max_concurrent m"

text \<open>\<^verbatim>\<open>max_concurrent as usize\<close> of a queue, 0 for an unknown queue.\<close>

definition queue_limit :: "manager \<Rightarrow> string \<Rightarrow> nat" where
  "queue_limit m qid = (case bt_get (queues m) qid of
       None \<Rightarrow> 0 | Some q \<Rightarrow> nat (queue_max q mod 2 ^ 64))"

definition queue_active :: "manager \<Rightarrow> string \<Rightarrow> nat" where
  "queue_active m qid = length (filter (\<lambda>e. entry_queue e = qid) (bt_values (active_tasks m)))"

definition has_queue_capacity :: "manager \<Rightarrow> string \<Rightarrow> bool" where
  "has_queue_capacity m qid \<longleftrightarrow>
     qid = [] \<or> queue_limit m qid = 0 \<or> queue_active m qid < queue_limit m qid"

text \<open>Webhooks for the queues that have just become empty.\<close>

definition occupied_now :: "manager \<Rightarrow> string list" where
  "occupied_now m = remdups (map entry_queue (bt_values (active_tasks m)) @ map queue_id (pending_queue m)
     @ bt_values (retry_scheduled m))"

definition sync_queue_occupancy :: "env \<Rightarrow> manager \<Rightarrow> manager" where
  "sync_queue_occupancy env m =
     (let occ = occupied_now m;
          drained = filter (\<lambda>q. q \<notin> set occ) (hash_order env (occupied_queues m))
      in m\<lparr>occupied_queues := occ, log := log m @ map QueueDrained drained\<rparr>)"

section \<open>Starting a task\<close>

definition add_active :: "string \<Rightarrow> bool \<Rightarrow> string \<Rightarrow> manager \<Rightarrow> manager" where
  "add_active tid bt qid m =
     (let g = Suc (generation m) in
      m\<lparr>generation := g,
        active_tasks := bt_insert tid \<lparr>entry_gen = g, entry_spawned = False, entry_bt = bt, entry_queue = qid\<rparr>
          (active_tasks m)\<rparr>)"

definition remove_active :: "string \<Rightarrow> manager \<Rightarrow> manager" where
  "remove_active tid m = m\<lparr>active_tasks := bt_remove tid (active_tasks m)\<rparr>"

definition spawn :: "string \<Rightarrow> manager \<Rightarrow> manager" where
  "spawn tid m =
     m\<lparr>active_tasks := bt_adjust tid (\<lambda>e. e\<lparr>entry_spawned := True\<rparr>) (active_tasks m),
       live := (tid, generation m) # live m\<rparr>"

definition set_route :: "string \<Rightarrow> string \<Rightarrow> manager \<Rightarrow> manager" where
  "set_route tid label m = m\<lparr>rows := bt_adjust tid (\<lambda>r. r\<lparr>row_route := label\<rparr>) (rows m)\<rparr>"

definition failover_label :: "failover_target \<Rightarrow> string" where
  "failover_label t = (case t of
       ViaProxy SystemProxy \<Rightarrow> ''proxy:failover:system''
     | ViaProxy ManualFields \<Rightarrow> ''proxy:failover:manual''
     | Direct \<Rightarrow> ''direct:failover'')"

text \<open>A downloader other than BitTorrent consumes the pending failover target.\<close>

definition spawn_start :: "env \<Rightarrow> string \<Rightarrow> manager \<Rightarrow> manager" where
  "spawn_start env tid m =
     (let label = (case bt_get (auto_failover_pending m) tid of
          Some t \<Rightarrow> failover_label t | None \<Rightarrow> route_label env (generation m) None)
      in spawn tid (set_route tid label
           (m\<lparr>auto_failover_pending := bt_remove tid (auto_failover_pending m)\<rparr>)))"

definition spawn_resume :: "env \<Rightarrow> string \<Rightarrow> manager \<Rightarrow> manager" where
  "spawn_resume env tid m =
     spawn tid (set_route tid (route_label env (generation m) (bt_get (auto_failover_pending m) tid))
       (m\<lparr>auto_failover_pending := bt_remove tid (auto_failover_pending m)\<rparr>))"

definition begin_resolve_start :: "queued_task \<Rightarrow> manager \<Rightarrow> manager" where
  "begin_resolve_start q m =
     (let bt = is_magnet (url q) \<or> torrent_file_bytes q \<noteq> [] \<or> is_torrent_file_url (url q);
          m1 = add_active (task_id q) bt (queue_id q) m
      in m1\<lparr>pending_resolves := bt_insert (task_id q) (ResolveStart q (generation m1)) (pending_resolves m1)\<rparr>)"

definition do_start_task :: "env \<Rightarrow> queued_task \<Rightarrow> manager \<Rightarrow> manager" where
  "do_start_task env q m =
     (if resolver_plugin_id q \<noteq> [] \<and> \<not> resolved q then begin_resolve_start q m
      else
        let use_bt = is_magnet (url q) \<or> torrent_file_bytes q \<noteq> [] \<or> is_torrent_file_url (url q);
            m1 = add_active (task_id q) use_bt (queue_id q) m
        in if use_bt then
             case bt_error env (generation m1) of
               Some msg \<Rightarrow> remove_active (task_id q) (set_status (task_id q) 4 msg m1)
             | None \<Rightarrow> spawn (task_id q) m1
           else spawn_start env (task_id q) m1)"

definition begin_resolve_resume :: "string \<Rightarrow> manager \<Rightarrow> manager" where
  "begin_resolve_resume tid m =
     (case bt_get (rows m) tid of
        None \<Rightarrow> m
      | Some r \<Rightarrow>
          let m1 = add_active tid (is_bt_url (row_url r)) (row_queue r) m
          in m1\<lparr>pending_resolves := bt_insert tid (ResolveResume (generation m1)) (pending_resolves m1)\<rparr>)"

definition torrent_lost :: string where
  "torrent_lost = ''torrent file bytes lost '' @ [CHR 0xE2, CHR 0x80, CHR 0x94] @ '' cannot resume''"

text \<open>The resume proper, for a task whose address is \<open>addr\<close>.\<close>

definition resume_spawn :: "env \<Rightarrow> string \<Rightarrow> string \<Rightarrow> task_row \<Rightarrow> manager \<Rightarrow> manager" where
  "resume_spawn env tid addr r m =
     (let use_bt = is_bt_url addr;
          m1 = add_active tid use_bt (row_queue r) m
      in if use_bt then
           case bt_error env (generation m1) of
             Some msg \<Rightarrow> remove_active tid (set_status tid 4 msg m1)
           | None \<Rightarrow>
               if is_torrent_file_url addr \<and> row_torrent r = []
               then remove_active tid (set_status tid 4 torrent_lost m1)
               else spawn tid m1
         else spawn_resume env tid m1)"

definition do_resume_task :: "env \<Rightarrow> string \<Rightarrow> manager \<Rightarrow> manager" where
  "do_resume_task env tid m =
     (case bt_get (rows m) tid of
        None \<Rightarrow> m
      | Some r \<Rightarrow>
          if row_resolver r = [] then resume_spawn env tid (row_url r) r m
          else case bt_get (resume_applied m) tid of
              None \<Rightarrow> begin_resolve_resume tid m
            | Some addr \<Rightarrow>
                resume_spawn env tid (if addr = [] then row_url r else addr) r
                  (m\<lparr>resume_applied := bt_remove tid (resume_applied m)\<rparr>))"

section \<open>Draining the queue\<close>

fun drain_loop :: "env \<Rightarrow> bool \<Rightarrow> queued_task list \<Rightarrow> manager \<Rightarrow> queued_task list \<times> manager" where
  "drain_loop env full [] m = ([], m)"
| "drain_loop env full (q # qs) m =
     (if full \<or> \<not> has_capacity m then
        let (kept, m') = drain_loop env True qs m in (q # kept, m')
      else if bt_get (active_tasks m) (task_id q) \<noteq> None then drain_loop env False qs m
      else if \<not> has_queue_capacity m (queue_id q) then
        let (kept, m') = drain_loop env False qs m in (q # kept, m')
      else
        drain_loop env False qs
          (if is_resume q then do_resume_task env (task_id q) m else do_start_task env q m))"

definition drain_queue :: "env \<Rightarrow> manager \<Rightarrow> manager" where
  "drain_queue env m =
     (let (kept, m') = drain_loop env False (pending_queue m) (m\<lparr>pending_queue := []\<rparr>)
      in m'\<lparr>pending_queue := kept\<rparr>)"

definition set_max_concurrent :: "env \<Rightarrow> nat \<Rightarrow> manager \<Rightarrow> manager" where
  "set_max_concurrent env n m = drain_queue env (m\<lparr>max_concurrent := n\<rparr>)"

definition enqueue_persisted_task :: "env \<Rightarrow> queued_task \<Rightarrow> manager \<Rightarrow> manager" where
  "enqueue_persisted_task env q m =
     (let bt = is_magnet (url q) \<or> torrent_file_bytes q \<noteq> [] in
      sync_queue_occupancy env
        (if bt \<or> has_capacity m \<and> has_queue_capacity m (queue_id q)
         then drain_queue env (do_start_task env q m)
         else m\<lparr>pending_queue := pending_queue m @ [q]\<rparr>))"

section \<open>Resuming\<close>

text \<open>A completed torrent whose seeding has stopped: handled by the seeding manager.\<close>

definition resumes_seeding :: "task_row \<Rightarrow> bool" where
  "resumes_seeding r \<longleftrightarrow> status r = 3 \<and> 2 \<le> seeding_status r \<and> seeding_status r \<le> 7"

definition queued_resume :: "string \<Rightarrow> task_row \<Rightarrow> queued_task" where
  "queued_resume tid r = \<lparr> task_id = tid, url = row_url r, is_resume = True, torrent_file_bytes = [],
     queue_id = row_queue r, resolver_plugin_id = [], resolved = False \<rparr>"

definition terminal_row :: "task_row option \<Rightarrow> bool" where
  "terminal_row r = (case r of Some r \<Rightarrow> status r = 3 \<or> status r = 4 | None \<Rightarrow> False)"

text \<open>The part of \<open>resume_task_inner\<close> after the latch and the check of the active entry.\<close>

definition resume_dispatch :: "env \<Rightarrow> string \<Rightarrow> manager \<Rightarrow> manager" where
  "resume_dispatch env tid m =
     (if tid \<in> set (queued_ids m) then m
      else
        let row = bt_get (rows m) tid in
        if (case row of Some r \<Rightarrow> resumes_seeding r | None \<Rightarrow> False) then m
        else
          let bt = (case row of Some r \<Rightarrow> is_bt_url (row_url r) | None \<Rightarrow> False);
              qid = (case row of Some r \<Rightarrow> row_queue r | None \<Rightarrow> [])
          in sync_queue_occupancy env
               (if bt \<or> has_capacity m \<and> has_queue_capacity m qid
                then drain_queue env (do_resume_task env tid m)
                else case row of
                    None \<Rightarrow> m
                  | Some r \<Rightarrow>
                      (let m1 = (if status r \<noteq> 3 then set_status tid 0 [] m else m)
                       in m1\<lparr>pending_queue := pending_queue m1 @ [queued_resume tid r]\<rparr>)))"

definition resume_task_inner :: "env \<Rightarrow> string \<Rightarrow> manager \<Rightarrow> manager" where
  "resume_task_inner env tid m0 =
     (let m = m0\<lparr>retry_scheduled := bt_remove tid (retry_scheduled m0)\<rparr> in
      if bt_get (pending_pauses m) tid \<noteq> None then
        m\<lparr>pending_pauses := bt_adjust tid (\<lambda>p. p\<lparr>resume_requested := True\<rparr>) (pending_pauses m)\<rparr>
      else if bt_get (active_tasks m) tid \<noteq> None then
        if terminal_row (bt_get (rows m) tid) then resume_dispatch env tid (remove_active tid m) else m
      else resume_dispatch env tid m)"

definition resume_task :: "env \<Rightarrow> string \<Rightarrow> manager \<Rightarrow> manager" where
  "resume_task env tid m =
     resume_task_inner env tid
       (m\<lparr>auto_retry_counts := bt_remove tid (auto_retry_counts m),
          auto_failover_attempts :=
            (if bt_get (auto_failover_pending m) tid = None then bt_remove tid (auto_failover_attempts m)
             else auto_failover_attempts m)\<rparr>)"

text \<open>The retry message arrives: the actor checks the row first.\<close>

definition retry_fires :: "env \<Rightarrow> string \<Rightarrow> manager \<Rightarrow> manager" where
  "retry_fires env tid m = (if is_task_in_error m tid then resume_task_inner env tid m else m)"

end
