(* ===== verification/Task_Control.thy ===== *)
theory Task_Control
  imports Task_Queue "HOL-Library.Product_Lexorder"
begin

text \<open>
  The operations of the task scheduler: pause, cancel, delete, their batch forms, the boost of one
  task, the end of a downloader with the automatic retries, the outcome of a resolver plugin, and
  the named queues with their schedule (\<^verbatim>\<open>native/engine/src/download_manager.rs\<close>), closed by the step
  relation of the actor.
\<close>

section \<open>Boost\<close>

definition clear_priority :: "env \<Rightarrow> manager \<Rightarrow> manager" where
  "clear_priority env m =
     foldl (\<lambda>m tid. if row_status m tid = Some 3 then m else resume_task env tid m)
       (m\<lparr>priority_task_id := None, auto_paused_ids := []\<rparr>) (hash_order env (auto_paused_ids m))"

definition clear_priority_if :: "env \<Rightarrow> string \<Rightarrow> manager \<Rightarrow> manager" where
  "clear_priority_if env tid m = (if priority_task_id m = Some tid then clear_priority env m else m)"

section \<open>Pausing\<close>

definition clear_pending_resolve :: "string \<Rightarrow> manager \<Rightarrow> manager" where
  "clear_pending_resolve tid m =
     m\<lparr>pending_resolves := bt_remove tid (pending_resolves m),
       resume_applied := bt_remove tid (resume_applied m)\<rparr>"

fun remove_first :: "string \<Rightarrow> queued_task list \<Rightarrow> queued_task list" where
  "remove_first tid [] = []"
| "remove_first tid (q # qs) = (if task_id q = tid then qs else q # remove_first tid qs)"

definition dequeue :: "string \<Rightarrow> manager \<Rightarrow> manager" where
  "dequeue tid m = m\<lparr>pending_queue := remove_first tid (pending_queue m)\<rparr>"

definition emit_paused :: "bool \<Rightarrow> string \<Rightarrow> manager \<Rightarrow> manager" where
  "emit_paused notify tid m =
     (if notify \<and> bt_get (rows m) tid \<noteq> None then m\<lparr>log := log m @ [TaskPaused tid]\<rparr> else m)"

text \<open>The active entry is taken out and its token cancelled.\<close>

definition cancel_active :: "string \<Rightarrow> manager \<Rightarrow> manager" where
  "cancel_active tid m = (case bt_get (active_tasks m) tid of
       None \<Rightarrow> m
     | Some e \<Rightarrow> (remove_active tid m)\<lparr>cancelled := entry_gen e # cancelled m\<rparr>)"

definition user_stopped :: int where "user_stopped = 4"

definition pause_seeding :: "string \<Rightarrow> manager \<Rightarrow> manager" where
  "pause_seeding tid m = (case bt_get (rows m) tid of
       Some r \<Rightarrow>
         if status r = 3 \<and> (seeding_status r = 1 \<or> seeding_status r = 8)
         then m\<lparr>rows := bt_adjust tid (\<lambda>r. r\<lparr>seeding_status := user_stopped\<rparr>) (rows m)\<rparr>
         else m
     | None \<Rightarrow> m)"

definition latch_pause :: "string \<Rightarrow> nat \<Rightarrow> bool \<Rightarrow> manager \<Rightarrow> manager" where
  "latch_pause tid g notify m =
     m\<lparr>pending_pauses := bt_insert tid \<lparr>pause_gen = g, pause_notify = notify, resume_requested = False\<rparr>
         (pending_pauses m)\<rparr>"

definition pause_task_inner :: "env \<Rightarrow> string \<Rightarrow> bool \<Rightarrow> manager \<Rightarrow> manager" where
  "pause_task_inner env tid notify m0 =
     (let m1 = clear_pending_resolve tid m0;
          m = m1\<lparr>retry_scheduled := bt_remove tid (retry_scheduled m1)\<rparr> in
      sync_queue_occupancy env
       (if bt_get (pending_pauses m) tid \<noteq> None then
          m\<lparr>pending_pauses := bt_adjust tid (\<lambda>p. p\<lparr>pause_notify := pause_notify p \<or> notify\<rparr>) (pending_pauses m)\<rparr>
        else if tid \<in> set (queued_ids m) then
          emit_paused notify tid (set_status tid 2 [] (dequeue tid m))
        else case bt_get (active_tasks m) tid of
          Some e \<Rightarrow>
            let m2 = cancel_active tid m;
                m3 = (if entry_spawned e then latch_pause tid (entry_gen e) notify m2 else m2);
                m4 = set_status tid 2 [] m3;
                m5 = (if entry_spawned e then m4 else emit_paused notify tid m4)
            in clear_priority_if env tid (drain_queue env m5)
        | None \<Rightarrow> emit_paused notify tid (pause_seeding tid m)))"

definition pause_task :: "env \<Rightarrow> string \<Rightarrow> manager \<Rightarrow> manager" where
  "pause_task env tid = pause_task_inner env tid True"

definition pause_task_silent :: "env \<Rightarrow> string \<Rightarrow> manager \<Rightarrow> manager" where
  "pause_task_silent env tid = pause_task_inner env tid False"

text \<open>The downloader of a pausing generation has ended: whether a resume was requested meanwhile.\<close>

definition finish_pending_pause :: "string \<Rightarrow> nat \<Rightarrow> manager \<Rightarrow> bool \<times> manager" where
  "finish_pending_pause tid g m =
     (case bt_get (pending_pauses m) tid of
        None \<Rightarrow> (False, m)
      | Some p \<Rightarrow>
          if pause_gen p \<noteq> g then (False, m)
          else
            let m1 = m\<lparr>pending_pauses := bt_remove tid (pending_pauses m)\<rparr> in
            if (case bt_get (active_tasks m1) tid of Some e \<Rightarrow> entry_gen e \<noteq> g | None \<Rightarrow> False) then (False, m1)
            else case bt_get (rows m1) tid of
                None \<Rightarrow> (False, m1)
              | Some r \<Rightarrow>
                  (resume_requested p \<and> (status r = 0 \<or> status r = 2),
                   if status r = 2 then emit_paused (pause_notify p) tid m1 else m1))"

section \<open>Cancel and delete\<close>

definition forget_retries :: "string \<Rightarrow> manager \<Rightarrow> manager" where
  "forget_retries tid m =
     m\<lparr>auto_retry_counts := bt_remove tid (auto_retry_counts m),
       auto_failover_pending := bt_remove tid (auto_failover_pending m),
       auto_failover_attempts := bt_remove tid (auto_failover_attempts m)\<rparr>"

definition cancel_task :: "env \<Rightarrow> string \<Rightarrow> manager \<Rightarrow> manager" where
  "cancel_task env tid m =
     drain_queue env
       (set_status tid 4 ''cancelled''
         (cancel_active tid (dequeue tid (clear_pending_resolve tid (forget_retries tid m)))))"

definition delete_row :: "string \<Rightarrow> manager \<Rightarrow> manager" where
  "delete_row tid m = m\<lparr>rows := bt_remove tid (rows m)\<rparr>"

definition delete_task :: "env \<Rightarrow> string \<Rightarrow> manager \<Rightarrow> manager" where
  "delete_task env tid m =
     (let m1 = forget_retries tid m;
          m2 = clear_pending_resolve tid (m1\<lparr>retry_scheduled := bt_remove tid (retry_scheduled m1)\<rparr>);
          m3 = delete_row tid (cancel_active tid (dequeue tid m2));
          m4 = m3\<lparr>auto_paused_ids := removeAll tid (auto_paused_ids m3)\<rparr>
      in sync_queue_occupancy env (drain_queue env (clear_priority_if env tid m4)))"

definition delete_tasks_batch :: "env \<Rightarrow> string list \<Rightarrow> manager \<Rightarrow> manager" where
  "delete_tasks_batch env ids m =
     (if ids = [] then m
      else
        let m1 = m\<lparr>pending_queue := filter (\<lambda>q. task_id q \<notin> set ids) (pending_queue m)\<rparr>;
            m2 = foldl (\<lambda>m tid. cancel_active tid m) m1 ids;
            m3 = foldl (\<lambda>m tid. delete_row tid m) m2 ids;
            m4 = foldl (\<lambda>m tid. clear_priority_if env tid
                   (m\<lparr>auto_paused_ids := removeAll tid (auto_paused_ids m),
                      retry_scheduled := bt_remove tid (retry_scheduled m)\<rparr>)) m3 ids
        in sync_queue_occupancy env (drain_queue env m4))"

section \<open>Batches\<close>

definition set_status_batch :: "string list \<Rightarrow> int \<Rightarrow> manager \<Rightarrow> manager" where
  "set_status_batch ids st m = foldl (\<lambda>m tid. set_status tid st [] m) m ids"

text \<open>Whether the task was queued, given its row as loaded before the batch began.\<close>

definition resume_task_with_row :: "env \<Rightarrow> string \<Rightarrow> task_row \<Rightarrow> manager \<Rightarrow> bool \<times> manager" where
  "resume_task_with_row env tid r m0 =
     (let m = m0\<lparr>auto_retry_counts := bt_remove tid (auto_retry_counts m0)\<rparr> in
      if bt_get (pending_pauses m) tid \<noteq> None then
        (False, m\<lparr>pending_pauses := bt_adjust tid (\<lambda>p. p\<lparr>resume_requested := True\<rparr>) (pending_pauses m)\<rparr>)
      else if bt_get (active_tasks m) tid \<noteq> None \<and> \<not> terminal_row (Some r) then (False, m)
      else
        let m1 = (if bt_get (active_tasks m) tid \<noteq> None then remove_active tid m else m) in
        if tid \<in> set (queued_ids m1) then (False, m1)
        else if resumes_seeding r then (False, m1)
        else if is_bt_url (row_url r) \<or> has_capacity m1 \<and> has_queue_capacity m1 (row_queue r)
        then (False, drain_queue env (do_resume_task env tid m1))
        else (True, m1\<lparr>pending_queue := pending_queue m1 @ [queued_resume tid r]\<rparr>))"

fun batch_resume_loop :: "env \<Rightarrow> (string \<times> task_row) list \<Rightarrow> manager \<Rightarrow> string list \<times> manager" where
  "batch_resume_loop env [] m = ([], m)"
| "batch_resume_loop env ((tid, r) # rest) m =
     (let (q, m1) = resume_task_with_row env tid r m;
          (qs, m2) = batch_resume_loop env rest m1
      in (if q \<and> status r \<noteq> 3 then tid # qs else qs, m2))"

definition batch_resume :: "env \<Rightarrow> string list \<Rightarrow> manager \<Rightarrow> manager" where
  "batch_resume env ids m =
     (let loaded = List.map_filter (\<lambda>tid. map_option (Pair tid) (bt_get (rows m) tid)) ids;
          (qs, m1) = batch_resume_loop env loaded m
      in set_status_batch qs 0 m1)"

text \<open>\<open>seeders\<close>: the tasks the seeding manager holds.\<close>

definition batch_pause :: "env \<Rightarrow> string list \<Rightarrow> string list \<Rightarrow> manager \<Rightarrow> manager" where
  "batch_pause env seeders ids m =
     (if ids = [] then m
      else
        let queued = filter (\<lambda>tid. tid \<in> set ids) (queued_ids m);
            m1 = set_status_batch queued 2
              (foldl (\<lambda>m tid. clear_pending_resolve tid m)
                (m\<lparr>pending_queue := filter (\<lambda>q. task_id q \<notin> set ids) (pending_queue m)\<rparr>) queued);
            act = filter (\<lambda>tid. tid \<in> set ids) (hash_order env (map fst (active_tasks m1)));
            m2 = foldl (\<lambda>m tid. pause_task_silent env tid m) m1 act
        in foldl (\<lambda>m tid. pause_task_silent env tid m) m2 (filter (\<lambda>tid. tid \<in> set ids) seeders))"

definition shutdown :: "manager \<Rightarrow> manager" where
  "shutdown m =
     m\<lparr>cancelled := map entry_gen (bt_values (active_tasks m)) @ cancelled m,
       active_tasks := [], pending_queue := []\<rparr>"

end
