(* ===== verification/Task_Events.thy ===== *)
theory Task_Events
  imports Task_Control
begin

text \<open>
  The remaining operations of the task scheduler: boosting a task, the end of a downloader, the
  outcome of a resolver plugin, the named queues and their schedule; and the steps of the actor
  that owns the manager.
\<close>

section \<open>Boosting a task\<close>

definition auto_pause :: "env \<Rightarrow> string \<Rightarrow> manager \<Rightarrow> manager" where
  "auto_pause env tid m = pause_task_silent env tid (m\<lparr>auto_paused_ids := List.insert tid (auto_paused_ids m)\<rparr>)"

definition active_ids :: "env \<Rightarrow> manager \<Rightarrow> string list" where
  "active_ids env m = hash_order env (map fst (active_tasks m))"

definition yield_to :: "env \<Rightarrow> string \<Rightarrow> manager \<Rightarrow> manager" where
  "yield_to env tid m =
     (let m1 = foldl (\<lambda>m i. auto_pause env i m) m (filter (\<lambda>i. i \<noteq> tid) (active_ids env m));
          m2 = foldl (\<lambda>m i. auto_pause env i m) m1 (filter (\<lambda>i. i \<noteq> tid) (queued_ids m1))
      in foldl (\<lambda>m i. auto_pause env i m) m2
           (filter (\<lambda>i. i \<noteq> tid \<and> i \<notin> set (auto_paused_ids m2)) (active_ids env m2)))"

definition set_priority_task :: "env \<Rightarrow> string \<Rightarrow> manager \<Rightarrow> manager" where
  "set_priority_task env tid m =
     (if tid = [] \<or> priority_task_id m = Some tid then clear_priority env m
      else
        let m1 = m\<lparr>auto_paused_ids := removeAll tid (auto_paused_ids m), priority_task_id := None\<rparr>;
            was_queued = tid \<in> set (queued_ids m1);
            m2 = (yield_to env tid (dequeue tid m1))\<lparr>priority_task_id := Some tid\<rparr>;
            m3 = (if bt_get (active_tasks m2) tid \<noteq> None then m2
                  else
                    let m' = m2\<lparr>auto_paused_ids := removeAll tid (auto_paused_ids m2)\<rparr>
                    in if was_queued then do_resume_task env tid m' else resume_task env tid m')
        in if bt_get (active_tasks m3) tid = None then clear_priority env m3 else m3)"

section \<open>The end of a downloader\<close>

definition duplicate_prefix :: string where
  "duplicate_prefix = ''duplicate torrent: already managed by task ''"

text \<open>
  What the automatic proxy mode answers for the task: whether a failover applies at all, the
  candidates in the order of preference, and whether the network is reachable.
\<close>

record failover_view =
  fo_applies :: bool
  fo_sources :: "candidate_source list"
  fo_reachable :: bool

definition schedule_retry :: "string \<Rightarrow> task_row \<Rightarrow> nat \<Rightarrow> manager \<Rightarrow> manager" where
  "schedule_retry tid r delay m =
     m\<lparr>retry_scheduled := bt_insert tid (row_queue r) (retry_scheduled m), timers := (tid, delay) # timers m\<rparr>"

definition try_failover :: "failover_view \<Rightarrow> string \<Rightarrow> task_row \<Rightarrow> manager \<Rightarrow> bool \<times> manager" where
  "try_failover fo tid r m =
     (if status r = 4 \<and> fo_applies fo then
        let a = (case bt_get (auto_failover_attempts m) tid of Some a \<Rightarrow> a | None \<Rightarrow> no_attempts);
            (target, a') = auto_failover_target (row_route r) (error_message r) (fo_sources fo) (fo_reachable fo) a;
            m1 = m\<lparr>auto_failover_attempts := bt_insert tid a' (auto_failover_attempts m)\<rparr>
        in case target of
             Some t \<Rightarrow>
               (True, schedule_retry tid r 0
                  (m1\<lparr>auto_failover_pending := bt_insert tid t (auto_failover_pending m1)\<rparr>))
           | None \<Rightarrow> (False, m1)
      else (False, m))"

definition try_auto_retry :: "string \<Rightarrow> task_row \<Rightarrow> manager \<Rightarrow> manager" where
  "try_auto_retry tid r m =
     (if max_auto_retries m \<noteq> 0 \<and> status r = 4 \<and> is_retriable_error (error_message r) then
        let n = (case bt_get (auto_retry_counts m) tid of Some n \<Rightarrow> n | None \<Rightarrow> 0);
            n' = (if max_auto_retries m = -1 \<or> int n < max_auto_retries m then Suc n else n);
            m1 = m\<lparr>auto_retry_counts := bt_insert tid n' (auto_retry_counts m)\<rparr>
        in if max_auto_retries m = -1 \<or> int n < max_auto_retries m
           then schedule_retry tid r (retry_delay (max_auto_retries m) (auto_retry_delay_secs m) n') m1
           else m1
      else m)"

definition drop_duplicate :: "env \<Rightarrow> string \<Rightarrow> task_row \<Rightarrow> manager \<Rightarrow> manager" where
  "drop_duplicate env tid r m =
     (let m1 = forget_retries tid m;
          m2 = delete_row tid (m1\<lparr>retry_scheduled := bt_remove tid (retry_scheduled m1)\<rparr>)
      in sync_queue_occupancy env
           (m2\<lparr>log := log m2 @ [DuplicateTorrent tid (drop (length duplicate_prefix) (error_message r))]\<rparr>))"

definition after_done :: "env \<Rightarrow> failover_view \<Rightarrow> string \<Rightarrow> task_row \<Rightarrow> manager \<Rightarrow> manager" where
  "after_done env fo tid r m =
     (if status r = 4 \<and> starts_with (error_message r) duplicate_prefix then drop_duplicate env tid r m
      else
        let (pending, m1) = try_failover fo tid r m;
            m2 = (if pending then m1 else try_auto_retry tid r m1);
            m3 = (if status r = 3 then forget_retries tid m2 else m2)
        in sync_queue_occupancy env m3)"

definition on_task_done :: "env \<Rightarrow> failover_view \<Rightarrow> string \<Rightarrow> nat \<Rightarrow> manager \<Rightarrow> manager" where
  "on_task_done env fo tid g m0 =
     (let m = m0\<lparr>live := removeAll (tid, g) (live m0)\<rparr>;
          matched = (case bt_get (active_tasks m) tid of Some e \<Rightarrow> entry_gen e = g | None \<Rightarrow> False);
          m1 = (if matched then clear_priority_if env tid (remove_active tid m) else m);
          (wanted, m2) = finish_pending_pause tid g m1;
          m3 = drain_queue env m2;
          m4 = (if wanted then resume_task_inner env tid m3 else m3)
      in case (if matched then bt_get (rows m4) tid else None) of
           Some r \<Rightarrow> after_done env fo tid r m4
         | None \<Rightarrow> sync_queue_occupancy env m4)"

section \<open>The outcome of a resolver\<close>

text \<open>\<open>Resolved addr\<close>: the resolver answered, with the empty address to keep the original one.\<close>

datatype resolve_result = Resolved string | ResolveFailed string | ResolveCancelled

datatype resolve_kind = KindStart | KindResume

definition on_resolve_ready ::
  "env \<Rightarrow> string \<Rightarrow> nat \<Rightarrow> resolve_kind \<Rightarrow> resolve_result \<Rightarrow> manager \<Rightarrow> manager" where
  "on_resolve_ready env tid g kind res m =
     (if map_option resolve_gen (bt_get (pending_resolves m) tid) \<noteq> Some g then
        (if map_option entry_gen (bt_get (active_tasks m) tid) = Some g
         then drain_queue env (remove_active tid m) else m)
      else
        let settle = (\<lambda>m. m\<lparr>pending_resolves := bt_remove tid (pending_resolves m)\<rparr>) in
        case res of
          ResolveCancelled \<Rightarrow> cancel_task env tid m
        | ResolveFailed msg \<Rightarrow>
            (if bt_get (rows m) tid = None then drain_queue env (remove_active tid (settle m))
             else drain_queue env (remove_active tid (settle (set_status tid 4 msg m))))
        | Resolved addr \<Rightarrow>
            if bt_get (rows m) tid = None then drain_queue env (remove_active tid (settle m))
            else case kind of
                KindStart \<Rightarrow>
                  (case bt_get (pending_resolves m) tid of
                     Some (ResolveStart q _) \<Rightarrow>
                       drain_queue env (do_start_task env
                         (q\<lparr>url := (if addr = [] then url q else addr), resolved := True\<rparr>) (settle m))
                   | _ \<Rightarrow> settle m)
              | KindResume \<Rightarrow>
                  let m1 = remove_active tid (settle m)
                  in drain_queue env (do_resume_task env tid
                       (m1\<lparr>resume_applied := bt_insert tid addr (resume_applied m1)\<rparr>)))"

section \<open>Named queues\<close>

definition main_queue :: string where "main_queue = ''main''"

definition move_task_to_queue :: "string \<Rightarrow> string \<Rightarrow> manager \<Rightarrow> manager" where
  "move_task_to_queue tid qid0 m =
     (let qid = (if qid0 = [] then main_queue else qid0);
          orders = map row_order (filter (\<lambda>r. row_queue r = qid) (bt_values (rows m)));
          next_order = (if orders = [] then 0 else Max (set orders)) + 1
      in m\<lparr>rows := bt_adjust tid (\<lambda>r. r\<lparr>row_queue := qid, row_order := as_i32 next_order\<rparr>) (rows m),
           active_tasks := bt_adjust tid (\<lambda>e. e\<lparr>entry_queue := qid\<rparr>) (active_tasks m),
           pending_queue := map (\<lambda>q. if task_id q = tid then q\<lparr>queue_id := qid\<rparr> else q) (pending_queue m)\<rparr>)"

definition queue_startable_task_ids :: "string \<Rightarrow> manager \<Rightarrow> string list" where
  "queue_startable_task_ids qid m =
     map fst (sort_key (\<lambda>(k, r). (row_order r, created_at r, k))
       (filter (\<lambda>(k, r). row_queue r = qid \<and> (status r = 0 \<or> status r = 2)) (rows m)))"

definition set_running :: "string \<Rightarrow> bool \<Rightarrow> manager \<Rightarrow> manager" where
  "set_running qid b m = m\<lparr>queues := bt_adjust qid (\<lambda>q. q\<lparr>is_running := b\<rparr>) (queues m)\<rparr>"

definition start_queue :: "env \<Rightarrow> string \<Rightarrow> manager \<Rightarrow> manager" where
  "start_queue env qid m =
     (if bt_get (queues m) qid = None then m
      else batch_resume env (queue_startable_task_ids qid m) (set_running qid True m))"

definition stop_queue :: "env \<Rightarrow> string list \<Rightarrow> string \<Rightarrow> manager \<Rightarrow> manager" where
  "stop_queue env seeders qid m =
     (if bt_get (queues m) qid = None then m
      else batch_pause env seeders
        (map task_id (filter (\<lambda>q. queue_id q = qid) (pending_queue m))
         @ filter (\<lambda>i. map_option entry_queue (bt_get (active_tasks m) i) = Some qid) (active_ids env m))
        (set_running qid False m))"

definition set_queue_schedule :: "string \<Rightarrow> bool \<Rightarrow> string \<Rightarrow> string \<Rightarrow> int \<Rightarrow> manager \<Rightarrow> manager" where
  "set_queue_schedule qid enabled start stop days m =
     (if start \<noteq> [] \<and> parse_hhmm start = None \<or> stop \<noteq> [] \<and> parse_hhmm stop = None then m
      else m\<lparr>queues := bt_adjust qid (\<lambda>q. the (schedule_update enabled start stop days q)) (queues m),
             schedule_fired := (\<lambda>e. if fst e = qid then None else schedule_fired m e)\<rparr>)"

definition tick_queue_schedules :: "env \<Rightarrow> string list \<Rightarrow> nat \<Rightarrow> int \<Rightarrow> nat \<Rightarrow> manager \<Rightarrow> manager" where
  "tick_queue_schedules env seeders today day_bit now m =
     (let infos = map (\<lambda>k. (k, the (bt_get (queues m) k))) (hash_order env (map fst (queues m)));
          (passed, actions) = due_schedule_actions infos (schedule_fired m) today day_bit now;
          m1 = m\<lparr>schedule_fired := note_fired today passed (schedule_fired m)\<rparr>
      in foldl (\<lambda>m (qid, start). if start then start_queue env qid m else stop_queue env seeders qid m) m1 actions)"

section \<open>Steps\<close>

text \<open>
  A task is created under an identifier never used before; a downloader that has not ended writes
  its row; retries arrive in any order; the other events are commands.
\<close>

datatype event =
    CreateTask queued_task task_row
  | PauseTask string | ResumeTask string | CancelTask string | DeleteTask string
  | RetryFires string nat | TaskDone string nat failover_view
  | ResolveReady string nat resolve_kind resolve_result
  | BatchPause "string list" "string list" | BatchResume "string list" | BatchDelete "string list"
  | SetPriority string | SetMaxConcurrent nat | SetMaxRetries int | SetRetryDelay nat
  | MoveTask string string | StartQueue string | StopQueue "string list" string
  | SetSchedule string bool string string int | ScheduleTick "string list" nat int nat
  | SetQueue string queue_info
  | WorkerStatus string nat int string

definition fresh_task :: "string \<Rightarrow> manager \<Rightarrow> bool" where
  "fresh_task tid m \<longleftrightarrow> bt_get (rows m) tid = None \<and> bt_get (active_tasks m) tid = None
     \<and> bt_get (pending_pauses m) tid = None \<and> bt_get (pending_resolves m) tid = None
     \<and> tid \<notin> set (queued_ids m) \<and> tid \<notin> fst ` set (live m)"

definition insert_row :: "string \<Rightarrow> task_row \<Rightarrow> manager \<Rightarrow> manager" where
  "insert_row tid r m = m\<lparr>rows := bt_insert tid r (rows m)\<rparr>"

fun handle :: "env \<Rightarrow> event \<Rightarrow> manager \<Rightarrow> manager" where
  "handle env (CreateTask q r) m = enqueue_persisted_task env q (insert_row (task_id q) r m)"
| "handle env (PauseTask tid) m = pause_task env tid m"
| "handle env (ResumeTask tid) m = resume_task env tid m"
| "handle env (CancelTask tid) m = cancel_task env tid m"
| "handle env (DeleteTask tid) m = delete_task env tid m"
| "handle env (RetryFires tid d) m = retry_fires env tid (m\<lparr>timers := remove1 (tid, d) (timers m)\<rparr>)"
| "handle env (TaskDone tid g fo) m = on_task_done env fo tid g m"
| "handle env (ResolveReady tid g k res) m = on_resolve_ready env tid g k res m"
| "handle env (BatchPause seeders ids) m = batch_pause env seeders ids m"
| "handle env (BatchResume ids) m = batch_resume env ids m"
| "handle env (BatchDelete ids) m = delete_tasks_batch env ids m"
| "handle env (SetPriority tid) m = set_priority_task env tid m"
| "handle env (SetMaxConcurrent n) m = set_max_concurrent env n m"
| "handle env (SetMaxRetries n) m = m\<lparr>max_auto_retries := n\<rparr>"
| "handle env (SetRetryDelay n) m = m\<lparr>auto_retry_delay_secs := n\<rparr>"
| "handle env (MoveTask tid qid) m = move_task_to_queue tid qid m"
| "handle env (StartQueue qid) m = start_queue env qid m"
| "handle env (StopQueue seeders qid) m = stop_queue env seeders qid m"
| "handle env (SetSchedule qid en a b d) m = set_queue_schedule qid en a b d m"
| "handle env (ScheduleTick seeders today day_bit now) m = tick_queue_schedules env seeders today day_bit now m"
| "handle env (SetQueue qid q) m = m\<lparr>queues := bt_insert qid q (queues m)\<rparr>"
| "handle env (WorkerStatus tid g st msg) m = set_status tid st msg m"

fun possible :: "event \<Rightarrow> manager \<Rightarrow> bool" where
  "possible (CreateTask q r) m \<longleftrightarrow> fresh_task (task_id q) m"
| "possible (RetryFires tid d) m \<longleftrightarrow> (tid, d) \<in> set (timers m)"
| "possible (TaskDone tid g fo) m \<longleftrightarrow> (tid, g) \<in> set (live m)"
| "possible (WorkerStatus tid g st msg) m \<longleftrightarrow> (tid, g) \<in> set (live m)"
| "possible _ m \<longleftrightarrow> True"

definition initial_manager :: "nat \<Rightarrow> int \<Rightarrow> nat \<Rightarrow> manager" where
  "initial_manager max_conc retries delay =
     \<lparr> max_concurrent = max_conc, queues = [], schedule_fired = (\<lambda>_. None), active_tasks = [],
       pending_queue = [], pending_pauses = [], pending_resolves = [], resume_applied = [],
       priority_task_id = None, auto_paused_ids = [], generation = 0, max_auto_retries = retries,
       auto_retry_delay_secs = delay, auto_retry_counts = [], auto_failover_pending = [],
       auto_failover_attempts = [], retry_scheduled = [], occupied_queues = [], rows = [],
       log = [], timers = [], live = [], cancelled = [] \<rparr>"

inductive manager_run :: "env \<Rightarrow> event list \<Rightarrow> manager \<Rightarrow> manager \<Rightarrow> bool" for env where
  nil: "manager_run env [] m m"
| step: "manager_run env evs m m' \<Longrightarrow> possible ev m' \<Longrightarrow> manager_run env (evs @ [ev]) m (handle env ev m')"

inductive_cases manager_run_snocE: "manager_run env (evs @ [ev]) m m'"

text \<open>States the manager can get into, loaded from any database rows.\<close>

inductive manager_reach :: "env \<Rightarrow> manager \<Rightarrow> bool" for env where
  start: "bt_wf rs \<Longrightarrow> manager_reach env ((initial_manager n r d)\<lparr>rows := rs\<rparr>)"
| event: "manager_reach env m \<Longrightarrow> possible ev m \<Longrightarrow> manager_reach env (handle env ev m)"

end
