(* ===== verification/Task_Inv.thy ===== *)
theory Task_Inv
  imports Task_Events
begin

text \<open>
  The invariant of the task scheduler and its preservation by every operation: a task that is still
  pausing is neither active, nor queued, nor waiting for a resolver, and the generation being
  flushed is known.  \<open>safe m m'\<close> says that a state change keeps the invariant and starts no
  downloader for a pausing task; it composes, so each operation is a chain of small changes.
\<close>

section \<open>Invariant and safe changes\<close>

definition pausing :: "manager \<Rightarrow> string \<Rightarrow> bool" where
  "pausing m t \<longleftrightarrow> bt_get (pending_pauses m) t \<noteq> None"

definition sched_ok :: "manager \<Rightarrow> bool" where
  "sched_ok m \<longleftrightarrow> bt_wf (active_tasks m) \<and> bt_wf (pending_pauses m) \<and> bt_wf (pending_resolves m)
     \<and> distinct (queued_ids m)
     \<and> (\<forall>t. pausing m t \<longrightarrow> bt_get (active_tasks m) t = None \<and> t \<notin> set (queued_ids m)
              \<and> bt_get (pending_resolves m) t = None)
     \<and> (\<forall>t e. bt_get (active_tasks m) t = Some e \<longrightarrow> entry_gen e \<le> generation m
              \<and> (entry_spawned e \<longrightarrow> (t, entry_gen e) \<in> set (live m)))
     \<and> (\<forall>t p. bt_get (pending_pauses m) t = Some p \<longrightarrow> (t, pause_gen p) \<in> set (live m))
     \<and> (\<forall>(t, g) \<in> set (live m). g \<le> generation m) \<and> distinct (map snd (live m))
     \<and> (\<forall>t q g. bt_get (pending_resolves m) t = Some (ResolveStart q g) \<longrightarrow> task_id q = t)"

definition flush_kept :: "manager \<Rightarrow> manager \<Rightarrow> bool" where
  "flush_kept m m' \<longleftrightarrow>
     (\<forall>t p. bt_get (pending_pauses m) t = Some p \<longrightarrow>
        (\<exists>p'. bt_get (pending_pauses m') t = Some p' \<and> pause_gen p' = pause_gen p
            \<and> (resume_requested p \<longrightarrow> resume_requested p')))
     \<and> (\<forall>(t, g) \<in> set (live m'). (t, g) \<in> set (live m) \<or> \<not> pausing m t \<and> generation m < g)
     \<and> generation m \<le> generation m'"

definition safe :: "manager \<Rightarrow> manager \<Rightarrow> bool" where
  "safe m m' \<longleftrightarrow> (sched_ok m \<longrightarrow> sched_ok m' \<and> flush_kept m m')"

lemma flush_kept_refl: "flush_kept m m"
  by (auto simp: flush_kept_def)

lemma flush_kept_pausing: "flush_kept m m' \<Longrightarrow> pausing m t \<Longrightarrow> pausing m' t"
  unfolding flush_kept_def pausing_def by blast

lemma flush_kept_trans:
  assumes "flush_kept m m1" "flush_kept m1 m2" shows "flush_kept m m2"
proof -
  have p: "\<exists>p'. bt_get (pending_pauses m2) t = Some p' \<and> pause_gen p' = pause_gen p
      \<and> (resume_requested p \<longrightarrow> resume_requested p')"
    if g: "bt_get (pending_pauses m) t = Some p" for t p
    using assms g unfolding flush_kept_def by metis
  have l: "(t, g) \<in> set (live m) \<or> \<not> pausing m t \<and> generation m < g" if g: "(t, g) \<in> set (live m2)" for t g
  proof (cases "(t, g) \<in> set (live m1)")
    case True
    then show ?thesis using assms(1) by (auto simp: flush_kept_def)
  next
    case False
    then have n: "\<not> pausing m1 t \<and> generation m1 < g" using assms(2) g by (auto simp: flush_kept_def)
    have "\<not> pausing m t" using flush_kept_pausing[OF assms(1)] n by blast
    moreover have "generation m \<le> generation m1" using assms(1) by (simp add: flush_kept_def)
    ultimately show ?thesis using n by linarith
  qed
  show ?thesis using p l assms unfolding flush_kept_def by (auto dest: order_trans)
qed

named_theorems safe_intro

lemma safe_refl [safe_intro, simp]: "safe m m"
  by (simp add: safe_def flush_kept_refl)

lemma safe_trans: "safe m m1 \<Longrightarrow> safe m1 m2 \<Longrightarrow> safe m m2"
  unfolding safe_def using flush_kept_trans by blast

lemma safe_ok: "safe m m' \<Longrightarrow> sched_ok m \<Longrightarrow> sched_ok m'"
  by (simp add: safe_def)

lemma safe_foldl: "(\<And>m x. safe m (f m x)) \<Longrightarrow> safe m (foldl f m xs)"
  by (induction xs arbitrary: m) (auto intro: safe_trans)

text \<open>The fields the invariant is about.\<close>

definition core :: "manager \<Rightarrow> (string, task_entry) btree \<times> queued_task list \<times> (string, pending_pause) btree
    \<times> (string, pending_resolve) btree \<times> nat \<times> (string \<times> nat) list" where
  "core m = (active_tasks m, pending_queue m, pending_pauses m, pending_resolves m, generation m, live m)"

lemma core_sched_ok: "core m' = core m \<Longrightarrow> sched_ok m' = sched_ok m"
  unfolding core_def sched_ok_def queued_ids_def pausing_def by simp

lemma core_safe: "core m' = core m \<Longrightarrow> safe m m'"
  using core_sched_ok[of m' m] unfolding safe_def by (auto simp: flush_kept_def core_def pausing_def)

lemma core_simps [simp]:
  "core (set_status t s msg m) = core m" "core (set_route t l m) = core m"
  "core (emit_paused b t m) = core m" "core (sync_queue_occupancy env m) = core m"
  "core (forget_retries t m) = core m" "core (delete_row t m) = core m" "core (insert_row t r m) = core m"
  "core (pause_seeding t m) = core m" "core (schedule_retry t r d m) = core m" "core (set_running q b m) = core m"
  by (auto simp: core_def set_status_def set_route_def emit_paused_def sync_queue_occupancy_def Let_def
      forget_retries_def delete_row_def insert_row_def pause_seeding_def schedule_retry_def set_running_def
      split: option.split)

lemma core_updates [simp]:
  "core (m\<lparr>rows := x1\<rparr>) = core m" "core (m\<lparr>retry_scheduled := x2\<rparr>) = core m"
  "core (m\<lparr>auto_retry_counts := x3\<rparr>) = core m" "core (m\<lparr>auto_failover_attempts := x4\<rparr>) = core m"
  "core (m\<lparr>auto_failover_pending := x5\<rparr>) = core m" "core (m\<lparr>priority_task_id := x6\<rparr>) = core m"
  "core (m\<lparr>auto_paused_ids := x7\<rparr>) = core m" "core (m\<lparr>resume_applied := x8\<rparr>) = core m"
  "core (m\<lparr>timers := x9\<rparr>) = core m" "core (m\<lparr>log := x10\<rparr>) = core m" "core (m\<lparr>cancelled := x11\<rparr>) = core m"
  "core (m\<lparr>max_concurrent := x12\<rparr>) = core m" "core (m\<lparr>max_auto_retries := x13\<rparr>) = core m"
  "core (m\<lparr>auto_retry_delay_secs := x14\<rparr>) = core m" "core (m\<lparr>queues := x15\<rparr>) = core m"
  "core (m\<lparr>schedule_fired := x16\<rparr>) = core m" "core (m\<lparr>occupied_queues := x17\<rparr>) = core m"
  by (simp_all add: core_def)

section \<open>Small changes\<close>

lemma bt_get_adjust: "bt_get (bt_adjust k f m) x = (if x = k then map_option f (bt_get m x) else bt_get m x)"
  by (simp add: bt_get_map_of map_of_bt_adjust)

lemmas bt_facts = bt_get_insert bt_get_remove bt_get_adjust bt_wf_insert bt_wf_remove bt_wf_adjust

lemma safe_remove_active: "safe m (remove_active t m)"
  by (auto simp: safe_def sched_ok_def flush_kept_def remove_active_def bt_facts queued_ids_def pausing_def)

lemma safe_cancel_active: "safe m (cancel_active t m)"
  by (auto simp: cancel_active_def intro: safe_trans[OF safe_remove_active core_safe[OF core_updates(11)]]
      split: option.split)

lemma safe_clear_pending_resolve: "safe m (clear_pending_resolve t m)"
  by (auto simp: safe_def sched_ok_def flush_kept_def clear_pending_resolve_def bt_facts queued_ids_def pausing_def)

lemma queue_safe:
  assumes "set (map task_id qs) \<subseteq> set (queued_ids m)" "distinct (queued_ids m) \<longrightarrow> distinct (map task_id qs)"
  shows "safe m (m\<lparr>pending_queue := qs\<rparr>)"
  using assms by (auto simp: safe_def sched_ok_def flush_kept_def queued_ids_def pausing_def)

lemma remove_first_ids:
  "set (map task_id (remove_first t qs)) \<subseteq> set (map task_id qs)"
  "distinct (map task_id qs) \<Longrightarrow> distinct (map task_id (remove_first t qs))"
  "distinct (map task_id qs) \<Longrightarrow> t \<notin> set (map task_id (remove_first t qs))"
  by (induction qs) auto

lemma safe_dequeue: "safe m (dequeue t m)"
  unfolding dequeue_def by (rule queue_safe) (use remove_first_ids in \<open>auto simp: queued_ids_def\<close>)

lemma safe_filter_queue: "safe m (m\<lparr>pending_queue := filter P (pending_queue m)\<rparr>)"
  by (rule queue_safe) (auto simp: queued_ids_def distinct_map_filter)

lemma safe_append_queue:
  assumes "task_id q \<notin> set (queued_ids m)" "\<not> pausing m (task_id q)"
  shows "safe m (m\<lparr>pending_queue := pending_queue m @ [q]\<rparr>)"
  using assms by (auto simp: safe_def sched_ok_def flush_kept_def queued_ids_def pausing_def)

lemma safe_pause_flag:
  assumes "\<And>p. pause_gen (f p) = pause_gen p" "\<And>p. resume_requested p \<Longrightarrow> resume_requested (f p)"
  shows "safe m (m\<lparr>pending_pauses := bt_adjust t f (pending_pauses m)\<rparr>)"
  using assms
  by (auto simp: safe_def sched_ok_def flush_kept_def bt_facts queued_ids_def pausing_def split: if_splits)

text \<open>A new active entry, with its own generation, and possibly its downloader.\<close>

lemma safe_add_active:
  assumes "\<not> pausing m t" shows "safe m (add_active t b q m)"
  using assms
  by (fastforce simp: safe_def sched_ok_def flush_kept_def add_active_def Let_def bt_facts queued_ids_def pausing_def
      split: if_splits)

lemma safe_resolve_insert:
  assumes "\<not> pausing m t" "\<And>q g. r = ResolveStart q g \<Longrightarrow> task_id q = t" shows "safe m (m\<lparr>pending_resolves := bt_insert t r (pending_resolves m)\<rparr>)"
  using assms by (auto simp: safe_def sched_ok_def flush_kept_def bt_facts queued_ids_def pausing_def)

lemma safe_settle: "safe m (m\<lparr>pending_resolves := bt_remove t (pending_resolves m)\<rparr>)"
  by (auto simp: safe_def sched_ok_def flush_kept_def bt_facts queued_ids_def pausing_def)


lemma safe_add_spawn:
  assumes np: "\<not> pausing m t" and c: "core m1 = core (add_active t b q m)" shows "safe m (spawn t m1)"
proof -
  have f: "active_tasks (spawn t m1) = bt_adjust t (\<lambda>e. e\<lparr>entry_spawned := True\<rparr>)
        (bt_insert t \<lparr>entry_gen = Suc (generation m), entry_spawned = False, entry_bt = b, entry_queue = q\<rparr> (active_tasks m))"
      "pending_queue (spawn t m1) = pending_queue m" "pending_pauses (spawn t m1) = pending_pauses m"
      "pending_resolves (spawn t m1) = pending_resolves m" "generation (spawn t m1) = Suc (generation m)"
      "live (spawn t m1) = (t, Suc (generation m)) # live m"
    using c by (simp_all add: core_def spawn_def add_active_def Let_def)
  show ?thesis unfolding safe_def
  proof
    assume ok: "sched_ok m"
    have wf: "bt_wf (active_tasks m)" using ok by (simp add: sched_ok_def)
    have g: "bt_get (active_tasks (spawn t m1)) x =
        (if x = t then Some \<lparr>entry_gen = Suc (generation m), entry_spawned = True, entry_bt = b, entry_queue = q\<rparr>
         else bt_get (active_tasks m) x)" for x
      unfolding f(1) using wf by (simp add: bt_facts)
    have w: "bt_wf (active_tasks (spawn t m1))" unfolding f(1) using wf by (simp add: bt_facts)
    show "sched_ok (spawn t m1) \<and> flush_kept m (spawn t m1)"
    proof
      show "sched_ok (spawn t m1)"
        using ok np w unfolding sched_ok_def queued_ids_def pausing_def g f(2-)
        by (fastforce split: if_splits)
      show "flush_kept m (spawn t m1)"
        using np unfolding flush_kept_def pausing_def f(2-) by auto
    qed
  qed
qed

section \<open>Starting and draining\<close>

text \<open>A start keeps the queue and the pausing tasks as they are.\<close>

definition starts :: "string \<Rightarrow> manager \<Rightarrow> manager \<Rightarrow> bool" where
  "starts t m m' \<longleftrightarrow> (\<not> pausing m t \<longrightarrow> safe m m') \<and> pending_queue m' = pending_queue m
     \<and> pending_pauses m' = pending_pauses m"

lemma add_active_fields [simp]:
  "pending_queue (add_active t b q m) = pending_queue m" "pending_pauses (add_active t b q m) = pending_pauses m"
  "pending_resolves (add_active t b q m) = pending_resolves m" "rows (add_active t b q m) = rows m"
  "live (add_active t b q m) = live m" "generation (add_active t b q m) = Suc (generation m)"
  by (simp_all add: add_active_def Let_def)

lemma core_queue: "core m' = core m \<Longrightarrow> pending_queue m' = pending_queue m \<and> pending_pauses m' = pending_pauses m"
  by (simp add: core_def)

lemma starts_spawn: "core m1 = core (add_active t b q m) \<Longrightarrow> starts t m (spawn t m1)"
  using safe_add_spawn core_queue[of m1 "add_active t b q m"] by (auto simp: starts_def spawn_def)

lemma starts_fail: "core m1 = core (add_active t b q m) \<Longrightarrow> starts t m (remove_active t m1)"
  using safe_trans[OF safe_trans[OF safe_add_active core_safe] safe_remove_active]
    core_queue[of m1 "add_active t b q m"]
  by (auto simp: starts_def remove_active_def)

lemma starts_resolve: "(\<And>q g. r = ResolveStart q g \<Longrightarrow> task_id q = t) \<Longrightarrow> starts t m ((add_active t b q m)\<lparr>pending_resolves := bt_insert t r (pending_resolves (add_active t b q m))\<rparr>)"
  using safe_trans[OF safe_add_active safe_resolve_insert] by (auto simp: starts_def pausing_def)

lemma starts_do_start: "starts (task_id q) m (do_start_task env q m)"
  by (auto simp: do_start_task_def begin_resolve_start_def spawn_start_def Let_def
      intro!: starts_spawn starts_fail starts_resolve[simplified] split: option.split)

lemma starts_refl: "starts t m m"
  by (simp add: starts_def)

lemma starts_resume_spawn: "starts t m (resume_spawn env t addr r m)"
  by (auto simp: resume_spawn_def spawn_resume_def Let_def intro!: starts_spawn starts_fail split: option.split)

lemma starts_core: "core m1 = core m \<Longrightarrow> starts t m1 m' \<Longrightarrow> starts t m m'"
  using safe_trans[OF core_safe, of m1 m m'] core_queue[of m1 m] by (auto simp: starts_def pausing_def)

lemma starts_do_resume: "starts t m (do_resume_task env t m)"
  by (auto simp: do_resume_task_def begin_resolve_resume_def Let_def starts_refl
      intro!: starts_resume_spawn starts_resolve[simplified] starts_core[OF core_updates(8) starts_resume_spawn]
      split: option.split)


lemma drain_loop_safe:
  assumes "drain_loop env full qs m = (kept, m')" "\<forall>q \<in> set qs. \<not> pausing m (task_id q)"
  shows "safe m m' \<and> pending_queue m' = pending_queue m \<and> pending_pauses m' = pending_pauses m
    \<and> set kept \<subseteq> set qs \<and> (distinct (map task_id qs) \<longrightarrow> distinct (map task_id kept))"
  using assms
proof (induction env full qs m arbitrary: kept m' rule: drain_loop.induct)
  case (1 env full m)
  then show ?case by simp
next
  case (2 env full q qs m)
  let ?go = "if is_resume q then do_resume_task env (task_id q) m else do_start_task env q m"
  have np: "\<not> pausing m (task_id q)" "\<forall>q \<in> set qs. \<not> pausing m (task_id q)" using "2.prems"(2) by auto
  have st: "starts (task_id q) m ?go" by (simp add: starts_do_start starts_do_resume)
  have ff: "pending_queue ?go = pending_queue m" "pending_pauses ?go = pending_pauses m" "safe m ?go"
    using st np(1) unfolding starts_def by blast+
  consider (full) "full \<or> \<not> has_capacity m"
    | (act) "\<not> (full \<or> \<not> has_capacity m)" "bt_get (active_tasks m) (task_id q) \<noteq> None"
    | (queue) "\<not> (full \<or> \<not> has_capacity m)" "bt_get (active_tasks m) (task_id q) = None" "\<not> has_queue_capacity m (queue_id q)"
    | (run) "\<not> (full \<or> \<not> has_capacity m)" "bt_get (active_tasks m) (task_id q) = None" "has_queue_capacity m (queue_id q)"
    by blast
  then show ?case
  proof cases
    case full
    obtain k where k: "drain_loop env True qs m = (k, m')" "kept = q # k"
      using "2.prems"(1) full by (auto split: prod.splits)
    show ?thesis using "2.IH"(1)[OF full k(1) np(2)] unfolding k(2) by auto
  next
    case act
    then show ?thesis using "2.IH"(2)[of kept m'] "2.prems"(1) np(2) by auto
  next
    case queue
    obtain k where k: "drain_loop env False qs m = (k, m')" "kept = q # k"
      using "2.prems"(1) queue by (auto split: prod.splits)
    have n: "\<not> bt_get (active_tasks m) (task_id q) \<noteq> None" using queue by simp
    show ?thesis using "2.IH"(3)[OF queue(1) n queue(3) k(1) np(2)] unfolding k(2) by auto
  next
    case run
    have d: "drain_loop env False qs ?go = (kept, m')" using "2.prems"(1) run by simp
    have n: "\<not> bt_get (active_tasks m) (task_id q) \<noteq> None" "\<not> \<not> has_queue_capacity m (queue_id q)" using run by auto
    have p: "\<forall>q \<in> set qs. \<not> pausing ?go (task_id q)" using np(2) by (simp only: pausing_def ff)
    have ih: "safe ?go m' \<and> pending_queue m' = pending_queue ?go \<and> pending_pauses m' = pending_pauses ?go
        \<and> set kept \<subseteq> set qs \<and> (distinct (map task_id qs) \<longrightarrow> distinct (map task_id kept))"
      using "2.IH"(4)[OF run(1) n d p] .
    show ?thesis using ih safe_trans[OF ff(3)] ff(1,2) by auto
  qed
qed

lemma safe_drain: "safe m (drain_queue env m)"
proof (cases "sched_ok m")
  case True
  obtain kept m' where d: "drain_loop env False (pending_queue m) (m\<lparr>pending_queue := []\<rparr>) = (kept, m')"
    by (metis surj_pair)
  have np: "\<forall>q \<in> set (pending_queue m). \<not> pausing (m\<lparr>pending_queue := []\<rparr>) (task_id q)"
    using True by (auto simp: sched_ok_def pausing_def queued_ids_def)
  note l = drain_loop_safe[OF d np]
  have s0: "safe m (m\<lparr>pending_queue := []\<rparr>)" by (rule queue_safe) auto
  have s1: "safe m m'" using safe_trans[OF s0] l by blast
  have ok': "sched_ok m'" using s1 True by (simp add: safe_def)
  have q: "pending_queue m' = []" "pending_pauses m' = pending_pauses m" using l by auto
  have dk: "distinct (map task_id kept)" "set kept \<subseteq> set (pending_queue m)"
    using l True by (auto simp: sched_ok_def queued_ids_def)
  have "sched_ok (m'\<lparr>pending_queue := kept\<rparr>)"
    using ok' dk np q(2) unfolding sched_ok_def queued_ids_def pausing_def by auto
  moreover have "flush_kept m (m'\<lparr>pending_queue := kept\<rparr>)"
    using s1 True unfolding safe_def flush_kept_def by simp
  ultimately show ?thesis by (simp add: safe_def drain_queue_def d)
qed (simp add: safe_def)

section \<open>Operations\<close>

lemma safe_core_trans: "core m1 = core m \<Longrightarrow> safe m1 m' \<Longrightarrow> safe m m'"
  using safe_trans[OF core_safe] by blast

lemma safe_trans_core: "safe m m1 \<Longrightarrow> core m' = core m1 \<Longrightarrow> safe m m'"
  using safe_trans[OF _ core_safe] by blast

lemma safe_start_drain: "\<not> pausing m t \<Longrightarrow> starts t m m' \<Longrightarrow> safe m (drain_queue env m')"
  using safe_trans[OF _ safe_drain] by (auto simp: starts_def)

lemma set_status_fields [simp]:
  "queued_ids (set_status t s msg m) = queued_ids m" "pausing (set_status t s msg m) x = pausing m x"
  by (simp_all add: queued_ids_def set_status_def pausing_def)

lemma core_pausing: "core m' = core m \<Longrightarrow> pausing m' t = pausing m t"
  by (simp add: core_def pausing_def)

lemma safe_if: "(c \<Longrightarrow> safe m a) \<Longrightarrow> (\<not> c \<Longrightarrow> safe m b) \<Longrightarrow> safe m (if c then a else b)"
  by simp

lemma safe_option: "(x = None \<Longrightarrow> safe m a) \<Longrightarrow> (\<And>y. x = Some y \<Longrightarrow> safe m (f y)) \<Longrightarrow>
    safe m (case x of None \<Rightarrow> a | Some y \<Rightarrow> f y)"
  by (simp split: option.split)

lemma safe_sync: "safe m m' \<Longrightarrow> safe m (sync_queue_occupancy env m')"
  by (rule safe_trans_core) simp_all

lemma safe_set_status: "safe m m' \<Longrightarrow> safe m (set_status t s msg m')"
  by (rule safe_trans_core) simp_all

lemma safe_emit: "safe m m' \<Longrightarrow> safe m (emit_paused b t m')"
  by (rule safe_trans_core) simp_all

lemma safe_enqueue:
  assumes "safe m m1" "sched_ok m \<Longrightarrow> task_id q \<notin> set (queued_ids m1) \<and> \<not> pausing m1 (task_id q)"
  shows "safe m (m1\<lparr>pending_queue := pending_queue m1 @ [q]\<rparr>)"
proof (cases "sched_ok m")
  case True
  then show ?thesis using safe_trans[OF assms(1) safe_append_queue] assms(2) by blast
qed (simp add: safe_def)

lemma safe_resume_dispatch:
  assumes "\<not> pausing m t" shows "safe m (resume_dispatch env t m)"
  unfolding resume_dispatch_def Let_def
  by (intro safe_if safe_sync safe_refl safe_start_drain[OF assms starts_do_resume] safe_option safe_enqueue safe_set_status)
    (use assms in \<open>simp_all add: queued_resume_def\<close>)

lemma safe_pause_flag':
  "(\<And>p. pause_gen (f p) = pause_gen p) \<Longrightarrow> (\<And>p. resume_requested p \<Longrightarrow> resume_requested (f p)) \<Longrightarrow>
   ps = pending_pauses m \<Longrightarrow> safe m (m\<lparr>pending_pauses := bt_adjust t f ps\<rparr>)"
  using safe_pause_flag by blast

lemma safe_resume_inner: "safe m (resume_task_inner env t m)"
proof -
  define m1 where "m1 = m\<lparr>retry_scheduled := bt_remove t (retry_scheduled m)\<rparr>"
  have p: "pausing (remove_active t m1) t = pausing m1 t" by (simp add: pausing_def remove_active_def)
  have "safe m1 (resume_task_inner env t m)"
    unfolding resume_task_inner_def Let_def m1_def[symmetric]
    by (intro safe_if safe_pause_flag' safe_refl safe_resume_dispatch safe_trans[OF safe_remove_active safe_resume_dispatch])
      (use p in \<open>auto simp: pausing_def\<close>)
  then show ?thesis by (rule safe_core_trans[rotated]) (simp add: m1_def)
qed

lemma safe_resume_task: "safe m (resume_task env t m)"
  unfolding resume_task_def by (rule safe_core_trans[OF _ safe_resume_inner]) (simp add: core_def)


lemma safe_clear_priority: "safe m (clear_priority env m)"
proof -
  let ?m = "m\<lparr>priority_task_id := None, auto_paused_ids := []\<rparr>"
  have "safe ?m (clear_priority env m)"
    unfolding clear_priority_def by (rule safe_foldl) (simp add: safe_resume_task)
  then show ?thesis by (rule safe_core_trans[rotated]) simp
qed

lemma safe_clear_if: "safe m m' \<Longrightarrow> safe m (clear_priority_if env t m')"
  by (auto simp: clear_priority_if_def intro: safe_trans safe_clear_priority)

lemma safe_drain_after: "safe m m' \<Longrightarrow> safe m (drain_queue env m')"
  by (rule safe_trans[OF _ safe_drain])

text \<open>The token of a spawned entry is cancelled and its generation latched, in one change.\<close>

lemma safe_latch:
  assumes "bt_get (active_tasks m) t = Some e" "entry_spawned e" "\<not> pausing m t" "t \<notin> set (queued_ids m)"
    "bt_get (pending_resolves m) t = None"
  shows "safe m (latch_pause t (entry_gen e) b (cancel_active t m))"
proof -
  have f: "latch_pause t (entry_gen e) b (cancel_active t m) =
      m\<lparr>active_tasks := bt_remove t (active_tasks m), cancelled := entry_gen e # cancelled m,
        pending_pauses := bt_insert t \<lparr>pause_gen = entry_gen e, pause_notify = b, resume_requested = False\<rparr> (pending_pauses m)\<rparr>"
    using assms(1) by (simp add: latch_pause_def cancel_active_def remove_active_def)
  show ?thesis unfolding safe_def
  proof
    assume ok: "sched_ok m"
    have wf: "bt_wf (pending_pauses m)" using ok by (simp add: sched_ok_def)
    have "(t, entry_gen e) \<in> set (live m)" using ok assms(1,2) unfolding sched_ok_def by blast
    then show "sched_ok (latch_pause t (entry_gen e) b (cancel_active t m)) \<and>
        flush_kept m (latch_pause t (entry_gen e) b (cancel_active t m))"
      using ok assms(3-) wf unfolding f
      by (auto simp: sched_ok_def flush_kept_def bt_facts queued_ids_def pausing_def)
  qed
qed

lemma clear_pending_resolve_fields [simp]:
  "active_tasks (clear_pending_resolve t m) = active_tasks m" "pending_queue (clear_pending_resolve t m) = pending_queue m"
  "pending_pauses (clear_pending_resolve t m) = pending_pauses m" "queued_ids (clear_pending_resolve t m) = queued_ids m"
  "bt_get (pending_resolves (clear_pending_resolve t m)) t = None" "rows (clear_pending_resolve t m) = rows m"
  by (simp_all add: clear_pending_resolve_def queued_ids_def bt_get_remove)

lemma safe_pause: "safe m (pause_task_inner env t b m)"
proof -
  define m1 where "m1 = (clear_pending_resolve t m)\<lparr>retry_scheduled := bt_remove t (retry_scheduled (clear_pending_resolve t m))\<rparr>"
  have s1: "safe m m1" unfolding m1_def by (rule safe_trans_core[OF safe_clear_pending_resolve]) simp
  have nr: "bt_get (pending_resolves m1) t = None" by (simp add: m1_def)
  have q: "queued_ids m1 = queued_ids m1" ..
  have "safe m1 (pause_task_inner env t b m)"
    unfolding pause_task_inner_def Let_def m1_def[symmetric]
    apply (intro safe_sync safe_if safe_pause_flag' safe_emit safe_set_status safe_dequeue safe_option safe_clear_if safe_drain_after
        safe_cancel_active safe_latch)
    using nr by (auto simp: pausing_def intro: core_safe)
  then show ?thesis using safe_trans[OF s1] by blast
qed

lemma safe_auto_pause: "safe m (auto_pause env t m)"
  unfolding auto_pause_def pause_task_silent_def by (rule safe_core_trans[OF _ safe_pause]) simp

section \<open>Commands\<close>

lemma safe_cancel_task: "safe m (cancel_task env t m)"
  unfolding cancel_task_def
  by (intro safe_drain_after safe_set_status safe_trans[OF _ safe_cancel_active] safe_trans[OF _ safe_dequeue]
      safe_trans[OF _ safe_clear_pending_resolve] core_safe) simp

lemma safe_delete_task: "safe m (delete_task env t m)"
  unfolding delete_task_def Let_def
  by (intro safe_sync safe_drain_after safe_clear_if safe_trans_core[OF _ core_updates(7)] safe_trans_core[OF _ core_simps(6)]
      safe_trans[OF _ safe_cancel_active] safe_trans[OF _ safe_dequeue] safe_trans[OF _ safe_clear_pending_resolve] core_safe)
    simp

lemma safe_delete_batch: "safe m (delete_tasks_batch env ids m)"
  unfolding delete_tasks_batch_def Let_def
  by (intro safe_if safe_refl safe_sync safe_drain_after safe_trans[OF _ safe_foldl] safe_filter_queue safe_cancel_active
      safe_clear_if core_safe) simp_all

lemma safe_status_batch: "safe m (set_status_batch ids s m)"
  unfolding set_status_batch_def by (intro safe_foldl core_safe) simp

lemma safe_with_row: "resume_task_with_row env t r m = (b, m') \<Longrightarrow> safe m m'"
proof -
  define m1 where "m1 = m\<lparr>auto_retry_counts := bt_remove t (auto_retry_counts m)\<rparr>"
  define m2 where "m2 = (if bt_get (active_tasks m1) t \<noteq> None then remove_active t m1 else m1)"
  assume e: "resume_task_with_row env t r m = (b, m')"
  have s2: "safe m1 m2" by (simp add: m2_def safe_remove_active)
  have p2: "pausing m2 t = pausing m1 t" by (simp add: m2_def pausing_def remove_active_def)
  have m': "m' = (if bt_get (pending_pauses m1) t \<noteq> None then
        m1\<lparr>pending_pauses := bt_adjust t (\<lambda>p. p\<lparr>resume_requested := True\<rparr>) (pending_pauses m1)\<rparr>
      else if bt_get (active_tasks m1) t \<noteq> None \<and> \<not> terminal_row (Some r) then m1
      else if t \<in> set (queued_ids m2) then m2
        else if resumes_seeding r then m2
        else if is_bt_url (row_url r) \<or> has_capacity m2 \<and> has_queue_capacity m2 (row_queue r)
        then drain_queue env (do_resume_task env t m2)
        else m2\<lparr>pending_queue := pending_queue m2 @ [queued_resume t r]\<rparr>)"
    using e unfolding resume_task_with_row_def Let_def m1_def[symmetric] m2_def[symmetric]
    by (auto split: if_splits)
  have "safe m1 m'" unfolding m'
    by (intro safe_if safe_pause_flag' safe_refl s2 safe_trans[OF s2 safe_start_drain[OF _ starts_do_resume]] safe_enqueue)
      (use p2 in \<open>auto simp: pausing_def queued_resume_def\<close>)
  then show ?thesis by (rule safe_core_trans[rotated]) (simp add: m1_def)
qed

lemma safe_batch_loop: "batch_resume_loop env rs m = (qs, m') \<Longrightarrow> safe m m'"
proof (induction env rs m arbitrary: qs m' rule: batch_resume_loop.induct)
  case (2 env t r rest m)
  obtain q m1 where a: "resume_task_with_row env t r m = (q, m1)" by (metis surj_pair)
  obtain qs' m2 where b: "batch_resume_loop env rest m1 = (qs', m2)" by (metis surj_pair)
  show ?case using safe_trans[OF safe_with_row[OF a] "2.IH"[OF a[symmetric] refl b]] "2.prems" a b by (auto split: if_splits)
qed simp

lemma safe_batch_resume: "safe m (batch_resume env ids m)"
  unfolding batch_resume_def Let_def
  by (auto intro: safe_trans[OF safe_batch_loop safe_status_batch] split: prod.split)

lemma safe_batch_pause: "safe m (batch_pause env sds ids m)"
  unfolding batch_pause_def Let_def pause_task_silent_def
  by (intro safe_if safe_refl safe_trans[OF _ safe_foldl] safe_trans[OF _ safe_status_batch] safe_filter_queue
      safe_clear_pending_resolve safe_pause)

lemma safe_yield: "safe m (yield_to env t m)"
  unfolding yield_to_def Let_def by (intro safe_trans[OF _ safe_foldl] safe_foldl safe_auto_pause)

lemma starts_safe: "\<not> pausing m t \<Longrightarrow> starts t m m' \<Longrightarrow> safe m m'"
  by (simp add: starts_def)


text \<open>Only a pause makes a task pausing.\<close>

lemma starts_pausing: "starts t m m' \<Longrightarrow> pending_pauses m' = pending_pauses m"
  by (simp add: starts_def)

lemma drain_loop_pausing: "pending_pauses (snd (drain_loop env full qs m)) = pending_pauses m"
  by (induction env full qs m rule: drain_loop.induct)
    (auto simp: split_def Let_def starts_pausing[OF starts_do_resume] starts_pausing[OF starts_do_start])

lemma drain_pausing [simp]: "pausing (drain_queue env m) t = pausing m t"
  using drain_loop_pausing[of env False "pending_queue m" "m\<lparr>pending_queue := []\<rparr>"]
  by (simp add: pausing_def drain_queue_def split_def Let_def)

lemma bt_get_insert_other: "x \<noteq> k \<Longrightarrow> bt_get (bt_insert k v m) x = bt_get m x"
  by (induction k v m rule: bt_insert.induct) auto

lemma pausing_updates [simp]:
  "pausing (m\<lparr>pending_queue := y1\<rparr>) t = pausing m t" "pausing (m\<lparr>retry_scheduled := y2\<rparr>) t = pausing m t"
  "pausing (m\<lparr>auto_retry_counts := y3, auto_failover_attempts := y4\<rparr>) t = pausing m t"
  "pausing (m\<lparr>priority_task_id := y5, auto_paused_ids := y6\<rparr>) t = pausing m t"
  "pausing (m\<lparr>auto_paused_ids := y6\<rparr>) t = pausing m t"
  "pausing (m\<lparr>priority_task_id := y5\<rparr>) t = pausing m t"
  "pausing (m\<lparr>auto_paused_ids := y6, priority_task_id := y7\<rparr>) t = pausing m t"
  "pausing (m\<lparr>pending_pauses := bt_adjust x f (pending_pauses m)\<rparr>) t = pausing m t"
  "t \<noteq> x \<Longrightarrow> pausing (latch_pause x g b m) t = pausing m t"
  by (auto simp: pausing_def bt_get_adjust bt_get_insert_other latch_pause_def)

lemma pausing_fields [simp]:
  "pausing (sync_queue_occupancy env m) t = pausing m t" "pausing (remove_active x m) t = pausing m t"
  "pausing (do_resume_task env x m) t = pausing m t" "pausing (emit_paused b x m) t = pausing m t"
  "pausing (dequeue x m) t = pausing m t" "pausing (cancel_active x m) t = pausing m t"
  "pausing (pause_seeding x m) t = pausing m t" "pausing (clear_pending_resolve x m) t = pausing m t"
  using starts_pausing[OF starts_do_resume, of env x m]
  by (auto simp: pausing_def sync_queue_occupancy_def Let_def remove_active_def emit_paused_def dequeue_def
      cancel_active_def pause_seeding_def split: option.split)

lemma resume_dispatch_pausing [simp]: "pausing (resume_dispatch env x m) t = pausing m t"
  by (simp add: resume_dispatch_def Let_def split: option.split)

lemma resume_inner_pausing [simp]: "pausing (resume_task_inner env x m) t = pausing m t"
proof -
  define m1 where "m1 = m\<lparr>retry_scheduled := bt_remove x (retry_scheduled m)\<rparr>"
  have "pausing (resume_task_inner env x m) t = pausing m1 t"
    unfolding resume_task_inner_def Let_def m1_def[symmetric] by simp
  then show ?thesis by (simp add: m1_def)
qed

lemma resume_task_pausing [simp]: "pausing (resume_task env x m) t = pausing m t"
  by (simp add: resume_task_def)

lemma clear_priority_pausing [simp]: "pausing (clear_priority env m) t = pausing m t"
proof -
  have "pausing (foldl (\<lambda>m tid. if row_status m tid = Some 3 then m else resume_task env tid m) m0 ids) t = pausing m0 t" for m0 ids
    by (induction ids arbitrary: m0) simp_all
  then show ?thesis by (simp add: clear_priority_def)
qed

lemma clear_priority_if_pausing [simp]: "pausing (clear_priority_if env x m) t = pausing m t"
  by (simp add: clear_priority_if_def)

lemma pause_pausing: "t \<noteq> x \<Longrightarrow> pausing (pause_task_inner env x b m) t = pausing m t"
proof -
  assume x: "t \<noteq> x"
  define m1 where "m1 = (clear_pending_resolve x m)\<lparr>retry_scheduled := bt_remove x (retry_scheduled (clear_pending_resolve x m))\<rparr>"
  have "pausing (pause_task_inner env x b m) t = pausing m1 t"
    unfolding pause_task_inner_def Let_def m1_def[symmetric] using x by (simp split: option.split)
  then show ?thesis by (simp add: m1_def)
qed

lemma yield_pausing: "pausing (yield_to env t m) t = pausing m t"
proof -
  have f: "t \<notin> set ids \<Longrightarrow> pausing (foldl (\<lambda>m i. auto_pause env i m) m0 ids) t = pausing m0 t" for ids m0
    by (induction ids arbitrary: m0) (auto simp: auto_pause_def pause_task_silent_def pause_pausing)
  show ?thesis unfolding yield_to_def Let_def by (subst f, simp)+ simp
qed

lemma safe_set_priority: "safe m (set_priority_task env t m)"
proof (cases "sched_ok m")
  case True
  define m1 where "m1 = m\<lparr>auto_paused_ids := removeAll t (auto_paused_ids m), priority_task_id := None\<rparr>"
  define m2 where "m2 = (yield_to env t (dequeue t m1))\<lparr>priority_task_id := Some t\<rparr>"
  define m2' where "m2' = m2\<lparr>auto_paused_ids := removeAll t (auto_paused_ids m2)\<rparr>"
  define m3 where "m3 = (if bt_get (active_tasks m2) t \<noteq> None then m2
      else if t \<in> set (queued_ids m1) then do_resume_task env t m2' else resume_task env t m2')"
  have s1: "safe m m1" unfolding m1_def by (rule core_safe) (simp add: core_def)
  have s2: "safe m m2" unfolding m2_def
    by (rule safe_trans_core[OF safe_trans[OF safe_trans[OF s1 safe_dequeue] safe_yield]]) simp
  have s2': "safe m m2'" unfolding m2'_def by (rule safe_trans_core[OF s2]) simp
  have np: "\<not> pausing m2' t" if "t \<in> set (queued_ids m1)"
  proof -
    have "t \<in> set (queued_ids m)" using that by (simp add: m1_def queued_ids_def)
    then have "\<not> pausing m t" using True unfolding sched_ok_def by blast
    then show ?thesis by (simp add: m2'_def m2_def yield_pausing m1_def)
  qed
  have s3: "safe m m3" unfolding m3_def
    by (intro safe_if s2 safe_trans[OF s2' starts_safe[OF _ starts_do_resume]] safe_trans[OF s2' safe_resume_task])
      (use np in blast)
  have "set_priority_task env t m = (if t = [] \<or> priority_task_id m = Some t then clear_priority env m
      else if bt_get (active_tasks m3) t = None then clear_priority env m3 else m3)"
    unfolding set_priority_task_def Let_def m3_def m2'_def m2_def m1_def by simp
  then show ?thesis by (auto intro: safe_clear_priority safe_trans[OF s3] s3)
qed (simp add: safe_def)

end
