(* ===== verification/Task_Reach.thy ===== *)
theory Task_Reach
  imports Task_Inv
begin

text \<open>
  The invariant of the task scheduler in every reachable state: the end of a downloader, the outcome
  of a resolver and the remaining events, on top of the small changes of \<open>Task_Inv\<close>.
\<close>

section \<open>The end of a downloader\<close>

lemma sched_ok_pausing: "sched_ok m \<Longrightarrow> pausing m t \<Longrightarrow>
    bt_get (active_tasks m) t = None \<and> t \<notin> set (queued_ids m) \<and> bt_get (pending_resolves m) t = None"
  by (simp add: sched_ok_def)

lemma live_removed:
  assumes ok: "sched_ok m"
    and a: "\<And>e. bt_get (active_tasks m) t = Some e \<Longrightarrow> entry_gen e \<noteq> g"
    and p: "\<And>p. bt_get (pending_pauses m) t = Some p \<Longrightarrow> pause_gen p \<noteq> g"
  shows "sched_ok (m\<lparr>live := removeAll (t, g) (live m)\<rparr>)"
proof -
  have d: "distinct (map snd (removeAll (t, g) (live m)))"
    using ok by (simp add: sched_ok_def removeAll_filter_not_eq distinct_map_filter)
  show ?thesis using ok a p d unfolding sched_ok_def queued_ids_def pausing_def by auto
qed

lemma flush_kept_live: "flush_kept m (m\<lparr>live := removeAll (t, g) (live m)\<rparr>)"
  by (auto simp: flush_kept_def)

definition flush_kept_at :: "string \<Rightarrow> manager \<Rightarrow> manager \<Rightarrow> bool" where
  "flush_kept_at t m m' \<longleftrightarrow> (\<forall>p. bt_get (pending_pauses m) t = Some p \<longrightarrow>
     (\<exists>p'. bt_get (pending_pauses m') t = Some p' \<and> pause_gen p' = pause_gen p
         \<and> (resume_requested p \<longrightarrow> resume_requested p'))
     \<and> (\<forall>g. (t, g) \<in> set (live m') \<longrightarrow> (t, g) \<in> set (live m)))"

lemma flush_kept_atI: "flush_kept m m' \<Longrightarrow> flush_kept_at t m m'"
  unfolding flush_kept_def flush_kept_at_def pausing_def by blast

lemma after_done_core: "core (after_done env fo t r m) = core m"
  by (auto simp: after_done_def drop_duplicate_def try_failover_def try_auto_retry_def Let_def split_def
      split: option.split)

lemma finish_other: "(\<And>p. bt_get (pending_pauses m) t = Some p \<Longrightarrow> pause_gen p \<noteq> g) \<Longrightarrow> finish_pending_pause t g m = (False, m)"
  by (auto simp: finish_pending_pause_def split: option.split)

lemma task_done_unlatched:
  assumes ok: "sched_ok m" and p: "\<And>p. bt_get (pending_pauses m) t = Some p \<Longrightarrow> pause_gen p \<noteq> g"
  shows "sched_ok (on_task_done env fo t g m) \<and> flush_kept m (on_task_done env fo t g m)"
proof -
  define m0 where "m0 = m\<lparr>live := removeAll (t, g) (live m)\<rparr>"
  define matched where "matched = (case bt_get (active_tasks m0) t of Some e \<Rightarrow> entry_gen e = g | None \<Rightarrow> False)"
  define m1 where "m1 = (if matched then clear_priority_if env t (remove_active t m0) else m0)"
  have m1: "sched_ok m1 \<and> flush_kept m m1"
  proof (cases matched)
    case True
    have ok': "sched_ok (remove_active t m)" using safe_remove_active ok by (rule safe_ok)
    have "remove_active t m0 = (remove_active t m)\<lparr>live := removeAll (t, g) (live (remove_active t m))\<rparr>"
      by (simp add: m0_def remove_active_def)
    moreover have "sched_ok \<dots>"
      by (rule live_removed[OF ok']) (use p in \<open>auto simp: remove_active_def bt_get_remove\<close>)
    ultimately have k: "sched_ok (remove_active t m0)" by simp
    moreover have "flush_kept m (remove_active t m0)" unfolding flush_kept_def by (auto simp: m0_def remove_active_def)
    ultimately show ?thesis
      using True safe_clear_if[OF safe_refl, of "remove_active t m0" env t] flush_kept_trans
      unfolding m1_def safe_def by auto
  next
    case False
    have "sched_ok m0" unfolding m0_def
      by (rule live_removed[OF ok]) (use False p in \<open>auto simp: matched_def m0_def split: option.splits\<close>)
    then show ?thesis using False flush_kept_live by (simp add: m1_def m0_def)
  qed
  have f: "finish_pending_pause t g m1 = (False, m1)"
  proof (rule finish_other)
    fix q assume q: "bt_get (pending_pauses m1) t = Some q"
    then have "(t, pause_gen q) \<in> set (live m1)" using m1 unfolding sched_ok_def by blast
    show "pause_gen q \<noteq> g"
    proof (cases matched)
      case True
      then have "bt_get (active_tasks m) t \<noteq> None" by (auto simp: matched_def m0_def split: option.splits)
      then have "\<not> pausing m t" using sched_ok_pausing[OF ok, of t] by auto
      moreover have "pausing m1 t = pausing m t" using True by (simp add: m1_def) (simp add: pausing_def m0_def)
      ultimately show ?thesis using q by (simp add: pausing_def)
    next
      case False
      then show ?thesis using p q by (simp add: m1_def m0_def)
    qed
  qed
  have r: "on_task_done env fo t g m = (case (if matched then bt_get (rows (drain_queue env m1)) t else None) of
      Some r \<Rightarrow> after_done env fo t r (drain_queue env m1) | None \<Rightarrow> sync_queue_occupancy env (drain_queue env m1))"
    unfolding on_task_done_def Let_def m0_def[symmetric] matched_def[symmetric] m1_def[symmetric] f by simp
  have "safe m1 (on_task_done env fo t g m)"
    unfolding r by (intro safe_option safe_sync safe_drain safe_trans_core[OF safe_drain after_done_core])
  then show ?thesis using m1 flush_kept_trans unfolding safe_def by blast
qed

lemma task_done_latched:
  assumes ok: "sched_ok m" and p: "bt_get (pending_pauses m) t = Some p" "pause_gen p = g"
  shows "sched_ok (on_task_done env fo t g m) \<and> (\<forall>x. x \<noteq> t \<longrightarrow> flush_kept_at x m (on_task_done env fo t g m))"
proof -
  define m0 where "m0 = m\<lparr>live := removeAll (t, g) (live m)\<rparr>"
  have na: "bt_get (active_tasks m0) t = None"
    using ok p unfolding sched_ok_def pausing_def by (simp add: m0_def)
  define b where "b = fst (finish_pending_pause t g m0)"
  define m1 where "m1 = snd (finish_pending_pause t g m0)"
  have fin: "finish_pending_pause t g m0 = (b, m1)" by (simp add: b_def m1_def)
  let ?m = "m\<lparr>pending_pauses := bt_remove t (pending_pauses m), live := removeAll (t, g) (live m)\<rparr>"
  have c: "core m1 = core ?m"
    using p na unfolding m1_def
    by (auto simp: finish_pending_pause_def Let_def m0_def core_simps(3) split: option.split)
      (simp_all add: core_def)
  have ok': "sched_ok (m\<lparr>pending_pauses := bt_remove t (pending_pauses m)\<rparr>)"
    using ok unfolding sched_ok_def queued_ids_def pausing_def by (auto simp: bt_facts)
  have "sched_ok ?m"
    using live_removed[OF ok', of t g] na by (simp add: m0_def bt_get_remove)
  then have ok1: "sched_ok m1" using core_sched_ok[OF c] by simp
  define m4 where "m4 = (if b then resume_task_inner env t (drain_queue env m1) else drain_queue env m1)"
  have r: "on_task_done env fo t g m = sync_queue_occupancy env m4"
    unfolding on_task_done_def Let_def m0_def[symmetric] na by (simp add: fin m4_def)
  have "safe m1 (on_task_done env fo t g m)"
    unfolding r m4_def by (intro safe_sync safe_if safe_trans[OF safe_drain safe_resume_inner] safe_drain)
  then have s: "sched_ok (on_task_done env fo t g m)" "flush_kept m1 (on_task_done env fo t g m)"
    using ok1 by (auto simp: safe_def)
  have k: "pending_pauses m1 = bt_remove t (pending_pauses m)" "live m1 = removeAll (t, g) (live m)"
    using c by (simp_all add: core_def)
  have "flush_kept_at x m (on_task_done env fo t g m)" if "x \<noteq> t" for x
    using flush_kept_atI[OF s(2), of x] that unfolding flush_kept_at_def k by (auto simp: bt_get_remove)
  then show ?thesis using s(1) by blast
qed


section \<open>The remaining events\<close>

lemma safe_resolve_ready: "safe m (on_resolve_ready env t g k res m)"
proof (cases "sched_ok m \<and> map_option resolve_gen (bt_get (pending_resolves m) t) = Some g")
  case True
  define settle where "settle = (\<lambda>m :: manager. m\<lparr>pending_resolves := bt_remove t (pending_resolves m)\<rparr>)"
  have np: "\<not> pausing m t" using sched_ok_pausing[of m t] True by auto
  have s: "safe m (settle m)" by (simp add: settle_def safe_settle)
  have sr: "safe m (remove_active t (settle m))" by (rule safe_trans[OF s safe_remove_active])
  have sf: "safe m (remove_active t (settle (set_status t 4 msg m)))" for msg
    using safe_trans[OF safe_set_status[OF safe_refl] safe_trans[OF safe_settle safe_remove_active]] by (simp add: settle_def)
  have np': "\<not> pausing ((remove_active t (settle m))\<lparr>resume_applied := x\<rparr>) t" "\<not> pausing (settle m) t" for x
    using np by (simp_all add: settle_def remove_active_def pausing_def)
  have res: "safe m (drain_queue env (do_resume_task env t ((remove_active t (settle m))\<lparr>resume_applied := x\<rparr>)))" for x
    by (intro safe_drain_after safe_trans[OF safe_trans_core[OF sr core_updates(8)] starts_safe[OF np'(1) starts_do_resume]])
  have st: "safe m (drain_queue env (do_start_task env q (settle m)))" if "task_id q = t" for q
    by (intro safe_drain_after safe_trans[OF s starts_safe[OF np'(2)]]) (use starts_do_start[of q] that in simp)
  have id: "task_id q = t" if "bt_get (pending_resolves m) t = Some (ResolveStart q h)" for q h
    using True that unfolding sched_ok_def by blast
  show ?thesis
    unfolding on_resolve_ready_def Let_def settle_def[symmetric]
    using True id
    by (auto intro!: safe_cancel_task safe_drain_after sr sf res st s split: resolve_result.split resolve_kind.split option.split pending_resolve.split)
next
  case False
  have "safe m (on_resolve_ready env t g k res m)" if "map_option resolve_gen (bt_get (pending_resolves m) t) \<noteq> Some g"
    unfolding on_resolve_ready_def if_P[OF that] by (intro safe_if safe_refl safe_drain_after safe_remove_active)
  then show ?thesis using False by (cases "sched_ok m") (auto simp: safe_def[of m])
qed

lemma safe_enqueue_task:
  assumes "task_id q \<notin> set (queued_ids m)" "\<not> pausing m (task_id q)"
  shows "safe m (enqueue_persisted_task env q m)"
  unfolding enqueue_persisted_task_def Let_def
  by (intro safe_sync safe_if safe_start_drain[OF assms(2) starts_do_start] safe_append_queue assms)

lemma safe_move: "safe m (move_task_to_queue t q m)"
proof -
  obtain q' rs where f: "move_task_to_queue t q m = m\<lparr>rows := rs,
      active_tasks := bt_adjust t (\<lambda>e. e\<lparr>entry_queue := q'\<rparr>) (active_tasks m),
      pending_queue := map (\<lambda>x. if task_id x = t then x\<lparr>queue_id := q'\<rparr> else x) (pending_queue m)\<rparr>"
    by (auto simp: move_task_to_queue_def Let_def)
  let ?m = "m\<lparr>active_tasks := bt_adjust t (\<lambda>e. e\<lparr>entry_queue := q'\<rparr>) (active_tasks m)\<rparr>"
  have "task_id \<circ> (\<lambda>x. if task_id x = t then x\<lparr>queue_id := q'\<rparr> else x) = (task_id :: queued_task \<Rightarrow> string)"
    by auto
  then have ids: "map task_id (map (\<lambda>x. if task_id x = t then x\<lparr>queue_id := q'\<rparr> else x) (pending_queue m))
      = map task_id (pending_queue m)" by simp
  have s: "safe m ?m"
    unfolding safe_def sched_ok_def flush_kept_def queued_ids_def pausing_def by (simp add: bt_facts) fastforce
  have "safe ?m (?m\<lparr>pending_queue := map (\<lambda>x. if task_id x = t then x\<lparr>queue_id := q'\<rparr> else x) (pending_queue m)\<rparr>)"
    by (rule queue_safe) (simp_all only: ids queued_ids_def manager.select_convs manager.surjective manager.update_convs, simp_all)
  then show ?thesis
    unfolding f by (rule safe_trans_core[OF safe_trans[OF s]]) (simp add: core_def)
qed

lemma safe_start_queue: "safe m (start_queue env q m)"
  by (auto simp: start_queue_def intro!: safe_core_trans[OF core_simps(10) safe_batch_resume])

lemma safe_stop_queue: "safe m (stop_queue env sds q m)"
  by (auto simp: stop_queue_def intro!: safe_core_trans[OF core_simps(10) safe_batch_pause])

lemma safe_tick: "safe m (tick_queue_schedules env sds d b n m)"
proof -
  have "safe m0 (foldl (\<lambda>m (qid, start). if start then start_queue env qid m else stop_queue env sds qid m) m0 acts)" for m0 acts
    by (rule safe_foldl) (auto simp: safe_start_queue safe_stop_queue split: prod.split)
  then show ?thesis
    unfolding tick_queue_schedules_def Let_def split_def
    by (rule safe_core_trans[rotated]) simp
qed

lemma initial_ok: "sched_ok ((initial_manager n r d)\<lparr>rows := rs\<rparr>)"
  by (simp add: sched_ok_def initial_manager_def queued_ids_def pausing_def bt_wf_def)

text \<open>Every event but the end of a pausing downloader is a safe change.\<close>

lemma handle_safe:
  assumes "possible ev m" "\<And>t g fo. ev \<noteq> TaskDone t g fo"
  shows "safe m (handle env ev m)"
proof (cases ev)
  case (CreateTask q r)
  then have "fresh_task (task_id q) m" using assms(1) by simp
  then have "task_id q \<notin> set (queued_ids (insert_row (task_id q) r m))" "\<not> pausing (insert_row (task_id q) r m) (task_id q)"
    by (simp_all add: fresh_task_def insert_row_def queued_ids_def pausing_def)
  then show ?thesis using CreateTask safe_core_trans[OF core_simps(7) safe_enqueue_task] by simp
next
  case (RetryFires t d)
  have "safe m0 (retry_fires env t m0)" for m0 by (simp add: retry_fires_def safe_resume_inner)
  then show ?thesis unfolding RetryFires handle.simps by (rule safe_core_trans[OF core_updates(9)])
next
  case (SetMaxConcurrent n)
  then show ?thesis using safe_core_trans[OF core_updates(12) safe_drain] by (simp add: set_max_concurrent_def)
next
  case (SetSchedule q e a b d)
  then show ?thesis by (auto simp: set_queue_schedule_def intro!: core_safe)
next
  case (TaskDone t g fo)
  then show ?thesis using assms(2) by blast
qed (simp_all add: pause_task_def safe_pause safe_resume_task safe_cancel_task safe_delete_task safe_delete_batch
    safe_resolve_ready safe_batch_pause safe_batch_resume safe_set_priority safe_move safe_start_queue
    safe_stop_queue safe_tick core_safe)

lemma task_done_ok: "sched_ok m \<Longrightarrow> sched_ok (on_task_done env fo t g m)"
  using task_done_latched task_done_unlatched by blast

theorem reach_sched_ok: "manager_reach env m \<Longrightarrow> sched_ok m"
proof (induction rule: manager_reach.induct)
  case (start rs n r d)
  show ?case by (rule initial_ok)
next
  case (event m ev)
  show ?case
  proof (cases "\<exists>t g fo. ev = TaskDone t g fo")
    case True
    then show ?thesis using event.IH by (auto simp: task_done_ok)
  next
    case False
    then show ?thesis using handle_safe[OF event.hyps(2)] event.IH by (auto simp: safe_def)
  qed
qed

end
