(* ===== verification/Task_Drain.thy ===== *)
theory Task_Drain
  imports Task_Reach "HOL-Library.Sublist"
begin

text \<open>
  What draining the queue achieves: the limits hold, the order is kept, and nothing waits that could
  run.
\<close>

section \<open>The effect of one start\<close>

definition active_mset :: "manager \<Rightarrow> task_entry multiset" where
  "active_mset m = mset (bt_values (active_tasks m))"

definition start_frame :: "string \<Rightarrow> string \<Rightarrow> manager \<Rightarrow> manager \<Rightarrow> bool" where
  "start_frame t q m m' \<longleftrightarrow>
     (\<forall>x. x \<noteq> t \<longrightarrow> bt_get (active_tasks m') x = bt_get (active_tasks m) x \<and> bt_get (rows m') x = bt_get (rows m) x)
     \<and> map_option row_queue (bt_get (rows m') t) = map_option row_queue (bt_get (rows m) t)
     \<and> max_concurrent m' = max_concurrent m \<and> queues m' = queues m
     \<and> (bt_get (active_tasks m) t = None \<longrightarrow>
          active_mset m' = active_mset m \<and> (\<forall>r. bt_get (rows m') t = Some r \<longrightarrow> status r = 4)
        \<or> (\<exists>e. active_mset m' = add_mset e (active_mset m) \<and> entry_queue e = q \<and> bt_get (active_tasks m') t \<noteq> None))"

lemma bt_get_insert_at: "bt_get (bt_insert k v m) k = Some v"
  by (induction k v m rule: bt_insert.induct) auto

lemma values_insert: "bt_get m k = None \<Longrightarrow> mset (bt_values (bt_insert k v m)) = add_mset v (mset (bt_values m))"
  by (induction k v m rule: bt_insert.induct) (auto simp: bt_values_def split: if_splits)

lemma adjust_absent: "bt_get m k = None \<Longrightarrow> bt_adjust k f m = m"
  by (induction m) (auto simp: bt_adjust_def split: if_splits)

lemma adjust_Cons: "bt_adjust k f ((a, b) # m) = (a, if a = k then f b else b) # bt_adjust k f m"
  by (simp add: bt_adjust_def)

lemma values_Cons: "bt_values ((a, b) # m) = b # bt_values m"
  by (simp add: bt_values_def)

lemma values_adjust_insert: "bt_get m k = None \<Longrightarrow>
    mset (bt_values (bt_adjust k f (bt_insert k v m))) = add_mset (f v) (mset (bt_values m))"
proof (induction k v m rule: bt_insert.induct)
  case (2 k v k' v' m)
  then show ?case by (auto simp: values_Cons adjust_Cons adjust_absent split: if_splits)
qed (simp add: bt_values_def bt_adjust_def)

lemma remove_insert: "bt_get m k = None \<Longrightarrow> bt_remove k (bt_insert k v m) = m"
proof -
  assume a: "bt_get m k = None"
  have "bt_remove k (bt_insert k v m) = bt_remove k m"
    by (induction k v m rule: bt_insert.induct) (auto simp: bt_remove_def)
  moreover have "bt_remove k m = m" using a by (induction m) (auto simp: bt_remove_def split: if_splits)
  ultimately show ?thesis by simp
qed

lemma frame_spawn: "start_frame t q m (spawn t (add_active t b q m))"
  by (auto simp: start_frame_def spawn_def add_active_def Let_def active_mset_def bt_get_insert_other bt_get_adjust
      bt_get_insert_at values_adjust_insert)

lemma frame_spawn_route:
  "start_frame t q m (spawn t (set_route t l ((add_active t b q m)\<lparr>auto_failover_pending := x\<rparr>)))"
  by (auto simp: start_frame_def spawn_def set_route_def add_active_def Let_def active_mset_def bt_get_adjust
      bt_get_insert_other bt_get_insert_at values_adjust_insert option.map_comp comp_def)

lemma frame_fail: "start_frame t q m (remove_active t (set_status t 4 msg (add_active t b q m)))"
  by (auto simp: start_frame_def remove_active_def set_status_def add_active_def Let_def active_mset_def bt_get_adjust
      bt_get_remove bt_get_insert_other remove_insert option.map_comp comp_def)

lemma frame_resolve:
  "start_frame t q m ((add_active t b q m)\<lparr>pending_resolves := x\<rparr>)"
  by (auto simp: start_frame_def add_active_def Let_def active_mset_def bt_get_insert_other bt_get_insert_at values_insert)

lemmas frames = frame_spawn frame_spawn_route frame_fail frame_resolve

lemma frame_start: "start_frame (task_id q) (queue_id q) m (do_start_task env q m)"
  by (simp add: do_start_task_def begin_resolve_start_def spawn_start_def Let_def frames split: option.split)

lemma frame_applied: "start_frame t q (m\<lparr>resume_applied := x\<rparr>) m' = start_frame t q m m'"
  by (simp add: start_frame_def active_mset_def)

lemma frame_resume_spawn: "start_frame t (row_queue r) m (resume_spawn env t addr r m)"
  by (simp add: resume_spawn_def spawn_resume_def Let_def frames split: option.split)

lemma frame_resume:
  assumes "\<And>r. bt_get (rows m) t = Some r \<Longrightarrow> row_queue r = q"
  shows "start_frame t q m (do_resume_task env t m)"
proof (cases "bt_get (rows m) t")
  case None
  then show ?thesis by (simp add: do_resume_task_def start_frame_def)
next
  case (Some r)
  then have "q = row_queue r" using assms by simp
  then show ?thesis
    using Some frame_resume_spawn[of t r "m\<lparr>resume_applied := _\<rparr>", unfolded frame_applied]
    by (simp add: do_resume_task_def begin_resolve_resume_def Let_def frames frame_resume_spawn split: option.split)
qed

section \<open>Limits, order and progress\<close>

lemma http_active_mset: "http_active m = size (filter_mset (\<lambda>e. \<not> entry_bt e) (active_mset m))"
  by (simp add: http_active_def active_mset_def flip: mset_filter)

lemma queue_active_mset: "queue_active m q = size (filter_mset (\<lambda>e. entry_queue e = q) (active_mset m))"
  by (simp add: queue_active_def active_mset_def flip: mset_filter)

definition queue_agrees :: "manager \<Rightarrow> queued_task list \<Rightarrow> bool" where
  "queue_agrees m qs \<longleftrightarrow> (\<forall>q \<in> set qs. is_resume q \<longrightarrow>
     (case bt_get (rows m) (task_id q) of Some r \<Rightarrow> row_queue r = queue_id q | None \<Rightarrow> True))"

text \<open>The counts after a start: within the limits that admitted it, and never smaller.\<close>

definition grown :: "manager \<Rightarrow> manager \<Rightarrow> bool" where
  "grown m m' \<longleftrightarrow> max_concurrent m' = max_concurrent m \<and> queues m' = queues m
     \<and> active_mset m \<subseteq># active_mset m'
     \<and> (max_concurrent m \<noteq> 0 \<longrightarrow> http_active m' \<le> max (http_active m) (max_concurrent m))
     \<and> (\<forall>q. q \<noteq> [] \<longrightarrow> queue_limit m q \<noteq> 0 \<longrightarrow> queue_active m' q \<le> max (queue_active m q) (queue_limit m q))"

lemma grown_refl: "grown m m" by (simp add: grown_def)

lemma queue_limit_cong: "queues m' = queues m \<Longrightarrow> queue_limit m' = queue_limit m"
  by (simp add: queue_limit_def fun_eq_iff)

lemma grown_trans: "grown m m1 \<Longrightarrow> grown m1 m2 \<Longrightarrow> grown m m2"
  unfolding grown_def using queue_limit_cong[of m1 m] by (fastforce intro: order_trans subset_mset.trans)

lemma grown_start:
  assumes "start_frame t q m m'" "bt_get (active_tasks m) t = None" "has_capacity m" "has_queue_capacity m q"
  shows "grown m m'"
proof -
  have f: "max_concurrent m' = max_concurrent m" "queues m' = queues m" using assms(1) by (simp_all add: start_frame_def)
  consider "active_mset m' = active_mset m"
    | e where "active_mset m' = add_mset e (active_mset m)" "entry_queue e = q"
    using assms(1,2) unfolding start_frame_def by blast
  then show ?thesis
  proof cases
    case 1
    then show ?thesis using f by (simp add: grown_def http_active_mset queue_active_mset)
  next
    case 2
    show ?thesis unfolding grown_def http_active_mset queue_active_mset 2(1)
      using f assms(3,4) 2(2) by (auto simp: has_capacity_def has_queue_capacity_def http_active_mset queue_active_mset)
  qed
qed

lemma grown_capacity: "grown m m' \<Longrightarrow> has_capacity m' \<Longrightarrow> has_capacity m"
  using size_mset_mono[OF multiset_filter_mono, of "active_mset m" "active_mset m'" "\<lambda>e. \<not> entry_bt e"]
  by (auto simp: grown_def has_capacity_def http_active_mset)

lemma grown_queue_capacity: "grown m m' \<Longrightarrow> has_queue_capacity m' q \<Longrightarrow> has_queue_capacity m q"
  using size_mset_mono[OF multiset_filter_mono, of "active_mset m" "active_mset m'" "\<lambda>e. entry_queue e = q"]
  by (auto simp: grown_def has_queue_capacity_def queue_active_mset queue_limit_def)


lemma drain_loop_fair:
  assumes "drain_loop env full qs m = (kept, m')" "distinct (map task_id qs)" "queue_agrees m qs"
    and "full \<longrightarrow> \<not> has_capacity m"
  shows "grown m m' \<and> subseq kept qs
    \<and> (\<forall>q \<in> set kept. \<not> has_capacity m' \<or> \<not> has_queue_capacity m' (queue_id q))
    \<and> (\<forall>x e. bt_get (active_tasks m) x = Some e \<longrightarrow> bt_get (active_tasks m') x = Some e)
    \<and> (\<forall>x. x \<notin> task_id ` set qs \<longrightarrow> bt_get (rows m') x = bt_get (rows m) x)
    \<and> (\<forall>q \<in> set qs. q \<in> set kept \<or> bt_get (active_tasks m') (task_id q) \<noteq> None
          \<or> (\<forall>r. bt_get (rows m') (task_id q) = Some r \<longrightarrow> status r = 4))"
  using assms
proof (induction env full qs m arbitrary: kept m' rule: drain_loop.induct)
  case (1 env full m)
  then show ?case by (simp add: grown_refl)
next
  case (2 env full q qs m)
  let ?go = "if is_resume q then do_resume_task env (task_id q) m else do_start_task env q m"
  have d: "distinct (map task_id qs)" "task_id q \<notin> task_id ` set qs" "queue_agrees m qs"
    using "2.prems"(2,3) by (auto simp: queue_agrees_def)
  consider (full) "full \<or> \<not> has_capacity m"
    | (act) "\<not> (full \<or> \<not> has_capacity m)" "bt_get (active_tasks m) (task_id q) \<noteq> None"
    | (queue) "\<not> (full \<or> \<not> has_capacity m)" "\<not> bt_get (active_tasks m) (task_id q) \<noteq> None" "\<not> has_queue_capacity m (queue_id q)"
    | (run) "\<not> (full \<or> \<not> has_capacity m)" "\<not> bt_get (active_tasks m) (task_id q) \<noteq> None" "\<not> \<not> has_queue_capacity m (queue_id q)"
    by blast
  then show ?case
  proof cases
    case full
    obtain k where k: "drain_loop env True qs m = (k, m')" "kept = q # k"
      using "2.prems"(1) full by (auto split: prod.splits)
    have nc: "\<not> has_capacity m" using full "2.prems"(4) by blast
    have ih: "grown m m' \<and> subseq k qs
      \<and> (\<forall>q \<in> set k. \<not> has_capacity m' \<or> \<not> has_queue_capacity m' (queue_id q))
      \<and> (\<forall>x e. bt_get (active_tasks m) x = Some e \<longrightarrow> bt_get (active_tasks m') x = Some e)
      \<and> (\<forall>x. x \<notin> task_id ` set qs \<longrightarrow> bt_get (rows m') x = bt_get (rows m) x)
      \<and> (\<forall>q \<in> set qs. q \<in> set k \<or> bt_get (active_tasks m') (task_id q) \<noteq> None
            \<or> (\<forall>r. bt_get (rows m') (task_id q) = Some r \<longrightarrow> status r = 4))"
      using "2.IH"(1)[OF full k(1) d(1,3)] nc by simp
    have "\<not> has_capacity m'" using ih grown_capacity nc by blast
    then show ?thesis using ih unfolding k(2) by auto
  next
    case act
    have dd: "drain_loop env False qs m = (kept, m')" using "2.prems"(1) act by simp
    note ih = "2.IH"(2)[OF act dd d(1,3)]
    obtain e where e: "bt_get (active_tasks m') (task_id q) = Some e" using act(2) ih by blast
    show ?thesis using ih e by auto
  next
    case queue
    obtain k where k: "drain_loop env False qs m = (k, m')" "kept = q # k"
      using "2.prems"(1) queue by (auto split: prod.splits)
    note ih = "2.IH"(3)[OF queue k(1) d(1,3)]
    have "\<not> has_queue_capacity m' (queue_id q)" using ih grown_queue_capacity queue(3) by blast
    then show ?thesis using ih unfolding k(2) by auto
  next
    case run
    have fr: "start_frame (task_id q) (queue_id q) m ?go"
      using frame_start frame_resume[of m "task_id q" "queue_id q"] "2.prems"(3)
      by (auto simp: queue_agrees_def split: option.splits)
    have g: "grown m ?go" by (rule grown_start[OF fr]) (use run in auto)
    have dd: "drain_loop env False qs ?go = (kept, m')" using "2.prems"(1) run by simp
    have oth: "bt_get (active_tasks ?go) x = bt_get (active_tasks m) x" "bt_get (rows ?go) x = bt_get (rows m) x"
      if "x \<noteq> task_id q" for x using fr that unfolding start_frame_def by blast+
    have ag: "queue_agrees ?go qs" using d(2,3) oth(2) unfolding queue_agrees_def by (metis image_eqI)
    note ih = "2.IH"(4)[OF run dd d(1) ag, simplified simp_thms]
    have me: "bt_get (active_tasks ?go) (task_id q) \<noteq> None \<or> (\<forall>r. bt_get (rows ?go) (task_id q) = Some r \<longrightarrow> status r = 4)"
      using fr run(2) unfolding start_frame_def by blast
    have q: "bt_get (active_tasks m') (task_id q) \<noteq> None \<or> (\<forall>r. bt_get (rows m') (task_id q) = Some r \<longrightarrow> status r = 4)"
      using me ih d(2) by (metis not_Some_eq)
    have act: "bt_get (active_tasks m') x = Some e" if "bt_get (active_tasks m) x = Some e" for x e
      using that ih oth(1)[of x] run(2) by (metis not_Some_eq)
    have row: "bt_get (rows m') x = bt_get (rows m) x" if "x \<notin> task_id ` set (q # qs)" for x
      using that ih oth(2)[of x] by simp
    show ?thesis using ih grown_trans[OF g] q act row by auto
  qed
qed


text \<open>A running task keeps its entry while the queue is drained.\<close>

lemma start_other:
  assumes "x \<noteq> task_id q"
  shows "bt_get (active_tasks (if is_resume q then do_resume_task env (task_id q) m else do_start_task env q m)) x =
    bt_get (active_tasks m) x"
proof -
  have "start_frame (task_id q) (case bt_get (rows m) (task_id q) of Some r \<Rightarrow> row_queue r | None \<Rightarrow> []) m
      (do_resume_task env (task_id q) m)"
    by (rule frame_resume) simp
  then show ?thesis using assms frame_start[of q m env] by (simp add: start_frame_def)
qed

lemma drain_loop_keeps:
  "bt_get (active_tasks m) x = Some e \<Longrightarrow> bt_get (active_tasks (snd (drain_loop env full qs m))) x = Some e"
proof (induction env full qs m rule: drain_loop.induct)
  case (2 env full q qs m)
  show ?case
  proof (cases "x = task_id q")
    case True
    then show ?thesis using 2 by (simp add: split_def Let_def)
  next
    case False
    then show ?thesis using 2 start_other[OF False, of env m] by (simp add: split_def Let_def)
  qed
qed simp

lemma drain_keeps: "bt_get (active_tasks m) x = Some e \<Longrightarrow> bt_get (active_tasks (drain_queue env m)) x = Some e"
  using drain_loop_keeps[of "m\<lparr>pending_queue := []\<rparr>"] by (simp add: drain_queue_def split_def Let_def)

end
