(* ===== verification/Task_Props.thy ===== *)
theory Task_Props
  imports Task_Drain
begin

text \<open>
  What the task scheduler guarantees in every reachable state, and where it does not keep its word.
\<close>

section \<open>Pausing\<close>

text \<open>
  C8.  A new generation of a task never starts while a paused one is still writing: from the pause
  until the downloader of that generation ends, whatever else happens, the task is neither active
  nor queued, no downloader is started for it, and a resume asked for meanwhile is remembered.
\<close>

theorem pause_waits_for_flush:
  assumes "manager_reach env m" "bt_get (pending_pauses m) t = Some p" "possible ev m"
    and "\<forall>fo. ev \<noteq> TaskDone t (pause_gen p) fo"
  shows "(\<exists>p'. bt_get (pending_pauses (handle env ev m)) t = Some p' \<and> pause_gen p' = pause_gen p
           \<and> (resume_requested p \<longrightarrow> resume_requested p'))
       \<and> bt_get (active_tasks (handle env ev m)) t = None \<and> t \<notin> set (queued_ids (handle env ev m))
       \<and> (\<forall>g. (t, g) \<in> set (live (handle env ev m)) \<longrightarrow> (t, g) \<in> set (live m))"
proof -
  note ok = reach_sched_ok[OF assms(1)]
  have k: "flush_kept_at t m (handle env ev m)"
  proof (cases "\<exists>x g fo. ev = TaskDone x g fo")
    case True
    then obtain x g fo where ev: "ev = TaskDone x g fo" by blast
    show ?thesis
    proof (cases "\<exists>q. bt_get (pending_pauses m) x = Some q \<and> pause_gen q = g")
      case True
      then have "t \<noteq> x" using assms(2,4) ev by auto
      then show ?thesis using task_done_latched[OF ok, of x] True ev by auto
    next
      case False
      then show ?thesis using task_done_unlatched[OF ok, of x g] ev by (auto intro: flush_kept_atI)
    qed
  next
    case False
    then show ?thesis using handle_safe[OF assms(3)] ok by (auto simp: safe_def intro: flush_kept_atI)
  qed
  then obtain p' where p': "bt_get (pending_pauses (handle env ev m)) t = Some p'"
    "pause_gen p' = pause_gen p \<and> (resume_requested p \<longrightarrow> resume_requested p')"
    "\<forall>g. (t, g) \<in> set (live (handle env ev m)) \<longrightarrow> (t, g) \<in> set (live m)"
    using assms(2) unfolding flush_kept_at_def by blast
  have "sched_ok (handle env ev m)" by (rule reach_sched_ok[OF manager_reach.event[OF assms(1,3)]])
  then have "bt_get (active_tasks (handle env ev m)) t = None \<and> t \<notin> set (queued_ids (handle env ev m))"
    using sched_ok_pausing[of "handle env ev m" t] p'(1) by (simp add: pausing_def)
  then show ?thesis using p' by blast
qed

text \<open>One HTTP task, created, running and then paused.\<close>

definition demo_env :: env where
  "demo_env = \<lparr> hash_order = (\<lambda>xs. xs), bt_error = (\<lambda>_. None), route_label = (\<lambda>_ _. []) \<rparr>"

definition demo_task :: "string \<Rightarrow> queued_task" where
  "demo_task t = \<lparr> task_id = t, url = ''http://h/f'', is_resume = False, torrent_file_bytes = [],
     queue_id = [], resolver_plugin_id = [], resolved = False \<rparr>"

definition demo_row :: "int \<Rightarrow> task_row" where
  "demo_row s = \<lparr> status = s, error_message = [], row_url = ''http://h/f'', row_queue = [], row_order = 0,
     created_at = [], seeding_status = 0, row_torrent = [], row_resolver = [], row_route = [] \<rparr>"

fun demo_run :: "nat \<Rightarrow> event list \<Rightarrow> manager" where
  "demo_run n evs = foldl (\<lambda>m ev. handle demo_env ev m) (initial_manager n 3 5) evs"

fun demo_possible :: "manager \<Rightarrow> event list \<Rightarrow> bool" where
  "demo_possible m [] \<longleftrightarrow> True"
| "demo_possible m (ev # evs) \<longleftrightarrow> possible ev m \<and> demo_possible (handle demo_env ev m) evs"

lemma task_demo_reach: "manager_reach demo_env m \<Longrightarrow> demo_possible m evs \<Longrightarrow>
    manager_reach demo_env (foldl (\<lambda>m ev. handle demo_env ev m) m evs)"
  by (induction evs arbitrary: m) (auto intro: manager_reach.event)

lemma initial_reach: "manager_reach demo_env (initial_manager n 3 5)"
  using manager_reach.start[of "[]" demo_env n 3 5] by (simp add: initial_manager_def bt_wf_def)

definition paused_demo :: manager where
  "paused_demo = demo_run 1 [CreateTask (demo_task ''a'') (demo_row 0), PauseTask ''a'']"

lemma paused_demo_facts:
  "manager_reach demo_env paused_demo"
  "bt_get (pending_pauses paused_demo) ''a'' = Some \<lparr>pause_gen = 1, pause_notify = True, resume_requested = False\<rparr>"
proof -
  have "demo_possible (initial_manager 1 3 5) [CreateTask (demo_task ''a'') (demo_row 0), PauseTask ''a'']"
    by code_simp
  then show "manager_reach demo_env paused_demo"
    unfolding paused_demo_def demo_run.simps by (rule task_demo_reach[OF initial_reach])
  show "bt_get (pending_pauses paused_demo) ''a'' = Some \<lparr>pause_gen = 1, pause_notify = True, resume_requested = False\<rparr>"
    unfolding paused_demo_def by code_simp
qed

lemma pause_waits_for_flush_witness:
  "''a'' \<notin> set (queued_ids (handle demo_env (ResumeTask ''a'') paused_demo))"
  using pause_waits_for_flush[OF paused_demo_facts, of "ResumeTask ''a''"] by simp

lemma drain_empty: "pending_queue m = [] \<Longrightarrow> drain_queue env m = m"
  by (simp add: drain_queue_def)

lemma capacity_cong:
  "max_concurrent m' = max_concurrent m \<Longrightarrow> active_tasks m' = active_tasks m \<Longrightarrow> has_capacity m' = has_capacity m"
  "queues m' = queues m \<Longrightarrow> active_tasks m' = active_tasks m \<Longrightarrow> has_queue_capacity m' q = has_queue_capacity m q"
  by (simp_all add: has_capacity_def http_active_def has_queue_capacity_def queue_limit_def queue_active_def)

text \<open>Resuming a plain HTTP task when nothing is in the way.\<close>

definition plain_row :: "manager \<Rightarrow> string \<Rightarrow> task_row \<Rightarrow> bool" where
  "plain_row m t r \<longleftrightarrow> bt_get (rows m) t = Some r \<and> row_resolver r = [] \<and> \<not> is_bt_url (row_url r)
     \<and> has_capacity m \<and> has_queue_capacity m (row_queue r) \<and> pending_queue m = []"

lemma plain_resume:
  assumes "plain_row m t r" "\<not> pausing m t" "status r \<noteq> 3"
    and "bt_get (active_tasks m) t = None"
  shows "live (resume_task_inner env t m) = (t, Suc (generation m)) # live m
    \<and> pending_queue (resume_task_inner env t m) = [] \<and> cancelled (resume_task_inner env t m) = cancelled m
    \<and> generation (resume_task_inner env t m) = Suc (generation m)
    \<and> pending_pauses (resume_task_inner env t m) = pending_pauses m
    \<and> max_concurrent (resume_task_inner env t m) = max_concurrent m \<and> queues (resume_task_inner env t m) = queues m
    \<and> active_tasks (resume_task_inner env t m) = bt_adjust t (\<lambda>e. e\<lparr>entry_spawned := True\<rparr>) (bt_insert t
        \<lparr>entry_gen = Suc (generation m), entry_spawned = False, entry_bt = False, entry_queue = row_queue r\<rparr> (active_tasks m))
    \<and> rows (resume_task_inner env t m) = bt_adjust t (\<lambda>r. r\<lparr>row_route := route_label env (Suc (generation m)) (bt_get (auto_failover_pending m) t)\<rparr>) (rows m)"
proof -
  let ?m = "m\<lparr>retry_scheduled := bt_remove t (retry_scheduled m)\<rparr>"
  have c: "has_capacity ?m" "has_queue_capacity ?m (row_queue r)"
    using assms(1) capacity_cong[of ?m m] by (auto simp: plain_row_def)
  have d: "resume_task_inner env t m = sync_queue_occupancy env (do_resume_task env t ?m)"
    using assms c by (simp add: resume_task_inner_def resume_dispatch_def Let_def plain_row_def pausing_def queued_ids_def
        resumes_seeding_def drain_empty starts_do_resume[unfolded starts_def])
  show ?thesis
    using assms unfolding d plain_row_def
    by (simp add: do_resume_task_def resume_spawn_def spawn_resume_def spawn_def set_route_def add_active_def Let_def sync_queue_occupancy_def)
qed


text \<open>
  C37.  When a pausing downloader ends, the last command does not decide what happens next.  A pause
  that comes after a resume, while the old generation is still writing, does not take the remembered
  resume back: at the end of the downloader the manager starts a new one, although the user paused
  the task last.
\<close>

theorem second_pause_is_lost:
  assumes "bt_get (pending_pauses m) t = Some p" "bt_get (active_tasks m) t = None"
    and "plain_row m t r" "status r = 2"
    and "m' = handle env (TaskDone t (pause_gen p) fo) (handle env (PauseTask t) (handle env (ResumeTask t) m))"
  shows "(t, Suc (generation m)) \<in> set (live m') \<and> bt_get (active_tasks m') t \<noteq> None"
proof -
  define m2 where "m2 = handle env (PauseTask t) (handle env (ResumeTask t) m)"
  have f: "bt_get (pending_pauses m2) t = Some (p\<lparr>resume_requested := True, pause_notify := True\<rparr>)"
      "active_tasks m2 = active_tasks m" "rows m2 = rows m" "pending_queue m2 = pending_queue m"
      "generation m2 = generation m" "max_concurrent m2 = max_concurrent m" "queues m2 = queues m"
    using assms(1) by (simp_all add: m2_def resume_task_def resume_task_inner_def pause_task_def pause_task_inner_def Let_def bt_get_adjust
        sync_queue_occupancy_def clear_pending_resolve_def)
  define m3 where "m3 = m2\<lparr>live := removeAll (t, pause_gen p) (live m2)\<rparr>"
  obtain m4 where fin: "finish_pending_pause t (pause_gen p) m3 = (True, m4)"
      and m4: "m4 = emit_paused True t (m3\<lparr>pending_pauses := bt_remove t (pending_pauses m3)\<rparr>)"
    using f assms(2,3,4) by (simp add: finish_pending_pause_def m3_def Let_def plain_row_def)
  have g: "active_tasks m4 = active_tasks m" "rows m4 = rows m" "pending_queue m4 = pending_queue m"
      "generation m4 = generation m" "max_concurrent m4 = max_concurrent m" "queues m4 = queues m" "\<not> pausing m4 t"
    using f by (simp_all add: m4 m3_def emit_paused_def pausing_def bt_get_remove)
  have pr: "plain_row m4 t r" "pending_queue m4 = []"
    using assms(3) g capacity_cong[of m4 m] by (simp_all add: plain_row_def)
  have na: "bt_get (active_tasks m3) t = None" using assms(2) f by (simp add: m3_def)
  have "m' = sync_queue_occupancy env (resume_task_inner env t m4)"
    unfolding assms(5) m2_def[symmetric] by (simp add: on_task_done_def Let_def m3_def[symmetric] na fin drain_empty[OF pr(2)])
  then show ?thesis
    using plain_resume[OF pr(1) g(7), of env] assms(2,4) g(1,4)
    by (simp add: sync_queue_occupancy_def Let_def bt_get_adjust bt_get_insert_at)
qed

lemma bt_remove_insert: "bt_remove k (bt_insert k v m) = bt_remove k m"
  by (induction k v m rule: bt_insert.induct) (auto simp: bt_remove_def)

lemma bt_remove_adjust: "bt_remove k (bt_adjust k f m) = bt_remove k m"
  by (induction m) (auto simp: bt_remove_def bt_adjust_def)

lemma bt_remove_absent: "bt_get m k = None \<Longrightarrow> bt_remove k m = m"
  by (induction m) (auto simp: bt_remove_def split: if_splits)

lemma resume_leftover:
  assumes "\<not> pausing m t" "terminal_row (bt_get (rows m) t)" "bt_get (active_tasks m) t \<noteq> None"
  shows "resume_task_inner env t m = resume_task_inner env t (remove_active t m)"
proof -
  have c: "(remove_active t m)\<lparr>retry_scheduled := x\<rparr> = remove_active t (m\<lparr>retry_scheduled := x\<rparr>)" for x
    by (simp add: remove_active_def)
  have "retry_scheduled (remove_active t m) = retry_scheduled m" "rows (remove_active t m) = rows m"
      "pending_pauses (remove_active t m) = pending_pauses m" "bt_get (active_tasks (remove_active t m)) t = None"
    by (simp_all add: remove_active_def bt_get_remove)
  then show ?thesis using assms by (auto simp: resume_task_inner_def Let_def pausing_def c) (simp_all add: remove_active_def bt_get_remove)
qed

text \<open>
  C38.  Two resumes of a failed task in a row start two downloaders.  The row says \<^verbatim>\<open>error\<close> until the
  first downloader has written it, so the second resume takes the entry for a leftover, drops it
  without cancelling its token, and spawns again: both generations write the same temporary file.
\<close>

theorem resume_twice_two_writers:
  assumes "plain_row m t r" "status r = 4" "\<not> pausing m t" "bt_get (active_tasks m) t = None"
    and "m' = handle env (ResumeTask t) (handle env (ResumeTask t) m)"
  shows "(t, Suc (generation m)) \<in> set (live m') \<and> (t, Suc (Suc (generation m))) \<in> set (live m')
    \<and> cancelled m' = cancelled m"
proof -
  define reset where "reset = (\<lambda>m :: manager. m\<lparr>auto_retry_counts := bt_remove t (auto_retry_counts m),
          auto_failover_attempts :=
            (if bt_get (auto_failover_pending m) t = None then bt_remove t (auto_failover_attempts m)
             else auto_failover_attempts m)\<rparr>)"
  have rt: "resume_task env t x = resume_task_inner env t (reset x)" for x
    by (simp add: resume_task_def reset_def)
  have rf: "live (reset x) = live x" "generation (reset x) = generation x" "pending_queue (reset x) = pending_queue x"
      "pending_pauses (reset x) = pending_pauses x" "active_tasks (reset x) = active_tasks x" "rows (reset x) = rows x"
      "max_concurrent (reset x) = max_concurrent x" "queues (reset x) = queues x" "cancelled (reset x) = cancelled x" for x
    by (simp_all add: reset_def)
  have p0: "plain_row (reset m) t r" using assms(1) capacity_cong[of "reset m" m] by (simp add: plain_row_def rf)
  define m1 where "m1 = resume_task env t m"
  note one = plain_resume[OF p0, of env, folded rt m1_def]
  have m1: "active_tasks (remove_active t (reset m1)) = active_tasks m" "rows m1 = bt_adjust t (\<lambda>r. r\<lparr>row_route := route_label env (Suc (generation m)) (bt_get (auto_failover_pending (reset m)) t)\<rparr>) (rows m)"
    "max_concurrent m1 = max_concurrent m" "queues m1 = queues m" "bt_get (active_tasks m1) t \<noteq> None"
      "live m1 = (t, Suc (generation m)) # live m" "generation m1 = Suc (generation m)" "pending_queue m1 = []"
      "cancelled m1 = cancelled m" "pending_pauses m1 = pending_pauses m"
    using one assms(2-4) by (auto simp: rf pausing_def remove_active_def bt_remove_adjust bt_remove_insert bt_remove_absent bt_get_adjust
        bt_get_insert_at)
  have row1: "bt_get (rows m1) t = Some (r\<lparr>row_route := route_label env (Suc (generation m)) (bt_get (auto_failover_pending (reset m)) t)\<rparr>)"
    using assms(1) by (simp add: m1(2) bt_get_adjust plain_row_def)
  have lo: "resume_task env t m1 = resume_task_inner env t (remove_active t (reset m1))"
    unfolding rt by (rule resume_leftover) (use m1 row1 assms(2,3) in \<open>simp_all add: rf pausing_def terminal_row_def\<close>)
  let ?m2 = "remove_active t (reset m1)"
  have f2: "pending_queue ?m2 = []" "rows ?m2 = rows m1" "generation ?m2 = Suc (generation m)" "cancelled ?m2 = cancelled m"
      "live ?m2 = (t, Suc (generation m)) # live m" "pending_pauses ?m2 = pending_pauses m"
      "max_concurrent ?m2 = max_concurrent m" "queues ?m2 = queues m"
    using m1 by (simp_all add: remove_active_def rf)
  have p2: "plain_row ?m2 t (r\<lparr>row_route := route_label env (Suc (generation m)) (bt_get (auto_failover_pending (reset m)) t)\<rparr>)"
    using assms(1) row1 capacity_cong[of ?m2 m] m1(1) f2 by (simp add: plain_row_def)
  have "live (resume_task env t m1) = (t, Suc (Suc (generation m))) # (t, Suc (generation m)) # live m
      \<and> cancelled (resume_task env t m1) = cancelled m"
    using plain_resume[OF p2, of env] f2 assms(2,3,4) m1(1) unfolding lo by (simp add: pausing_def)
  then show ?thesis unfolding assms(5) by (simp add: m1_def)
qed


definition no_failover :: failover_view where
  "no_failover = \<lparr> fo_applies = False, fo_sources = [], fo_reachable = True \<rparr>"

lemma second_pause_is_lost_witness:
  "(''a'', 2) \<in> set (live (handle demo_env (TaskDone ''a'' 1 no_failover)
      (handle demo_env (PauseTask ''a'') (handle demo_env (ResumeTask ''a'') paused_demo))))"
proof -
  obtain r where r: "plain_row paused_demo ''a'' r" "status r = 2"
  proof -
    have "plain_row paused_demo ''a'' ((demo_row 2)\<lparr>row_route := []\<rparr>)" unfolding paused_demo_def by code_simp
    then show thesis using that[of "(demo_row 2)\<lparr>row_route := []\<rparr>"] by (simp add: demo_row_def)
  qed
  have a: "bt_get (active_tasks paused_demo) ''a'' = None" "generation paused_demo = 1"
    unfolding paused_demo_def by code_simp+
  show ?thesis
    using second_pause_is_lost[OF paused_demo_facts(2) a(1) r refl, of demo_env no_failover] a(2)
    by (simp add: numeral_2_eq_2)
qed

definition failed_demo :: manager where
  "failed_demo = demo_run 1 [CreateTask (demo_task ''a'') (demo_row 0), WorkerStatus ''a'' 1 4 ''no space left'',
     TaskDone ''a'' 1 no_failover]"

lemma resume_twice_two_writers_witness:
  "(''a'', 2) \<in> set (live (handle demo_env (ResumeTask ''a'') (handle demo_env (ResumeTask ''a'') failed_demo)))
   \<and> (''a'', 3) \<in> set (live (handle demo_env (ResumeTask ''a'') (handle demo_env (ResumeTask ''a'') failed_demo)))"
proof -
  have f: "plain_row failed_demo ''a'' ((demo_row 4)\<lparr>error_message := ''no space left''\<rparr>)" "\<not> pausing failed_demo ''a''"
      "bt_get (active_tasks failed_demo) ''a'' = None" "generation failed_demo = 1"
    unfolding failed_demo_def by code_simp+
  have s: "status ((demo_row 4)\<lparr>error_message := ''no space left''\<rparr>) = 4" by (simp add: demo_row_def)
  show ?thesis using resume_twice_two_writers[OF f(1) s f(2,3) refl, of demo_env] f(4)
    by (simp add: numeral_2_eq_2 numeral_3_eq_3)
qed

text \<open>
  A late end of an old generation is harmless: for a task that runs under another generation it
  only drains the queue, and the entry of the running generation stays as it is.
\<close>

theorem stale_done_harmless:
  assumes "manager_reach env m" "bt_get (active_tasks m) t = Some e" "entry_gen e \<noteq> g"
  shows "on_task_done env fo t g m =
      sync_queue_occupancy env (drain_queue env (m\<lparr>live := removeAll (t, g) (live m)\<rparr>))
    \<and> bt_get (active_tasks (on_task_done env fo t g m)) t = Some e"
proof -
  have np: "\<not> pausing m t" using sched_ok_pausing[OF reach_sched_ok[OF assms(1)], of t] assms(2) by auto
  let ?m = "m\<lparr>live := removeAll (t, g) (live m)\<rparr>"
  have f: "finish_pending_pause t g ?m = (False, ?m)"
    by (rule finish_other) (use np in \<open>simp add: pausing_def\<close>)
  have eq: "on_task_done env fo t g m = sync_queue_occupancy env (drain_queue env ?m)"
    using assms(2,3) f by (simp add: on_task_done_def Let_def)
  have "bt_get (active_tasks (drain_queue env ?m)) t = Some e" by (rule drain_keeps) (simp add: assms(2))
  then show ?thesis unfolding eq by (simp add: sync_queue_occupancy_def Let_def)
qed

definition restarted_demo :: manager where
  "restarted_demo = handle demo_env (ResumeTask ''a'') (handle demo_env (ResumeTask ''a'') failed_demo)"

lemma stale_done_harmless_witness:
  "map_option entry_gen (bt_get (active_tasks (on_task_done demo_env no_failover ''a'' 2 restarted_demo)) ''a'') = Some 3"
proof -
  have "demo_possible (initial_manager 1 3 5) [CreateTask (demo_task ''a'') (demo_row 0),
      WorkerStatus ''a'' 1 4 ''no space left'', TaskDone ''a'' 1 no_failover, ResumeTask ''a'', ResumeTask ''a'']"
    by code_simp
  then have "manager_reach demo_env (demo_run 1 [CreateTask (demo_task ''a'') (demo_row 0),
      WorkerStatus ''a'' 1 4 ''no space left'', TaskDone ''a'' 1 no_failover, ResumeTask ''a'', ResumeTask ''a''])"
    unfolding demo_run.simps by (rule task_demo_reach[OF initial_reach])
  then have r: "manager_reach demo_env restarted_demo" by (simp add: restarted_demo_def failed_demo_def)
  have e: "bt_get (active_tasks restarted_demo) ''a'' =
      Some \<lparr>entry_gen = 3, entry_spawned = True, entry_bt = False, entry_queue = []\<rparr>"
    unfolding restarted_demo_def failed_demo_def by code_simp
  show ?thesis using stale_done_harmless[OF r e, of 2 no_failover, THEN conjunct2] by simp
qed

section \<open>The queue\<close>

text \<open>
  C18.  Draining the queue is fair and exact.  Afterwards no limit is exceeded that was respected
  before, neither the global one nor that of a named queue; the tasks still waiting keep their
  order; each of them is blocked by the global limit or by its queue's; every other one is running,
  unless it could not be started and its row says so; and no running task is touched.
\<close>

theorem drain_is_fair:
  assumes "manager_reach env m" "queue_agrees m (pending_queue m)" "m' = drain_queue env m"
  shows "subseq (pending_queue m') (pending_queue m)
    \<and> (max_concurrent m \<noteq> 0 \<longrightarrow> http_active m' \<le> max (http_active m) (max_concurrent m))
    \<and> (\<forall>qid. qid \<noteq> [] \<longrightarrow> queue_limit m qid \<noteq> 0 \<longrightarrow>
         queue_active m' qid \<le> max (queue_active m qid) (queue_limit m qid))
    \<and> (\<forall>q \<in> set (pending_queue m'). \<not> has_capacity m' \<or> \<not> has_queue_capacity m' (queue_id q))
    \<and> (\<forall>q \<in> set (pending_queue m) - set (pending_queue m').
         bt_get (active_tasks m') (task_id q) \<noteq> None
         \<or> row_status m' (task_id q) = None \<or> row_status m' (task_id q) = Some 4)
    \<and> (\<forall>t e. bt_get (active_tasks m) t = Some e \<longrightarrow> bt_get (active_tasks m') t = Some e)"
proof -
  let ?m = "m\<lparr>pending_queue := []\<rparr>"
  obtain kept m1 where d: "drain_loop env False (pending_queue m) ?m = (kept, m1)" by (metis surj_pair)
  have m': "m' = m1\<lparr>pending_queue := kept\<rparr>" by (simp add: assms(3) drain_queue_def d)
  have di: "distinct (map task_id (pending_queue m))"
    using reach_sched_ok[OF assms(1)] by (simp add: sched_ok_def queued_ids_def)
  have ag: "queue_agrees ?m (pending_queue m)" using assms(2) by (simp add: queue_agrees_def)
  note l = drain_loop_fair[OF d di ag]
  have c: "has_capacity m' = has_capacity m1" "has_queue_capacity m' q = has_queue_capacity m1 q" for q
    using capacity_cong[of m' m1] by (simp_all add: m')
  have g: "grown m m1" using l by (simp add: grown_def active_mset_def http_active_def queue_active_def queue_limit_def)
  have h: "http_active m' = http_active m1" "queue_active m' = queue_active m1"
    by (simp_all add: m' http_active_def queue_active_def fun_eq_iff)
  have kept: "\<forall>q \<in> set kept. \<not> has_capacity m1 \<or> \<not> has_queue_capacity m1 (queue_id q)" using l by blast
  have gone: "bt_get (active_tasks m1) (task_id q) \<noteq> None \<or> row_status m1 (task_id q) = None \<or> row_status m1 (task_id q) = Some 4"
    if "q \<in> set (pending_queue m)" "q \<notin> set kept" for q
    using that l by (cases "bt_get (rows m1) (task_id q)") (auto simp: row_status_def)
  show ?thesis
    using l g kept gone unfolding c h by (auto simp: m' grown_def row_status_def)
qed


definition waiting_demo :: manager where
  "waiting_demo = demo_run 1 [CreateTask (demo_task ''a'') (demo_row 0), CreateTask (demo_task ''b'') (demo_row 0),
     CreateTask (demo_task ''c'') (demo_row 0)]"

lemma waiting_demo_reach: "manager_reach demo_env waiting_demo"
proof -
  have "demo_possible (initial_manager 1 3 5) [CreateTask (demo_task ''a'') (demo_row 0),
      CreateTask (demo_task ''b'') (demo_row 0), CreateTask (demo_task ''c'') (demo_row 0)]"
    by code_simp
  then show ?thesis unfolding waiting_demo_def demo_run.simps by (rule task_demo_reach[OF initial_reach])
qed

lemma drain_is_fair_witness: "http_active (drain_queue demo_env waiting_demo) \<le> 1"
proof -
  have f: "queue_agrees waiting_demo (pending_queue waiting_demo)" "max_concurrent waiting_demo = 1" "http_active waiting_demo = 1"
    unfolding waiting_demo_def by code_simp+
  show ?thesis using drain_is_fair[OF waiting_demo_reach f(1) refl] f(2,3) by simp
qed

section \<open>Boost\<close>

text \<open>
  Switching the boost to another task can fail for no good reason.  With one slot: \<open>a\<close> is boosted, so \<open>b\<close>
  and \<open>c\<close> are set aside; the user resumes \<open>b\<close>, which waits; then \<open>c\<close> is to be boosted.  Pausing
  \<open>a\<close> lets \<open>b\<close> slip into the free slot, and the sweep that should catch it passes over \<open>b\<close> because \<open>b\<close>
  is still in the list of tasks set aside earlier.  So \<open>c\<close> finds no slot, the boost is called off, and
  \<open>b\<close> runs.
\<close>

definition boost_run :: "event list" where
  "boost_run = [CreateTask (demo_task ''a'') (demo_row 0), CreateTask (demo_task ''b'') (demo_row 0),
     CreateTask (demo_task ''c'') (demo_row 0), SetPriority ''a'', ResumeTask ''b'', SetPriority ''c'']"

theorem boost_switch_fails:
  "demo_possible (initial_manager 1 3 5) boost_run
   \<and> priority_task_id (demo_run 1 boost_run) = None
   \<and> map fst (active_tasks (demo_run 1 boost_run)) = [''b'']
   \<and> ''c'' \<in> set (queued_ids (demo_run 1 boost_run))"
  unfolding boost_run_def by code_simp

end
