(* ===== verification/Policy_Props.thy ===== *)
theory Policy_Props
  imports Task_Drain
begin

text \<open>
  The pure decisions of the task manager: the retry budget, the failover between routes and the
  daily schedule of the queues.
\<close>

section \<open>Retries\<close>

definition attempts :: "manager \<Rightarrow> string \<Rightarrow> nat" where
  "attempts m t = (case bt_get (auto_retry_counts m) t of Some n \<Rightarrow> n | None \<Rightarrow> 0)"

definition allowed_retries :: "int \<Rightarrow> nat \<Rightarrow> nat" where
  "allowed_retries mx k = (if mx = -1 then k else min k (nat mx))"

text \<open>
  C26.  The retry budget is exact.  When a task fails again and again with a retriable error, the
  first \<open>max_auto_retries\<close> failures schedule a retry and the later ones none (every one when the limit
  is \<open>-1\<close>); the waits grow linearly with the attempt, up to 300 seconds, and the count of attempts
  never passes the limit.
\<close>

theorem retry_budget_exact:
  assumes "bt_get (auto_retry_counts m) t = None" "-1 \<le> max_auto_retries m"
    and "status r = 4" "is_retriable_error (error_message r)"
    and "n = allowed_retries (max_auto_retries m) k"
  shows "timers ((try_auto_retry t r ^^ k) m) =
      rev (map (\<lambda>i. (t, retry_delay (max_auto_retries m) (auto_retry_delay_secs m) (Suc i))) [0..<n]) @ timers m
    \<and> attempts ((try_auto_retry t r ^^ k) m) t = n"
  using assms(5)
proof (induction k arbitrary: n)
  case 0
  then show ?case using assms(1) by (simp add: allowed_retries_def attempts_def)
next
  case (Suc k)
  let ?mx = "max_auto_retries m"
  define x where "x = (try_auto_retry t r ^^ k) m"
  define j where "j = allowed_retries ?mx k"
  have conf: "max_auto_retries ((try_auto_retry t r ^^ i) m) = ?mx \<and> auto_retry_delay_secs ((try_auto_retry t r ^^ i) m) = auto_retry_delay_secs m" for i
    by (induction i) (auto simp: try_auto_retry_def Let_def schedule_retry_def)
  have cfg: "max_auto_retries x = ?mx" "auto_retry_delay_secs x = auto_retry_delay_secs m" using conf by (simp_all add: x_def)
  have ih: "timers x = rev (map (\<lambda>i. (t, retry_delay ?mx (auto_retry_delay_secs m) (Suc i))) [0..<j]) @ timers m" "attempts x t = j"
    using Suc.IH[OF j_def] by (simp_all add: x_def)
  have go: "?mx = -1 \<or> int j < ?mx \<Longrightarrow> n = Suc j" and stop: "\<not> (?mx = -1 \<or> int j < ?mx) \<Longrightarrow> n = j"
    using Suc.prems assms(2) by (auto simp: j_def allowed_retries_def min_def split: if_splits)
  have zero: "?mx = 0 \<Longrightarrow> n = j" using stop by auto
  have step: "try_auto_retry t r x =
      (if ?mx \<noteq> 0 then
         if ?mx = -1 \<or> int j < ?mx
         then schedule_retry t r (retry_delay ?mx (auto_retry_delay_secs m) (Suc j)) (x\<lparr>auto_retry_counts := bt_insert t (Suc j) (auto_retry_counts x)\<rparr>)
         else x\<lparr>auto_retry_counts := bt_insert t j (auto_retry_counts x)\<rparr>
       else x)"
    using assms(3,4) ih(2) by (simp add: try_auto_retry_def cfg attempts_def)
  show ?case
    using ih go stop zero step
    by (auto simp: x_def[symmetric] schedule_retry_def attempts_def bt_get_insert_at)
qed

definition timeout_row :: task_row where
  "timeout_row = \<lparr> status = 4, error_message = ''Connection timed out'', row_url = ''http://h/f'', row_queue = [], row_order = 0,
     created_at = [], seeding_status = 0, row_torrent = [], row_resolver = [], row_route = [] \<rparr>"

lemma retry_budget_exact_witness:
  "timers ((try_auto_retry ''a'' timeout_row ^^ 5) (initial_manager 1 2 10)) = [(''a'', 20), (''a'', 10)]"
proof -
  have r: "is_retriable_error (error_message timeout_row)" unfolding timeout_row_def by code_simp
  have n: "2 = allowed_retries (max_auto_retries (initial_manager 1 2 10)) 5"
    by (simp add: allowed_retries_def initial_manager_def)
  have "status timeout_row = 4" by (simp add: timeout_row_def)
  from retry_budget_exact[OF _ _ this r n, of "''a''"]
  show ?thesis by (simp add: initial_manager_def retry_delay_def max_auto_retry_delay_secs_def sat_mul_u64_def u64_max_def upt_rec)
qed

section \<open>Failover\<close>

text \<open>A history of failures: the route that failed, the error, the candidates, whether the network is up.\<close>

type_synonym failure = "string \<times> string \<times> candidate_source list \<times> bool"

fun failover_history :: "failure list \<Rightarrow> failover_attempts \<Rightarrow> failover_target list" where
  "failover_history [] a = []"
| "failover_history ((route, err, sources, up) # fs) a =
     (let (target, a') = auto_failover_target route err sources up a
      in (case target of Some t \<Rightarrow> [t] | None \<Rightarrow> []) @ failover_history fs a')"

definition tried :: "failover_attempts \<Rightarrow> failover_target set" where
  "tried a = {t. case t of Direct \<Rightarrow> tried_direct a | ViaProxy src \<Rightarrow> source_attempted a src}"

lemma mark_source_tried: "tried (mark_source src a) = insert (ViaProxy src) (tried a)"
  by (auto simp: tried_def mark_source_def source_attempted_def split: candidate_source.splits failover_target.splits)

lemma mark_route_tried: "tried a \<subseteq> tried (mark_failed_route route sources a)"
  by (auto simp: mark_failed_route_def mark_source_tried) (auto simp: tried_def source_attempted_def split: failover_target.splits candidate_source.splits)

lemma failover_step:
  assumes "auto_failover_target route err sources up a = (target, a')"
  shows "tried a \<subseteq> tried a' \<and> (\<forall>t. target = Some t \<longrightarrow> t \<notin> tried a \<and> t \<in> tried a')"
proof -
  define a1 where "a1 = mark_failed_route route sources a"
  have s: "tried a \<subseteq> tried a1" unfolding a1_def by (rule mark_route_tried)
  show ?thesis
  proof (cases "is_route_transport_error err")
    case True
    note e = assms[unfolded auto_failover_target_def a1_def[symmetric] Let_def]
    show ?thesis
    proof (cases "find (\<lambda>src. \<not> source_attempted a1 src) sources")
      case (Some src)
      then have "\<not> source_attempted a1 src" by (auto simp: find_Some_iff)
      then have "ViaProxy src \<notin> tried a1" by (simp add: tried_def)
      moreover have "target = Some (ViaProxy src)" "a' = mark_source src a1" using e True Some by simp_all
      ultimately show ?thesis using s by (simp add: mark_source_tried) blast
    next
      case None
      have t: "tried (a1\<lparr>tried_direct := True\<rparr>) = insert Direct (tried a1)"
        by (auto simp: tried_def source_attempted_def split: failover_target.splits candidate_source.splits)
      have "Direct \<in> tried a1 \<longleftrightarrow> tried_direct a1" by (simp add: tried_def)
      moreover have "(target, a') = (if up \<and> \<not> tried_direct a1 then (Some Direct, a1\<lparr>tried_direct := True\<rparr>) else (None, a1))"
        using e True None by simp
      ultimately show ?thesis using s t by (cases "up \<and> \<not> tried_direct a1") auto
    qed
  qed (use assms in \<open>auto simp: auto_failover_target_def\<close>)
qed

text \<open>
  C31.  Failing over ends: whatever routes fail, in whatever order and however often, no route is
  chosen twice, and none that had been tried before; so at most three failovers happen.
\<close>

theorem failover_terminates:
  "distinct (failover_history fs a) \<and> set (failover_history fs a) \<inter> tried a = {}
   \<and> length (failover_history fs a) \<le> 3"
proof -
  have d: "distinct (failover_history fs a) \<and> set (failover_history fs a) \<inter> tried a = {}"
  proof (induction fs a rule: failover_history.induct)
    case (2 route err sources up fs a)
    obtain target a' where s: "auto_failover_target route err sources up a = (target, a')" by (metis surj_pair)
    have ih: "distinct (failover_history fs a')" "set (failover_history fs a') \<inter> tried a' = {}"
      using "2.IH"[OF s[symmetric] refl] by auto
    show ?case using failover_step[OF s] ih by (cases target) (auto simp: s)
  qed simp
  have u: "x \<in> {ViaProxy ManualFields, ViaProxy SystemProxy, Direct}" for x
  proof (cases x)
    case (ViaProxy src)
    then show ?thesis by (cases src) auto
  qed simp
  have "card (set (failover_history fs a)) \<le> card {ViaProxy ManualFields, ViaProxy SystemProxy, Direct}"
    by (rule card_mono) (simp, use u in blast)
  then show ?thesis using d by (simp add: distinct_card)
qed


section \<open>The daily schedule\<close>

definition edge_due :: "(string \<times> queue_info) list \<Rightarrow> fired_book \<Rightarrow> nat \<Rightarrow> int \<Rightarrow> nat \<Rightarrow> edge \<Rightarrow> bool" where
  "edge_due qs fired today day_bit now e \<longleftrightarrow>
     (\<exists>q. (fst e, q) \<in> set qs \<and> schedule_enabled q \<and> schedule_days q AND day_bit \<noteq> 0
        \<and> (\<exists>t. parse_hhmm (if snd e then schedule_start q else schedule_stop q) = Some t \<and> t \<le> now)
        \<and> fired e \<noteq> Some today)"

definition time_due :: "fired_book \<Rightarrow> nat \<Rightarrow> nat \<Rightarrow> edge \<Rightarrow> nat option \<Rightarrow> bool" where
  "time_due fired today now e time \<longleftrightarrow> (case time of Some t \<Rightarrow> t \<le> now \<and> fired e \<noteq> Some today | None \<Rightarrow> False)"

lemma due_queue_eq:
  assumes "a = time_due fired today now (qid, True) (parse_hhmm (schedule_start q))"
    and "b = time_due fired today now (qid, False) (parse_hhmm (schedule_stop q))"
  shows "due_queue fired today day_bit now (qid, q) =
    (if \<not> schedule_enabled q \<or> schedule_days q AND day_bit = 0 then ([], [])
     else ((if a then [(qid, True)] else []) @ (if b then [(qid, False)] else []),
           if b \<and> (a \<longrightarrow> the (parse_hhmm (schedule_start q)) \<le> the (parse_hhmm (schedule_stop q))) then [(qid, False)]
           else if a then [(qid, True)] else []))"
  unfolding assms
  by (cases "parse_hhmm (schedule_start q)"; cases "parse_hhmm (schedule_stop q)")
    (simp_all add: due_queue_def edge_step_def time_due_def not_le)

lemma edge_due_single:
  "edge_due [(qid, q)] fired today day_bit now e \<longleftrightarrow> fst e = qid \<and> schedule_enabled q \<and> schedule_days q AND day_bit \<noteq> 0
     \<and> time_due fired today now e (parse_hhmm (if snd e then schedule_start q else schedule_stop q))"
  by (auto simp: edge_due_def time_due_def split: option.split)

lemma due_queue_passed:
  "e \<in> set (fst (due_queue fired today day_bit now (qid, q))) \<longleftrightarrow> edge_due [(qid, q)] fired today day_bit now e"
  unfolding due_queue_eq[OF refl refl] edge_due_single by (cases e) auto

lemma due_queue_acts:
  "map fst (snd (due_queue fired today day_bit now (qid, q))) \<in> {[], [qid]}"
  unfolding due_queue_eq[OF refl refl] by simp

lemma due_queue_key: "(x, s) \<in> set (snd (due_queue fired today day_bit now (k, q))) \<Longrightarrow> x = k"
  unfolding due_queue_eq[OF refl refl] by (auto split: if_splits)

lemma edge_due_any:
  "edge_due qs fired today day_bit now e \<longleftrightarrow> (\<exists>x \<in> set qs. edge_due [x] fired today day_bit now e)"
  by (fastforce simp: edge_due_def)

lemma acts_distinct:
  "distinct (map fst qs) \<Longrightarrow> distinct (map fst (concat (map (snd \<circ> due_queue fired today day_bit now) qs)))"
proof (induction qs)
  case (Cons x qs)
  obtain qid q where x: "x = (qid, q)" by (metis surj_pair)
  have "fst ` set (concat (map (snd \<circ> due_queue fired today day_bit now) ys)) \<subseteq> fst ` set ys" for ys
  proof (induction ys)
    case (Cons y ys)
    then show ?case using due_queue_acts[of fired today day_bit now "fst y" "snd y"] by (auto simp: image_Un)
  qed simp
  then have n: "qid \<notin> set (map fst (concat (map (snd \<circ> due_queue fired today day_bit now) qs)))" using Cons.prems x by force
  have eq: "map fst (concat (map (snd \<circ> due_queue fired today day_bit now) (x # qs))) =
      map fst (snd (due_queue fired today day_bit now (qid, q))) @ map fst (concat (map (snd \<circ> due_queue fired today day_bit now) qs))"
    by (simp add: x)
  have ih: "distinct (map fst (concat (map (snd \<circ> due_queue fired today day_bit now) qs)))"
    using Cons.IH Cons.prems by (simp only: list.map distinct.simps simp_thms)
  have "map fst (snd (due_queue fired today day_bit now (qid, q))) = [] \<or> map fst (snd (due_queue fired today day_bit now (qid, q))) = [qid]"
    using due_queue_acts[of fired today day_bit now qid q] by simp
  then show ?case using n ih unfolding eq by (metis append_Nil append_Cons distinct.simps(2))
qed simp


definition night_queue :: queue_info where
  "night_queue = \<lparr> queue_name = ''night'', queue_max = 2, is_running = False, schedule_enabled = True,
     schedule_start = ''01:30'', schedule_stop = ''07:00'', schedule_days = 127 \<rparr>"


end
