(* ===== verification/File_Names.thy ===== *)
theory File_Names
  imports Worker_Response Wire_Reader
begin

text \<open>
  File names (\<^verbatim>\<open>native/engine/src/downloader.rs\<close>): how a name is read from headers and addresses,
  cleaned, and made distinct from the names in a directory.  A Rust string is here the list of its
  Unicode scalar values, with \<open>utf8_len\<close> and \<open>utf8_bytes\<close> for its length and bytes.
\<close>

type_synonym ustr = "nat list"

definition u :: "string \<Rightarrow> ustr" where "u s = map of_char s"

section \<open>Strings of scalar values\<close>

definition char_len :: "nat \<Rightarrow> nat" where
  "char_len c = (if c < 0x80 then 1 else if c < 0x800 then 2 else if c < 0x10000 then 3 else 4)"

definition utf8_len :: "ustr \<Rightarrow> nat" where
  "utf8_len s = sum_list (map char_len s)"

definition char_bytes :: "nat \<Rightarrow> nat list" where
  "char_bytes c =
     (if c < 0x80 then [c]
      else if c < 0x800 then [0xC0 + c div 64, 0x80 + c mod 64]
      else if c < 0x10000 then [0xE0 + c div 4096, 0x80 + c div 64 mod 64, 0x80 + c mod 64]
      else [0xF0 + c div 262144, 0x80 + c div 4096 mod 64, 0x80 + c div 64 mod 64, 0x80 + c mod 64])"

definition utf8_bytes :: "ustr \<Rightarrow> nat list" where
  "utf8_bytes s = concat (map char_bytes s)"

definition scalar :: "nat \<Rightarrow> bool" where
  "scalar c \<longleftrightarrow> c < 0xD800 \<or> (0xE000 \<le> c \<and> c < 0x110000)"

definition cont :: "nat \<Rightarrow> bool" where
  "cont b \<longleftrightarrow> 0x80 \<le> b \<and> b < 0xC0"

text \<open>\<^verbatim>\<open>std::str::from_utf8\<close>: no overlong forms, no surrogates, nothing above the last plane.\<close>

fun utf8_decode :: "nat list \<Rightarrow> ustr option" where
  "utf8_decode [] = Some []"
| "utf8_decode (b # bs) =
     (if b < 0x80 then map_option ((#) b) (utf8_decode bs)
      else case bs of
        [] \<Rightarrow> None
      | b1 # bs1 \<Rightarrow>
          if \<not> cont b1 then None
          else if 0xC2 \<le> b \<and> b < 0xE0
          then map_option ((#) ((b - 0xC0) * 64 + (b1 - 0x80))) (utf8_decode bs1)
          else (case bs1 of
              [] \<Rightarrow> None
            | b2 # bs2 \<Rightarrow>
                if \<not> cont b2 then None
                else if 0xE0 \<le> b \<and> b < 0xF0
                then (let c = (b - 0xE0) * 4096 + (b1 - 0x80) * 64 + (b2 - 0x80) in
                      if 0x800 \<le> c \<and> scalar c then map_option ((#) c) (utf8_decode bs2) else None)
                else (case bs2 of
                    [] \<Rightarrow> None
                  | b3 # bs3 \<Rightarrow>
                      if \<not> cont b3 then None
                      else if 0xF0 \<le> b \<and> b < 0xF5
                      then (let c = (b - 0xF0) * 262144 + (b1 - 0x80) * 4096 + (b2 - 0x80) * 64 + (b3 - 0x80) in
                            if 0x10000 \<le> c \<and> scalar c then map_option ((#) c) (utf8_decode bs3) else None)
                      else None)))"

definition usplit :: "nat \<Rightarrow> ustr \<Rightarrow> ustr list" where
  "usplit sep s = foldr (\<lambda>c ps. if c = sep then [] # ps else (c # hd ps) # tl ps) s [[]]"

definition trim_matches :: "(nat \<Rightarrow> bool) \<Rightarrow> ustr \<Rightarrow> ustr" where
  "trim_matches P s = rev (dropWhile P (rev (dropWhile P s)))"

definition white :: "nat \<Rightarrow> bool" where
  "white c \<longleftrightarrow> (9 \<le> c \<and> c \<le> 13) \<or> c \<in> {32, 0x85, 0xA0, 0x1680, 0x2028, 0x2029, 0x202F, 0x205F, 0x3000}
     \<or> (0x2000 \<le> c \<and> c \<le> 0x200A)"

definition utrim :: "ustr \<Rightarrow> ustr" where
  "utrim = trim_matches white"

definition strip_prefix :: "'a list \<Rightarrow> 'a list \<Rightarrow> 'a list option" where
  "strip_prefix p s = (if take (length p) s = p then Some (drop (length p) s) else None)"

definition alnum :: "nat \<Rightarrow> bool" where
  "alnum c \<longleftrightarrow> (48 \<le> c \<and> c \<le> 57) \<or> (65 \<le> c \<and> c \<le> 90) \<or> (97 \<le> c \<and> c \<le> 122)"

definition ulower :: "nat \<Rightarrow> nat" where
  "ulower c = (if 65 \<le> c \<and> c \<le> 90 then c + 32 else c)"

text \<open>A text split at its last dot, which begins the second part; no second part without a dot.\<close>

definition at_last_dot :: "ustr \<Rightarrow> ustr \<times> ustr" where
  "at_last_dot s =
     (if 46 \<in> set s
      then (let k = length (takeWhile (\<lambda>c. c \<noteq> 46) (rev s)) + 1
            in (take (length s - k) s, drop (length s - k) s))
      else (s, []))"

section \<open>Cleaning a name\<close>

definition max_filename_bytes :: nat where "max_filename_bytes = 200"

definition windows_reserved_names :: "string list" where
  "windows_reserved_names =
     [''CON'', ''PRN'', ''AUX'', ''NUL'', ''COM1'', ''COM2'', ''COM3'', ''COM4'', ''COM5'', ''COM6'',
      ''COM7'', ''COM8'', ''COM9'', ''LPT1'', ''LPT2'', ''LPT3'', ''LPT4'', ''LPT5'', ''LPT6'', ''LPT7'',
      ''LPT8'', ''LPT9'']"

definition is_control :: "nat \<Rightarrow> bool" where
  "is_control c \<longleftrightarrow> c < 32 \<or> (127 \<le> c \<and> c < 160)"

definition forbidden :: "nat \<Rightarrow> bool" where
  "forbidden c \<longleftrightarrow> c \<in> set (u ''<>:/|?*'') \<union> {34, 92} \<or> is_control c"

definition dot_or_space :: "nat \<Rightarrow> bool" where
  "dot_or_space c \<longleftrightarrow> c = 46 \<or> c = 32"

definition is_reserved :: "ustr \<Rightarrow> bool" where
  "is_reserved s =
     (let stem = takeWhile (\<lambda>c. c \<noteq> 46) s
      in list_ex (\<lambda>r. map ulower stem = map ulower (u r)) windows_reserved_names)"

text \<open>The byte offsets at which the characters start, and the text before such an offset.\<close>

fun char_starts :: "nat \<Rightarrow> ustr \<Rightarrow> nat list" where
  "char_starts i [] = []"
| "char_starts i (c # cs) = i # char_starts (i + char_len c) cs"

fun slice_to :: "nat \<Rightarrow> ustr \<Rightarrow> ustr" where
  "slice_to n [] = []"
| "slice_to n (c # cs) = (if char_len c \<le> n then c # slice_to (n - char_len c) cs else [])"

definition truncate_name :: "ustr \<Rightarrow> ustr" where
  "truncate_name s =
     (let (stem, ext) = at_last_dot s;
          budget = max_filename_bytes - utf8_len ext;
          starts = takeWhile (\<lambda>i. i \<le> budget) (char_starts 0 stem);
          cut = (if starts = [] then 0 else last starts);
          truncated = trim_matches dot_or_space (slice_to cut stem @ ext)
      in if truncated = [] then u ''download'' else truncated)"

definition sanitize_filename :: "ustr \<Rightarrow> ustr" where
  "sanitize_filename name =
     (let s = trim_matches dot_or_space (map (\<lambda>c. if forbidden c then 95 else c) name) in
      if s = [] then u ''download''
      else let s1 = (if is_reserved s then 95 # s else s) in
        if utf8_len s1 \<le> max_filename_bytes then s1 else truncate_name s1)"

definition filename_looks_like_html :: "ustr \<Rightarrow> bool" where
  "filename_looks_like_html name =
     (let lower = map ulower name
      in list_ex (\<lambda>e. suffix (u e) lower) [''.html'', ''.htm'', ''.xhtml''])"

section \<open>Percent decoding\<close>

definition hex_nibble :: "nat \<Rightarrow> nat option" where
  "hex_nibble b =
     (if 48 \<le> b \<and> b \<le> 57 then Some (b - 48)
      else if 97 \<le> b \<and> b \<le> 102 then Some (b - 87)
      else if 65 \<le> b \<and> b \<le> 70 then Some (b - 55) else None)"

fun percent_bytes :: "nat list \<Rightarrow> nat list" where
  "percent_bytes [] = []"
| "percent_bytes (b # bs) =
     (case bs of
        h # l # rest \<Rightarrow>
          (case (hex_nibble h, hex_nibble l) of
             (Some hi, Some lo) \<Rightarrow>
               if b = 37 then (hi * 16 + lo) # percent_bytes rest else b # percent_bytes bs
           | _ \<Rightarrow> b # percent_bytes bs)
      | _ \<Rightarrow> b # percent_bytes bs)"

text \<open>\<open>gbk\<close> is the decoder of the \<^verbatim>\<open>encoding_rs\<close> crate.\<close>

definition decode_bytes_utf8_or_gbk :: "(nat list \<Rightarrow> ustr option) \<Rightarrow> nat list \<Rightarrow> ustr option" where
  "decode_bytes_utf8_or_gbk gbk bs = (case utf8_decode bs of Some s \<Rightarrow> Some s | None \<Rightarrow> gbk bs)"

definition urlencoding_decode :: "(nat list \<Rightarrow> ustr option) \<Rightarrow> ustr \<Rightarrow> ustr option" where
  "urlencoding_decode gbk s = decode_bytes_utf8_or_gbk gbk (percent_bytes (utf8_bytes s))"

section \<open>Finding a name\<close>

definition has_plausible_extension :: "ustr \<Rightarrow> bool" where
  "has_plausible_extension name =
     (let ext = tl (snd (at_last_dot name))
      in ext \<noteq> [] \<and> utf8_len ext \<le> 10 \<and> list_all alnum ext)"

definition extract_from_url :: "(nat list \<Rightarrow> ustr option) \<Rightarrow> ustr \<Rightarrow> ustr option" where
  "extract_from_url gbk url =
     (let path = takeWhile (\<lambda>c. c \<noteq> 35) (takeWhile (\<lambda>c. c \<noteq> 63) url);
          segment = rev (takeWhile (\<lambda>c. c \<noteq> 47) (rev path));
          decoded = utrim (case urlencoding_decode gbk segment of Some d \<Rightarrow> d | None \<Rightarrow> segment)
      in if decoded = [] \<or> decoded = [47] then None else Some (sanitize_filename decoded))"

text \<open>The two passes over the parameters: \<^verbatim>\<open>filename*=\<close> is preferred to \<^verbatim>\<open>filename=\<close>.\<close>

definition extended_name :: "(nat list \<Rightarrow> ustr option) \<Rightarrow> ustr \<Rightarrow> ustr option" where
  "extended_name gbk part =
     Option.bind (strip_prefix (u ''filename*='') (utrim part)) (\<lambda>n.
       let ps = usplit 39 (utrim (trim_matches (\<lambda>c. c = 34) (utrim n))) in
       if length ps < 3 then None
       else case urlencoding_decode gbk (ps ! 2) of
           None \<Rightarrow> None
         | Some d \<Rightarrow> if utrim d = [] then None else Some (sanitize_filename (utrim d)))"

definition quoted_name :: "(nat list \<Rightarrow> ustr option) \<Rightarrow> ustr \<Rightarrow> ustr option" where
  "quoted_name gbk part =
     Option.bind (strip_prefix (u ''filename='') (utrim part)) (\<lambda>n0.
       let n = trim_matches (\<lambda>c. c = 34 \<or> c = 39 \<or> c = 32) n0 in
       if n = [] then None
       else case (if 37 \<in> set n then urlencoding_decode gbk n else None) of
           Some d \<Rightarrow>
             if utrim d \<noteq> [] \<and> utrim d \<noteq> n then Some (sanitize_filename (utrim d))
             else Some (sanitize_filename n)
         | None \<Rightarrow> Some (sanitize_filename n))"

fun first_some :: "('a \<Rightarrow> 'b option) \<Rightarrow> 'a list \<Rightarrow> 'b option" where
  "first_some f [] = None"
| "first_some f (x # xs) = (case f x of Some y \<Rightarrow> Some y | None \<Rightarrow> first_some f xs)"

text \<open>\<open>disposition\<close> is the header's bytes when they are UTF-8.\<close>

definition extract_from_content_disposition ::
  "(nat list \<Rightarrow> ustr option) \<Rightarrow> nat list option \<Rightarrow> ustr option" where
  "extract_from_content_disposition gbk disposition =
     Option.bind (Option.bind disposition utf8_decode) (\<lambda>value.
       let parts = usplit 59 value in
       case first_some (extended_name gbk) parts of
         Some n \<Rightarrow> Some n
       | None \<Rightarrow> first_some (quoted_name gbk) parts)"

definition mime_table :: "(string \<times> string) list" where
  "mime_table =
     [(''application/pdf'', ''pdf''), (''application/zip'', ''zip''), (''application/x-gzip'', ''gz''),
      (''application/gzip'', ''gz''), (''application/x-tar'', ''tar''), (''application/x-bzip2'', ''bz2''),
      (''application/x-xz'', ''xz''), (''application/x-7z-compressed'', ''7z''),
      (''application/x-rar-compressed'', ''rar''), (''application/vnd.rar'', ''rar''),
      (''application/json'', ''json''), (''application/xml'', ''xml''), (''text/xml'', ''xml''),
      (''application/javascript'', ''js''), (''text/javascript'', ''js''), (''application/wasm'', ''wasm''),
      (''application/vnd.openxmlformats-officedocument.spreadsheetml.sheet'', ''xlsx''),
      (''application/vnd.openxmlformats-officedocument.wordprocessingml.document'', ''docx''),
      (''application/vnd.openxmlformats-officedocument.presentationml.presentation'', ''pptx''),
      (''application/msword'', ''doc''), (''application/vnd.ms-excel'', ''xls''),
      (''application/vnd.ms-powerpoint'', ''ppt''), (''application/x-iso9660-image'', ''iso''),
      (''application/x-msdownload'', ''exe''), (''application/x-dosexec'', ''exe''),
      (''application/vnd.android.package-archive'', ''apk''), (''application/java-archive'', ''jar''),
      (''application/x-shockwave-flash'', ''swf''), (''application/x-debian-package'', ''deb''),
      (''application/x-rpm'', ''rpm''), (''application/x-msi'', ''msi''),
      (''application/vnd.apple.installer+xml'', ''pkg''), (''text/html'', ''html''), (''text/css'', ''css''),
      (''text/csv'', ''csv''), (''text/plain'', ''txt''), (''image/jpeg'', ''jpg''), (''image/png'', ''png''),
      (''image/gif'', ''gif''), (''image/webp'', ''webp''), (''image/svg+xml'', ''svg''),
      (''image/bmp'', ''bmp''), (''image/x-icon'', ''ico''), (''image/vnd.microsoft.icon'', ''ico''),
      (''image/tiff'', ''tiff''), (''image/avif'', ''avif''), (''audio/mpeg'', ''mp3''),
      (''audio/ogg'', ''ogg''), (''audio/wav'', ''wav''), (''audio/x-wav'', ''wav''),
      (''audio/flac'', ''flac''), (''audio/aac'', ''aac''), (''audio/mp4'', ''m4a''),
      (''audio/x-m4a'', ''m4a''), (''audio/webm'', ''weba''), (''video/mp4'', ''mp4''),
      (''video/webm'', ''webm''), (''video/x-matroska'', ''mkv''), (''video/x-msvideo'', ''avi''),
      (''video/quicktime'', ''mov''), (''video/x-flv'', ''flv''), (''video/mp2t'', ''ts''),
      (''video/3gpp'', ''3gp''), (''font/woff'', ''woff''), (''font/woff2'', ''woff2''),
      (''font/ttf'', ''ttf''), (''application/x-font-ttf'', ''ttf''), (''font/otf'', ''otf'')]"

definition mime_to_ext :: "string \<Rightarrow> string option" where
  "mime_to_ext content_type = map_of mime_table (trim (hd (split_on (CHR '';'') content_type)))"

text \<open>The redirect dropped the extension: the request's segment is the final one with an extension.\<close>

definition dropped_extension :: "ustr \<Rightarrow> ustr \<Rightarrow> bool" where
  "dropped_extension req fin =
     (case strip_prefix fin req of
        Some (c # ext) \<Rightarrow> c = 46 \<and> ext \<noteq> []
          \<and> list_all (\<lambda>p. p \<noteq> [] \<and> utf8_len p \<le> 10 \<and> list_all alnum p) (usplit 46 ext)
      | _ \<Rightarrow> False)"

definition extract_filename ::
  "(nat list \<Rightarrow> ustr option) \<Rightarrow> nat list option \<Rightarrow> string option \<Rightarrow> ustr \<Rightarrow> ustr \<Rightarrow> ustr" where
  "extract_filename gbk disposition content_type request_url final_url =
     (case extract_from_content_disposition gbk disposition of
        Some n \<Rightarrow> n
      | None \<Rightarrow>
          let req = extract_from_url gbk request_url; fin = extract_from_url gbk final_url;
              plausible = (\<lambda>o'. case o' of Some n \<Rightarrow> has_plausible_extension n | None \<Rightarrow> False)
          in if req \<noteq> None \<and> fin \<noteq> None \<and> dropped_extension (the req) (the fin) then the req
             else if plausible fin then the fin
             else if plausible req then the req
             else case fin of
                 Some n \<Rightarrow> n
               | None \<Rightarrow>
                   (case req of
                      Some n \<Rightarrow> n
                    | None \<Rightarrow>
                        (case Option.bind content_type mime_to_ext of
                           Some ext \<Rightarrow> u ''download.'' @ u ext
                         | None \<Rightarrow> u ''download'')))"

section \<open>Names in a directory\<close>

definition temp_ext :: ustr where "temp_ext = u ''.fdownloading''"

text \<open>\<^verbatim>\<open>Path::file_stem\<close> and \<^verbatim>\<open>Path::extension\<close> of a name without separators.\<close>

definition stem_ext :: "ustr \<Rightarrow> ustr \<times> ustr option" where
  "stem_ext name =
     (let (stem, ext) = at_last_dot name in
      if ext = [] \<or> stem = [] \<or> name = [46, 46] then (name, None) else (stem, Some (tl ext)))"

definition with_suffix :: "ustr \<Rightarrow> ustr \<Rightarrow> ustr" where
  "with_suffix name k =
     (case stem_ext name of
        (stem, Some ext) \<Rightarrow> stem @ u '' ('' @ k @ u '').'' @ ext
      | (stem, None) \<Rightarrow> stem @ u '' ('' @ k @ u '')'')"

datatype node = File bytes | Dir

text \<open>
  The directory is the ordered map of its entries.  \<open>fold\<close> is \<^verbatim>\<open>str::to_lowercase\<close>, \<open>uniq\<close> the fresh
  UUID of the last resort.
\<close>

record dedup_env =
  de_fold :: "ustr \<Rightarrow> ustr"
  de_reserved :: "ustr set"    \<comment> \<open>temporary names booked by other tasks\<close>
  de_avoid :: "ustr set"       \<comment> \<open>folded names booked by other tasks\<close>
  de_overwrite :: bool
  de_uniq :: ustr

definition name_taken :: "dedup_env \<Rightarrow> (ustr, node) btree \<Rightarrow> ustr \<Rightarrow> bool" where
  "name_taken e dir name \<longleftrightarrow>
     name @ temp_ext \<in> de_reserved e \<or> de_fold e name \<in> de_avoid e
     \<or> (if de_overwrite e then bt_get dir name = Some Dir else bt_get dir name \<noteq> None)
     \<or> bt_get dir (name @ temp_ext) \<noteq> None"

definition variant_taken :: "dedup_env \<Rightarrow> (ustr, node) btree \<Rightarrow> ustr \<Rightarrow> bool" where
  "variant_taken e dir new_name \<longleftrightarrow>
     new_name @ temp_ext \<in> de_reserved e \<or> de_fold e new_name \<in> de_avoid e
     \<or> de_fold e new_name \<in> de_fold e ` set (map fst dir)
     \<or> de_fold e (new_name @ temp_ext) \<in> de_fold e ` set (map fst dir)"

function scan_variants :: "dedup_env \<Rightarrow> (ustr, node) btree \<Rightarrow> ustr \<Rightarrow> int \<Rightarrow> ustr option" where
  "scan_variants e dir name i =
     (if 9999 < i then None
      else let new_name = with_suffix name (u (show_int i)) in
        if variant_taken e dir new_name then scan_variants e dir name (i + 1) else Some new_name)"
  by auto

termination by (relation "measure (\<lambda>(e, dir, name, i). nat (10000 - i))") auto

declare scan_variants.simps [simp del]

definition dedup_filename :: "dedup_env \<Rightarrow> (ustr, node) btree \<Rightarrow> ustr \<Rightarrow> ustr" where
  "dedup_filename e dir name =
     (if \<not> name_taken e dir name then name
      else case scan_variants e dir name 1 of
          Some n \<Rightarrow> n
        | None \<Rightarrow> with_suffix name (de_uniq e))"

text \<open>\<^verbatim>\<open>create_new\<close>, then a rename onto the own placeholder.\<close>

datatype claim = Claimed | Taken | ClaimFailed

definition claim_rename ::
  "ustr \<Rightarrow> ustr \<Rightarrow> bool \<Rightarrow> (ustr, node) btree \<Rightarrow> (ustr, node) btree \<times> claim" where
  "claim_rename src dst rename_ok dir =
     (if bt_get dir dst \<noteq> None then (dir, Taken)
      else let d1 = bt_insert dst (File []) dir in
        case (rename_ok, bt_get d1 src) of
          (True, Some x) \<Rightarrow> (bt_insert dst x (bt_remove src d1), Claimed)
        | _ \<Rightarrow> (bt_remove dst d1, ClaimFailed))"

end
