(* ===== verification/Single_Stream.thy ===== *)
theory Single_Stream
  imports File_Names
begin

text \<open>
  The download over one connection: \<^verbatim>\<open>download_single_once\<close> and \<^verbatim>\<open>download_single\<close> of
  \<^verbatim>\<open>native/engine/src/downloader.rs\<close>.  The temporary file is its bytes (\<open>None\<close> when it does not exist),
  \<open>saved\<close> the progress in the task's row.  What the network and the file system answer during one
  call is an \<open>exchange\<close>; the chunks are those of the stream after decompression.
\<close>

definition resume_alignment :: int where "resume_alignment = 1024 * 1024"
definition max_resume_range :: int where "max_resume_range = 16 * 1024 * 1024"

text \<open>Errors of a run: those of \<^verbatim>\<open>DownloadError\<close>, where \<^verbatim>\<open>Other\<close> carries the data of its message.\<close>

datatype run_reason =
    HtmlPage string
  | BadCompression string
  | DownloadStalled
  | NoProgress int int
  | NoFileName
  | SegmentsIncomplete int int
  | FileIncomplete int int
  | SizeMismatch int int int
  | ChecksumFormat ustr
  | ChecksumAlgorithm ustr
  | SyncFailed
  | NoDestination nat
  | ProbesFailed "nat option" "nat option" "nat option"   \<comment> \<open>status, \<open>None\<close> for a network error\<close>
  | NonGetStatus nat
  | RenameFailed

datatype run_error = Err download_error | Fail run_reason

record single_result =
  response_content_length :: int
  decompressed :: bool
  latched_last_modified :: "string option"
  resumed_range_start :: "int option"

record single_env =
  se_total :: int
  se_supports_range :: bool
  se_get_like :: bool
  se_filename :: ustr
  se_etag :: string
  se_last_modified :: string

datatype body_end = BodyEnd | BodyStall | BodyError | BodyCancel | BodyIo nat

text \<open>
  \<open>ex_first\<close> answers the request, \<open>ex_second\<close> the repetition without a range; \<open>None\<close> when sending
  fails.  A chunk comes with the flag that a periodic save is due.  \<open>BodyIo k\<close>: a write fails when
  \<open>k\<close> bytes of the body have reached the file.
\<close>

record exchange =
  ex_first :: "response option"
  ex_second :: "response option"
  ex_content_length :: "int option"   \<comment> \<open>of the response whose body is read\<close>
  ex_open_ok :: bool
  ex_chunks :: "(bytes \<times> bool) list"
  ex_end :: body_end

definition file_len :: "bytes option \<Rightarrow> int" where
  "file_len f = (case f of None \<Rightarrow> 0 | Some b \<Rightarrow> int (length b))"

section \<open>The request\<close>

definition want_resume :: "single_env \<Rightarrow> int \<Rightarrow> bool" where
  "want_resume se physical \<longleftrightarrow>
     se_get_like se \<and> se_supports_range se \<and> 0 < physical \<and> (se_total se = 0 \<or> physical < se_total se)"

definition resume_point :: "single_env \<Rightarrow> int \<Rightarrow> int" where
  "resume_point se physical =
     (if want_resume se physical then physical - physical mod resume_alignment else physical)"

text \<open>The last byte asked for, when the size is known.\<close>

definition range_end :: "single_env \<Rightarrow> int \<Rightarrow> int" where
  "range_end se existing = min (existing + (max_resume_range - 1)) (se_total se - 1)"

definition resume_range :: "single_env \<Rightarrow> int \<Rightarrow> string" where
  "resume_range se existing =
     (if 0 < se_total se then ''bytes='' @ show_int existing @ ''-'' @ show_int (range_end se existing)
      else ''bytes='' @ show_int existing @ ''-'')"

section \<open>The response\<close>

definition error_for_status :: "response option \<Rightarrow> run_error + response" where
  "error_for_status r =
     (case r of
        None \<Rightarrow> Inl (Err (Request None))
      | Some r \<Rightarrow> if 400 \<le> status r \<and> status r < 600 then Inl (Err (Request (Some (status r)))) else Inr r)"

definition choose_response :: "single_env \<Rightarrow> bool \<Rightarrow> exchange \<Rightarrow> run_error + response" where
  "choose_response se want ex =
     (case error_for_status (ex_first ex) of
        Inl e \<Rightarrow> Inl e
      | Inr r \<Rightarrow>
          if want \<and> status r = 206
             \<and> (differs (se_etag se) (text_of r ''etag'')
                \<or> differs (se_last_modified se) (text_of r ''last-modified''))
          then Inl (Err VersionChanged)
          else if want \<and> status r = 206 \<and> detect_content_encoding r \<noteq> None
          then error_for_status (ex_second ex)
          else Inr r)"

definition mime_of :: "string \<Rightarrow> string" where
  "mime_of v = to_ascii_lowercase (trim (hd (split_on (CHR '';'') v)))"

definition is_html_mime :: "string \<Rightarrow> bool" where
  "is_html_mime m \<longleftrightarrow> m = ''text/html'' \<or> m = ''application/xhtml+xml''"

definition vet_response :: "single_env \<Rightarrow> response \<Rightarrow> run_error + unit" where
  "vet_response se r =
     (let mime = mime_of (text_of r ''content-type'') in
      if is_html_mime mime \<and> \<not> filename_looks_like_html (se_filename se) then Inl (Fail (HtmlPage mime))
      else case unsupported_content_encoding r of
          Some e \<Rightarrow> Inl (Fail (BadCompression e))
        | None \<Rightarrow> Inr ())"

definition is_actual_resume :: "bool \<Rightarrow> int \<Rightarrow> response \<Rightarrow> bool" where
  "is_actual_resume want existing r \<longleftrightarrow>
     want \<and> status r = 206 \<and> detect_content_encoding r = None
     \<and> \<not> is_range_response_misaligned (parse_content_range_start r) existing"

section \<open>The body\<close>

fun write_chunks :: "(bytes \<times> bool) list \<Rightarrow> bytes \<times> int \<times> int \<Rightarrow> bytes \<times> int \<times> int" where
  "write_chunks [] s = s"
| "write_chunks ((c, save_due) # cs) (file, n, saved) =
     (let n' = n + int (length c)
      in write_chunks cs (file @ c, n', if save_due then n' else saved))"

definition transfer ::
  "bool \<Rightarrow> int \<Rightarrow> exchange \<Rightarrow> response \<Rightarrow> bytes option \<times> int
   \<Rightarrow> (bytes option \<times> int) \<times> (run_error + single_result)" where
  "transfer want existing ex r = (\<lambda>(f, saved).
     (let actual = is_actual_resume want existing r;
          base = (case f of Some b \<Rightarrow> if actual then take (nat existing) b else [] | None \<Rightarrow> []);
          (file, n, saved1) = write_chunks (ex_chunks ex) (base, if actual then existing else 0, if actual then saved else 0)
      in if \<not> ex_open_ok ex then ((f, saved), Inl (Err Io))
         else case ex_end ex of
             BodyCancel \<Rightarrow> ((Some file, n), Inl (Err Cancelled))
           | BodyStall \<Rightarrow> ((Some file, n), Inl (Fail DownloadStalled))
           | BodyError \<Rightarrow> ((Some file, n), Inl (Err Io))
           | BodyIo k \<Rightarrow> ((Some (take (length base + k) file), saved1), Inl (Err Io))
           | BodyEnd \<Rightarrow>
               ((Some file, n),
                Inr \<lparr> response_content_length =
                        (case ex_content_length ex of
                           Some cl \<Rightarrow> if actual then existing + cl else cl | None \<Rightarrow> - 1),
                      decompressed = (detect_content_encoding r \<noteq> None),
                      latched_last_modified =
                        (if actual then None else Some (text_of r ''last-modified'')),
                      resumed_range_start = (if actual then Some existing else None) \<rparr>)))"

definition download_single_once ::
  "single_env \<Rightarrow> exchange \<Rightarrow> bytes option \<times> int \<Rightarrow> (bytes option \<times> int) \<times> (run_error + single_result)" where
  "download_single_once se ex st =
     (let physical = file_len (fst st);
          want = want_resume se physical;
          existing = resume_point se physical
      in case choose_response se want ex of
          Inl e \<Rightarrow> (st, Inl e)
        | Inr r \<Rightarrow>
            (case vet_response se r of
               Inl e \<Rightarrow> (st, Inl e)
             | Inr _ \<Rightarrow> transfer want existing ex r st))"

section \<open>The loop over ranges\<close>

text \<open>\<open>None\<close>: the exchanges given are used up before the loop returns.\<close>

fun download_single ::
  "single_env \<Rightarrow> exchange list \<Rightarrow> bytes option \<times> int
   \<Rightarrow> (bytes option \<times> int) \<times> (run_error + single_result) option" where
  "download_single se [] st = (st, None)"
| "download_single se (ex # exs) st =
     (case download_single_once se ex st of
        (st1, Inl e) \<Rightarrow> (st1, Some (Inl e))
      | (st1, Inr res) \<Rightarrow>
          (case resumed_range_start res of
             None \<Rightarrow> (st1, Some (Inr res))
           | Some range_start \<Rightarrow>
               if se_total se \<le> 0 then (st1, Some (Inr res))
               else if se_total se \<le> file_len (fst st1) then (st1, Some (Inr res))
               else if file_len (fst st1) \<le> range_start
               then (st1, Some (Inl (Fail (NoProgress (file_len (fst st1)) (se_total se)))))
               else download_single se exs st1))"

section \<open>What the server and the connection promise\<close>

text \<open>
  The body of a response is the resource from the offset its status and header name, or less when
  the stream breaks; a body that ends with a known length has that length, and a complete response
  announces the whole resource.  A server that answers a range request with 206 either serves it
  or serves the whole file from its start.
\<close>

definition honest_body :: "bytes \<Rightarrow> int \<Rightarrow> bool \<Rightarrow> int \<Rightarrow> exchange \<Rightarrow> response \<Rightarrow> bool" where
  "honest_body res tot want existing ex r \<longleftrightarrow>
     (let off = body_offset r; data = concat (map fst (ex_chunks ex));
          actual = is_actual_resume want existing r in
      prefix data (drop (nat off) res)
      \<and> (\<not> actual \<longrightarrow> off = 0)
      \<and> (ex_end ex = BodyEnd \<longrightarrow> detect_content_encoding r = None \<longrightarrow>
           (case ex_content_length ex of None \<Rightarrow> True | Some cl \<Rightarrow>
              int (length data) = cl \<and> (\<not> actual \<or> tot \<le> 0 \<longrightarrow> off + cl = int (length res)))))"

definition honest_exchange :: "bytes \<Rightarrow> single_env \<Rightarrow> exchange \<Rightarrow> bytes option \<Rightarrow> bool" where
  "honest_exchange res se ex f =
     (let want = want_resume se (file_len f); existing = resume_point se (file_len f) in
      case choose_response se want ex of Inl _ \<Rightarrow> True | Inr r \<Rightarrow> honest_body res (se_total se) want existing ex r)"

fun honest_exchanges :: "bytes \<Rightarrow> single_env \<Rightarrow> exchange list \<Rightarrow> bytes option \<times> int \<Rightarrow> bool" where
  "honest_exchanges res se [] st = True"
| "honest_exchanges res se (ex # exs) st =
     (honest_exchange res se ex (fst st)
      \<and> honest_exchanges res se exs (fst (download_single_once se ex st)))"

section \<open>Facts\<close>

lemma write_chunks_out: "write_chunks cs (b, n, saved) = (b', n', saved') \<Longrightarrow>
    b' = b @ concat (map fst cs) \<and> n' = n + int (length (concat (map fst cs)))"
proof (induction cs arbitrary: b n saved)
  case (Cons c cs)
  obtain d s where "c = (d, s)" by (cases c)
  then show ?case using Cons.IH[of "b @ d" "n + int (length d)"] Cons.prems by (auto simp: Let_def add.assoc)
qed simp

lemma resume_point_bounds:
  "0 \<le> physical \<Longrightarrow> 0 \<le> resume_point se physical \<and> resume_point se physical \<le> physical"
  "0 \<le> physical \<Longrightarrow> physical - resume_point se physical < resume_alignment"
  using pos_mod_bound[of resume_alignment physical] pos_mod_sign[of resume_alignment physical]
  by (auto simp: resume_point_def resume_alignment_def intro: zmod_le_nonneg_dividend)

lemma file_len_nonneg [simp]: "0 \<le> file_len f"
  by (simp add: file_len_def split: option.splits)

text \<open>What a transfer leaves in the file is the base it starts from and a prefix of the body.\<close>

lemma transfer_file:
  assumes "transfer want existing ex r (f, saved) = ((f', saved'), res)"
  obtains "f' = f" "\<exists>e. res = Inl e"
  | k base where "base = (case f of Some b \<Rightarrow> if is_actual_resume want existing r then take (nat existing) b else [] | None \<Rightarrow> [])"
      "f' = Some (base @ take k (concat (map fst (ex_chunks ex))))"
      "\<And>x. res = Inr x \<Longrightarrow> f' = Some (base @ concat (map fst (ex_chunks ex)))
         \<and> ex_end ex = BodyEnd \<and> decompressed x = (detect_content_encoding r \<noteq> None)
         \<and> resumed_range_start x = (if is_actual_resume want existing r then Some existing else None)
         \<and> response_content_length x = (case ex_content_length ex of
               Some cl \<Rightarrow> if is_actual_resume want existing r then existing + cl else cl | None \<Rightarrow> - 1)"
proof -
  let ?base = "case f of Some b \<Rightarrow> if is_actual_resume want existing r then take (nat existing) b else [] | None \<Rightarrow> []"
  let ?n = "if is_actual_resume want existing r then existing else 0"
  let ?s = "if is_actual_resume want existing r then saved else 0"
  let ?data = "concat (map fst (ex_chunks ex))"
  obtain out n s where w: "write_chunks (ex_chunks ex) (?base, ?n, ?s) = (out, n, s)"
    by (metis prod_cases3)
  then have out: "out = ?base @ ?data" using write_chunks_out by blast
  show ?thesis
  proof (cases "ex_open_ok ex")
    case False
    then show ?thesis using assms that(1) w by (auto simp: transfer_def)
  next
    case True
    show ?thesis
    proof (cases "ex_end ex")
      case (BodyIo k)
      then have "f' = Some (?base @ take k ?data)" "res = Inl (Err Io)"
        using assms w True out by (auto simp: transfer_def Let_def)
      then show ?thesis by (intro that(2)) auto
    qed (rule that(2)[of ?base "length ?data"], use assms w True out in \<open>auto simp: transfer_def Let_def\<close>)+
  qed
qed

text \<open>The file holds a prefix of the resource.\<close>

definition sound_file :: "bytes \<Rightarrow> bytes option \<Rightarrow> bool" where
  "sound_file res f \<longleftrightarrow> (case f of None \<Rightarrow> True | Some b \<Rightarrow> prefix b res)"

text \<open>A result that counts as success, with what is then in the file.\<close>

definition good_end :: "bytes \<Rightarrow> int \<Rightarrow> bytes option \<Rightarrow> single_result \<Rightarrow> bool" where
  "good_end res tot f x \<longleftrightarrow>
     (\<exists>b. f = Some b \<and> prefix b res
        \<and> (\<not> decompressed x \<longrightarrow> response_content_length x \<noteq> - 1 \<longrightarrow>
              response_content_length x = int (length b)
              \<and> (resumed_range_start x = None \<or> tot \<le> 0 \<longrightarrow> b = res))
        \<and> (case resumed_range_start x of None \<Rightarrow> True | Some e \<Rightarrow> \<not> decompressed x))"

lemma actual_resume_facts:
  assumes "is_actual_resume want existing r" "0 \<le> existing"
  shows "want" "detect_content_encoding r = None" "body_offset r = existing"
  using assms
  by (auto simp: is_actual_resume_def body_offset_def is_range_response_misaligned_def split: option.splits)

lemma prefix_append_drop: "prefix b res \<Longrightarrow> prefix c (drop (length b) res) \<Longrightarrow> prefix (b @ c) res"
  by (auto simp: prefix_def)

lemma prefix_full: "prefix b res \<Longrightarrow> length res \<le> length b \<Longrightarrow> b = res"
  by (auto simp: prefix_def)

lemma once_sound:
  assumes ex: "honest_exchange res se ex f" and f: "sound_file res f"
    and once: "download_single_once se ex (f, saved) = ((f', saved'), result)"
  shows "sound_file res f'" "result = Inr x \<Longrightarrow> good_end res (se_total se) f' x"
proof -
  let ?want = "want_resume se (file_len f)" and ?existing = "resume_point se (file_len f)"
  let ?data = "concat (map fst (ex_chunks ex))"
  have e: "0 \<le> ?existing" "?existing \<le> file_len f" using resume_point_bounds(1)[of "file_len f" se] by auto
  have both: "sound_file res f' \<and> (result = Inr x \<longrightarrow> good_end res (se_total se) f' x)"
  proof (cases "\<exists>r. choose_response se ?want ex = Inr r \<and> vet_response se r = Inr ()")
    case False
    then have "f' = f \<and> (\<exists>e. result = Inl e)"
      using once by (auto simp: download_single_once_def Let_def split: sum.splits)
    then show ?thesis using f by auto
  next
    case True
    then obtain r where r: "choose_response se ?want ex = Inr r" "vet_response se r = Inr ()" by blast
    let ?act = "is_actual_resume ?want ?existing r"
    let ?base = "case f of Some b \<Rightarrow> if ?act then take (nat ?existing) b else [] | None \<Rightarrow> []"
    have t: "transfer ?want ?existing ex r (f, saved) = ((f', saved'), result)"
      using once r by (simp add: download_single_once_def Let_def)
    have h: "honest_body res (se_total se) ?want ?existing ex r"
      using ex r(1) by (simp add: honest_exchange_def Let_def)
    have base: "prefix ?base res \<and> int (length ?base) = (if ?act then ?existing else 0)"
    proof (cases "?act")
      case True
      then have "?want" using actual_resume_facts[OF _ e(1)] by blast
      then obtain b where "f = Some b" by (cases f) (auto simp: want_resume_def file_len_def)
      then show ?thesis using True f e
        by (auto simp: sound_file_def file_len_def intro: prefix_order.trans[OF take_is_prefix])
    next
      case False
      then show ?thesis by (cases f) auto
    qed
    have off: "body_offset r = (if ?act then ?existing else 0)"
      using h actual_resume_facts(3)[OF _ e(1)] by (auto simp: honest_body_def Let_def)
    have bo: "length ?base = nat (body_offset r)" using base off by linarith
    have data: "prefix ?data (drop (length ?base) res)"
      unfolding bo using h by (simp add: honest_body_def Let_def)
    have sound: "prefix (?base @ take k ?data) res" for k
      by (rule prefix_append_drop) (use base data in \<open>auto intro: prefix_order.trans[OF take_is_prefix]\<close>)
    show ?thesis
    proof (rule transfer_file[OF t])
      assume "f' = f" "\<exists>e. result = Inl e"
      then show ?thesis using f by auto
    next
      fix k base
      assume b: "base = ?base" "f' = Some (base @ take k ?data)"
        and R: "\<And>x. result = Inr x \<Longrightarrow> f' = Some (base @ ?data)
         \<and> ex_end ex = BodyEnd \<and> decompressed x = (detect_content_encoding r \<noteq> None)
         \<and> resumed_range_start x = (if ?act then Some ?existing else None)
         \<and> response_content_length x = (case ex_content_length ex of
               Some cl \<Rightarrow> if ?act then ?existing + cl else cl | None \<Rightarrow> - 1)"
      have "good_end res (se_total se) f' x" if "result = Inr x"
      proof -
        note R = R[OF that]
        have p: "prefix (?base @ ?data) res" using sound[of "length ?data"] by simp
        have len: "response_content_length x = int (length (?base @ ?data))
            \<and> (resumed_range_start x = None \<or> se_total se \<le> 0 \<longrightarrow> ?base @ ?data = res)"
          if d: "\<not> decompressed x" "response_content_length x \<noteq> - 1"
        proof -
          obtain cl where cl: "ex_content_length ex = Some cl"
            using d R by (cases "ex_content_length ex") auto
          have c: "int (length ?data) = cl \<and> (\<not> ?act \<or> se_total se \<le> 0 \<longrightarrow> body_offset r + cl = int (length res))"
            using h R d cl by (auto simp: honest_body_def Let_def)
          have l: "int (length (?base @ ?data)) = (if ?act then ?existing else 0) + cl" using base c by simp
          have "?base @ ?data = res" if "resumed_range_start x = None \<or> se_total se \<le> 0"
          proof (rule prefix_full[OF p])
            have "\<not> ?act \<or> se_total se \<le> 0" using that R by (auto split: if_splits)
            then show "length res \<le> length (?base @ ?data)" using c l off by linarith
          qed
          then show ?thesis using R cl l by auto
        qed
        have "\<not> decompressed x" if "resumed_range_start x = Some e'" for e'
          using that R actual_resume_facts(2)[OF _ e(1)] by (auto split: if_splits)
        then show ?thesis using R b p len by (auto simp: good_end_def split: option.splits)
      qed
      then show ?thesis using sound b by (auto simp: sound_file_def)
    qed
  qed
  then show "sound_file res f'" "result = Inr x \<Longrightarrow> good_end res (se_total se) f' x" by blast+
qed

lemma single_sound:
  assumes "honest_exchanges res se exs (f, saved)" "sound_file res f"
    and "download_single se exs (f, saved) = ((f', saved'), result)"
  shows "sound_file res f'"
    "result = Some (Inr x) \<Longrightarrow> good_end res (se_total se) f' x
       \<and> (resumed_range_start x = None \<or> se_total se \<le> file_len f')"
proof -
  have "sound_file res f' \<and> (result = Some (Inr x) \<longrightarrow> good_end res (se_total se) f' x
       \<and> (resumed_range_start x = None \<or> se_total se \<le> file_len f'))"
    using assms
  proof (induction exs arbitrary: f saved)
    case (Cons ex exs)
    obtain f1 s1 r1 where o: "download_single_once se ex (f, saved) = ((f1, s1), r1)"
      by (metis prod_cases3 surj_pair)
    have s: "sound_file res f1" "\<And>x. r1 = Inr x \<Longrightarrow> good_end res (se_total se) f1 x"
      using once_sound[OF _ Cons.prems(2) o] Cons.prems(1) by auto
    show ?case
    proof (cases "\<exists>y e. r1 = Inr y \<and> resumed_range_start y = Some e \<and> e < file_len f1 \<and> file_len f1 < se_total se")
      case True
      then have "download_single se exs (f1, s1) = ((f', saved'), result)"
        using Cons.prems(3) o file_len_nonneg[of f1] by (elim exE conjE) (simp add: not_le del: file_len_nonneg)
      then show ?thesis using Cons.IH[of f1 s1] Cons.prems(1) s o by auto
    next
      case False
      have "f' = f1 \<and> (result = Some (Inr x) \<longrightarrow> r1 = Inr x \<and>
          (resumed_range_start x = None \<or> se_total se \<le> file_len f1))"
        using Cons.prems(3) o False
        by (auto split: sum.splits option.splits if_splits intro: order_trans[OF _ file_len_nonneg])
      then show ?thesis using s by auto
    qed
  qed simp
  then show "sound_file res f'"
    "result = Some (Inr x) \<Longrightarrow> good_end res (se_total se) f' x
       \<and> (resumed_range_start x = None \<or> se_total se \<le> file_len f')" by blast+
qed

end
