(* ===== verification/Download_Run.thy ===== *)
theory Download_Run
  imports Single_Stream Segment_Rows
begin

text \<open>
  One run of an HTTP task from start to finish: \<^verbatim>\<open>run_download\<close>, \<^verbatim>\<open>run_download_inner\<close> and
  \<^verbatim>\<open>verify_checksum\<close> of \<^verbatim>\<open>native/engine/src/downloader.rs\<close>, with \<^verbatim>\<open>advise_static\<close> of
  \<^verbatim>\<open>segment_advisor.rs\<close>.  The directory is the ordered map of its entries, the temporary file one of
  them.  What the environment answers in one run (probe, coordinator, exchanges, outcomes of file
  and database operations) is \<open>run_inputs\<close>.
\<close>

section \<open>Parameters, state and inputs\<close>

record file_info =
  fi_name :: ustr
  fi_total :: int
  fi_supports_range :: bool
  fi_content_type :: string
  fi_etag :: string
  fi_last_modified :: string

record run_params =
  rp_url :: ustr
  rp_file_name :: ustr
  rp_segment_count :: int
  rp_is_resume :: bool
  rp_hint :: int              \<comment> \<open>\<^verbatim>\<open>hint_file_size\<close>\<close>
  rp_verified :: bool         \<comment> \<open>\<^verbatim>\<open>range_verified\<close>\<close>
  rp_get_like :: bool
  rp_auto_max :: int
  rp_checksum :: ustr
  rp_overwrite :: bool

record run_st =
  entries :: "(ustr, node) btree"
  tdb :: task_db
  validator :: "string \<times> string"     \<comment> \<open>\<^verbatim>\<open>orig_etag\<close>, \<^verbatim>\<open>orig_last_modified\<close>\<close>
  row_name :: ustr
  row_status :: int

text \<open>
  Before each attempt to take the final name the other users of the directory may change it
  (\<open>rv_others\<close>); \<open>rv_remove_ok\<close> is the outcome of deleting the file to be overwritten.
\<close>

record rival =
  rv_others :: "(ustr, node) btree \<Rightarrow> (ustr, node) btree"
  rv_rename_ok :: bool
  rv_remove_ok :: bool
  rv_uniq :: ustr

record run_inputs =
  in_gbk :: "nat list \<Rightarrow> ustr option"
  in_fold :: "ustr \<Rightarrow> ustr"
  in_digest :: "string \<Rightarrow> bytes \<Rightarrow> ustr"   \<comment> \<open>algorithm, content; hexadecimal digest\<close>
  in_probe :: "run_error + file_info"
  in_cores :: int
  in_cancel :: "bool \<times> bool"                \<comment> \<open>token at the two early checks\<close>
  in_info_ok :: bool                          \<comment> \<open>write of name and size\<close>
  in_rows_ok :: bool                          \<comment> \<open>reads of the segment rows\<close>
  in_coordinated :: "bytes option \<times> task_db \<times> (run_error + int)"
  in_exchanges :: "exchange list"
  in_sync_ok :: bool
  in_avoid :: "ustr set"                      \<comment> \<open>folded names of sibling tasks, as read\<close>
  in_rivals :: "rival list"

definition temp_name :: "ustr \<Rightarrow> ustr" where
  "temp_name name = name @ temp_ext"

definition content_of :: "node option \<Rightarrow> bytes option" where
  "content_of n = (case n of Some (File b) \<Rightarrow> Some b | _ \<Rightarrow> None)"

definition put_file :: "ustr \<Rightarrow> bytes option \<Rightarrow> (ustr, node) btree \<Rightarrow> (ustr, node) btree" where
  "put_file n b dir = (case b of Some c \<Rightarrow> bt_insert n (File c) dir | None \<Rightarrow> bt_remove n dir)"

section \<open>What is known of the file\<close>

definition hint_info :: "run_params \<Rightarrow> run_inputs \<Rightarrow> file_info" where
  "hint_info p i =
     \<lparr> fi_name = (if rp_file_name p = []
                  then (case extract_from_url (in_gbk i) (rp_url p) of Some n \<Rightarrow> n | None \<Rightarrow> u ''download'')
                  else rp_file_name p),
       fi_total = (if 0 < rp_hint p then rp_hint p else 0),
       fi_supports_range = (0 < rp_hint p \<and> (rp_segment_count p \<noteq> 1 \<or> rp_verified p) \<and> rp_get_like p),
       fi_content_type = '''', fi_etag = '''', fi_last_modified = '''' \<rparr>"

definition obtain_info :: "run_params \<Rightarrow> run_inputs \<Rightarrow> run_st \<Rightarrow> run_st \<times> (run_error + file_info)" where
  "obtain_info p i st =
     (if rp_hint p \<noteq> 0
      then (if rp_is_resume p then st
            else st\<lparr>tdb := set_task_range_verified (rp_verified p) (tdb st)\<rparr>, Inr (hint_info p i))
      else (st, in_probe i))"

text \<open>An HTML page instead of the file.\<close>

definition page_instead :: "run_params \<Rightarrow> file_info \<Rightarrow> bool" where
  "page_instead p info \<longleftrightarrow>
     fi_content_type info \<noteq> '''' \<and> is_html_mime (mime_of (fi_content_type info))
     \<and> \<not> filename_looks_like_html (if rp_file_name p = [] then fi_name info else rp_file_name p)"

definition run_name :: "run_params \<Rightarrow> file_info \<Rightarrow> ustr" where
  "run_name p info = (if rp_file_name p = [] then fi_name info else sanitize_filename (rp_file_name p))"

definition update_task_file_info :: "ustr \<Rightarrow> int \<Rightarrow> run_st \<Rightarrow> run_st" where
  "update_task_file_info name n st = st\<lparr>row_name := name, tdb := update_task_total_bytes n (tdb st)\<rparr>"

definition update_task_file_info_resume :: "ustr \<Rightarrow> int \<Rightarrow> run_st \<Rightarrow> run_st \<times> int" where
  "update_task_file_info_resume name probed st =
     (let stored = task_total (tdb st);
          threshold = (if 0 < stored then clamp 1 1048576 (stored sdiv 100) else 1);
          size_changed = (if stored = 0 then True
                          else if probed < stored then True
                          else if stored < probed then threshold < probed - stored
                          else False)
      in if size_changed then (update_task_file_info name probed st, probed)
         else (st\<lparr>row_name := name\<rparr>, stored))"

definition record_info :: "run_params \<Rightarrow> file_info \<Rightarrow> run_st \<Rightarrow> run_st \<times> int" where
  "record_info p info st =
     (if rp_is_resume p then update_task_file_info_resume (run_name p info) (fi_total info) st
      else (update_task_file_info (run_name p info) (fi_total info) st, fi_total info))"

definition has_rows :: "run_inputs \<Rightarrow> run_st \<Rightarrow> bool" where
  "has_rows i st \<longleftrightarrow> in_rows_ok i \<and> rows (tdb st) \<noteq> []"

definition effective_supports_range :: "run_params \<Rightarrow> run_inputs \<Rightarrow> file_info \<Rightarrow> run_st \<Rightarrow> bool" where
  "effective_supports_range p i info st =
     (if rp_is_resume p \<and> \<not> fi_supports_range info then has_rows i st else fi_supports_range info)"

text \<open>The version the download belongs to: what the first run stored, else what the probe says.\<close>

definition choose_validator :: "run_params \<Rightarrow> file_info \<Rightarrow> run_st \<Rightarrow> run_st \<times> (string \<times> string)" where
  "choose_validator p info st =
     (let probed = (fi_etag info, fi_last_modified info) in
      if rp_is_resume p
      then (st, if validator st = ('''', '''') then probed else validator st)
      else (if probed = ('''', '''') then st else st\<lparr>validator := probed\<rparr>, probed))"

section \<open>How many connections\<close>

definition advise_static :: "int \<Rightarrow> int \<Rightarrow> bool \<Rightarrow> int" where
  "advise_static cores total_bytes supports =
     (if total_bytes \<le> 0 \<or> \<not> supports then 1
      else if total_bytes \<le> 2 * 1024 * 1024 then 1
      else let by_size = as_i32 (max (total_bytes div (1024 * 1024)) 1);
               io_cap = min (cores * 4) 64
           in clamp 1 64 (min by_size io_cap))"

definition compute_segments_with_advisor :: "run_params \<Rightarrow> run_inputs \<Rightarrow> file_info \<Rightarrow> int" where
  "compute_segments_with_advisor p i info =
     (let advice = advise_static (in_cores i) (fi_total info) (fi_supports_range info) in
      if 0 < rp_auto_max p then min advice (rp_auto_max p) else advice)"

definition run_segments :: "run_params \<Rightarrow> run_inputs \<Rightarrow> file_info \<Rightarrow> run_st \<Rightarrow> int" where
  "run_segments p i info st =
     (if rp_segment_count p \<le> 0
      then (if rp_is_resume p \<and> has_rows i st then as_i32 (int (length (rows (tdb st))))
            else compute_segments_with_advisor p i info)
      else rp_segment_count p)"

definition use_segments :: "run_params \<Rightarrow> run_inputs \<Rightarrow> file_info \<Rightarrow> int \<Rightarrow> run_st \<Rightarrow> bool" where
  "use_segments p i info eff st \<longleftrightarrow>
     effective_supports_range p i info st \<and> 1048576 < eff
     \<and> (1 < run_segments p i info st \<or> (rp_is_resume p \<and> has_rows i st)) \<and> rp_get_like p"

section \<open>Fetching the bytes\<close>

text \<open>The segments are given up and the file is fetched over one connection.\<close>

definition discard_segments :: "ustr \<Rightarrow> run_st \<Rightarrow> run_st" where
  "discard_segments name st =
     st\<lparr>tdb := delete_segments (tdb st), entries := bt_remove (temp_name name) (entries st)\<rparr>"

definition single_env_of :: "run_params \<Rightarrow> ustr \<Rightarrow> int \<Rightarrow> bool \<Rightarrow> string \<times> string \<Rightarrow> single_env" where
  "single_env_of p name eff supports v =
     \<lparr> se_total = eff, se_supports_range = supports, se_get_like = rp_get_like p,
       se_filename = name, se_etag = fst v, se_last_modified = snd v \<rparr>"

definition run_single ::
  "single_env \<Rightarrow> ustr \<Rightarrow> exchange list \<Rightarrow> run_st \<Rightarrow> run_st \<times> (run_error + single_result) option" where
  "run_single se name exs st =
     (let f = content_of (bt_get (entries st) (temp_name name));
          ((f', saved'), r) = download_single se exs (f, task_downloaded (tdb st))
      in (st\<lparr>entries := put_file (temp_name name) f' (entries st),
             tdb := (tdb st)\<lparr>task_downloaded := saved'\<rparr>\<rparr>, r))"

text \<open>
  The result says how the bytes came: \<open>None\<close> over segments, with the size the coordinator ends
  with, or the result of the single stream.
\<close>

definition falls_back :: "run_error \<Rightarrow> bool" where
  "falls_back e \<longleftrightarrow> e = Err RangeNotSupported \<or> e = Err VersionChanged \<or> e = Err RangeMisaligned"

text \<open>
  The coordinator has run, in the state of the first component; the second says where the single
  stream starts, if it has to: whether with ranges, and from which state.
\<close>

definition after_coordinator :: "run_inputs \<Rightarrow> ustr \<Rightarrow> run_st \<Rightarrow> run_st" where
  "after_coordinator i name st =
     (let (f, db, _) = in_coordinated i
      in st\<lparr>entries := put_file (temp_name name) f (entries st), tdb := db\<rparr>)"

definition single_start ::
  "run_params \<Rightarrow> run_inputs \<Rightarrow> file_info \<Rightarrow> ustr \<Rightarrow> int \<Rightarrow> run_st \<Rightarrow> (bool \<times> run_st) option" where
  "single_start p i info name eff st =
     (if use_segments p i info eff st
      then (case in_coordinated i of
              (_, _, Inl e) \<Rightarrow>
                if falls_back e then Some (False, discard_segments name (after_coordinator i name st)) else None
            | (_, _, Inr _) \<Rightarrow> None)
      else Some (effective_supports_range p i info st,
                 if rp_is_resume p \<and> has_rows i st
                 then (let st0 = discard_segments name st in st0\<lparr>tdb := (tdb st0)\<lparr>task_downloaded := 0\<rparr>\<rparr>)
                 else st))"

definition fetch ::
  "run_params \<Rightarrow> run_inputs \<Rightarrow> file_info \<Rightarrow> ustr \<Rightarrow> int \<Rightarrow> string \<times> string \<Rightarrow> run_st
   \<Rightarrow> run_st \<times> (run_error + int \<times> single_result option) option" where
  "fetch p i info name eff v st =
     (case single_start p i info name eff st of
        None \<Rightarrow>
          (after_coordinator i name st,
           Some (case in_coordinated i of
               (_, _, Inl e) \<Rightarrow> Inl e | (_, _, Inr final_total) \<Rightarrow> Inr (final_total, None)))
      | Some (supports, st1) \<Rightarrow>
          (case run_single (single_env_of p name eff supports v) name (in_exchanges i) st1 of
             (st', None) \<Rightarrow> (st', None)
           | (st', Some (Inl e)) \<Rightarrow> (st', Some (Inl e))
           | (st', Some (Inr r)) \<Rightarrow> (st', Some (Inr (eff, Some r)))))"

section \<open>Checking what was fetched\<close>

definition set_total :: "int \<Rightarrow> run_st \<Rightarrow> run_st" where
  "set_total n st = st\<lparr>tdb := update_task_total_bytes n (tdb st)\<rparr>"

text \<open>The size that counts after the integrity check; \<open>r\<close> is the single stream's result, if any.\<close>

definition check_integrity ::
  "run_inputs \<Rightarrow> ustr \<Rightarrow> int \<Rightarrow> single_result option \<Rightarrow> run_st \<Rightarrow> run_st \<times> (run_error + int)" where
  "check_integrity i name eff r st =
     (let f = content_of (bt_get (entries st) (temp_name name)); len = file_len f in
      case r of
        Some x \<Rightarrow>
          if decompressed x then (set_total len st, Inr len)
          else if eff \<le> 0 then (st, Inr eff)
          else if f = None then (st, Inl (Err Io))
          else if len = eff then (st, Inr eff)
          else (let cl = response_content_length x in
                if 0 < cl \<and> len = cl then (set_total len st, Inr len)
                else if cl \<le> 0 \<and> 0 < len \<and> eff \<le> len then (set_total len st, Inr len)
                else (st, Inl (Fail (SizeMismatch eff len cl))))
      | None \<Rightarrow>
          if eff \<le> 0 then (st, Inr eff)
          else if \<not> in_rows_ok i then (st, Inl (Err Db))
          else (let seg_total = (\<Sum>s \<leftarrow> bt_values (rows (tdb st)). r_downloaded s) in
                if seg_total < eff then (st, Inl (Fail (SegmentsIncomplete eff seg_total)))
                else if len < eff then (st, Inl (Fail (FileIncomplete len eff)))
                else (st, Inr eff)))"

definition checksum_algorithms :: "(string \<times> string) list" where
  "checksum_algorithms =
     [(''sha-256'', ''sha256''), (''sha256'', ''sha256''), (''sha-512'', ''sha512''), (''sha512'', ''sha512''),
      (''sha-1'', ''sha1''), (''sha1'', ''sha1''), (''md5'', ''md5'')]"

text \<open>\<open>fold\<close> is \<^verbatim>\<open>str::to_lowercase\<close>.\<close>

definition verify_checksum ::
  "(ustr \<Rightarrow> ustr) \<Rightarrow> (string \<Rightarrow> bytes \<Rightarrow> ustr) \<Rightarrow> bytes option \<Rightarrow> ustr \<Rightarrow> run_error + unit" where
  "verify_checksum fold' digest f spec =
     (if 61 \<notin> set spec then Inl (Fail (ChecksumFormat spec))
      else let algo_raw = fold' (utrim (takeWhile (\<lambda>c. c \<noteq> 61) spec));
               expected = fold' (utrim (tl (dropWhile (\<lambda>c. c \<noteq> 61) spec)))
           in case map_of (map (\<lambda>(a, k). (u a, k)) checksum_algorithms) algo_raw of
               None \<Rightarrow> Inl (Fail (ChecksumAlgorithm algo_raw))
             | Some algo \<Rightarrow>
                 (case f of
                    None \<Rightarrow> Inl (Err Io)
                  | Some b \<Rightarrow> if digest algo b \<noteq> expected then Inl (Err ChecksumMismatch) else Inr ()))"

definition check_checksum :: "run_params \<Rightarrow> run_inputs \<Rightarrow> ustr \<Rightarrow> run_st \<Rightarrow> run_st \<times> (run_error + unit)" where
  "check_checksum p i name st =
     (if rp_checksum p = [] then (st, Inr ())
      else case verify_checksum (in_fold i) (in_digest i)
                  (content_of (bt_get (entries st) (temp_name name))) (rp_checksum p) of
          Inr _ \<Rightarrow> (st, Inr ())
        | Inl e \<Rightarrow> (st\<lparr>entries := bt_remove (temp_name name) (entries st)\<rparr>, Inl e))"

section \<open>The final name\<close>

record finalize_st =
  fz_attempt :: nat
  fz_chosen :: ustr
  fz_overwritten :: bool   \<comment> \<open>\<^verbatim>\<open>overwrite_attempted\<close>\<close>

definition may_overwrite ::
  "bool \<Rightarrow> (ustr \<Rightarrow> ustr) \<Rightarrow> ustr \<Rightarrow> ustr set \<Rightarrow> finalize_st \<Rightarrow> bool" where
  "may_overwrite overwrite fold' name avoid s \<longleftrightarrow>
     overwrite \<and> \<not> fz_overwritten s \<and> fz_chosen s = name \<and> fold' name \<notin> avoid"

definition rededup :: "(ustr \<Rightarrow> ustr) \<Rightarrow> ustr set \<Rightarrow> ustr \<Rightarrow> (ustr, node) btree \<Rightarrow> ustr \<Rightarrow> ustr" where
  "rededup fold' avoid uniq dir name =
     dedup_filename \<lparr> de_fold = fold', de_reserved = {}, de_avoid = avoid, de_overwrite = False,
                      de_uniq = uniq \<rparr> dir name"

text \<open>
  Each turn takes one \<open>rival\<close>.  The first component of the result lists the directory before and
  after every operation of the run's own; the last is the name taken, \<open>None\<close> when the rivals given
  are used up before the loop ends.
\<close>

fun finalize ::
  "bool \<Rightarrow> (ustr \<Rightarrow> ustr) \<Rightarrow> ustr set \<Rightarrow> ustr \<Rightarrow> rival list \<Rightarrow> finalize_st \<Rightarrow> (ustr, node) btree
   \<Rightarrow> ((ustr, node) btree \<times> (ustr, node) btree) list \<times> (ustr, node) btree \<times> (run_error + ustr) option" where
  "finalize overwrite fold' siblings name [] s dir = ([], dir, None)"
| "finalize overwrite fold' siblings name (rv # rvs) s dir =
     (let d0 = rv_others rv dir in
      case claim_rename (temp_name name) (fz_chosen s) (rv_rename_ok rv) d0 of
        (d1, Claimed) \<Rightarrow> ([(d0, d1)], d1, Some (Inr (fz_chosen s)))
      | (d1, ClaimFailed) \<Rightarrow> ([(d0, d1)], d1, Some (Inl (Fail RenameFailed)))
      | (d1, Taken) \<Rightarrow>
          if 5 < fz_attempt s + 1 then ([(d0, d1)], d1, Some (Inl (Fail (NoDestination (fz_attempt s + 1)))))
          else
            let s1 = s\<lparr>fz_attempt := fz_attempt s + 1\<rparr>;
                may = may_overwrite overwrite fold' name siblings s;
                removes = may \<and> bt_get d1 name \<noteq> Some Dir \<and> rv_remove_ok rv;
                s2 = s1\<lparr>fz_overwritten := fz_overwritten s \<or> may,
                        fz_chosen := (if removes then name else rededup fold' siblings (rv_uniq rv) d1 name)\<rparr>;
                d2 = (if removes then bt_remove name d1 else d1);
                (trace, d, r) = finalize overwrite fold' siblings name rvs s2 d2
            in ((d0, d1) # (d1, d2) # trace, d, r))"

definition start_finalize :: "ustr \<Rightarrow> finalize_st" where
  "start_finalize name = \<lparr> fz_attempt = 0, fz_chosen = name, fz_overwritten = False \<rparr>"

section \<open>The run\<close>

text \<open>After the fetch: checks, then the final name.\<close>

definition conclude_run ::
  "run_params \<Rightarrow> run_inputs \<Rightarrow> ustr \<Rightarrow> int \<Rightarrow> single_result option \<Rightarrow> run_st
   \<Rightarrow> run_st \<times> (run_error + int \<times> ustr option) option" where
  "conclude_run p i name eff r st =
     (case check_integrity i name eff r st of
        (st1, Inl e) \<Rightarrow> (st1, Some (Inl e))
      | (st1, Inr eff1) \<Rightarrow>
          let f = content_of (bt_get (entries st1) (temp_name name));
              actual_total = (if 0 < eff1 then eff1 else file_len f)
          in case check_checksum p i name st1 of
              (st2, Inl e) \<Rightarrow> (st2, Some (Inl e))
            | (st2, Inr _) \<Rightarrow>
                if f = None \<or> \<not> in_sync_ok i then (st2, Some (Inl (Fail SyncFailed)))
                else case finalize (rp_overwrite p) (in_fold i) (in_avoid i) name (in_rivals i)
                            (start_finalize name) (entries st2) of
                    (_, d, None) \<Rightarrow> (st2\<lparr>entries := d\<rparr>, None)
                  | (_, d, Some (Inl e)) \<Rightarrow> (st2\<lparr>entries := d\<rparr>, Some (Inl e))
                  | (_, d, Some (Inr chosen)) \<Rightarrow>
                      (let st3 = st2\<lparr>entries := d\<rparr> in
                       if chosen = name then (st3, Some (Inr (actual_total, None)))
                       else (update_task_file_info chosen actual_total st3,
                             Some (Inr (actual_total, Some chosen)))))"

text \<open>Before the fetch: what the file is, its name, its size and its version.\<close>

definition prepare_run ::
  "run_params \<Rightarrow> run_inputs \<Rightarrow> run_st \<Rightarrow> run_st \<times> (run_error + file_info \<times> ustr \<times> int \<times> string \<times> string)" where
  "prepare_run p i st0 =
     (case obtain_info p i (st0\<lparr>row_status := 5\<rparr>) of
        (st, Inl e) \<Rightarrow> (st, Inl e)
      | (st, Inr info) \<Rightarrow>
          let name = run_name p info in
          if page_instead p info
          then (st, Inl (Fail (HtmlPage (mime_of (fi_content_type info)))))
          else if fst (in_cancel i) then (st, Inl (Err Cancelled))
          else if name = [] then (st, Inl (Fail NoFileName))
          else if \<not> in_info_ok i then (st, Inl (Err Db))
          else
            let (st1, eff) = record_info p info st;
                (st2, v) = choose_validator p info st1
            in if snd (in_cancel i) then (st2, Inl (Err Cancelled))
               else (st2\<lparr>row_status := 1\<rparr>, Inr (info, name, eff, v)))"

definition run_download_inner ::
  "run_params \<Rightarrow> run_inputs \<Rightarrow> run_st \<Rightarrow> run_st \<times> (run_error + int \<times> ustr option) option" where
  "run_download_inner p i st0 =
     (case prepare_run p i st0 of
        (st, Inl e) \<Rightarrow> (st, Some (Inl e))
      | (st, Inr (info, name, eff, v)) \<Rightarrow>
          (case fetch p i info name eff v st of
             (st1, None) \<Rightarrow> (st1, None)
           | (st1, Some (Inl e)) \<Rightarrow> (st1, Some (Inl e))
           | (st1, Some (Inr (eff1, r))) \<Rightarrow> conclude_run p i name eff1 r st1))"

definition run_download :: "run_params \<Rightarrow> run_inputs \<Rightarrow> run_st \<Rightarrow> run_st" where
  "run_download p i st =
     (case run_download_inner p i st of
        (st', Some (Inr _)) \<Rightarrow> st'\<lparr>row_status := 3\<rparr>
      | (st', Some (Inl e)) \<Rightarrow> if e = Err Cancelled then st' else st'\<lparr>row_status := 4\<rparr>
      | (st', None) \<Rightarrow> st')"

end
