(* ===== verification/Probe.thy ===== *)
theory Probe
  imports Download_Run
begin

text \<open>
  The probe: \<^verbatim>\<open>resolve_file_info\<close> and its parts (\<^verbatim>\<open>native/engine/src/downloader.rs\<close>), which find out
  the name, the size and the range support of a resource before the download starts.
\<close>

section \<open>Replies\<close>

text \<open>Headers as bytes, by lower-case name; \<open>pr_url\<close> is the address after redirects.\<close>

record probe_reply =
  pr_status :: nat
  pr_raw :: "string \<Rightarrow> nat list option"
  pr_url :: ustr

text \<open>\<^verbatim>\<open>HeaderValue::to_str\<close>.\<close>

definition to_str :: "nat list \<Rightarrow> string option" where
  "to_str bs = (if list_all (\<lambda>b. (32 \<le> b \<and> b < 127) \<or> b = 9) bs then Some (map char_of bs) else None)"

definition response_of :: "nat \<Rightarrow> (string \<Rightarrow> nat list option) \<Rightarrow> response" where
  "response_of st raw = \<lparr> status = st, header = (\<lambda>h. Option.bind (raw h) to_str) \<rparr>"

definition is_success :: "nat \<Rightarrow> bool" where
  "is_success st \<longleftrightarrow> 200 \<le> st \<and> st < 300"

text \<open>A reply that counts, and the description of one that does not.\<close>

definition probe_data :: "probe_reply option \<Rightarrow> probe_reply option" where
  "probe_data r = (case r of Some x \<Rightarrow> if is_success (pr_status x) then Some x else None | None \<Rightarrow> None)"

definition status_desc :: "probe_reply option \<Rightarrow> nat option" where
  "status_desc r = map_option pr_status r"

record probe_round =
  pb_head :: "probe_reply option"
  pb_get :: "probe_reply option"     \<comment> \<open>to a request for the first byte\<close>
  pb_plain :: "probe_reply option"   \<comment> \<open>to the request without a range\<close>

definition content_length_of :: "response \<Rightarrow> int" where
  "content_length_of r =
     (case Option.bind (header r ''content-length'') (parse_signed i64_parse_max) of Some n \<Rightarrow> n | None \<Rightarrow> 0)"

text \<open>What the headers of a single response say; ranges are not trusted.\<close>

definition name_of ::
  "(nat list \<Rightarrow> ustr option) \<Rightarrow> ustr \<Rightarrow> ustr \<Rightarrow> (string \<Rightarrow> nat list option) \<Rightarrow> ustr" where
  "name_of gbk url final_url raw =
     extract_filename gbk (raw ''content-disposition'') (Option.bind (raw ''content-type'') to_str) url final_url"

definition reply_info :: "(nat list \<Rightarrow> ustr option) \<Rightarrow> ustr \<Rightarrow> probe_reply \<Rightarrow> file_info" where
  "reply_info gbk url x =
     (let r = response_of (pr_status x) (pr_raw x) in
      \<lparr> fi_name = name_of gbk url (pr_url x) (pr_raw x), fi_total = content_length_of r,
        fi_supports_range = False, fi_content_type = text_of r ''content-type'',
        fi_etag = text_of r ''etag'', fi_last_modified = text_of r ''last-modified'' \<rparr>)"

definition resolve_file_info_plain_get_fallback ::
  "(nat list \<Rightarrow> ustr option) \<Rightarrow> ustr \<Rightarrow> probe_round \<Rightarrow> run_error + file_info" where
  "resolve_file_info_plain_get_fallback gbk url rd =
     (case probe_data (pb_plain rd) of
        Some x \<Rightarrow> Inr (reply_info gbk url x)
      | None \<Rightarrow>
          Inl (Fail (ProbesFailed (status_desc (pb_head rd)) (status_desc (pb_get rd)) (status_desc (pb_plain rd)))))"

definition resolve_file_info_non_get ::
  "(nat list \<Rightarrow> ustr option) \<Rightarrow> ustr \<Rightarrow> probe_round \<Rightarrow> run_error + file_info" where
  "resolve_file_info_non_get gbk url rd =
     (case pb_plain rd of
        None \<Rightarrow> Inl (Err (Request None))
      | Some x \<Rightarrow> if is_success (pr_status x) then Inr (reply_info gbk url x) else Inl (Fail (NonGetStatus (pr_status x))))"

section \<open>Two requests at once\<close>

text \<open>The headers of the first reply, filled in from the second.\<close>

definition merge_headers :: "probe_reply \<Rightarrow> probe_reply \<Rightarrow> string \<Rightarrow> nat list option" where
  "merge_headers hr gr h =
     (if h = ''content-disposition'' then (if pr_raw hr h = None then pr_raw gr h else pr_raw hr h)
      else if h = ''content-type'' then (if pr_raw gr h = None then pr_raw hr h else pr_raw gr h)
      else if h = ''content-range'' \<and> pr_status gr = 206 \<and> pr_raw gr h \<noteq> None then pr_raw gr h
      else pr_raw hr h)"

definition merged_total :: "bool \<Rightarrow> (string \<Rightarrow> nat list option) \<Rightarrow> int" where
  "merged_total got_206 raw =
     (case raw ''content-range'' of
        Some cr \<Rightarrow>
          (case Option.bind (to_str cr) (\<lambda>v. parse_signed i64_parse_max (last (split_on (CHR ''/'') v))) of
             Some n \<Rightarrow> n | None \<Rightarrow> 0)
      | None \<Rightarrow> if got_206 then 0 else content_length_of (response_of 200 raw))"

definition merged_range :: "probe_reply option \<Rightarrow> response \<Rightarrow> bool" where
  "merged_range get r =
     (let got_206 = (case get of Some x \<Rightarrow> pr_status x = 206 | None \<Rightarrow> False);
          range_response_compressed =
            (case get of Some x \<Rightarrow> pr_status x = 206
                \<and> detect_content_encoding (response_of 206 (pr_raw x)) \<noteq> None | None \<Rightarrow> False);
          supports = got_206 \<or> (case header r ''accept-ranges'' of Some v \<Rightarrow> v \<noteq> ''none'' | None \<Rightarrow> False);
          disable = (if got_206 then range_response_compressed else detect_content_encoding r \<noteq> None)
      in supports \<and> \<not> disable)"

definition merged_info ::
  "(nat list \<Rightarrow> ustr option) \<Rightarrow> ustr \<Rightarrow> probe_reply option \<Rightarrow> (string \<Rightarrow> nat list option) \<Rightarrow> ustr \<Rightarrow> file_info" where
  "merged_info gbk url get raw final_url =
     (let r = response_of 200 raw;
          got_206 = (case get of Some x \<Rightarrow> pr_status x = 206 | None \<Rightarrow> False) in
      \<lparr> fi_name = name_of gbk url final_url raw, fi_total = merged_total got_206 raw,
        fi_supports_range = merged_range get r, fi_content_type = text_of r ''content-type'',
        fi_etag = text_of r ''etag'', fi_last_modified = text_of r ''last-modified'' \<rparr>)"

definition resolve_file_info_once ::
  "(nat list \<Rightarrow> ustr option) \<Rightarrow> bool \<Rightarrow> ustr \<Rightarrow> probe_round \<Rightarrow> run_error + file_info" where
  "resolve_file_info_once gbk get_like url rd =
     (if \<not> get_like then resolve_file_info_non_get gbk url rd
      else let get = probe_data (pb_get rd) in
        case (probe_data (pb_head rd), get) of
          (None, None) \<Rightarrow> resolve_file_info_plain_get_fallback gbk url rd
        | (None, Some g) \<Rightarrow> Inr (merged_info gbk url get (pr_raw g) (pr_url g))
        | (Some h, None) \<Rightarrow> Inr (merged_info gbk url get (pr_raw h) (pr_url h))
        | (Some h, Some g) \<Rightarrow> Inr (merged_info gbk url get (merge_headers h g) (pr_url g)))"

section \<open>Attempts\<close>

definition probe_max_retries :: nat where "probe_max_retries = 3"
definition probe_retry_base_delay :: nat where "probe_retry_base_delay = 1000"

text \<open>
  \<open>ans k d\<close> is the round of attempt \<open>k\<close>, asked without the browser's user agent if \<open>d\<close>.  The first
  component of the result lists the attempts made and the waits in milliseconds after them.
\<close>

definition use_downgraded_ua :: "bool \<Rightarrow> nat \<Rightarrow> bool" where
  "use_downgraded_ua has_browser_ua attempt \<longleftrightarrow> has_browser_ua \<and> attempt + 1 = probe_max_retries \<and> attempt \<noteq> 0"

fun probe_attempts ::
  "(nat \<Rightarrow> run_error + file_info) \<Rightarrow> nat list \<Rightarrow> run_error \<Rightarrow> (nat \<times> nat) list \<times> (run_error + file_info)" where
  "probe_attempts once [] last_err = ([], Inl last_err)"
| "probe_attempts once (k # ks) last_err =
     (case once k of
        Inr info \<Rightarrow> ([(k, 0)], Inr info)
      | Inl e \<Rightarrow>
          (let w = (if k + 1 < probe_max_retries then probe_retry_base_delay * 2 ^ k else 0);
               (tr, r) = probe_attempts once ks e in ((k, w) # tr, r)))"

definition resolve_file_info ::
  "(nat list \<Rightarrow> ustr option) \<Rightarrow> bool \<Rightarrow> bool \<Rightarrow> ustr \<Rightarrow> (nat \<Rightarrow> bool \<Rightarrow> probe_round)
   \<Rightarrow> (nat \<times> nat) list \<times> (run_error + file_info)" where
  "resolve_file_info gbk get_like has_browser_ua url ans =
     probe_attempts (\<lambda>k. resolve_file_info_once gbk get_like url (ans k (use_downgraded_ua has_browser_ua k)))
       [0..<probe_max_retries] (Fail (ProbesFailed None None None))"

text \<open>A run whose probe is this one.\<close>

definition probed_inputs ::
  "run_params \<Rightarrow> bool \<Rightarrow> (nat \<Rightarrow> bool \<Rightarrow> probe_round) \<Rightarrow> run_inputs \<Rightarrow> run_inputs" where
  "probed_inputs p has_ua ans i =
     i\<lparr>in_probe := snd (resolve_file_info (in_gbk i) (rp_get_like p) has_ua (rp_url p) ans)\<rparr>"

section \<open>What an honest server's replies are worth\<close>

text \<open>
  A reply of a server whose resource has \<open>n\<close> bytes: only a request for a range is answered with 206,
  its total is \<open>n\<close> or not given; the length of a full response that is not encoded is \<open>n\<close>.
\<close>

definition honest_reply :: "int \<Rightarrow> bool \<Rightarrow> probe_reply option \<Rightarrow> bool" where
  "honest_reply n ranged r \<longleftrightarrow>
     (case probe_data r of None \<Rightarrow> True | Some x \<Rightarrow>
        if pr_status x = 206 then ranged \<and> merged_total True (pr_raw x) \<in> {0, n}
        else pr_raw x ''content-range'' = None
          \<and> (detect_content_encoding (response_of 200 (pr_raw x)) = None
               \<longrightarrow> content_length_of (response_of 200 (pr_raw x)) \<in> {0, n}))"

definition honest_round :: "int \<Rightarrow> probe_round \<Rightarrow> bool" where
  "honest_round n rd \<longleftrightarrow> honest_reply n False (pb_head rd) \<and> honest_reply n True (pb_get rd)
     \<and> honest_reply n False (pb_plain rd)"

text \<open>Evidence for ranges: an unencoded 206, or an announcement with an unencoded response.\<close>

definition range_evidence :: "probe_round \<Rightarrow> bool" where
  "range_evidence rd \<longleftrightarrow>
     (case probe_data (pb_get rd) of
        Some g \<Rightarrow> pr_status g = 206 \<and> detect_content_encoding (response_of 206 (pr_raw g)) = None
      | None \<Rightarrow> False)
     \<or> (\<exists>x \<in> set_option (probe_data (pb_head rd)) \<union> set_option (probe_data (pb_get rd)).
          \<exists>v. header (response_of 200 (pr_raw x)) ''accept-ranges'' = Some v \<and> v \<noteq> ''none''
            \<and> detect_content_encoding (response_of 200 (pr_raw x)) = None)"

lemma merged_reads [simp]:
  "detect_content_encoding (response_of s (merge_headers h g)) = detect_content_encoding (response_of s (pr_raw h))"
  "content_length_of (response_of s (merge_headers h g)) = content_length_of (response_of s (pr_raw h))"
  "header (response_of s (merge_headers h g)) ''accept-ranges'' = header (response_of s (pr_raw h)) ''accept-ranges''"
  by (simp_all add: detect_content_encoding_def content_length_of_def response_of_def merge_headers_def)

lemma once_size:
  assumes "resolve_file_info_once gbk gl url rd = Inr info" "honest_round n rd" "fi_supports_range info"
  shows "fi_total info \<in> {0, n} \<and> gl \<and> range_evidence rd"
proof -
  let ?g = "probe_data (pb_get rd)" and ?h = "probe_data (pb_head rd)"
  have plain: "\<not> fi_supports_range (reply_info gbk url x)" for x by (simp add: reply_info_def Let_def)
  have gl: gl
    using assms(1,3) plain
    by (auto simp: resolve_file_info_once_def resolve_file_info_non_get_def split: if_splits option.splits)
  have H: "honest_reply n False (pb_head rd)" "honest_reply n True (pb_get rd)" using assms(2) by (simp_all add: honest_round_def)
  consider (get) g where "?h = None" "?g = Some g" "info = merged_info gbk url ?g (pr_raw g) (pr_url g)"
    | (head) h where "?h = Some h" "?g = None" "info = merged_info gbk url ?g (pr_raw h) (pr_url h)"
    | (both) h g where "?h = Some h" "?g = Some g" "info = merged_info gbk url ?g (merge_headers h g) (pr_url g)"
    using assms(1,3) gl plain
    by (auto simp: resolve_file_info_once_def resolve_file_info_plain_get_fallback_def Let_def split: option.splits)
  then have "fi_total info \<in> {0, n} \<and> range_evidence rd"
  proof cases
    case get
    then show ?thesis using H assms(3)
      by (auto simp: merged_info_def merged_range_def merged_total_def honest_reply_def range_evidence_def Let_def
          response_of_def[of 206] split: if_splits option.splits)
  next
    case head
    then show ?thesis using H assms(3)
      by (auto simp: merged_info_def merged_range_def merged_total_def honest_reply_def range_evidence_def Let_def
          split: if_splits option.splits)
  next
    case both
    then show ?thesis using H assms(3)
      by (auto simp: merged_info_def merged_range_def merged_total_def honest_reply_def range_evidence_def Let_def
          merge_headers_def[of h g "''content-range''"] split: if_splits option.splits)
  qed
  then show ?thesis using gl by blast
qed

lemma attempts_result:
  "snd (probe_attempts once ks e0) = Inr info \<Longrightarrow> \<exists>k \<in> set ks. once k = Inr info"
proof (induction ks arbitrary: e0)
  case (Cons k ks)
  show ?case
  proof (cases "once k")
    case (Inl e)
    then have "snd (probe_attempts once ks e) = Inr info" using Cons.prems by (simp add: Let_def split: prod.splits)
    then show ?thesis using Cons.IH by auto
  next
    case (Inr x)
    then show ?thesis using Cons.prems by simp
  qed
qed simp

end
