(* ===== verification/Run_Finish.thy ===== *)
theory Run_Finish
  imports Download_Run
begin

text \<open>
  What the last part of a run does to the directory: the loop that takes the final name
  (\<open>finalize\<close>), while other programs go on creating and changing files.
\<close>

text \<open>Others may do what they like in the directory, except to the run's own temporary file.\<close>

definition polite :: "ustr \<Rightarrow> rival \<Rightarrow> bool" where
  "polite name rv \<longleftrightarrow> (\<forall>d. bt_wf d \<longrightarrow> bt_wf (rv_others rv d)
     \<and> bt_get (rv_others rv d) (temp_name name) = bt_get d (temp_name name))"

lemma claim_frame:
  assumes "bt_wf d" "claim_rename src dst ok d = (d', c)"
  shows "bt_wf d'" "m \<noteq> src \<Longrightarrow> bt_get d m = Some y \<Longrightarrow> bt_get d' m = Some y"
    "c \<noteq> Claimed \<Longrightarrow> bt_get d' m = bt_get d m"
  using assms
  by (auto simp: claim_rename_def Let_def bt_get_insert bt_get_remove bt_wf_insert bt_wf_remove
      split: if_splits option.splits bool.splits)

lemma claim_taken: "claim_rename src dst ok d = (d', Taken) \<Longrightarrow> d' = d"
  by (auto simp: claim_rename_def Let_def split: if_splits option.splits bool.splits)

lemma claim_delivers:
  assumes "bt_wf d" "claim_rename src dst ok d = (d', Claimed)" "bt_get d src = Some x"
  shows "bt_get d' dst = Some x" "bt_get d' src = None"
  using assms
  by (auto simp: claim_rename_def Let_def bt_get_insert bt_get_remove bt_wf_insert bt_wf_remove
      split: if_splits option.splits bool.splits)

text \<open>One turn of the loop, by what the claim says.\<close>

lemma finalize_turn:
  assumes "finalize ow fold' sib name (rv # rvs) s dir = (tr, d, r)"
  obtains (claimed) d1 where "claim_rename (temp_name name) (fz_chosen s) (rv_rename_ok rv) (rv_others rv dir) = (d1, Claimed)"
      "tr = [(rv_others rv dir, d1)]" "d = d1" "r = Some (Inr (fz_chosen s))"
  | (failed) d1 c e where "claim_rename (temp_name name) (fz_chosen s) (rv_rename_ok rv) (rv_others rv dir) = (d1, c)"
      "c \<noteq> Claimed" "tr = [(rv_others rv dir, d1)]" "d = d1" "r = Some (Inl e)"
  | (again) d2 s2 tr2 where
      "fz_attempt s < 5" "fz_attempt s2 = fz_attempt s + 1"
      "tr = (rv_others rv dir, rv_others rv dir) # (rv_others rv dir, d2) # tr2"
      "d2 = rv_others rv dir \<or> (d2 = bt_remove name (rv_others rv dir) \<and> ow \<and> fold' name \<notin> sib
          \<and> bt_get (rv_others rv dir) name \<noteq> Some Dir)"
      "finalize ow fold' sib name rvs s2 d2 = (tr2, d, r)"
proof -
  let ?d0 = "rv_others rv dir"
  obtain d1 c where c: "claim_rename (temp_name name) (fz_chosen s) (rv_rename_ok rv) ?d0 = (d1, c)"
    by (cases "claim_rename (temp_name name) (fz_chosen s) (rv_rename_ok rv) ?d0")
  show ?thesis
  proof (cases c)
    case Claimed
    then show ?thesis using assms c by (intro claimed[of d1]) auto
  next
    case ClaimFailed
    then show ?thesis using assms c by (intro failed[of d1 c]) auto
  next
    case Taken
    then have d1: "d1 = ?d0" using c claim_taken by blast
    show ?thesis
    proof (cases "5 < fz_attempt s + 1")
      case True
      then show ?thesis using assms c Taken by (intro failed[of d1 c]) auto
    next
      case False
      let ?may = "may_overwrite ow fold' name sib s"
      let ?rm = "?may \<and> bt_get d1 name \<noteq> Some Dir \<and> rv_remove_ok rv"
      let ?s2 = "s\<lparr>fz_attempt := fz_attempt s + 1, fz_overwritten := fz_overwritten s \<or> ?may,
          fz_chosen := if ?rm then name else rededup fold' sib (rv_uniq rv) d1 name\<rparr>"
      let ?d2 = "if ?rm then bt_remove name d1 else d1"
      obtain tr2 d3 r3 where f: "finalize ow fold' sib name rvs ?s2 ?d2 = (tr2, d3, r3)"
        by (metis prod_cases3)
      then have "tr = (?d0, d1) # (d1, ?d2) # tr2 \<and> d = d3 \<and> r = r3"
        using assms c Taken False by (simp add: Let_def)
      then show ?thesis
        using False f d1 by (intro again[of ?s2 ?d2 tr2]) (auto simp: may_overwrite_def)
    qed
  qed
qed

lemma finalize_ends: "6 \<le> length rvs + fz_attempt s \<Longrightarrow> fz_attempt s \<le> 5 \<Longrightarrow>
    finalize ow fold' sib name rvs s dir = (tr, d, r) \<Longrightarrow> r \<noteq> None"
proof (induction rvs arbitrary: s dir tr)
  case (Cons rv rvs)
  from Cons.prems(3) show ?case
  proof (cases rule: finalize_turn)
    case (again d2 s2 tr2)
    then show ?thesis using Cons.IH[OF _ _ again(5)] Cons.prems(1) by simp
  qed simp_all
qed simp

lemma finalize_frame:
  assumes "finalize ow fold' sib name rvs s dir = (tr, d, r)" "bt_wf dir" "\<forall>rv \<in> set rvs. polite name rv"
  shows "\<forall>(a, b) \<in> set tr. \<forall>m y. m \<noteq> temp_name name \<longrightarrow> bt_get a m = Some y \<longrightarrow>
      bt_get b m = Some y \<or> (ow \<and> m = name \<and> fold' name \<notin> sib \<and> y \<noteq> Dir)"
  using assms
proof (induction rvs arbitrary: s dir tr)
  case (Cons rv rvs)
  have w: "bt_wf (rv_others rv dir)" using Cons.prems by (simp add: polite_def)
  from Cons.prems(1) show ?case
  proof (cases rule: finalize_turn)
    case (claimed d1)
    then show ?thesis using claim_frame(2)[OF w claimed(1)] by auto
  next
    case (failed d1 c e)
    then show ?thesis using claim_frame(2)[OF w failed(1)] by auto
  next
    case (again d2 s2 tr2)
    have "bt_wf d2" using again(4) w by (auto simp: bt_wf_remove)
    then have "\<forall>(a, b) \<in> set tr2. \<forall>m y. m \<noteq> temp_name name \<longrightarrow> bt_get a m = Some y \<longrightarrow>
        bt_get b m = Some y \<or> (ow \<and> m = name \<and> fold' name \<notin> sib \<and> y \<noteq> Dir)"
      using Cons.IH[OF again(5)] Cons.prems(3) by simp
    moreover have "bt_get d2 m = Some y \<or> (ow \<and> m = name \<and> fold' name \<notin> sib \<and> y \<noteq> Dir)"
      if "bt_get (rv_others rv dir) m = Some y" for m y
      using again(4) that by (cases "m = name") (auto simp: bt_get_remove)
    ultimately show ?thesis using again(3) by auto
  qed
qed simp

lemma temp_name_ne: "temp_name name \<noteq> name"
  by (simp add: temp_name_def temp_ext_def u_def)

lemma finalize_delivers:
  assumes "finalize ow fold' sib name rvs s dir = (tr, d, r)" "bt_wf dir" "\<forall>rv \<in> set rvs. polite name rv"
    and "bt_get dir (temp_name name) = Some x"
  shows "r = Some (Inr m) \<Longrightarrow> bt_get d m = Some x \<and> bt_get d (temp_name name) = None"
    "r = Some (Inl e) \<Longrightarrow> bt_get d (temp_name name) = Some x"
proof -
  have "(r = Some (Inr m) \<longrightarrow> bt_get d m = Some x \<and> bt_get d (temp_name name) = None)
      \<and> (r = Some (Inl e) \<longrightarrow> bt_get d (temp_name name) = Some x)"
    using assms
  proof (induction rvs arbitrary: s dir tr)
    case (Cons rv rvs)
    have w: "bt_wf (rv_others rv dir)" "bt_get (rv_others rv dir) (temp_name name) = Some x"
      using Cons.prems by (simp_all add: polite_def)
    from Cons.prems(1) show ?case
    proof (cases rule: finalize_turn)
      case (claimed d1)
      then show ?thesis using claim_delivers[OF w(1) claimed(1) w(2)] by auto
    next
      case (failed d1 c e)
      then show ?thesis using claim_frame(3)[OF w(1) failed(1)] w(2) by auto
    next
      case (again d2 s2 tr2)
      have "bt_wf d2" "bt_get d2 (temp_name name) = Some x"
        using again(4) w temp_name_ne by (auto simp: bt_wf_remove bt_get_remove)
      then show ?thesis using Cons.IH[OF again(5)] Cons.prems(3) by simp
    qed
  qed simp
  then show "r = Some (Inr m) \<Longrightarrow> bt_get d m = Some x \<and> bt_get d (temp_name name) = None"
    "r = Some (Inl e) \<Longrightarrow> bt_get d (temp_name name) = Some x" by blast+
qed

end
