(* ===== verification/Name_Clean.thy ===== *)
theory Name_Clean
  imports File_Names
begin

text \<open>
  What cleaning a file name guarantees (\<^verbatim>\<open>sanitize_filename\<close>), and where it does not keep what its
  documentation promises.
\<close>

lemma trim_matches_ends:
  assumes "trim_matches P s \<noteq> []"
  shows "\<not> P (hd (trim_matches P s))" "\<not> P (last (trim_matches P s))"
proof -
  let ?a = "dropWhile P s"
  have ne: "dropWhile P (rev ?a) \<noteq> []" using assms by (simp add: trim_matches_def)
  show "\<not> P (last (trim_matches P s))"
    using hd_dropWhile[OF ne] ne by (simp add: trim_matches_def last_rev)
  have "?a \<noteq> []" using ne by (metis dropWhile.simps(1) rev.simps(1))
  then have h: "\<not> P (hd ?a)" by (rule hd_dropWhile)
  have "suffix (dropWhile P (rev ?a)) (rev ?a)" by (simp add: suffix_dropWhile)
  then have "prefix (trim_matches P s) ?a" by (simp add: trim_matches_def suffix_to_prefix)
  then have "hd (trim_matches P s) = hd ?a" using assms by (auto simp: prefix_def)
  then show "\<not> P (hd (trim_matches P s))" using h by simp
qed

lemma trim_matches_sub: "set (trim_matches P s) \<subseteq> set s"
proof -
  have "set (dropWhile P t) \<subseteq> set t" for t by (auto dest: set_dropWhileD)
  from this[of "rev (dropWhile P s)"] this[of s] show ?thesis by (simp add: trim_matches_def)
qed

lemma trim_matches_id: "s \<noteq> [] \<Longrightarrow> \<not> P (hd s) \<Longrightarrow> \<not> P (last s) \<Longrightarrow> trim_matches P s = s"
  by (simp add: trim_matches_def hd_rev dropWhile_id)

lemma trim_matches_Cons: "P x \<Longrightarrow> trim_matches P (x # s) = trim_matches P s"
  by (simp add: trim_matches_def)

lemma trim_matches_len: "utf8_len (trim_matches P s) \<le> utf8_len s"
proof -
  have d: "utf8_len (dropWhile P t) \<le> utf8_len t" for t
    by (induction t) (auto simp: utf8_len_def)
  have r: "utf8_len (rev t) = utf8_len t" for t
    by (simp add: utf8_len_def sum_list_rev flip: rev_map)
  show ?thesis using d[of "rev (dropWhile P s)"] d[of s] by (simp add: trim_matches_def r)
qed

lemma slice_to_sub: "set (slice_to n s) \<subseteq> set s" and slice_to_len: "utf8_len (slice_to n s) \<le> n"
  by (induction n s rule: slice_to.induct) (auto simp: utf8_len_def)

lemma at_last_dot_parts: "at_last_dot s = (stem, ext) \<Longrightarrow> stem @ ext = s"
  by (auto simp: at_last_dot_def Let_def split: if_splits)

definition clean :: "ustr \<Rightarrow> bool" where
  "clean s \<longleftrightarrow> s \<noteq> [] \<and> list_all (\<lambda>c. \<not> forbidden c) s
     \<and> \<not> dot_or_space (hd s) \<and> \<not> dot_or_space (last s)"

lemma clean_download: "clean (u ''download'')"
  by code_simp

lemma plain_underscore: "\<not> forbidden 95" "\<not> dot_or_space 95"
  by code_simp+

lemma truncate_clean:
  assumes "list_all (\<lambda>c. \<not> forbidden c) s"
  shows "clean (truncate_name s)"
    "utf8_len (snd (at_last_dot s)) \<le> max_filename_bytes \<Longrightarrow> utf8_len (truncate_name s) \<le> max_filename_bytes"
proof -
  obtain stem ext where se: "at_last_dot s = (stem, ext)" by (cases "at_last_dot s")
  let ?budget = "max_filename_bytes - utf8_len ext"
  let ?starts = "takeWhile (\<lambda>i. i \<le> ?budget) (char_starts 0 stem)"
  define cut where "cut = (if ?starts = [] then 0 else last ?starts)"
  let ?t = "trim_matches dot_or_space (slice_to cut stem @ ext)"
  have t: "truncate_name s = (if ?t = [] then u ''download'' else ?t)"
    by (simp add: truncate_name_def se Let_def cut_def)
  have "set ?t \<subseteq> set (slice_to cut stem @ ext)" by (rule trim_matches_sub)
  also have "\<dots> \<subseteq> set (stem @ ext)" using slice_to_sub[of cut stem] by auto
  finally have "set ?t \<subseteq> set s" by (simp only: at_last_dot_parts[OF se])
  then show "clean (truncate_name s)"
    using assms clean_download trim_matches_ends[of dot_or_space "slice_to cut stem @ ext"]
    by (auto simp: t clean_def list_all_iff)
  assume e: "utf8_len (snd (at_last_dot s)) \<le> max_filename_bytes"
  have "cut \<le> ?budget" using set_takeWhileD[OF last_in_set[of ?starts]] by (auto simp: cut_def)
  moreover have "utf8_len (slice_to cut stem @ ext) \<le> cut + utf8_len ext"
    using slice_to_len[of cut stem] by (simp add: utf8_len_def)
  ultimately have "utf8_len ?t \<le> max_filename_bytes"
    using e se trim_matches_len[of dot_or_space "slice_to cut stem @ ext"] by simp
  moreover have "utf8_len (u ''download'') \<le> max_filename_bytes" by code_simp
  ultimately show "utf8_len (truncate_name s) \<le> max_filename_bytes" by (simp add: t)
qed

lemma at_last_dot_ext: "snd (at_last_dot (95 # s)) = snd (at_last_dot s)"
proof (cases "46 \<in> set s")
  case True
  let ?t = "takeWhile (\<lambda>c. c \<noteq> 46) (rev s)"
  have *: "takeWhile (\<lambda>c. c \<noteq> 46) (rev s @ [95]) = ?t" using True by (simp add: takeWhile_append1)
  have "length ?t \<noteq> length s"
  proof
    assume "length ?t = length s"
    then have "?t = rev s" by (metis length_rev takeWhile_eq_take take_all_iff le_refl)
    then show False using True set_takeWhileD[of 46 "\<lambda>c. c \<noteq> 46" "rev s"] by auto
  qed
  then have "length ?t < length s" using length_takeWhile_le[of "\<lambda>c. c \<noteq> 46" "rev s"] by simp
  then show ?thesis using True * by (simp add: at_last_dot_def Let_def Suc_diff_Suc drop_Cons')
next
  case False
  then show ?thesis by (simp add: at_last_dot_def)
qed



text \<open>
  Two guarantees of the documentation fail.  A name whose last dot is followed by more than 200
  bytes keeps them all, and truncation can make a reserved device name.
\<close>

lemma sanitize_too_long:
  assumes "200 < n"
  shows "utf8_len (sanitize_filename (u ''v1.'' @ replicate n 97)) = n"
proof -
  let ?a = "replicate n (97 :: nat)"
  let ?s = "u ''v1.'' @ ?a"
  have ch: "\<not> forbidden 97" "\<not> dot_or_space 97" "\<not> dot_or_space 118" "dot_or_space 46" "char_len 97 = 1"
      "u ''v1.'' = [118, 49, 46]" "map (\<lambda>c. if forbidden c then 95 else c) [118, 49, 46] = [118, 49, 46]"
      "\<not> list_ex (\<lambda>r. map ulower [118, 49] = map ulower (u r)) windows_reserved_names"
      "slice_to 0 [118, 49] = []" "max_filename_bytes = 200" "char_len 46 = 1" "char_len 118 = 1" "char_len 49 = 1"
    by code_simp+
  have a: "?a \<noteq> []" "hd ?a = 97" "last ?a = 97" using assms by auto
  have len: "utf8_len ?a = n" by (simp add: utf8_len_def ch sum_list_replicate)
  have trims: "trim_matches dot_or_space ?a = ?a" "trim_matches dot_or_space ?s = ?s"
    by (rule trim_matches_id; use a ch in simp)+
  have res: "\<not> is_reserved ?s" using ch by (simp add: is_reserved_def)
  have dot: "at_last_dot ?s = ([118, 49], 46 # ?a)"
    by (simp add: at_last_dot_def ch takeWhile_append takeWhile_replicate)
  have "takeWhile (\<lambda>i. i \<le> 0) (char_starts 0 [118, 49]) = [0]" by code_simp
  moreover have "max_filename_bytes - utf8_len (46 # ?a) = 0"
    using len assms by (simp add: utf8_len_def ch)
  ultimately have "truncate_name ?s = trim_matches dot_or_space (46 # ?a)"
    using a trims(1) by (simp add: truncate_name_def dot ch(9) Let_def del: char_starts.simps slice_to.simps add: trim_matches_Cons[of dot_or_space 46] ch(4))
  moreover have "utf8_len ?s = n + 3" using len by (simp add: utf8_len_def ch)
  moreover have "map (\<lambda>c. if forbidden c then 95 else c) ?s = ?s" using ch by (simp add: map_replicate_const)
  ultimately have "sanitize_filename ?s = ?a"
    using trims res assms by (simp add: sanitize_filename_def ch(10) trim_matches_Cons[of dot_or_space 46] ch(4) a del: map_append)
  then show ?thesis using len by simp
qed

lemma sanitize_makes_reserved:
  "sanitize_filename (u ''CONSOLE.'' @ replicate 196 97) = u ''CON.'' @ replicate 196 97"
  "is_reserved (u ''CON.'' @ replicate 196 97)"
  by code_simp+

end
