(* ===== verification/Single_Props.thy ===== *)
theory Single_Props
  imports Download_Run
begin

text \<open>
  The single stream on its own: when its loop over ranges ends, and two kinds of answers that it
  takes for a complete file.
\<close>

definition known_length :: "exchange \<Rightarrow> bool" where
  "known_length ex \<longleftrightarrow> (case ex_content_length ex of None \<Rightarrow> False | Some cl \<Rightarrow> 0 \<le> cl)"

lemma once_result:
  assumes "download_single_once se ex st = (st', Inr x)"
  obtains r where "choose_response se (want_resume se (file_len (fst st))) ex = Inr r"
    "decompressed x = (detect_content_encoding r \<noteq> None)"
    "resumed_range_start x = (if is_actual_resume (want_resume se (file_len (fst st))) (resume_point se (file_len (fst st))) r
        then Some (resume_point se (file_len (fst st))) else None)"
    "known_length ex \<Longrightarrow> response_content_length x \<noteq> - 1"
proof -
  obtain f saved f' saved' where st: "st = (f, saved)" "st' = (f', saved')" by (cases st; cases st')
  obtain r where r: "choose_response se (want_resume se (file_len f)) ex = Inr r"
      "transfer (want_resume se (file_len f)) (resume_point se (file_len f)) ex r (f, saved) = ((f', saved'), Inr x)"
    using assms by (auto simp: st download_single_once_def Let_def split: sum.splits)
  have e: "0 \<le> resume_point se (file_len f)" using resume_point_bounds(1)[of "file_len f" se] by simp
  show ?thesis
    by (rule transfer_file[OF r(2)])
      (use r(1) e that[of r] in \<open>auto simp: st known_length_def split: option.splits\<close>)
qed

section \<open>What is taken for a complete file\<close>

text \<open>A request for a range that is answered with that range, or with another one.\<close>

definition range_answer :: "single_env \<Rightarrow> bytes \<Rightarrow> exchange \<Rightarrow> response \<Rightarrow> bool" where
  "range_answer se b ex r \<longleftrightarrow>
     want_resume se (int (length b)) \<and> ex_first ex = Some r \<and> status r = 206
     \<and> \<not> differs (se_etag se) (text_of r ''etag'') \<and> \<not> differs (se_last_modified se) (text_of r ''last-modified'')
     \<and> detect_content_encoding r = None \<and> vet_response se r = Inr () \<and> ex_open_ok ex \<and> ex_end ex = BodyEnd"

lemma range_answer_once:
  assumes "range_answer se b ex r" "data = concat (map fst (ex_chunks ex))"
    and "e = resume_point se (int (length b))" "parse_content_range_start r = Some s"
  shows "\<exists>x. download_single_once se ex (Some b, saved)
        = ((Some ((if s = e then take (nat e) b else []) @ data), (if s = e then e else 0) + int (length data)), Inr x)
    \<and> \<not> decompressed x \<and> resumed_range_start x = (if s = e then Some e else None)
    \<and> response_content_length x = (case ex_content_length ex of
          None \<Rightarrow> - 1 | Some cl \<Rightarrow> if s = e then e + cl else cl)"
proof -
  let ?want = "want_resume se (int (length b))"
  have act: "is_actual_resume ?want e r \<longleftrightarrow> s = e"
    using assms(1,4) by (auto simp: range_answer_def is_actual_resume_def is_range_response_misaligned_def)
  have ch: "choose_response se ?want ex = Inr r"
    using assms(1) by (simp add: range_answer_def choose_response_def error_for_status_def)
  obtain out n s1 where w: "write_chunks (ex_chunks ex)
      (if s = e then take (nat e) b else [], if s = e then e else 0, if s = e then saved else 0) = (out, n, s1)"
    by (metis prod_cases3)
  have "out = (if s = e then take (nat e) b else []) @ data \<and> n = (if s = e then e else 0) + int (length data)"
    using write_chunks_out[OF w] assms(2) by simp
  then have w': "write_chunks (ex_chunks ex)
      (if s = e then take (nat e) b else [], if s = e then e else 0, if s = e then saved else 0)
      = ((if s = e then take (nat e) b else []) @ data, (if s = e then e else 0) + int (length data), s1)"
    using w by simp
  have o: "download_single_once se ex (Some b, saved) = transfer ?want e ex r (Some b, saved)"
    using assms(1,3) ch by (simp add: range_answer_def download_single_once_def file_len_def Let_def)
  have d: "detect_content_encoding r = None" "ex_open_ok ex" "ex_end ex = BodyEnd"
    using assms(1) by (simp_all add: range_answer_def)
  show ?thesis
  proof (cases "s = e")
    case True
    then show ?thesis using o d act w' by (simp add: transfer_def split: option.split)
  next
    case False
    then show ?thesis using o d act w' by (simp add: transfer_def split: option.split)
  qed
qed

definition demo_single :: "int \<Rightarrow> single_env" where
  "demo_single n = \<lparr> se_total = n, se_supports_range = True, se_get_like = True, se_filename = u ''a.bin'',
     se_etag = [], se_last_modified = [] \<rparr>"

definition demo_partial :: "nat \<Rightarrow> nat \<Rightarrow> nat \<Rightarrow> response" where
  "demo_partial a b n = \<lparr> status = 206, header = (\<lambda>h. if h = ''content-range''
     then Some (''bytes '' @ show_nat a @ ''-'' @ show_nat b @ ''/'' @ show_nat n) else None) \<rparr>"

definition demo_round :: "nat \<Rightarrow> nat \<Rightarrow> nat \<Rightarrow> bytes \<Rightarrow> exchange" where
  "demo_round a b n data = \<lparr> ex_first = Some (demo_partial a b n), ex_second = None,
     ex_content_length = Some (int (length data)), ex_open_ok = True, ex_chunks = [(data, False)], ex_end = BodyEnd \<rparr>"

definition demo_done :: "bytes \<Rightarrow> run_st" where
  "demo_done data = \<lparr> entries = [(temp_name (u ''a''), File data)],
     tdb = \<lparr> rows = [], task_total = 0, task_downloaded = 0, segments_epoch = 0, range_verified = False \<rparr>,
     validator = ([], []), row_name = [], row_status = 1 \<rparr>"

lemma demo_done_content: "content_of (bt_get (entries (demo_done data)) (temp_name (u ''a''))) = Some data"
  by (simp add: demo_done_def content_of_def)

text \<open>
  C33.  A wrong range is taken for the file: when a resumed request is answered with a 206 that
  starts somewhere else, the temporary file is replaced by that piece, and because the piece has
  the length its own header announces, the integrity check accepts it as the complete file,
  whatever the expected size is.
\<close>

theorem misaligned_resume_accepted:
  assumes "range_answer se b ex r" "parse_content_range_start r = Some s" "s \<noteq> resume_point se (int (length b))"
    and "data = concat (map fst (ex_chunks ex))" "data \<noteq> []" "ex_content_length ex = Some (int (length data))"
    and "content_of (bt_get (entries st) (temp_name name)) = Some data"
  shows "\<exists>saved' x. download_single se [ex] (Some b, saved) = ((Some data, saved'), Some (Inr x))
    \<and> snd (check_integrity i name (se_total se) (Some x) st)
        = Inr (if se_total se \<le> 0 then se_total se else int (length data))"
proof -
  obtain x where x: "download_single_once se ex (Some b, saved) = ((Some data, int (length data)), Inr x)"
      "\<not> decompressed x" "resumed_range_start x = None" "response_content_length x = int (length data)"
    using range_answer_once[OF assms(1,4) refl assms(2), of saved] assms(3,6) by auto
  then have "download_single se [ex] (Some b, saved) = ((Some data, int (length data)), Some (Inr x))" by simp
  moreover have "snd (check_integrity i name (se_total se) (Some x) st)
      = Inr (if se_total se \<le> 0 then se_total se else int (length data))"
    using x(2,4) assms(5,7) by (auto simp: check_integrity_def Let_def file_len_def)
  ultimately show ?thesis by blast
qed

lemma demo_answers:
  assumes "want_resume (demo_single t) (int (length p))"
  shows "range_answer (demo_single t) p (demo_round a b n data) (demo_partial a b n)"
    "a < 2 ^ 63 \<Longrightarrow> n < 2 ^ 63 \<Longrightarrow> parse_content_range_start (demo_partial a b n) = Some (int a)"
proof -
  have "trim [] = []" "mime_of [] = []" by code_simp+
  then show "range_answer (demo_single t) p (demo_round a b n data) (demo_partial a b n)"
    using assms
    by (simp add: range_answer_def demo_round_def demo_partial_def demo_single_def differs_def text_of_def
        detect_content_encoding_def unsupported_content_encoding_def vet_response_def is_html_mime_def)
  show "a < 2 ^ 63 \<Longrightarrow> n < 2 ^ 63 \<Longrightarrow> parse_content_range_start (demo_partial a b n) = Some (int a)"
    using content_range_parses(1)[of "demo_partial a b n" a b n] by (simp add: demo_partial_def)
qed

lemma misaligned_resume_accepted_witness:
  "\<forall>i. \<exists>saved' x. download_single (demo_single 10) [demo_round 4 7 10 [5, 6, 7, 8]] (Some [1, 2, 3], 0)
        = ((Some [5, 6, 7, 8], saved'), Some (Inr x))
    \<and> snd (check_integrity i (u ''a'') 10 (Some x) (demo_done [5, 6, 7, 8])) = Inr 4"
    (is "\<forall>i. ?P i")
proof
  fix i
  let ?b = "[1, 2, 3] :: bytes" and ?ex = "demo_round 4 7 10 [5, 6, 7, 8]" and ?se = "demo_single 10"
  have w: "want_resume ?se (int (length ?b))" "4 \<noteq> resume_point ?se (int (length ?b))" by code_simp+
  have p: "parse_content_range_start (demo_partial 4 7 10) = Some 4" using demo_answers(2)[OF w(1), of 4 10] by simp
  have d: "([5, 6, 7, 8] :: bytes) = concat (map fst (ex_chunks ?ex))" "([5, 6, 7, 8] :: bytes) \<noteq> []"
      "ex_content_length ?ex = Some (int (length ([5, 6, 7, 8] :: bytes)))" "se_total ?se = 10"
    by (simp_all add: demo_round_def demo_single_def)
  show "?P i"
    using misaligned_resume_accepted[OF demo_answers(1)[OF w(1)] p w(2) d(1-3) demo_done_content, of 0 i]
    unfolding d(4) by simp
qed

text \<open>
  C34.  A file larger than its recorded size is cut off on resume: the size of an interrupted
  download is recorded from an unverified hint; the resumed single stream asks for the range up to
  that size, the server answers truthfully, and the prefix is accepted as the complete file.  (The
  total in the \<^verbatim>\<open>Content-Range\<close> of the answer, which the segment workers check, is not read here.)
\<close>

theorem resumed_hint_truncates:
  assumes "range_answer se b ex r" "e = resume_point se (int (length b))" "parse_content_range_start r = Some e"
    and "0 < se_total se" "se_total se < int (length res)" "range_end se e = se_total se - 1" "prefix b res"
    and "concat (map fst (ex_chunks ex)) = take (nat (se_total se - e)) (drop (nat e) res)"
    and "content_of (bt_get (entries st) (temp_name name)) = Some (take (nat (se_total se)) res)"
  shows "\<exists>saved' x. download_single se [ex] (Some b, saved)
        = ((Some (take (nat (se_total se)) res), saved'), Some (Inr x))
    \<and> snd (check_integrity i name (se_total se) (Some x) st) = Inr (se_total se)
    \<and> take (nat (se_total se)) res \<noteq> res"
proof -
  let ?f = "take (nat (se_total se)) res"
  have e: "0 \<le> e" "e \<le> int (length b)" using resume_point_bounds(1)[of "int (length b)" se] assms(2) by auto
  have eT: "e < se_total se"
    using assms(1,4) e by (auto simp: range_answer_def want_resume_def)
  have len: "int (length ?f) = se_total se" using assms(4,5) by simp
  have "take (nat e) b @ take (nat (se_total se - e)) (drop (nat e) res) = ?f"
    using assms(7) e eT take_add[of "nat e" "nat (se_total se - e)" res]
    by (auto simp: prefix_def nat_diff_distrib)
  then obtain x saved' where x: "download_single_once se ex (Some b, saved) = ((Some ?f, saved'), Inr x)"
      "\<not> decompressed x" "resumed_range_start x = Some e"
    using range_answer_once[OF assms(1) refl assms(2,3), of saved] assms(8) by auto
  then have "download_single se [ex] (Some b, saved) = ((Some ?f, saved'), Some (Inr x))"
    using len assms(4) by (simp add: file_len_def)
  moreover have "snd (check_integrity i name (se_total se) (Some x) st) = Inr (se_total se)"
    using x(2) assms(4,9) len by (simp add: check_integrity_def Let_def file_len_def)
  moreover have "?f \<noteq> res"
  proof
    assume "?f = res"
    then show False using len assms(5) by simp
  qed
  ultimately show ?thesis by blast
qed

lemma resumed_hint_truncates_witness:
  "\<forall>i. \<exists>saved' x. download_single (demo_single 4) [demo_round 0 3 6 [1, 2, 3, 4]] (Some [1, 2], 0)
        = ((Some [1, 2, 3, 4], saved'), Some (Inr x))
    \<and> snd (check_integrity i (u ''a'') 4 (Some x) (demo_done [1, 2, 3, 4])) = Inr 4"
    (is "\<forall>i. ?P i")
proof
  fix i
  let ?b = "[1, 2] :: bytes" and ?res = "[1, 2, 3, 4, 5, 6] :: bytes" and ?se = "demo_single 4"
  have w: "want_resume ?se (int (length ?b))" "0 = resume_point ?se (int (length ?b))"
      "0 < se_total ?se" "se_total ?se < int (length ?res)" "range_end ?se 0 = se_total ?se - 1" "prefix ?b ?res"
      "concat (map fst (ex_chunks (demo_round 0 3 6 [1, 2, 3, 4]))) = take (nat (se_total ?se - 0)) (drop (nat 0) ?res)"
      "take (nat (se_total ?se)) ?res = [1, 2, 3, 4]"
    by code_simp+
  have p: "parse_content_range_start (demo_partial 0 3 6) = Some 0" using demo_answers(2)[OF w(1), of 0 6] by simp
  have c: "content_of (bt_get (entries (demo_done [1, 2, 3, 4])) (temp_name (u ''a'')))
      = Some (take (nat (se_total ?se)) ?res)" unfolding w(8) by (rule demo_done_content)
  from resumed_hint_truncates[OF demo_answers(1)[OF w(1)] w(2) p w(3-7) c, of 0 i]
  show "?P i" unfolding w(8) by (simp add: demo_single_def)
qed

section \<open>Does the loop over ranges end?\<close>

text \<open>
  Every resumed round gets past the next checkpoint, or to the end.
\<close>

fun productive :: "single_env \<Rightarrow> exchange list \<Rightarrow> bytes option \<times> int \<Rightarrow> bool" where
  "productive se [] st = True"
| "productive se (ex # exs) st =
     (case download_single_once se ex st of
        (st1, Inl e) \<Rightarrow> True
      | (st1, Inr x) \<Rightarrow>
          (case resumed_range_start x of
             None \<Rightarrow> True
           | Some e \<Rightarrow> e + resume_alignment \<le> file_len (fst st1) \<or> se_total se \<le> file_len (fst st1))
          \<and> productive se exs st1)"

lemma once_resumed:
  assumes "download_single_once se ex st = (st', Inr x)" "resumed_range_start x = Some e"
  shows "want_resume se (file_len (fst st))" "e = resume_point se (file_len (fst st))" "resume_alignment dvd e"
proof -
  let ?n = "file_len (fst st)"
  obtain r where r: "resumed_range_start x =
      (if is_actual_resume (want_resume se ?n) (resume_point se ?n) r then Some (resume_point se ?n) else None)"
    using once_result[OF assms(1)] by blast
  then show w: "want_resume se ?n" and e: "e = resume_point se ?n"
    using assms(2) by (auto simp: is_actual_resume_def split: if_splits)
  have "e = ?n - ?n mod resume_alignment" using w e by (simp add: resume_point_def)
  then show "resume_alignment dvd e" by simp
qed

lemma resume_point_next:
  assumes "want_resume se n" "resume_alignment dvd e" "e + resume_alignment \<le> n"
  shows "e + resume_alignment \<le> resume_point se n"
proof -
  obtain k where "e = resume_alignment * k" using assms(2) by (elim dvdE)
  then have k: "(k + 1) * resume_alignment \<le> n" using assms(3) by (simp add: algebra_simps)
  then have "k + 1 \<le> n div resume_alignment" by (subst zdiv_mono1[of _ n, THEN order_trans[rotated]]) (auto simp: resume_alignment_def)
  then have "(k + 1) * resume_alignment \<le> n div resume_alignment * resume_alignment"
    by (intro mult_right_mono) (simp_all add: resume_alignment_def)
  then show ?thesis
    using \<open>e = resume_alignment * k\<close> assms(1) by (simp add: resume_point_def minus_mod_eq_div_mult algebra_simps)
qed

text \<open>
  C32.  A resumed single stream returns: if every range it gets reaches the next checkpoint of one
  MiB, it makes at most one request more than there are checkpoints left.
\<close>

theorem single_returns:
  assumes "productive se exs st" "exs \<noteq> []"
    and "se_total se - resume_point se (file_len (fst st)) < int (length exs) * resume_alignment"
  shows "snd (download_single se exs st) \<noteq> None"
  using assms
proof (induction exs arbitrary: st)
  case (Cons ex exs)
  obtain st1 r1 where o: "download_single_once se ex st = (st1, r1)" by (cases "download_single_once se ex st")
  show ?case
  proof (cases "\<exists>x e. r1 = Inr x \<and> resumed_range_start x = Some e \<and> 0 < se_total se
      \<and> file_len (fst st1) < se_total se \<and> e < file_len (fst st1)")
    case False
    then show ?thesis using o by (auto split: sum.splits option.splits)
  next
    case True
    then obtain x e where x: "r1 = Inr x" "resumed_range_start x = Some e" "0 < se_total se"
        "file_len (fst st1) < se_total se" "e < file_len (fst st1)" by blast
    note R = once_resumed[OF o[unfolded x(1)] x(2)]
    have p: "e + resume_alignment \<le> file_len (fst st1)" "productive se exs st1"
      using Cons.prems(1) o x by auto
    have "want_resume se (file_len (fst st1))"
      using R(1) x(4) p(1) once_resumed(2)[OF o[unfolded x(1)] x(2)] resume_point_bounds(1)[of "file_len (fst st)" se]
      by (auto simp: want_resume_def resume_alignment_def)
    then have n: "e + resume_alignment \<le> resume_point se (file_len (fst st1))"
      by (rule resume_point_next[OF _ R(3) p(1)])
    have b: "se_total se - resume_point se (file_len (fst st1)) < int (length exs) * resume_alignment"
      using n Cons.prems(3) R(2) by (simp add: algebra_simps)
    then have "exs \<noteq> []"
      using x(4) resume_point_bounds(1)[of "file_len (fst st1)" se] by (cases exs) auto
    then have "snd (download_single se exs st1) \<noteq> None" by (rule Cons.IH[OF p(2) _ b])
    then show ?thesis using o x by simp
  qed
qed simp

lemma single_returns_witness:
  "snd (download_single (demo_single 4) [demo_round 0 3 4 [1, 2, 3, 4]] (Some [1, 2], 0)) \<noteq> None"
proof (rule single_returns)
  have w: "want_resume (demo_single 4) (int (length ([1, 2] :: bytes)))"
      "0 = resume_point (demo_single 4) (int (length ([1, 2] :: bytes)))" by code_simp+
  have p: "parse_content_range_start (demo_partial 0 3 4) = Some 0" using demo_answers(2)[OF w(1), of 0 4] by simp
  show "productive (demo_single 4) [demo_round 0 3 4 [1, 2, 3, 4]] (Some [1, 2], 0)"
    using range_answer_once[OF demo_answers(1)[OF w(1)] refl w(2) p, of "[1, 2, 3, 4]" 0]
    by (auto simp: demo_round_def demo_single_def file_len_def)
  show "se_total (demo_single 4) - resume_point (demo_single 4) (file_len (fst (Some [1, 2], 0)))
      < int (length [demo_round 0 3 4 [1, 2, 3, 4]]) * resume_alignment" by (simp add: demo_single_def resume_alignment_def resume_point_def file_len_def)
qed simp

text \<open>
  A server that answers each request truthfully, but with less than one MiB at a time, keeps the
  loop busy for ever: the next request starts from the same checkpoint again.
\<close>

lemma short_ranges_loop_forever:
  "snd (download_single (demo_single 4) (replicate n (demo_round 0 1 4 [1, 2])) (Some [1, 2], saved)) = None"
proof (induction n arbitrary: saved)
  case (Suc n)
  have w: "want_resume (demo_single 4) (int (length ([1, 2] :: bytes)))"
      "0 = resume_point (demo_single 4) (int (length ([1, 2] :: bytes)))" by code_simp+
  have p: "parse_content_range_start (demo_partial 0 1 4) = Some 0" using demo_answers(2)[OF w(1), of 0 4] by simp
  obtain x s' where "download_single_once (demo_single 4) (demo_round 0 1 4 [1, 2]) (Some [1, 2], saved)
      = ((Some [1, 2], s'), Inr x)" "resumed_range_start x = Some 0"
    using range_answer_once[OF demo_answers(1)[OF w(1)] refl w(2) p, of "[1, 2]" saved]
    by (auto simp: demo_round_def)
  then show ?case using Suc by (simp add: demo_single_def file_len_def)
qed simp

end
