(* ===== verification/Run_Props.thy ===== *)
theory Run_Props
  imports Run_Finish Name_Clean Single_Props
begin

text \<open>
  The properties of a run over HTTP from the first request to the final name, and the cases in
  which the single stream departs from what it is meant to do.
\<close>

section \<open>The single stream, end to end\<close>

text \<open>An uncompressed body of known length.\<close>

definition plain_response :: "response option \<Rightarrow> bool" where
  "plain_response r \<longleftrightarrow> (case r of None \<Rightarrow> True | Some r \<Rightarrow> detect_content_encoding r = None)"

text \<open>
  The size the run works with is right, or nothing is resumed by it and the server announces
  lengths.
\<close>

definition size_known :: "bytes \<Rightarrow> single_env \<Rightarrow> exchange list \<Rightarrow> bytes option \<Rightarrow> bool" where
  "size_known res se exs f \<longleftrightarrow> se_total se = int (length res)
     \<or> ((se_total se \<le> 0 \<or> \<not> want_resume se (file_len f)) \<and> list_all known_length exs)"

lemma choose_plain:
  assumes "choose_response se want ex = Inr r" "plain_response (ex_first ex)" "plain_response (ex_second ex)"
  shows "detect_content_encoding r = None"
  using assms
  by (auto simp: choose_response_def error_for_status_def plain_response_def split: sum.splits option.splits if_splits)

lemma single_last:
  assumes "download_single se exs st = (st', Some (Inr x))"
  shows "\<exists>ex \<in> set exs. \<exists>st0. download_single_once se ex st0 = (st', Inr x)"
    "\<not> want_resume se (file_len (fst st)) \<Longrightarrow> resumed_range_start x = None"
proof -
  have "(\<exists>ex \<in> set exs. \<exists>st0. download_single_once se ex st0 = (st', Inr x))
      \<and> (\<not> want_resume se (file_len (fst st)) \<longrightarrow> resumed_range_start x = None)"
    using assms
  proof (induction exs arbitrary: st)
    case (Cons ex exs)
    obtain st1 r1 where o: "download_single_once se ex st = (st1, r1)" by (cases "download_single_once se ex st")
    have n: "resumed_range_start y = None" if "\<not> want_resume se (file_len (fst st))" "r1 = Inr y" for y
      using that o once_result[of se ex st st1 y] by (metis is_actual_resume_def)
    show ?case
    proof (cases "\<exists>y e. r1 = Inr y \<and> resumed_range_start y = Some e \<and> download_single se exs st1 = (st', Some (Inr x))")
      case True
      then show ?thesis using Cons.IH[of st1] n o by auto
    next
      case False
      then have "st1 = st' \<and> r1 = Inr x"
        using Cons.prems o by (auto split: sum.splits option.splits if_splits)
      then show ?thesis using o n by (metis list.set_intros(1))
    qed
  qed simp
  then show "\<exists>ex \<in> set exs. \<exists>st0. download_single_once se ex st0 = (st', Inr x)"
    "\<not> want_resume se (file_len (fst st)) \<Longrightarrow> resumed_range_start x = None" by blast+
qed

lemma single_plain:
  assumes "download_single se exs st = (st', Some (Inr x))"
  shows "list_all (\<lambda>ex. plain_response (ex_first ex) \<and> plain_response (ex_second ex)) exs \<Longrightarrow> \<not> decompressed x"
    "list_all known_length exs \<Longrightarrow> response_content_length x \<noteq> - 1"
proof -
  obtain ex st0 where ex: "ex \<in> set exs" "download_single_once se ex st0 = (st', Inr x)"
    using single_last(1)[OF assms] by blast
  show "\<not> decompressed x"
    if "list_all (\<lambda>ex. plain_response (ex_first ex) \<and> plain_response (ex_second ex)) exs"
    using once_result[OF ex(2)] choose_plain that ex(1) by (metis (mono_tags, lifting) list_all_iff)
  show "response_content_length x \<noteq> - 1" if "list_all known_length exs"
    using once_result[OF ex(2)] that ex(1) by (metis list_all_iff)
qed

text \<open>What passes the integrity check after a single stream is the resource.\<close>

lemma integrity_full:
  assumes "check_integrity i name (se_total se) (Some x) st = (st1, Inr n)"
    and "content_of (bt_get (entries st) (temp_name name)) = f'"
    and good: "good_end res (se_total se) f' x" "resumed_range_start x = None \<or> se_total se \<le> file_len f'"
    and "\<not> decompressed x"
    and size: "se_total se = int (length res)
      \<or> ((se_total se \<le> 0 \<or> resumed_range_start x = None) \<and> response_content_length x \<noteq> - 1)"
  shows "f' = Some res" "0 < n \<Longrightarrow> n = int (length res)" "entries st1 = entries st"
proof -
  obtain b where b: "f' = Some b" "prefix b res" using good(1) by (auto simp: good_end_def)
  have len: "length b \<le> length res" using b(2) by (rule prefix_length_le)
  have g: "response_content_length x \<noteq> - 1 \<longrightarrow> response_content_length x = int (length b)
      \<and> (resumed_range_start x = None \<or> se_total se \<le> 0 \<longrightarrow> b = res)"
    using good(1) assms(5) b by (auto simp: good_end_def)
  let ?cl = "response_content_length x" and ?tot = "se_total se"
  have C: "(n = ?tot \<and> ?tot \<le> 0) \<or> (n = ?tot \<and> int (length b) = ?tot)
      \<or> (n = int (length b) \<and> 0 < ?tot \<and> ((0 < ?cl \<and> int (length b) = ?cl) \<or> (?cl \<le> 0 \<and> ?tot \<le> int (length b))))"
    and e: "entries st1 = entries st"
    using assms(1,2,5) b(1)
    by (auto simp: check_integrity_def Let_def file_len_def set_total_def split: if_splits)
  have "length res \<le> length b"
  proof (cases "?tot = int (length res)")
    case True
    consider "?tot \<le> 0" | "int (length b) = ?tot" | "?tot \<le> int (length b)"
      | "resumed_range_start x = None" "?cl \<noteq> - 1"
      using C good(2) b(1) by (force simp: file_len_def)
    then show ?thesis using True g by cases auto
  next
    case False
    then show ?thesis using size g by auto
  qed
  then have "b = res" using b(2) by (intro prefix_full)
  then show "f' = Some res" "0 < n \<Longrightarrow> n = int (length res)" "entries st1 = entries st"
    using C b(1) e by auto
qed

section \<open>A whole run\<close>

definition run_target :: "run_params \<Rightarrow> run_inputs \<Rightarrow> run_st \<Rightarrow> ustr option" where
  "run_target p i st =
     (case prepare_run p i st of (_, Inr (_, name, _)) \<Rightarrow> Some name | _ \<Rightarrow> None)"

text \<open>The conditions on a single stream that starts in \<open>st\<close>.\<close>

definition honest_stream :: "bytes \<Rightarrow> ustr \<Rightarrow> single_env \<Rightarrow> exchange list \<Rightarrow> run_st \<Rightarrow> bool" where
  "honest_stream res name se exs st \<longleftrightarrow>
     (let f = content_of (bt_get (entries st) (temp_name name))
      in sound_file res f \<and> size_known res se exs f
         \<and> list_all (\<lambda>ex. plain_response (ex_first ex) \<and> plain_response (ex_second ex)) exs
         \<and> honest_exchanges res se exs (f, task_downloaded (tdb st)))"

text \<open>
  The environment keeps its promises during a run: the server is honest, the coordinator delivers
  what \<open>file_is_assembled\<close> proves of it, other programs leave the temporary file alone, and that
  file holds a prefix of the resource when a single stream is to go on with it.
\<close>

definition honest_run :: "bytes \<Rightarrow> run_params \<Rightarrow> run_inputs \<Rightarrow> run_st \<Rightarrow> bool" where
  "honest_run res p i st \<longleftrightarrow>
     (case prepare_run p i st of
        (_, Inl _) \<Rightarrow> True
      | (st1, Inr (info, name, eff, v)) \<Rightarrow>
          (\<forall>rv \<in> set (in_rivals i). polite name rv)
          \<and> (case single_start p i info name eff st1 of
               None \<Rightarrow>
                 (case in_coordinated i of
                    (f, _, Inr k) \<Rightarrow> f = Some res \<and> k = int (length res) | _ \<Rightarrow> True)
             | Some (supports, st2) \<Rightarrow>
                 honest_stream res name (single_env_of p name eff supports v) (in_exchanges i) st2))"

lemma prepare_entries: "prepare_run p i st = (st1, r) \<Longrightarrow> entries st1 = entries st"
  by (auto simp: prepare_run_def obtain_info_def record_info_def choose_validator_def Let_def
      update_task_file_info_def update_task_file_info_resume_def
      split: if_splits sum.splits prod.splits)

lemma get_put_file: "bt_wf d \<Longrightarrow> bt_get (put_file n b d) m = (if m = n then map_option File b else bt_get d m)"
  by (auto simp: put_file_def bt_get_insert bt_get_remove split: option.splits)

lemma wf_put_file: "bt_wf d \<Longrightarrow> bt_wf (put_file n b d)"
  by (auto simp: put_file_def bt_wf_insert bt_wf_remove split: option.splits)

text \<open>What follows the fetch leaves the checked file under its final name.\<close>

lemma conclude_delivers:
  assumes "conclude_run p i name eff x st = (st', Some (Inr (n, renamed)))"
    and "bt_wf (entries st)" "\<forall>rv \<in> set (in_rivals i). polite name rv"
    and full: "\<And>st1 m. check_integrity i name eff x st = (st1, Inr m) \<Longrightarrow>
        content_of (bt_get (entries st) (temp_name name)) = Some res \<and> (0 < m \<longrightarrow> m = int (length res))
        \<and> entries st1 = entries st"
  shows "bt_get (entries st') (case renamed of Some m \<Rightarrow> m | None \<Rightarrow> name) = Some (File res)"
    "bt_get (entries st') (temp_name name) = None" "n = int (length res)"
    "rp_checksum p \<noteq> [] \<Longrightarrow> verify_checksum (in_fold i) (in_digest i) (Some res) (rp_checksum p) = Inr ()"
proof -
  obtain st1 m where ci: "check_integrity i name eff x st = (st1, Inr m)"
    using assms(1) by (auto simp: conclude_run_def split: prod.splits sum.splits)
  note F = full[OF ci]
  then have t: "bt_get (entries st1) (temp_name name) = Some (File res)"
    by (auto simp: content_of_def split: option.splits node.splits)
  obtain st2 where cc: "check_checksum p i name st1 = (st2, Inr ())"
    using assms(1) ci by (auto simp: conclude_run_def Let_def split: prod.splits sum.splits)
  then have st2: "st2 = st1"
    and ck: "rp_checksum p \<noteq> [] \<longrightarrow> verify_checksum (in_fold i) (in_digest i) (Some res) (rp_checksum p) = Inr ()"
    using t by (auto simp: check_checksum_def content_of_def split: if_splits sum.splits)
  obtain tr d chosen where fin: "finalize (rp_overwrite p) (in_fold i) (in_avoid i) name (in_rivals i)
        (start_finalize name) (entries st1) = (tr, d, Some (Inr chosen))"
    and R: "entries st' = d" "renamed = (if chosen = name then None else Some chosen)"
      "n = (if 0 < m then m else file_len (Some res))"
    using assms(1) ci cc t st2
    by (auto simp: conclude_run_def Let_def content_of_def update_task_file_info_def
        split: prod.splits sum.splits option.splits if_splits)
  have "bt_get d chosen = Some (File res) \<and> bt_get d (temp_name name) = None"
    by (rule finalize_delivers(1)[OF fin _ assms(3) t]) (use F assms(2) in auto)
  then show "bt_get (entries st') (case renamed of Some m \<Rightarrow> m | None \<Rightarrow> name) = Some (File res)"
    "bt_get (entries st') (temp_name name) = None" "n = int (length res)"
    "rp_checksum p \<noteq> [] \<Longrightarrow> verify_checksum (in_fold i) (in_digest i) (Some res) (rp_checksum p) = Inr ()"
    using R F ck by (auto simp: file_len_def)
qed

lemma fetch_over_segments:
  assumes "single_start p i info name eff st = None" "fetch p i info name eff v st = (st1, Some (Inr (eff1, x)))"
    and "bt_wf (entries st)"
    and "case in_coordinated i of (f, _, Inr k) \<Rightarrow> f = Some res \<and> k = int (length res) | _ \<Rightarrow> True"
  shows "bt_wf (entries st1)"
    "check_integrity i name eff1 x st1 = (st2, Inr m) \<Longrightarrow>
       content_of (bt_get (entries st1) (temp_name name)) = Some res \<and> (0 < m \<longrightarrow> m = int (length res))
       \<and> entries st2 = entries st1"
proof -
  obtain f db r where c: "in_coordinated i = (f, db, r)" by (cases "in_coordinated i") auto
  have h: "st1 = after_coordinator i name st" "x = None" "f = Some res" "eff1 = int (length res)"
    using assms(1,2,4) c by (auto simp: fetch_def split: sum.splits)
  have e: "entries st1 = put_file (temp_name name) (Some res) (entries st)"
    using c h by (simp add: after_coordinator_def)
  then have c0: "content_of (bt_get (entries st1) (temp_name name)) = Some res"
    by (simp add: get_put_file[OF assms(3)] content_of_def)
  show "bt_wf (entries st1)" by (simp add: e wf_put_file[OF assms(3)])
  show "content_of (bt_get (entries st1) (temp_name name)) = Some res \<and> (0 < m \<longrightarrow> m = int (length res))
      \<and> entries st2 = entries st1" if "check_integrity i name eff1 x st1 = (st2, Inr m)"
    using that h(2,4) c0 by (auto simp: check_integrity_def Let_def split: if_splits)
qed

lemma fetch_over_one_connection:
  assumes "run_single se name exs st = (st1, Some (Inr x))" "bt_wf (entries st)" "honest_stream res name se exs st"
  shows "bt_wf (entries st1)"
    "check_integrity i name (se_total se) (Some x) st1 = (st2, Inr m) \<Longrightarrow>
       content_of (bt_get (entries st1) (temp_name name)) = Some res \<and> (0 < m \<longrightarrow> m = int (length res))
       \<and> entries st2 = entries st1"
proof -
  let ?f = "content_of (bt_get (entries st) (temp_name name))"
  obtain f' saved' r where d0: "download_single se exs (?f, task_downloaded (tdb st)) = ((f', saved'), r)"
    by (metis prod_cases3 surj_pair)
  then have d: "download_single se exs (?f, task_downloaded (tdb st)) = ((f', saved'), Some (Inr x))"
    and st1: "entries st1 = put_file (temp_name name) f' (entries st)"
    using assms(1) by (auto simp: run_single_def Let_def)
  show "bt_wf (entries st1)" by (simp add: st1 wf_put_file[OF assms(2)])
  have h: "sound_file res ?f" "size_known res se exs ?f"
      "list_all (\<lambda>ex. plain_response (ex_first ex) \<and> plain_response (ex_second ex)) exs"
      "honest_exchanges res se exs (?f, task_downloaded (tdb st))"
    using assms(3) by (auto simp: honest_stream_def Let_def)
  have good: "good_end res (se_total se) f' x" "resumed_range_start x = None \<or> se_total se \<le> file_len f'"
    using single_sound(2)[OF h(4,1) d] by auto
  have size: "se_total se = int (length res)
      \<or> ((se_total se \<le> 0 \<or> resumed_range_start x = None) \<and> response_content_length x \<noteq> - 1)"
    using h(2) single_last(2)[OF d] single_plain(2)[OF d] by (auto simp: size_known_def)
  have f': "content_of (bt_get (entries st1) (temp_name name)) = f'"
    by (simp add: st1 get_put_file[OF assms(2)] content_of_def split: option.splits)
  show "content_of (bt_get (entries st1) (temp_name name)) = Some res \<and> (0 < m \<longrightarrow> m = int (length res))
      \<and> entries st2 = entries st1" if "check_integrity i name (se_total se) (Some x) st1 = (st2, Inr m)"
    using integrity_full[OF that f' good single_plain(1)[OF d h(3)] size] f' by simp
qed

lemma wf_single_start:
  "single_start p i info name eff st = Some (supports, st1) \<Longrightarrow> bt_wf (entries st) \<Longrightarrow> bt_wf (entries st1)"
  by (auto simp: single_start_def discard_segments_def after_coordinator_def Let_def bt_wf_remove wf_put_file
      split: if_splits prod.splits sum.splits)


text \<open>A small run: while it lasts somebody else takes the name, so the file gets another one.\<close>

definition demo_body :: bytes where "demo_body = [1, 2, 3]"

definition demo_answer :: response where
  "demo_answer = \<lparr> status = 200, header = (\<lambda>h. None) \<rparr>"

definition demo_exchange :: exchange where
  "demo_exchange = \<lparr> ex_first = Some demo_answer, ex_second = None, ex_content_length = Some 3, ex_open_ok = True,
     ex_chunks = [([1, 2], True), ([3], False)], ex_end = BodyEnd \<rparr>"

definition demo_params :: run_params where
  "demo_params = \<lparr> rp_url = u ''http://h/a.bin'', rp_file_name = u ''a.bin'', rp_segment_count = 1,
     rp_is_resume = False, rp_hint = 3, rp_verified = False, rp_get_like = True, rp_auto_max = 0,
     rp_checksum = [], rp_overwrite = False \<rparr>"

definition demo_rival :: "bool \<Rightarrow> rival" where
  "demo_rival takes = \<lparr> rv_others = (if takes then bt_insert (u ''a.bin'') (File [9]) else (\<lambda>d. d)),
     rv_rename_ok = True, rv_remove_ok = True, rv_uniq = u ''x'' \<rparr>"

definition demo_inputs :: run_inputs where
  "demo_inputs = \<lparr> in_gbk = (\<lambda>_. None), in_fold = (\<lambda>s. s), in_digest = (\<lambda>_ _. []),
     in_probe = Inl (Err Cancelled), in_cores = 4, in_cancel = (False, False), in_info_ok = True,
     in_rows_ok = True, in_coordinated = (None, \<lparr> rows = [], task_total = 0, task_downloaded = 0,
       segments_epoch = 0, range_verified = False \<rparr>, Inl (Err Cancelled)),
     in_exchanges = [demo_exchange], in_sync_ok = True, in_avoid = {},
     in_rivals = [demo_rival True, demo_rival False] \<rparr>"

definition demo_state :: run_st where
  "demo_state = \<lparr> entries = [], tdb = \<lparr> rows = [], task_total = 0, task_downloaded = 0, segments_epoch = 0,
       range_verified = False \<rparr>, validator = ([], []), row_name = [], row_status = 0 \<rparr>"

lemma demo_polite: "\<forall>rv \<in> set (in_rivals demo_inputs). polite (u ''a.bin'') rv"
proof -
  have "temp_name (u ''a.bin'') \<noteq> u ''a.bin''" by (rule temp_name_ne)
  then show ?thesis by (simp add: demo_inputs_def demo_rival_def polite_def bt_wf_insert bt_get_insert)
qed

lemma demo_prepared:
  "snd (prepare_run demo_params demo_inputs demo_state)
     = Inr (hint_info demo_params demo_inputs, u ''a.bin'', 3, [], [])"
  by code_simp

lemma demo_honest: "honest_run demo_body demo_params demo_inputs demo_state"
proof -
  let ?p = "prepare_run demo_params demo_inputs demo_state"
  have s: "single_start demo_params demo_inputs (hint_info demo_params demo_inputs) (u ''a.bin'') 3 (fst ?p)
      = Some (False, fst ?p)" by code_simp
  have h: "honest_stream demo_body (u ''a.bin'') (single_env_of demo_params (u ''a.bin'') 3 False ([], []))
      (in_exchanges demo_inputs) (fst ?p)"
    by code_simp
  have "?p = (fst ?p, Inr (hint_info demo_params demo_inputs, u ''a.bin'', 3, [], []))"
    by (metis demo_prepared prod.collapse)
  then show ?thesis using demo_polite s h by (auto simp: honest_run_def)
qed

lemma demo_outcome:
  "snd (run_download_inner demo_params demo_inputs demo_state) = Some (Inr (3, Some (u ''a (1).bin'')))"
  by code_simp


section \<open>The final name\<close>

text \<open>
  C13.  Taking the final name loses nobody's file: the loop ends after at most six claims with the
  download under the name it took, or, when it fails, still under its temporary name; and none of
  its own steps removes or replaces anything else in the directory, except, when overwriting was
  asked for and no other task owns the name, the file of that very name.
\<close>

theorem final_name_never_clobbers:
  assumes "finalize ow fold' sib name rvs (start_finalize name) dir = (tr, d, r)"
    and "bt_wf dir" "\<forall>rv \<in> set rvs. polite name rv" "6 \<le> length rvs"
    and "bt_get dir (temp_name name) = Some x"
  shows "(case r of
        None \<Rightarrow> False
      | Some (Inr m) \<Rightarrow> bt_get d m = Some x \<and> bt_get d (temp_name name) = None
      | Some (Inl e) \<Rightarrow> bt_get d (temp_name name) = Some x)
    \<and> (\<forall>(a, b) \<in> set tr. \<forall>m y. m \<noteq> temp_name name \<longrightarrow> bt_get a m = Some y \<longrightarrow>
        bt_get b m = Some y \<or> (ow \<and> m = name \<and> fold' name \<notin> sib \<and> y \<noteq> Dir))"
proof
  have "r \<noteq> None" using finalize_ends[OF _ _ assms(1)] assms(4) by (simp add: start_finalize_def)
  then show "case r of
        None \<Rightarrow> False
      | Some (Inr m) \<Rightarrow> bt_get d m = Some x \<and> bt_get d (temp_name name) = None
      | Some (Inl e) \<Rightarrow> bt_get d (temp_name name) = Some x"
    using finalize_delivers[OF assms(1-3,5)] by (auto split: option.split sum.split)
qed (rule finalize_frame[OF assms(1-3)])

definition demo_rivals :: "rival list" where
  "demo_rivals = demo_rival True # replicate 5 (demo_rival False)"

definition demo_dir :: "(ustr, node) btree" where
  "demo_dir = bt_insert (temp_name (u ''a.bin'')) (File demo_body) []"

definition demo_finalize ::
  "((ustr, node) btree \<times> (ustr, node) btree) list \<times> (ustr, node) btree \<times> (run_error + ustr) option" where
  "demo_finalize = finalize True (\<lambda>s. s) {u ''a.bin''} (u ''a.bin'') demo_rivals (start_finalize (u ''a.bin'')) demo_dir"

lemma final_name_never_clobbers_witness:
  "(case snd (snd demo_finalize) of Some (Inr m) \<Rightarrow> m = u ''a (1).bin''
      \<and> bt_get (fst (snd demo_finalize)) m = Some (File demo_body) | _ \<Rightarrow> False)"
proof -
  obtain tr d r where f: "demo_finalize = (tr, d, r)" by (metis prod_cases3)
  have e: "snd (snd demo_finalize) = Some (Inr (u ''a (1).bin''))" by code_simp
  have pol: "polite (u ''a.bin'') (demo_rival t)" for t
    using demo_polite temp_name_ne[of "u ''a.bin''"]
    by (simp add: demo_rival_def polite_def bt_wf_insert bt_get_insert)
  have h: "bt_wf demo_dir" "\<forall>rv \<in> set demo_rivals. polite (u ''a.bin'') rv" "6 \<le> length demo_rivals"
      "bt_get demo_dir (temp_name (u ''a.bin'')) = Some (File demo_body)"
    using pol
    by (simp_all add: demo_dir_def demo_rivals_def bt_wf_insert bt_get_insert bt_wf_def)
  have "r = Some (Inr (u ''a (1).bin''))" using e unfolding f snd_conv .
  then show ?thesis
    using final_name_never_clobbers[OF f[unfolded demo_finalize_def] h] by (simp add: f)
qed

end
