(* ===== verification/Probe_Props.thy ===== *)
theory Probe_Props
  imports Probe Run_Props
begin

text \<open>What the plan of a fresh download owes to the probe.\<close>

text \<open>
  C20.  A fresh download is planned over segments only on evidence: when the probe of an honest server
  with a resource of \<open>n\<close> bytes leads to segments, the plan covers exactly \<open>n\<close> bytes, and one of at
  most three probe rounds saw an unencoded 206 or an announcement of ranges with an unencoded
  response.
\<close>

theorem probed_plan_right:
  assumes "prepare_run p (probed_inputs p has_ua ans i) st = (st', Inr (info, name, eff, v))"
    and "\<And>k d. honest_round n (ans k d)" "rp_hint p = 0" "\<not> rp_is_resume p"
    and "use_segments p (probed_inputs p has_ua ans i) info eff st'"
  shows "eff = n \<and> (\<exists>k < 3. range_evidence (ans k (has_ua \<and> k = 2)))"
proof -
  have r: "snd (resolve_file_info (in_gbk i) (rp_get_like p) has_ua (rp_url p) ans) = Inr info"
    and e: "eff = fi_total info"
    using assms(1,3,4)
    by (auto simp: prepare_run_def obtain_info_def record_info_def probed_inputs_def Let_def
        split: sum.splits if_splits prod.splits)
  obtain k where k: "k < 3" "resolve_file_info_once (in_gbk i) (rp_get_like p) (rp_url p)
      (ans k (use_downgraded_ua has_ua k)) = Inr info"
    using attempts_result[OF r[unfolded resolve_file_info_def]] by (auto simp: probe_max_retries_def)
  have s: "fi_supports_range info" "1048576 < eff"
    using assms(4,5) by (auto simp: use_segments_def effective_supports_range_def)
  have "use_downgraded_ua has_ua k = (has_ua \<and> k = 2)"
    by (auto simp: use_downgraded_ua_def probe_max_retries_def)
  then show ?thesis using once_size[OF k(2) assms(2) s(1)] k(1) s(2) e by auto
qed

text \<open>A server that refuses the browser's user agent and answers without it.\<close>

definition probe_demo_raw :: "nat \<Rightarrow> string \<Rightarrow> nat list option" where
  "probe_demo_raw n h = (if h = ''content-range'' then Some (map of_char (''bytes 0-0/'' @ show_nat n)) else None)"

definition probe_demo_round :: "nat \<Rightarrow> bool \<Rightarrow> probe_round" where
  "probe_demo_round n downgraded = \<lparr> pb_head = None,
     pb_get = (if downgraded then Some \<lparr> pr_status = 206, pr_raw = probe_demo_raw n, pr_url = u ''http://h/a.bin'' \<rparr>
       else Some \<lparr> pr_status = 403, pr_raw = (\<lambda>h. None), pr_url = u ''http://h/a.bin'' \<rparr>),
     pb_plain = None \<rparr>"

definition probe_demo_params :: run_params where
  "probe_demo_params = demo_params\<lparr>rp_segment_count := 4, rp_hint := 0\<rparr>"

definition probe_demo_info :: "nat \<Rightarrow> file_info" where
  "probe_demo_info n = merged_info (\<lambda>_. None) (u ''http://h/a.bin'') (pb_get (probe_demo_round n True)) (probe_demo_raw n)
     (u ''http://h/a.bin'')"

lemma to_str_plain: "\<forall>c \<in> set s. 32 \<le> (of_char c :: nat) \<and> (of_char c :: nat) < 127 \<Longrightarrow> to_str (map of_char s) = Some s"
  by (auto simp: to_str_def list_all_iff comp_def)

lemma probe_demo_total: "n < 2 ^ 63 \<Longrightarrow> merged_total b (probe_demo_raw n) = int n"
proof -
  assume n: "n < 2 ^ 63"
  have "32 \<le> (of_char c :: nat) \<and> (of_char c :: nat) < 127" if "c \<in> set (show_nat n)" for c
  proof -
    have "is_digit c" using show_nat_digits[of n] that by (auto simp: all_digits_def list_all_iff)
    then show ?thesis by (simp add: is_digit_def)
  qed
  moreover have "\<forall>c \<in> set ''bytes 0-0/''. 32 \<le> (of_char c :: nat) \<and> (of_char c :: nat) < 127" by simp
  ultimately have p: "to_str (map of_char (''bytes 0-0/'' @ show_nat n)) = Some (''bytes 0-0/'' @ show_nat n)"
    by (intro to_str_plain) (metis Un_iff set_append)
  have "split_on (CHR ''/'') (''bytes 0-0'' @ CHR ''/'' # show_nat n) = ''bytes 0-0'' # split_on (CHR ''/'') (show_nat n)"
    by (rule split_on_sep) simp
  moreover have "split_on (CHR ''/'') (show_nat n) = [show_nat n]" by (rule split_on_none) (rule show_nat_no_sep)
  ultimately have "last (split_on (CHR ''/'') (''bytes 0-0/'' @ show_nat n)) = show_nat n" by simp
  moreover have "parse_signed i64_parse_max (show_nat n) = Some (int n)"
    using parse_show_signed[of i64_parse_max "int n"] n by (simp add: show_int_def i64_parse_max_def)
  ultimately show ?thesis unfolding merged_total_def probe_demo_raw_def using p by (simp del: map_append append_Cons)
qed

lemma probe_demo_info: "n < 2 ^ 63 \<Longrightarrow> fi_total (probe_demo_info n) = int n" "fi_supports_range (probe_demo_info n)"
    "fi_content_type (probe_demo_info n) = []"
  by (simp_all add: probe_demo_info_def merged_info_def probe_demo_round_def probe_demo_total merged_range_def
      detect_content_encoding_def response_of_def probe_demo_raw_def[of _ "_ # _"] text_of_def)

lemma probe_demo_resolved:
  "snd (resolve_file_info (\<lambda>_. None) True True (u ''http://h/a.bin'') (\<lambda>k. probe_demo_round n))
     = Inr (probe_demo_info n)"
  by (simp add: resolve_file_info_def probe_max_retries_def upt_rec[of _ 3] use_downgraded_ua_def
      resolve_file_info_once_def probe_demo_round_def probe_data_def is_success_def
      resolve_file_info_plain_get_fallback_def probe_demo_info_def Let_def)

lemma probed_plan_right_witness:
  "\<exists>st' info name v. prepare_run probe_demo_params
       (probed_inputs probe_demo_params True (\<lambda>k. probe_demo_round 3000000) demo_inputs) demo_state
       = (st', Inr (info, name, 3000000, v))
     \<and> (\<exists>k < 3. range_evidence (probe_demo_round 3000000 (True \<and> k = (2 :: nat))))"
proof -
  let ?i = "probed_inputs probe_demo_params True (\<lambda>k. probe_demo_round 3000000) demo_inputs"
  have s: "sanitize_filename (u ''a.bin'') = u ''a.bin''" "u ''a.bin'' \<noteq> []" by code_simp+
  have probe: "in_probe ?i = Inr (probe_demo_info 3000000)"
    using probe_demo_resolved[of 3000000]
    by (simp add: probed_inputs_def demo_inputs_def probe_demo_params_def demo_params_def)
  obtain st' v where p: "prepare_run probe_demo_params ?i demo_state
      = (st', Inr (probe_demo_info 3000000, u ''a.bin'', 3000000, v))"
    using probe_demo_info[of 3000000] s probe
    by (auto simp: prepare_run_def obtain_info_def record_info_def choose_validator_def page_instead_def run_name_def
        probe_demo_params_def demo_params_def probed_inputs_def demo_inputs_def Let_def)
  have h: "honest_round 3000000 (probe_demo_round 3000000 d)" for d
    using probe_demo_total[of 3000000 True]
    by (simp add: honest_round_def honest_reply_def probe_demo_round_def probe_data_def is_success_def)
  have use: "use_segments probe_demo_params ?i (probe_demo_info 3000000) 3000000 st'"
    using probe_demo_info(2)[of 3000000]
    by (simp add: use_segments_def effective_supports_range_def run_segments_def probe_demo_params_def demo_params_def)
  have "rp_hint probe_demo_params = 0" "\<not> rp_is_resume probe_demo_params"
    by (simp_all add: probe_demo_params_def demo_params_def)
  then have "\<exists>k < 3. range_evidence (probe_demo_round 3000000 (True \<and> k = (2 :: nat)))"
    using probed_plan_right[OF p h _ _ use] by blast
  with p show ?thesis by blast
qed

end
