(* ===== verification/Node_Health.thy ===== *)
theory Node_Health
  imports Complex_Main Prelude Rust_Text
begin

text \<open>
  What is remembered of the nodes of a host (\<^verbatim>\<open>native/engine/src/cdn/health.rs\<close>): throughput per
  address, and the mark that a host is not to be aggregated.  Times are Unix seconds.  A \<^verbatim>\<open>HashMap\<close> is
  a \<open>btree\<close>; where the code's outcome depends on the iteration order, the order is that of the keys.
\<close>

section \<open>Eviction of old entries\<close>

text \<open>
  The code's idiom for a map over its capacity: the time stamp at the capacity from the top is the
  cutoff, and the first entries not older than it are retained.
\<close>

definition retain_newest :: "nat \<Rightarrow> ('v \<Rightarrow> nat) \<Rightarrow> ('k \<times> 'v) list \<Rightarrow> ('k \<times> 'v) list" where
  "retain_newest cap ts m =
     (if length m \<le> cap then m
      else let cutoff = sort (map (\<lambda>e. ts (snd e)) m) ! (length m - cap)
           in take cap (filter (\<lambda>e. cutoff \<le> ts (snd e)) m))"

section \<open>State\<close>

definition health_ttl :: nat where "health_ttl = 24 * 3600"
definition health_max_hosts :: nat where "health_max_hosts = 512"
definition max_ips_per_host :: nat where "max_ips_per_host = 16"
definition persist_min_gap_secs :: nat where "persist_min_gap_secs = 5"
definition health_format_version :: nat where "health_format_version = 1"

record ip_health =
  ih_bps :: real
  ih_ts :: nat

record host_health =
  hh_na :: nat
  hh_ips :: "(string, ip_health) btree"

type_synonym health_map = "(string, host_health) btree"

record health_st =
  hs_hosts :: health_map
  hs_last_persist :: nat
  hs_stored :: "(nat \<times> health_map) option"   \<comment> \<open>version and content of the configuration row\<close>

definition no_health :: host_health where
  "no_health = \<lparr> hh_na = 0, hh_ips = [] \<rparr>"

definition health_fresh :: "nat \<Rightarrow> nat \<Rightarrow> bool" where
  "health_fresh recorded now \<longleftrightarrow> 0 < recorded \<and> now - recorded < health_ttl"

definition host_entry :: "string \<Rightarrow> health_map \<Rightarrow> host_health" where
  "host_entry host m = (case bt_get m host of Some e \<Rightarrow> e | None \<Rightarrow> no_health)"

section \<open>Operations\<close>

definition prune_host :: "nat \<Rightarrow> host_health \<Rightarrow> host_health" where
  "prune_host now e =
     \<lparr> hh_na = (if health_fresh (hh_na e) now then hh_na e else 0),
       hh_ips = retain_newest max_ips_per_host ih_ts (filter (\<lambda>x. health_fresh (ih_ts (snd x)) now) (hh_ips e)) \<rparr>"

definition newest_of :: "host_health \<Rightarrow> nat" where
  "newest_of e = (if hh_ips e = [] then hh_na e else Max (set (map ih_ts (bt_values (hh_ips e)))))"

definition health_prune :: "nat \<Rightarrow> health_map \<Rightarrow> health_map" where
  "health_prune now m =
     retain_newest health_max_hosts newest_of
       (filter (\<lambda>(h, e). hh_na e \<noteq> 0 \<or> hh_ips e \<noteq> []) (map (\<lambda>(h, e). (h, prune_host now e)) m))"

definition load_cdn_health :: "nat \<Rightarrow> health_st \<Rightarrow> health_st" where
  "load_cdn_health now s =
     (case hs_stored s of
        None \<Rightarrow> s
      | Some (v, hosts) \<Rightarrow>
          if v \<noteq> health_format_version then s
          else s\<lparr>hs_hosts := foldl (\<lambda>m (h, e). if bt_get m h = None then bt_insert h e m else m)
                   (hs_hosts s) (health_prune now hosts)\<rparr>)"

definition lookup_ewma :: "nat \<Rightarrow> string \<Rightarrow> string \<Rightarrow> health_st \<Rightarrow> real option" where
  "lookup_ewma now host ip s =
     Option.bind (bt_get (hs_hosts s) host) (\<lambda>e.
     Option.bind (bt_get (hh_ips e) ip) (\<lambda>h.
       if health_fresh (ih_ts h) now then Some (ih_bps h) else None))"

definition health_persist :: "nat \<Rightarrow> health_st \<Rightarrow> health_st" where
  "health_persist now s =
     (let m = health_prune now (hs_hosts s)
      in s\<lparr>hs_hosts := m, hs_stored := Some (health_format_version, m)\<rparr>)"

definition record_ewma :: "nat \<Rightarrow> string \<Rightarrow> string \<Rightarrow> real \<Rightarrow> health_st \<Rightarrow> health_st" where
  "record_ewma now host ip bps s =
     (let e = host_entry host (hs_hosts s);
          e' = e\<lparr>hh_ips := bt_insert ip \<lparr> ih_bps = bps, ih_ts = now \<rparr> (hh_ips e)\<rparr>;
          s1 = s\<lparr>hs_hosts := bt_insert host e' (hs_hosts s)\<rparr>
      in if persist_min_gap_secs \<le> now - hs_last_persist s
         then health_persist now (s1\<lparr>hs_last_persist := now\<rparr>) else s1)"

definition is_no_aggregate :: "nat \<Rightarrow> string \<Rightarrow> health_st \<Rightarrow> bool" where
  "is_no_aggregate now host s =
     (case bt_get (hs_hosts s) host of Some e \<Rightarrow> health_fresh (hh_na e) now | None \<Rightarrow> False)"

definition record_no_aggregate :: "nat \<Rightarrow> string \<Rightarrow> health_st \<Rightarrow> health_st" where
  "record_no_aggregate now host s =
     health_persist now (s\<lparr>hs_hosts := bt_insert host ((host_entry host (hs_hosts s))\<lparr>hh_na := now\<rparr>) (hs_hosts s)\<rparr>)"

section \<open>Facts on eviction\<close>

lemma retain_newest_subset: "set (retain_newest cap ts m) \<subseteq> set m"
  by (auto simp: retain_newest_def Let_def dest: in_set_takeD)

lemma bt_wf_filter: "bt_wf m \<Longrightarrow> bt_wf (filter P m)"
  by (induction m) (auto simp: bt_wf_Cons)

lemma bt_wf_take: "bt_wf m \<Longrightarrow> bt_wf (take n m)"
  by (metis bt_wf_def sorted_wrt_take take_map)

lemma bt_wf_retain: "bt_wf m \<Longrightarrow> bt_wf (retain_newest cap ts m)"
  by (simp add: retain_newest_def Let_def bt_wf_filter bt_wf_take)

lemma cutoff_enough:
  assumes "cap < length xs"
  shows "cap \<le> length (filter (\<lambda>x. sort xs ! (length xs - cap) \<le> x) (xs :: nat list))"
proof -
  let ?s = "sort xs" and ?k = "length xs - cap"
  have "cap \<le> length (filter (\<lambda>x. ?s ! ?k \<le> x) (drop ?k ?s))"
  proof -
    have "\<forall>x \<in> set (drop ?k ?s). ?s ! ?k \<le> x"
      using sorted_nth_mono[OF sorted_sort[of xs]] assms by (auto simp: in_set_conv_nth)
    then show ?thesis using assms by simp
  qed
  also have "\<dots> \<le> length (filter (\<lambda>x. ?s ! ?k \<le> x) ?s)"
    by (metis append_take_drop_id filter_append length_append le_add2)
  also have "\<dots> = length (filter (\<lambda>x. ?s ! ?k \<le> x) xs)"
    by (metis mset_filter mset_sort size_mset)
  finally show ?thesis .
qed

lemma retain_newest_length: "length (retain_newest cap ts m) = min cap (length m)"
proof (cases "length m \<le> cap")
  case False
  let ?xs = "map (\<lambda>e. ts (snd e)) m"
  have "cap \<le> length (filter (\<lambda>e. sort ?xs ! (length m - cap) \<le> ts (snd e)) m)"
    using cutoff_enough[of cap ?xs] False by (simp add: filter_map comp_def)
  then show ?thesis using False by (simp add: retain_newest_def Let_def min_def)
qed (simp add: retain_newest_def)

text \<open>With distinct time stamps what is evicted is older than what stays.\<close>

lemma cutoff_exact:
  assumes "cap < length xs" "distinct xs" "0 < cap"
  shows "length (filter (\<lambda>x. sort xs ! (length xs - cap) \<le> x) (xs :: nat list)) = cap"
proof -
  let ?s = "sort xs" and ?k = "length xs - cap"
  have d: "distinct ?s" using assms(2) by simp
  have lt: "x < ?s ! ?k" if x: "x \<in> set (take ?k ?s)" for x
  proof -
    obtain i where j: "i < length (take ?k ?s)" "take ?k ?s ! i = x" using x unfolding in_set_conv_nth by blast
    have ik: "i < ?k" using j(1) unfolding length_take by linarith
    have i: "i < ?k" "i < length xs" "x = ?s ! i" using ik j(2) nth_take[OF ik, of ?s] by linarith+
    have "x \<le> ?s ! ?k" using sorted_nth_mono[OF sorted_sort[of xs], of i ?k] i assms(1,3) by simp
    moreover have "x \<noteq> ?s ! ?k" using nth_eq_iff_index_eq[OF d, of i ?k] i assms(1,3) by simp
    ultimately show ?thesis by simp
  qed
  have "length (filter (\<lambda>x. ?s ! ?k \<le> x) xs) = length (filter (\<lambda>x. ?s ! ?k \<le> x) ?s)"
    by (metis mset_filter mset_sort size_mset)
  also have "\<dots> = length (filter (\<lambda>x. ?s ! ?k \<le> x) (take ?k ?s)) + length (filter (\<lambda>x. ?s ! ?k \<le> x) (drop ?k ?s))"
    by (metis append_take_drop_id filter_append length_append)
  also have "filter (\<lambda>x. ?s ! ?k \<le> x) (take ?k ?s) = []" using lt by (fastforce simp: filter_empty_conv)
  finally have "length (filter (\<lambda>x. ?s ! ?k \<le> x) xs) \<le> length (drop ?k ?s)"
    using length_filter_le[of "\<lambda>x. ?s ! ?k \<le> x" "drop ?k ?s"] by simp
  then show ?thesis using cutoff_enough[OF assms(1)] assms(1) by simp
qed

lemma retain_newest_order:
  assumes "distinct (map (\<lambda>e. ts (snd e)) m)" "x \<in> set m" "x \<notin> set (retain_newest cap ts m)" "y \<in> set (retain_newest cap ts m)"
  shows "ts (snd x) < ts (snd y)"
proof -
  let ?xs = "map (\<lambda>e. ts (snd e)) m"
  let ?c = "sort ?xs ! (length m - cap)"
  have l: "cap < length m" using assms(2,3) by (auto simp: retain_newest_def split: if_splits)
  have "0 < cap" using assms(4) l by (cases cap) (auto simp: retain_newest_def Let_def)
  then have "length (filter (\<lambda>e. ?c \<le> ts (snd e)) m) = cap"
    using cutoff_exact[of cap ?xs] l assms(1) by (simp add: filter_map comp_def)
  then have r: "retain_newest cap ts m = filter (\<lambda>e. ?c \<le> ts (snd e)) m"
    using l by (simp add: retain_newest_def Let_def)
  show ?thesis using assms(2-4) unfolding r by auto
qed

text \<open>
  With equal stamps at the cutoff the newest entry of all can be the one evicted: the retained
  entries are the first ones not older than the cutoff, not the newest.
\<close>

lemma ties_evict_newest:
  assumes "length ties = cap" "2 \<le> cap" "\<forall>e \<in> set ties. ts (snd e) = T" "T < ts (snd x)"
  shows "retain_newest cap ts (ties @ [x]) = ties"
proof -
  have m: "map (\<lambda>e. ts (snd e)) ties = replicate cap T"
    using assms(1,3) by (intro replicate_eqI) auto
  have "sorted (replicate cap T @ [ts (snd x)])" using assms(4) by (auto simp: sorted_append)
  then have "sort (map (\<lambda>e. ts (snd e)) (ties @ [x])) = replicate cap T @ [ts (snd x)]"
    by (simp add: m sorted_sort_id)
  then have "sort (map (\<lambda>e. ts (snd e)) (ties @ [x])) ! (length (ties @ [x]) - cap) = T"
    using assms(1,2) by (simp add: nth_append)
  then show ?thesis using assms by (simp add: retain_newest_def Let_def)
qed

text \<open>What pruning leaves is bounded and fresh.\<close>

definition health_bounded :: "nat \<Rightarrow> health_map \<Rightarrow> bool" where
  "health_bounded now m \<longleftrightarrow> length m \<le> health_max_hosts
     \<and> (\<forall>(h, e) \<in> set m. length (hh_ips e) \<le> max_ips_per_host
          \<and> (hh_na e = 0 \<or> health_fresh (hh_na e) now) \<and> (\<forall>(ip, x) \<in> set (hh_ips e). health_fresh (ih_ts x) now))"

lemma prune_bounded: "health_bounded now (health_prune now m)"
proof -
  have ips: "set (hh_ips (prune_host now e)) \<subseteq> {x. health_fresh (ih_ts (snd x)) now}" for e
    using retain_newest_subset by (fastforce simp: prune_host_def)
  have "length (hh_ips (prune_host now e)) \<le> max_ips_per_host"
       "hh_na (prune_host now e) = 0 \<or> health_fresh (hh_na (prune_host now e)) now" for e
    by (simp_all add: prune_host_def retain_newest_length)
  then show ?thesis
    using ips by (fastforce simp: health_bounded_def health_prune_def retain_newest_length dest!: subsetD[OF retain_newest_subset])
qed

end
