(* ===== verification/Node_Pool.thy ===== *)
theory Node_Pool
  imports Node_Health
begin

text \<open>
  The pool of nodes of one task (\<^verbatim>\<open>native/engine/src/cdn/node_pool.rs\<close>, with the sizing rule of
  \<^verbatim>\<open>cdn/mod.rs\<close>).  A client is an opaque number; building a pinned client is a parameter.  Throughput
  and scores (\<^verbatim>\<open>f64\<close>) are real numbers.  Everything a method does happens under the pool's mutex, so
  a method is one step.  Instants are milliseconds, the times of the health records seconds.
\<close>

section \<open>State\<close>

definition ewma_alpha :: real where "ewma_alpha = 3 / 10"
definition min_sample_bytes :: nat where "min_sample_bytes = 256 * 1024"
definition kick_streak :: nat where "kick_streak = 3"
definition default_ewma_bps :: real where "default_ewma_bps = 4 * 1024 * 1024"
definition leases_emit_min_gap :: nat where "leases_emit_min_gap = 2000"
definition max_nodes_limit :: nat where "max_nodes_limit = 8"

record node_slot =
  ns_ip :: "string option"       \<comment> \<open>\<open>None\<close>: the node of the system resolver\<close>
  ns_client :: "nat option"
  ns_ewma :: real
  ns_fails :: nat
  ns_kicked :: bool
  ns_out :: nat
  ns_origin :: string
  ns_bytes :: nat

record node_pool =
  np_slots :: "node_slot list"
  np_recorded :: bool            \<comment> \<open>\<^verbatim>\<open>no_aggregate_recorded\<close>\<close>
  np_last_emit :: "nat option"
  np_last_sig :: "nat list"

datatype kick_reason = KickBuild | KickValidator | KickFail nat

datatype pool_event =
    Kicked string kick_reason
  | Breaker
  | Leases "(string option \<times> nat) list"   \<comment> \<open>address and open leases of every node taking part\<close>

record node_lease =
  nl_node :: nat
  nl_client :: nat
  nl_ip :: "string option"

definition fresh_slot :: "string option \<Rightarrow> nat option \<Rightarrow> real \<Rightarrow> string \<Rightarrow> node_slot" where
  "fresh_slot ip client bps orig =
     \<lparr> ns_ip = ip, ns_client = client, ns_ewma = bps, ns_fails = 0, ns_kicked = False, ns_out = 0,
       ns_origin = orig, ns_bytes = 0 \<rparr>"

definition pool_of :: "node_slot list \<Rightarrow> node_pool" where
  "pool_of slots = \<lparr> np_slots = slots, np_recorded = False, np_last_emit = None, np_last_sig = [] \<rparr>"

definition single_pool :: "nat \<Rightarrow> node_pool" where
  "single_pool client = pool_of [fresh_slot None (Some client) default_ewma_bps []]"

definition multi_pool ::
  "nat \<Rightarrow> string \<Rightarrow> string list \<Rightarrow> (string \<Rightarrow> string option) \<Rightarrow> nat \<Rightarrow> health_st \<Rightarrow> node_pool" where
  "multi_pool now host candidates origins client hs =
     pool_of (fresh_slot None (Some client) default_ewma_bps []
       # map (\<lambda>ip. fresh_slot (Some ip) None
                (case lookup_ewma now host ip hs of Some b \<Rightarrow> b | None \<Rightarrow> default_ewma_bps)
                (case origins ip of Some s \<Rightarrow> s | None \<Rightarrow> [])) candidates)"

text \<open>The sizing rule, and the pool a task starts with.\<close>

definition auto_max_nodes :: "int \<Rightarrow> int \<Rightarrow> nat" where
  "auto_max_nodes total_bytes segment_cap =
     (let by_size = (if total_bytes < 32 * 1024 * 1024 then 2
                     else if total_bytes < 256 * 1024 * 1024 then 3
                     else if total_bytes < 1024 * 1024 * 1024 then 4 else 6)
      in max 2 (min max_nodes_limit (min by_size (nat (max segment_cap 2)))))"

definition finish_pool ::
  "nat \<Rightarrow> string list option \<Rightarrow> string \<Rightarrow> (string \<Rightarrow> string option) \<Rightarrow> nat \<Rightarrow> nat \<Rightarrow> int \<Rightarrow> int \<Rightarrow> health_st \<Rightarrow> node_pool" where
  "finish_pool now aggregated host origins client max_nodes total_bytes segment_cap hs =
     (case aggregated of
        None \<Rightarrow> single_pool client
      | Some ips \<Rightarrow>
          let cap = (if max_nodes = 0 then auto_max_nodes total_bytes segment_cap else min max_nodes max_nodes_limit);
              ips' = take (max cap 2) ips
          in if length ips' < 2 then single_pool client else multi_pool now host ips' origins client hs)"

text \<open>
  Whether a task may aggregate at all.  The parsed address (scheme, host, port) and whether the host is
  a literal address come from the URL library; \<open>cap\<close> is what the connection policy cache knows.
\<close>

record parsed_url =
  pu_scheme :: string
  pu_host :: "string option"
  pu_port :: "nat option"

definition aggregation_gates_open ::
  "bool \<Rightarrow> bool \<Rightarrow> parsed_url option \<Rightarrow> (string \<Rightarrow> bool) \<Rightarrow> int option \<Rightarrow> nat \<Rightarrow> health_st \<Rightarrow> (string \<times> nat) option" where
  "aggregation_gates_open enabled range_verified parsed is_ip cap now hs =
     (if \<not> enabled \<or> \<not> range_verified then None
      else Option.bind parsed (\<lambda>u.
        if pu_scheme u \<noteq> ''https'' then None
        else Option.bind (pu_host u) (\<lambda>h.
          if is_ip h \<or> take 1 h = ''['' then None
          else Option.bind (pu_port u) (\<lambda>port.
            if cap = Some 1 \<or> is_no_aggregate now h hs then None else Some (h, port)))))"

section \<open>Choosing a node\<close>

definition score :: "node_slot \<Rightarrow> real" where
  "score s = ns_ewma s * (1 / 2) ^ min (ns_fails s) 60"

definition alive_nodes :: "node_slot list \<Rightarrow> nat list" where
  "alive_nodes slots = filter (\<lambda>i. \<not> ns_kicked (slots ! i)) [0..<length slots]"

definition better :: "node_slot list \<Rightarrow> nat \<Rightarrow> nat \<Rightarrow> bool" where
  "better slots i best \<longleftrightarrow>
     (let a = slots ! i; b = slots ! best in
      score b < score a \<or> (score a = score b \<and> (ns_out a < ns_out b \<or> (ns_out a = ns_out b \<and> i < best))))"

definition lease_cap :: "node_slot list \<Rightarrow> nat" where
  "lease_cap slots = (sum_list (map ns_out slots) + 1 + length (alive_nodes slots) - 1) div length (alive_nodes slots)"

definition eligible_nodes :: "node_slot list \<Rightarrow> nat list" where
  "eligible_nodes slots = filter (\<lambda>i. ns_out (slots ! i) < lease_cap slots) (alive_nodes slots)"

definition pick :: "node_slot list \<Rightarrow> nat" where
  "pick slots =
     (if alive_nodes slots = [] then 0
      else let pool = (if eligible_nodes slots = [] then alive_nodes slots else eligible_nodes slots)
           in foldl (\<lambda>best i. if better slots i best then i else best) (hd pool) (tl pool))"

section \<open>Events\<close>

definition leases_event :: "nat \<Rightarrow> node_pool \<Rightarrow> node_pool \<times> pool_event list" where
  "leases_event t p =
     (let sig = map ns_out (np_slots p) in
      if length (np_slots p) < 2 \<or> sig = np_last_sig p
         \<or> (case np_last_emit p of Some l \<Rightarrow> t - l < leases_emit_min_gap | None \<Rightarrow> False)
      then (p, [])
      else (p\<lparr>np_last_emit := Some t, np_last_sig := sig\<rparr>,
            [Leases (map (\<lambda>s. (ns_ip s, ns_out s)) (filter (\<lambda>s. \<not> ns_kicked s \<or> 0 < ns_out s) (np_slots p)))]))"

definition check_breaker :: "nat \<Rightarrow> string \<Rightarrow> node_pool \<times> health_st \<Rightarrow> (node_pool \<times> health_st) \<times> pool_event list" where
  "check_breaker now host = (\<lambda>(p, hs).
     (if np_recorded p then ((p, hs), [])
      else if length (filter (\<lambda>s. ns_ip s \<noteq> None \<and> \<not> ns_kicked s) (np_slots p))
              < length (filter (\<lambda>s. ns_ip s \<noteq> None \<and> ns_kicked s) (np_slots p))
      then ((p\<lparr>np_recorded := True\<rparr>, record_no_aggregate now host hs), [Breaker])
      else ((p, hs), [])))"

section \<open>Operations\<close>

definition update_slot :: "nat \<Rightarrow> (node_slot \<Rightarrow> node_slot) \<Rightarrow> node_pool \<Rightarrow> node_pool" where
  "update_slot i f p = p\<lparr>np_slots := (np_slots p)[i := f (np_slots p ! i)]\<rparr>"

text \<open>
  The loop of \<^verbatim>\<open>lease\<close>: it goes on when a pinned client cannot be built.  \<open>None\<close> would be a loop
  that never ends.
\<close>

partial_function (option) choose_node ::
  "nat \<Rightarrow> string \<Rightarrow> (string \<Rightarrow> nat option) \<Rightarrow> node_pool \<times> health_st
   \<Rightarrow> ((node_pool \<times> health_st) \<times> nat \<times> nat \<times> pool_event list) option" where
  "choose_node now host build st =
     (let i = pick (np_slots (fst st)); s = np_slots (fst st) ! i in
      case ns_client s of
        Some c \<Rightarrow> Some (st, i, c, [])
      | None \<Rightarrow>
          (case Option.bind (ns_ip s) build of
             Some c \<Rightarrow> Some ((update_slot i (\<lambda>s. s\<lparr>ns_client := Some c\<rparr>) (fst st), snd st), i, c, [])
           | None \<Rightarrow>
               let r = check_breaker now host (update_slot i (\<lambda>s. s\<lparr>ns_kicked := True\<rparr>) (fst st), snd st);
                   es = (case ns_ip s of Some ip \<Rightarrow> [Kicked ip KickBuild] | None \<Rightarrow> []) @ snd r
               in Option.bind (choose_node now host build (fst r))
                    (\<lambda>x. Some (fst x, fst (snd x), fst (snd (snd x)), es @ snd (snd (snd x))))))"

declare choose_node.simps [code]

definition lease ::
  "nat \<Rightarrow> nat \<Rightarrow> string \<Rightarrow> (string \<Rightarrow> nat option) \<Rightarrow> node_pool \<times> health_st
   \<Rightarrow> ((node_pool \<times> health_st) \<times> node_lease \<times> pool_event list) option" where
  "lease t now host build st =
     map_option (\<lambda>((p, hs), i, c, es).
        let p1 = update_slot i (\<lambda>s. s\<lparr>ns_out := ns_out s + 1\<rparr>) p;
            (p2, es2) = leases_event t p1
        in ((p2, hs), \<lparr> nl_node = i, nl_client = c, nl_ip = ns_ip (np_slots p ! i) \<rparr>, es @ es2))
       (choose_node now host build st)"

definition drop_lease :: "nat \<Rightarrow> node_lease \<Rightarrow> node_pool \<Rightarrow> node_pool \<times> pool_event list" where
  "drop_lease t l p =
     leases_event t
       (if nl_node l < length (np_slots p) then update_slot (nl_node l) (\<lambda>s. s\<lparr>ns_out := ns_out s - 1\<rparr>) p else p)"

text \<open>What a segment reports: success with its bytes and seconds, or a failure.\<close>

datatype node_outcome = Good nat real | Bad "bool"   \<comment> \<open>\<open>Bad True\<close>: the versions differ\<close>

definition report_good :: "nat \<Rightarrow> string \<Rightarrow> nat \<Rightarrow> nat \<Rightarrow> real \<Rightarrow> node_pool \<times> health_st \<Rightarrow> node_pool \<times> health_st" where
  "report_good now host i b secs st =
     (let s = np_slots (fst st) ! i; s1 = s\<lparr>ns_fails := 0, ns_bytes := sat_add_u64 (ns_bytes s) b\<rparr> in
      if min_sample_bytes \<le> b \<and> 0 < secs
      then let e = (1 - ewma_alpha) * ns_ewma s + ewma_alpha * (real b / secs)
           in (update_slot i (\<lambda>_. s1\<lparr>ns_ewma := e\<rparr>) (fst st),
               case ns_ip s of Some ip \<Rightarrow> record_ewma now host ip e (snd st) | None \<Rightarrow> snd st)
      else (update_slot i (\<lambda>_. s1) (fst st), snd st))"

definition report_bad ::
  "nat \<Rightarrow> string \<Rightarrow> nat \<Rightarrow> bool \<Rightarrow> node_pool \<times> health_st \<Rightarrow> (node_pool \<times> health_st) \<times> pool_event list" where
  "report_bad now host i immediate st =
     (let s = np_slots (fst st) ! i;
          s1 = s\<lparr>ns_fails := ns_fails s + 1, ns_ewma := ns_ewma s / 2\<rparr> in
      case ns_ip s of
        None \<Rightarrow> ((update_slot i (\<lambda>_. s1) (fst st), snd st), [])
      | Some ip \<Rightarrow>
          (let hs1 = record_ewma now host ip (ns_ewma s1) (snd st) in
           if immediate \<or> kick_streak \<le> ns_fails s1
           then let (st2, es) = check_breaker now host (update_slot i (\<lambda>_. s1\<lparr>ns_kicked := True\<rparr>) (fst st), hs1)
                in (st2, Kicked ip (if immediate then KickValidator else KickFail (ns_fails s1)) # es)
           else ((update_slot i (\<lambda>_. s1) (fst st), hs1), [])))"

definition node_report ::
  "nat \<Rightarrow> string \<Rightarrow> node_lease \<Rightarrow> node_outcome \<Rightarrow> node_pool \<times> health_st \<Rightarrow> (node_pool \<times> health_st) \<times> pool_event list" where
  "node_report now host l r st =
     (if length (np_slots (fst st)) \<le> nl_node l then (st, [])
      else case r of
          Good b secs \<Rightarrow> (report_good now host (nl_node l) b secs st, [])
        | Bad immediate \<Rightarrow> report_bad now host (nl_node l) immediate st)"

text \<open>Switching the task to another route.\<close>

definition switch_to_client :: "nat \<Rightarrow> node_pool \<Rightarrow> node_pool" where
  "switch_to_client c p =
     p\<lparr>np_recorded := True,
       np_slots := (case map (\<lambda>s. if ns_ip s = None then s else s\<lparr>ns_kicked := True\<rparr>) (np_slots p) of
                      [] \<Rightarrow> [] | s # ss \<Rightarrow> s\<lparr>ns_client := Some c\<rparr> # ss)\<rparr>"

definition is_multi :: "node_pool \<Rightarrow> bool" where
  "is_multi p \<longleftrightarrow> 1 < length (np_slots p)"

definition alive_pinned :: "node_pool \<Rightarrow> nat" where
  "alive_pinned p = length (filter (\<lambda>s. ns_ip s \<noteq> None \<and> \<not> ns_kicked s) (np_slots p))"

end
