(* ===== verification/Pool_Props.thy ===== *)
theory Pool_Props
  imports Node_Pool
begin

text \<open>
  The pool under any interleaving of leases, returns, reports and a switch of the route: it always
  serves, it spreads, and it never leaks a lease.
\<close>

section \<open>Choosing\<close>

lemma foldl_best:
  assumes refl: "\<And>a. R a a" and trans: "\<And>a b c. R a b \<Longrightarrow> R b c \<Longrightarrow> R a c"
    and step: "\<And>x b. R (if P x b then x else b) x \<and> R (if P x b then x else b) b"
  shows "foldl (\<lambda>b x. if P x b then x else b) b xs \<in> insert b (set xs)
    \<and> (\<forall>y \<in> insert b (set xs). R (foldl (\<lambda>b x. if P x b then x else b) b xs) y)"
proof (induction xs arbitrary: b)
  case Nil
  then show ?case using refl by simp
next
  case (Cons x xs)
  let ?b = "if P x b then x else b"
  let ?r = "foldl (\<lambda>b x. if P x b then x else b) ?b xs"
  have IH: "?r \<in> insert ?b (set xs)" "\<forall>y \<in> insert ?b (set xs). R ?r y" using Cons.IH[of ?b] by blast+
  have "R ?r x" "R ?r b" using IH(2) step[of x b] trans by blast+
  moreover have "?r \<in> insert b (set (x # xs))" using IH(1) by (auto split: if_splits)
  ultimately show ?case using IH(2) by simp
qed

lemma better_order:
  "\<not> better slots a a" "\<not> better slots b a \<Longrightarrow> \<not> better slots c b \<Longrightarrow> \<not> better slots c a"
  "better slots a b \<Longrightarrow> \<not> better slots b a"
  by (auto simp: better_def Let_def)

text \<open>Some living node is below the cap: the code's fall-back for the other case is never taken.\<close>

lemma some_eligible:
  assumes "alive_nodes slots \<noteq> []"
  shows "eligible_nodes slots \<noteq> []"
proof
  assume "eligible_nodes slots = []"
  then have all: "\<And>i. i \<in> set (alive_nodes slots) \<Longrightarrow> lease_cap slots \<le> ns_out (slots ! i)"
    by (auto simp: eligible_nodes_def filter_empty_conv not_less)
  let ?a = "length (alive_nodes slots)" and ?n = "sum_list (map ns_out slots)"
  let ?m = "?n + 1 + ?a - 1" and ?f = "\<lambda>i. ns_out (slots ! i)"
  have a: "0 < ?a" using assms by simp
  have "?m = lease_cap slots * ?a + ?m mod ?a" unfolding lease_cap_def by (rule div_mod_decomp)
  moreover have "?m mod ?a < ?a" using a by (rule mod_less_divisor)
  ultimately have "?n + 1 \<le> lease_cap slots * ?a" using a by linarith
  moreover have "lease_cap slots * ?a = sum_list (map (\<lambda>_. lease_cap slots) (alive_nodes slots))"
    by (simp add: sum_list_triv)
  moreover have "\<dots> \<le> sum_list (map ?f (alive_nodes slots))" by (rule sum_list_mono) (rule all)
  moreover have "sum_list (map ?f (alive_nodes slots)) \<le> sum_list (map ?f [0..<length slots])"
    unfolding alive_nodes_def by (rule sum_list_filter_le_nat)
  moreover have "map ?f [0..<length slots] = map ns_out slots" by (intro nth_equalityI) auto
  ultimately show False by simp
qed

text \<open>The node taken is alive, below the cap, and the best of those.\<close>

definition best_choice :: "node_slot list \<Rightarrow> nat \<Rightarrow> bool" where
  "best_choice slots i \<longleftrightarrow> i < length slots \<and> \<not> ns_kicked (slots ! i) \<and> ns_out (slots ! i) < lease_cap slots
     \<and> (\<forall>j < length slots. \<not> ns_kicked (slots ! j) \<and> ns_out (slots ! j) < lease_cap slots
          \<longrightarrow> \<not> better slots j i)"

lemma pick_best:
  assumes "alive_nodes slots \<noteq> []"
  shows "best_choice slots (pick slots)"
proof -
  let ?e = "eligible_nodes slots"
  have e: "?e \<noteq> []" by (rule some_eligible[OF assms])
  let ?R = "\<lambda>a b. \<not> better slots b a"
  have "foldl (\<lambda>b x. if better slots x b then x else b) (hd ?e) (tl ?e) \<in> insert (hd ?e) (set (tl ?e))
      \<and> (\<forall>y \<in> insert (hd ?e) (set (tl ?e)). ?R (foldl (\<lambda>b x. if better slots x b then x else b) (hd ?e) (tl ?e)) y)"
  proof (rule foldl_best[of ?R])
    show "\<not> better slots a a" for a by (rule better_order(1))
    show "\<not> better slots b a \<Longrightarrow> \<not> better slots c b \<Longrightarrow> \<not> better slots c a" for a b c by (rule better_order(2))
    show "\<not> better slots x (if better slots x b then x else b) \<and> \<not> better slots b (if better slots x b then x else b)" for x b
      using better_order(1,3) by simp
  qed
  moreover have "insert (hd ?e) (set (tl ?e)) = set ?e" using e by (cases ?e) auto
  ultimately have "pick slots \<in> set ?e" "\<forall>y \<in> set ?e. \<not> better slots y (pick slots)"
    using assms e by (simp_all add: pick_def Let_def)
  then show ?thesis by (auto simp: best_choice_def eligible_nodes_def alive_nodes_def)
qed

section \<open>Reachable pools\<close>

text \<open>
  \<open>pool_run host st ls sw\<close>: the pool with the health records, the leases out, and the client
  switched to.
\<close>

inductive pool_run :: "string \<Rightarrow> node_pool \<times> health_st \<Rightarrow> node_lease list \<Rightarrow> nat option \<Rightarrow> bool" for host where
  starts: "pool_run host (finish_pool now ips host origins client mx tot cap hs, hs) [] None"
| leases: "pool_run host st ls sw \<Longrightarrow> lease t now host build st = Some (st', l, es) \<Longrightarrow> pool_run host st' (l # ls) sw"
| returns: "pool_run host (p, hs) ls sw \<Longrightarrow> l \<in> set ls \<Longrightarrow> drop_lease t l p = (p', es)
    \<Longrightarrow> pool_run host (p', hs) (remove1 l ls) sw"
| reports: "pool_run host st ls sw \<Longrightarrow> l \<in> set ls \<Longrightarrow> node_report now host l r st = (st', es) \<Longrightarrow> pool_run host st' ls sw"
| switches: "pool_run host (p, hs) ls sw \<Longrightarrow> pool_run host (switch_to_client c p, hs) ls (Some c)"

definition nodes_ok :: "node_slot list \<Rightarrow> nat option \<Rightarrow> bool" where
  "nodes_ok slots sw \<longleftrightarrow>
     slots \<noteq> [] \<and> ns_ip (hd slots) = None \<and> ns_client (hd slots) \<noteq> None \<and> \<not> ns_kicked (hd slots)
     \<and> (\<forall>s \<in> set (tl slots). ns_ip s \<noteq> None)
     \<and> (case sw of None \<Rightarrow> True | Some c \<Rightarrow> ns_client (hd slots) = Some c \<and> (\<forall>s \<in> set (tl slots). ns_kicked s))"

definition leases_ok :: "node_slot list \<Rightarrow> node_lease list \<Rightarrow> bool" where
  "leases_ok slots ls \<longleftrightarrow> (\<forall>l \<in> set ls. nl_node l < length slots)
     \<and> (\<forall>i < length slots. ns_out (slots ! i) = length (filter (\<lambda>l. nl_node l = i) ls))"

lemma update_slot_simps [simp]:
  "length (np_slots (update_slot i f p)) = length (np_slots p)"
  "i < length (np_slots p) \<Longrightarrow> j < length (np_slots p) \<Longrightarrow>
     np_slots (update_slot i f p) ! j = (if i = j then f (np_slots p ! i) else np_slots p ! j)"
  by (auto simp: update_slot_def)

lemma breaker_slots [simp]: "np_slots (fst (fst (check_breaker now host (p, hs)))) = np_slots p"
  by (simp add: check_breaker_def)

lemma leases_event_keeps: "leases_event t p = (p', es) \<Longrightarrow> np_slots p' = np_slots p"
  by (auto simp: leases_event_def Let_def split: if_splits)

lemma start_slots:
  "\<exists>b ss. np_slots (finish_pool now ips host origins client mx tot cap hs) = fresh_slot None (Some client) b [] # ss
    \<and> (\<forall>s \<in> set ss. ns_ip s \<noteq> None \<and> ns_out s = 0)"
  by (cases ips) (auto simp: finish_pool_def single_pool_def multi_pool_def pool_of_def Let_def fresh_slot_def)

lemma nodes_ok_start: "nodes_ok (np_slots (finish_pool now ips host origins client mx tot cap hs)) None"
  using start_slots[of now ips host origins client mx tot cap hs] by (auto simp: nodes_ok_def fresh_slot_def)

lemma leases_ok_start: "leases_ok (np_slots (finish_pool now ips host origins client mx tot cap hs)) []"
proof -
  have "\<forall>s \<in> set (np_slots (finish_pool now ips host origins client mx tot cap hs)). ns_out s = 0"
    using start_slots[of now ips host origins client mx tot cap hs] by (auto simp: fresh_slot_def)
  then show ?thesis by (auto simp: leases_ok_def)
qed

text \<open>What the operations do to the slots: a change of one slot that keeps what matters.\<close>

lemma nodes_ok_update:
  assumes "nodes_ok (np_slots p) sw" "i < length (np_slots p)"
    and "ns_ip (f (np_slots p ! i)) = ns_ip (np_slots p ! i)"
    and "ns_client (np_slots p ! i) \<noteq> None \<Longrightarrow> ns_client (f (np_slots p ! i)) = ns_client (np_slots p ! i)"
    and "i = 0 \<Longrightarrow> \<not> ns_kicked (f (np_slots p ! i))"
    and "ns_kicked (np_slots p ! i) \<Longrightarrow> ns_kicked (f (np_slots p ! i)) \<or> i = 0"
  shows "nodes_ok (np_slots (update_slot i f p)) sw"
proof -
  obtain s ss where p: "np_slots p = s # ss" using assms(1) by (cases "np_slots p") (auto simp: nodes_ok_def)
  show ?thesis
  proof (cases i)
    case 0
    then show ?thesis using assms by (auto simp: nodes_ok_def update_slot_def p split: option.splits)
  next
    case (Suc j)
    then have "np_slots (update_slot i f p) = s # ss[j := f (ss ! j)]" by (simp add: update_slot_def p)
    moreover have "set (ss[j := f (ss ! j)]) \<subseteq> insert (f (ss ! j)) (set ss)" by (rule set_update_subset_insert)
    ultimately show ?thesis using assms Suc nth_mem[of j ss]
      by (auto simp: nodes_ok_def p split: option.splits)
  qed
qed

lemma leases_ok_update:
  "leases_ok (np_slots p) ls \<Longrightarrow> i < length (np_slots p) \<Longrightarrow> ns_out (f (np_slots p ! i)) = ns_out (np_slots p ! i)
   \<Longrightarrow> leases_ok (np_slots (update_slot i f p)) ls"
  by (auto simp: leases_ok_def)

lemma alive_sys: "nodes_ok slots sw \<Longrightarrow> 0 \<in> set (alive_nodes slots)"
  by (auto simp: nodes_ok_def alive_nodes_def hd_conv_nth)

lemma best_choice_client:
  assumes "i < length slots"
  shows "best_choice (slots[i := (slots ! i)\<lparr>ns_client := c\<rparr>]) j = best_choice slots j"
proof -
  let ?s = "slots[i := (slots ! i)\<lparr>ns_client := c\<rparr>]"
  have n: "ns_kicked (?s ! k) = ns_kicked (slots ! k)" "ns_out (?s ! k) = ns_out (slots ! k)" "score (?s ! k) = score (slots ! k)" for k
    using assms by (cases "k = i"; simp add: score_def)+
  have "alive_nodes ?s = alive_nodes slots" by (simp add: alive_nodes_def n(1))
  moreover have "map ns_out ?s = map ns_out slots" using n(2) by (intro nth_equalityI) auto
  ultimately have "lease_cap ?s = lease_cap slots" by (simp add: lease_cap_def)
  moreover have "better ?s k j = better slots k j" for k by (simp add: better_def Let_def n)
  ultimately show ?thesis by (simp add: best_choice_def n)
qed

text \<open>The loop that chooses a node ends, because each turn kicks a node that was alive.\<close>

definition waiting :: "node_slot list \<Rightarrow> nat" where
  "waiting slots = length (filter (\<lambda>s. \<not> ns_kicked s) slots)"

lemma waiting_kick:
  assumes "i < length slots" "\<not> ns_kicked (slots ! i)"
  shows "waiting (slots[i := (slots ! i)\<lparr>ns_kicked := True\<rparr>]) < waiting slots"
  using assms
proof (induction slots arbitrary: i)
  case (Cons s ss)
  then show ?case by (cases i) (auto simp: waiting_def)
qed simp

lemma choose_returns:
  assumes "nodes_ok (np_slots (fst st)) sw" "leases_ok (np_slots (fst st)) ls"
  shows "\<exists>st' i c es. choose_node now host build st = Some (st', i, c, es)
    \<and> nodes_ok (np_slots (fst st')) sw \<and> leases_ok (np_slots (fst st')) ls
    \<and> best_choice (np_slots (fst st')) i \<and> ns_client (np_slots (fst st') ! i) = Some c"
  using assms
proof (induction "waiting (np_slots (fst st))" arbitrary: st rule: less_induct)
  case less
  let ?p = "fst st" and ?i = "pick (np_slots (fst st))"
  let ?s = "np_slots ?p ! ?i"
  have b: "best_choice (np_slots ?p) ?i" using alive_sys[OF less.prems(1)] by (intro pick_best) auto
  then have i: "?i < length (np_slots ?p)" "\<not> ns_kicked ?s" by (simp_all add: best_choice_def)
  show ?case
  proof (cases "ns_client ?s")
    case (Some c)
    then show ?thesis using less.prems b by (subst choose_node.simps) (simp add: Let_def)
  next
    case None
    then have i0: "?i \<noteq> 0" using less.prems(1) i(1) by (auto simp: nodes_ok_def hd_conv_nth intro!: gr0I)
    show ?thesis
    proof (cases "Option.bind (ns_ip ?s) build")
      case (Some c)
      let ?f = "\<lambda>s. s\<lparr>ns_client := Some c\<rparr>"
      have "best_choice (np_slots (update_slot ?i ?f ?p)) ?i"
        using b i(1) by (simp add: update_slot_def best_choice_client)
      then show ?thesis
        using None Some less.prems i i0 nodes_ok_update[OF less.prems(1) i(1), of ?f] leases_ok_update[OF less.prems(2) i(1), of ?f]
        by (subst choose_node.simps) (simp add: Let_def)
    next
      case N: None
      let ?f = "\<lambda>s. s\<lparr>ns_kicked := True\<rparr>"
      let ?st1 = "fst (check_breaker now host (update_slot ?i ?f ?p, snd st))"
      have s1: "np_slots (fst ?st1) = np_slots (update_slot ?i ?f ?p)" by simp
      have "waiting (np_slots (fst ?st1)) < waiting (np_slots ?p)"
        using waiting_kick[OF i] by (simp add: update_slot_def)
      moreover have "nodes_ok (np_slots (fst ?st1)) sw" unfolding s1
        using i0 by (intro nodes_ok_update[OF less.prems(1) i(1)]) auto
      moreover have "leases_ok (np_slots (fst ?st1)) ls" unfolding s1
        by (intro leases_ok_update[OF less.prems(2) i(1)]) simp
      ultimately have "\<exists>st' j c es. choose_node now host build ?st1 = Some (st', j, c, es)
          \<and> nodes_ok (np_slots (fst st')) sw \<and> leases_ok (np_slots (fst st')) ls
          \<and> best_choice (np_slots (fst st')) j \<and> ns_client (np_slots (fst st') ! j) = Some c"
        by (rule less.hyps)
      then show ?thesis using None N by (subst choose_node.simps) (auto simp: Let_def)
    qed
  qed
qed

lemma out_change:
  assumes "leases_ok (np_slots p) ls" "i < length (np_slots p)"
    and "\<forall>l \<in> set ls'. nl_node l < length (np_slots p)"
    and "\<And>j. length (filter (\<lambda>l. nl_node l = j) ls') =
      (if j = i then ns_out (f (np_slots p ! i)) else length (filter (\<lambda>l. nl_node l = j) ls))"
  shows "leases_ok (np_slots (update_slot i f p)) ls'"
  using assms by (auto simp: leases_ok_def)

definition keeps_slot :: "node_slot \<Rightarrow> node_slot \<Rightarrow> bool" where
  "keeps_slot s f \<longleftrightarrow> ns_ip f = ns_ip s \<and> ns_client f = ns_client s \<and> ns_out f = ns_out s
     \<and> (ns_kicked s \<longrightarrow> ns_kicked f) \<and> (ns_ip s = None \<longrightarrow> ns_kicked f = ns_kicked s)"

lemma report_slot:
  assumes "node_report now host l r st = (st', es)" "nl_node l < length (np_slots (fst st))"
  shows "\<exists>f. np_slots (fst st') = np_slots (update_slot (nl_node l) (\<lambda>_. f) (fst st))
    \<and> keeps_slot (np_slots (fst st) ! nl_node l) f"
proof (cases r)
  case (Good b secs)
  then show ?thesis using assms
    by (auto simp: node_report_def report_good_def Let_def keeps_slot_def split: if_splits)
next
  case (Bad immediate)
  let ?s = "np_slots (fst st) ! nl_node l"
  let ?s1 = "?s\<lparr>ns_fails := ns_fails ?s + 1, ns_ewma := ns_ewma ?s / 2\<rparr>"
  show ?thesis
  proof (cases "ns_ip ?s")
    case None
    then show ?thesis using assms Bad by (intro exI[of _ ?s1]) (auto simp: node_report_def report_bad_def Let_def keeps_slot_def)
  next
    case (Some ip)
    show ?thesis
    proof (cases "immediate \<or> kick_streak \<le> ns_fails ?s1")
      case True
      let ?f = "?s1\<lparr>ns_kicked := True\<rparr>"
      let ?c = "check_breaker now host (update_slot (nl_node l) (\<lambda>_. ?f) (fst st), record_ewma now host ip (ns_ewma ?s1) (snd st))"
      have "st' = fst ?c" using assms Bad Some True by (simp add: node_report_def report_bad_def Let_def split: prod.splits)
      then show ?thesis using Some by (intro exI[of _ ?f]) (simp add: keeps_slot_def)
    next
      case False
      then show ?thesis using assms Bad Some
        by (intro exI[of _ ?s1]) (auto simp: node_report_def report_bad_def Let_def keeps_slot_def)
    qed
  qed
qed

lemma run_ok: "pool_run host st ls sw \<Longrightarrow> nodes_ok (np_slots (fst st)) sw \<and> leases_ok (np_slots (fst st)) ls"
proof (induction rule: pool_run.induct)
  case (starts now ips origins client mx tot cap hs)
  then show ?case by (simp add: nodes_ok_start leases_ok_start)
next
  case (leases st ls sw t now build st' l es)
  obtain p1 hs1 i c es1 where ch: "choose_node now host build st = Some ((p1, hs1), i, c, es1)"
      "nodes_ok (np_slots p1) sw" "leases_ok (np_slots p1) ls" "best_choice (np_slots p1) i"
    using choose_returns[OF conjunct1[OF leases.IH] conjunct2[OF leases.IH], of now host build] by auto
  let ?f = "\<lambda>s. s\<lparr>ns_out := ns_out s + 1\<rparr>"
  have i: "i < length (np_slots p1)" using ch(4) by (simp add: best_choice_def)
  have st': "np_slots (fst st') = np_slots (update_slot i ?f p1)" "nl_node l = i"
    using leases.hyps(2) ch(1) by (auto simp: lease_def Let_def dest!: leases_event_keeps split: prod.splits)
  have "nodes_ok (np_slots (update_slot i ?f p1)) sw"
    using ch(2) by (intro nodes_ok_update[OF ch(2) i]) (auto simp: nodes_ok_def hd_conv_nth)
  moreover have "leases_ok (np_slots (update_slot i ?f p1)) (l # ls)"
    using ch(3) i st'(2) by (intro out_change[OF ch(3) i]) (auto simp: leases_ok_def)
  ultimately show ?case by (simp add: st'(1))
next
  case (returns p hs ls sw l t p' es)
  let ?f = "\<lambda>s. s\<lparr>ns_out := ns_out s - 1\<rparr>" and ?i = "nl_node l"
  have i: "?i < length (np_slots p)" using returns by (simp add: leases_ok_def)
  then have p': "np_slots p' = np_slots (update_slot ?i ?f p)"
    using returns.hyps(3) by (auto simp: drop_lease_def dest: leases_event_keeps)
  have n: "nodes_ok (np_slots p) sw" and l: "leases_ok (np_slots p) ls" using returns.IH by simp_all
  have "nodes_ok (np_slots (update_slot ?i ?f p)) sw"
    using n by (intro nodes_ok_update[OF n i]) (auto simp: nodes_ok_def hd_conv_nth)
  moreover have "leases_ok (np_slots (update_slot ?i ?f p)) (remove1 l ls)"
  proof (rule out_change[OF l i])
    show "\<forall>l' \<in> set (remove1 l ls). nl_node l' < length (np_slots p)"
      using l set_remove1_subset[of l ls] by (auto simp: leases_ok_def)
    show "length (filter (\<lambda>l'. nl_node l' = j) (remove1 l ls)) =
        (if j = ?i then ns_out (?f (np_slots p ! ?i)) else length (filter (\<lambda>l'. nl_node l' = j) ls))" for j
      using l i returns.hyps(2) by (auto simp: leases_ok_def filter_remove1 length_remove1)
  qed
  ultimately show ?case by (simp add: p')
next
  case (reports st ls sw l now r st' es)
  have n: "nodes_ok (np_slots (fst st)) sw" and l: "leases_ok (np_slots (fst st)) ls" using reports.IH by simp_all
  have i: "nl_node l < length (np_slots (fst st))" using l reports.hyps(2) by (simp add: leases_ok_def)
  obtain f where f: "np_slots (fst st') = np_slots (update_slot (nl_node l) (\<lambda>_. f) (fst st))"
      "keeps_slot (np_slots (fst st) ! nl_node l) f"
    using report_slot[OF reports.hyps(3) i] by blast
  have "nodes_ok (np_slots (update_slot (nl_node l) (\<lambda>_. f) (fst st))) sw"
    using n f(2) by (intro nodes_ok_update[OF n i]) (auto simp: nodes_ok_def hd_conv_nth keeps_slot_def)
  moreover have "leases_ok (np_slots (update_slot (nl_node l) (\<lambda>_. f) (fst st))) ls"
    by (rule leases_ok_update[OF l i]) (use f(2) in \<open>simp add: keeps_slot_def\<close>)
  ultimately show ?case by (simp add: f(1))
next
  case (switches p hs ls sw c)
  obtain s ss where p: "np_slots p = s # ss" using switches.IH by (cases "np_slots p") (auto simp: nodes_ok_def)
  have "np_slots (switch_to_client c p)
      = s\<lparr>ns_client := Some c\<rparr> # map (\<lambda>s. if ns_ip s = None then s else s\<lparr>ns_kicked := True\<rparr>) ss"
    using switches.IH by (simp add: switch_to_client_def p nodes_ok_def)
  then show ?case using switches.IH by (auto simp: nodes_ok_def leases_ok_def p nth_Cons')
qed

section \<open>The properties\<close>

text \<open>
  C9.  The pool always serves, and spreads.  After any sequence of leases, returns, reports and
  switches a lease is granted at once, whether or not pinned clients can be built: on a node that is
  not kicked, by the client kept for it, among the nodes below the cap that shares all open leases
  equally, the one with the best score; the system's node is always among the candidates.  After a
  switch of the route every new lease runs on the new client.  Open leases are counted exactly.
\<close>

theorem pool_serves:
  assumes "pool_run host st ls sw"
  shows "\<exists>st' l es. lease t now host build st = Some (st', l, es)
    \<and> (let slots = np_slots (fst st'); i = nl_node l in
         best_choice (slots[i := (slots ! i)\<lparr>ns_out := ns_out (slots ! i) - 1\<rparr>]) i
         \<and> ns_client (slots ! i) = Some (nl_client l) \<and> nl_ip l = ns_ip (slots ! i)
         \<and> ns_ip (hd slots) = None \<and> \<not> ns_kicked (hd slots)
         \<and> (\<forall>c. sw = Some c \<longrightarrow> i = 0 \<and> nl_client l = c)
         \<and> (\<forall>j < length slots. ns_out (slots ! j) = length (filter (\<lambda>l. nl_node l = j) (l # ls))))"
proof -
  note ok = run_ok[OF assms]
  obtain p1 hs1 i c es1 where ch: "choose_node now host build st = Some ((p1, hs1), i, c, es1)"
      "nodes_ok (np_slots p1) sw" "best_choice (np_slots p1) i" "ns_client (np_slots p1 ! i) = Some c"
    using choose_returns[OF conjunct1[OF ok] conjunct2[OF ok], of now host build] by auto
  let ?p2 = "update_slot i (\<lambda>s. s\<lparr>ns_out := ns_out s + 1\<rparr>) p1"
  obtain p3 es2 where ev: "leases_event t ?p2 = (p3, es2)" by (cases "leases_event t ?p2")
  let ?l = "\<lparr> nl_node = i, nl_client = c, nl_ip = ns_ip (np_slots p1 ! i) \<rparr>"
  have L: "lease t now host build st = Some ((p3, hs1), ?l, es1 @ es2)" using ch(1) ev by (simp add: lease_def Let_def)
  have s: "np_slots p3 = (np_slots p1)[i := (np_slots p1 ! i)\<lparr>ns_out := ns_out (np_slots p1 ! i) + 1\<rparr>]"
    using leases_event_keeps[OF ev] by (simp add: update_slot_def)
  have i: "i < length (np_slots p1)" "\<not> ns_kicked (np_slots p1 ! i)" using ch(3) by (simp_all add: best_choice_def)
  have R: "pool_run host (p3, hs1) (?l # ls) sw" by (rule pool_run.leases[OF assms L])
  have i0: "i = 0 \<and> c = c'" if "sw = Some c'" for c'
  proof -
    have "i = 0"
    proof (rule ccontr)
      assume "i \<noteq> 0"
      then have "np_slots p1 ! i \<in> set (tl (np_slots p1))" using i(1) by (cases "np_slots p1"; cases i) auto
      then show False using ch(2) i(2) that by (auto simp: nodes_ok_def)
    qed
    then show ?thesis using ch(2,4) that by (auto simp: nodes_ok_def hd_conv_nth)
  qed
  have undo: "(np_slots p3)[i := (np_slots p3 ! i)\<lparr>ns_out := ns_out (np_slots p3 ! i) - 1\<rparr>] = np_slots p1"
    using i(1) by (simp add: s)
  have "ns_ip (hd (np_slots p3)) = None \<and> \<not> ns_kicked (hd (np_slots p3))" using run_ok[OF R] by (simp add: nodes_ok_def)
  moreover have "\<forall>j < length (np_slots p3). ns_out (np_slots p3 ! j) = length (filter (\<lambda>l. nl_node l = j) (?l # ls))"
    using run_ok[OF R] by (simp add: leases_ok_def)
  moreover have "ns_client (np_slots p3 ! i) = Some c" "ns_ip (np_slots p3 ! i) = ns_ip (np_slots p1 ! i)"
    using ch(4) i(1) by (simp_all add: s)
  moreover have "\<forall>c'. sw = Some c' \<longrightarrow> i = 0 \<and> c = c'" using i0 by blast
  ultimately show ?thesis
    using L undo ch(3) by (intro exI[of _ "(p3, hs1)"] exI[of _ ?l] exI[of _ "es1 @ es2"]) (auto simp: Let_def)
qed

definition no_records :: health_st where
  "no_records = \<lparr> hs_hosts = [], hs_last_persist = 0, hs_stored = None \<rparr>"

definition demo_pool :: node_pool where
  "demo_pool = finish_pool 5 (Some [''1'', ''2'', ''3'']) ''h'' (\<lambda>_. None) 7 0 1000 4 no_records"

text \<open>After a switch to client 9 the next lease runs on it.\<close>

lemma pool_serves_witness:
  "\<exists>st' l es. lease 0 5 ''h'' (\<lambda>_. None) (switch_to_client 9 demo_pool, no_records) = Some (st', l, es)
     \<and> nl_node l = 0 \<and> nl_client l = 9"
proof -
  have "pool_run ''h'' (switch_to_client 9 demo_pool, no_records) [] (Some 9)"
    unfolding demo_pool_def by (rule pool_run.switches[OF pool_run.starts])
  from pool_serves[OF this, of 0 5 "\<lambda>_. None"] show ?thesis by (auto simp: Let_def)
qed

end
