(* ===== verification/Node_Candidates.thy ===== *)
theory Node_Candidates
  imports Node_Pool
begin

text \<open>
  Where the nodes of a pool come from (\<^verbatim>\<open>native/engine/src/cdn/resolver.rs\<close>, \<^verbatim>\<open>cdn/hints.rs\<close>,
  \<^verbatim>\<open>cdn/mod.rs\<close>): the answers of the system resolver and of the DNS-over-HTTPS endpoints, merged and
  cached, reordered by the hints of the cloud, filtered by a connection attempt.  The network is the
  record of its answers.
\<close>

section \<open>Resolution\<close>

record resolver_endpoint =
  re_url :: string
  re_ecs :: bool

record candidate_set =
  cs_ips :: "string list"
  cs_sources :: nat
  cs_origins :: "(string, string) btree"

definition no_candidates :: candidate_set where
  "no_candidates = \<lparr> cs_ips = [], cs_sources = 0, cs_origins = [] \<rparr>"

record resolver_env =
  rs_system :: "string list"                                     \<comment> \<open>\<^verbatim>\<open>query_system_dns\<close>\<close>
  rs_doh :: "string \<Rightarrow> string \<Rightarrow> string \<Rightarrow> string list"        \<comment> \<open>\<^verbatim>\<open>query_doh\<close>: address, record type, subnet\<close>
  rs_host :: "string \<Rightarrow> string"                                 \<comment> \<open>\<^verbatim>\<open>endpoint_host\<close>\<close>
  rs_dynamic :: "resolver_endpoint list"
  rs_subnets :: "string list"

definition resolver_cache_ttl :: nat where "resolver_cache_ttl = 300000"
definition max_ecs_queries :: nat where "max_ecs_queries = 8"

definition builtin_endpoints :: "resolver_endpoint list" where
  "builtin_endpoints =
     [\<lparr> re_url = ''https://223.5.5.5/resolve'', re_ecs = True \<rparr>,
      \<lparr> re_url = ''https://1.1.1.1/dns-query'', re_ecs = False \<rparr>]"

definition effective_endpoints :: "resolver_env \<Rightarrow> resolver_endpoint list" where
  "effective_endpoints env = (if rs_dynamic env \<noteq> [] then rs_dynamic env else builtin_endpoints)"

definition add_source :: "candidate_set \<Rightarrow> string \<times> string list \<Rightarrow> candidate_set" where
  "add_source = (\<lambda>cs (label, ips).
     foldl (\<lambda>cs ip. if ip \<in> set (cs_ips cs) then cs
                else cs\<lparr>cs_ips := cs_ips cs @ [ip], cs_origins := bt_insert ip label (cs_origins cs)\<rparr>)
       (cs\<lparr>cs_sources := (if ips = [] then cs_sources cs else min (cs_sources cs + 1) 255)\<rparr>) ips)"

definition merge_candidates :: "string list \<Rightarrow> (string \<times> string list) list \<Rightarrow> candidate_set" where
  "merge_candidates system labeled = foldl add_source no_candidates ((''sys'', system) # labeled)"

text \<open>The labelled answers: every endpoint on both record types, then the subnets of those that take one.\<close>

definition doh_answers :: "resolver_env \<Rightarrow> (string \<times> string list) list" where
  "doh_answers env =
     map (\<lambda>ep. (''doh:'' @ rs_host env (re_url ep), rs_doh env (re_url ep) ''A'' [] @ rs_doh env (re_url ep) ''AAAA'' []))
       (effective_endpoints env)"

definition ecs_answers :: "resolver_env \<Rightarrow> (string \<times> string list) list" where
  "ecs_answers env =
     map (\<lambda>(url, subnet). (''ecs:'' @ rs_host env url, rs_doh env url ''A'' subnet))
       (take max_ecs_queries
         (concat (map (\<lambda>ep. map (Pair (re_url ep)) (rs_subnets env)) (filter re_ecs (effective_endpoints env)))))"

type_synonym resolver_cache = "(string, nat \<times> candidate_set) btree"

definition resolve_candidates ::
  "nat \<Rightarrow> string \<Rightarrow> resolver_env \<Rightarrow> resolver_cache \<Rightarrow> candidate_set \<times> resolver_cache" where
  "resolve_candidates t host env cache =
     (case bt_get cache host of
        Some (since, cs) \<Rightarrow> if t - since < resolver_cache_ttl then (cs, cache) else
          (let cs' = merge_candidates (rs_system env) (doh_answers env @ ecs_answers env)
           in (cs', bt_insert host (t, cs') (filter (\<lambda>(h, since, _). t - since < resolver_cache_ttl) cache)))
      | None \<Rightarrow>
          (let cs' = merge_candidates (rs_system env) (doh_answers env @ ecs_answers env)
           in (cs', bt_insert host (t, cs') (filter (\<lambda>(h, since, _). t - since < resolver_cache_ttl) cache))))"

section \<open>Aggregation\<close>

definition order_by_hints :: "string list \<Rightarrow> string list \<Rightarrow> string list" where
  "order_by_hints cands hints =
     (if hints = [] \<or> cands = [] then cands
      else let hinted = foldl (\<lambda>acc h. if h \<in> set cands \<and> h \<notin> set acc then acc @ [h] else acc) [] hints
           in hinted @ filter (\<lambda>c. c \<notin> set hinted) cands)"

text \<open>What the background task yields: the living candidates and the origin of every address.\<close>

definition aggregate :: "candidate_set \<Rightarrow> string list \<Rightarrow> (string \<Rightarrow> bool) \<Rightarrow> string list \<times> (string, string) btree" where
  "aggregate cs hints alive =
     (if length (cs_ips cs) < 2 then ([], [])
      else (take max_nodes_limit (filter alive (order_by_hints (cs_ips cs) hints)), cs_origins cs))"

record aggregation_env =
  ae_resolver :: resolver_env
  ae_hints :: "string list"
  ae_alive :: "string \<Rightarrow> bool"       \<comment> \<open>the connection attempt of \<^verbatim>\<open>probe_alive\<close>\<close>
  ae_joined :: bool                 \<comment> \<open>the background task did not panic\<close>
  ae_is_ip :: "string \<Rightarrow> bool"
  ae_cap :: "int option"

record pool_request =
  pr_enabled :: bool
  pr_max_nodes :: nat
  pr_range_verified :: bool
  pr_url :: "parsed_url option"
  pr_client :: nat
  pr_total :: int
  pr_segments :: int

text \<open>\<^verbatim>\<open>spawn_aggregation\<close> and, once the size is known, \<^verbatim>\<open>finish_pool\<close>.\<close>

definition task_pool ::
  "nat \<Rightarrow> nat \<Rightarrow> aggregation_env \<Rightarrow> pool_request \<Rightarrow> resolver_cache \<times> health_st \<Rightarrow> node_pool \<times> resolver_cache" where
  "task_pool t now env rq = (\<lambda>(cache, hs).
     (case aggregation_gates_open (pr_enabled rq) (pr_range_verified rq) (pr_url rq) (ae_is_ip env) (ae_cap env) now hs of
        None \<Rightarrow> (single_pool (pr_client rq), cache)
      | Some (host, port) \<Rightarrow>
          let (cs, cache') = resolve_candidates t host (ae_resolver env) cache;
              (ips, origins) = aggregate cs (ae_hints env) (ae_alive env)
          in (if ae_joined env
              then finish_pool now (Some ips) host (bt_get origins) (pr_client rq) (pr_max_nodes rq)
                     (pr_total rq) (pr_segments rq) hs
              else single_pool (pr_client rq), cache')))"

section \<open>Facts\<close>

lemma add_source_ips:
  assumes "distinct (cs_ips cs)"
  shows "distinct (cs_ips (add_source cs (l, ips))) \<and> set (cs_ips (add_source cs (l, ips))) = set (cs_ips cs) \<union> set ips"
proof -
  have F: "distinct (cs_ips c) \<Longrightarrow>
    distinct (cs_ips (foldl (\<lambda>cs ip. if ip \<in> set (cs_ips cs) then cs
                else cs\<lparr>cs_ips := cs_ips cs @ [ip], cs_origins := bt_insert ip l (cs_origins cs)\<rparr>) c ips))
    \<and> set (cs_ips (foldl (\<lambda>cs ip. if ip \<in> set (cs_ips cs) then cs
                else cs\<lparr>cs_ips := cs_ips cs @ [ip], cs_origins := bt_insert ip l (cs_origins cs)\<rparr>) c ips))
      = set (cs_ips c) \<union> set ips" for c
    by (induction ips arbitrary: c) auto
  show ?thesis unfolding add_source_def using assms by (simp add: F)
qed

lemma merge_ips:
  "distinct (cs_ips (merge_candidates sys labeled)) \<and> set (cs_ips (merge_candidates sys labeled)) = set sys \<union> (\<Union>a \<in> set labeled. set (snd a))"
proof -
  have "distinct (cs_ips cs) \<Longrightarrow> distinct (cs_ips (foldl add_source cs srcs))
    \<and> set (cs_ips (foldl add_source cs srcs)) = set (cs_ips cs) \<union> (\<Union>a \<in> set srcs. set (snd a))" for cs srcs
  proof (induction srcs arbitrary: cs)
    case (Cons s ss)
    obtain l ips where s: "s = (l, ips)" by (cases s)
    show ?case using Cons.IH[of "add_source cs s"] add_source_ips[OF Cons.prems, of l ips] by (auto simp: s)
  qed simp
  from this[of no_candidates "(''sys'', sys) # labeled"] show ?thesis
    by (auto simp: merge_candidates_def no_candidates_def)
qed

text \<open>Hints only reorder: they neither add nor drop a candidate.\<close>

lemma order_by_hints_perm:
  assumes "distinct cands"
  shows "distinct (order_by_hints cands hints) \<and> set (order_by_hints cands hints) = set cands"
proof -
  let ?step = "\<lambda>acc h. if h \<in> set cands \<and> h \<notin> set acc then acc @ [h] else acc"
  have inv: "distinct acc \<and> set acc \<subseteq> set cands \<Longrightarrow>
      distinct (foldl ?step acc hs) \<and> set (foldl ?step acc hs) \<subseteq> set cands" for acc hs
    by (induction hs arbitrary: acc) auto
  have "distinct (foldl ?step [] hints) \<and> set (foldl ?step [] hints) \<subseteq> set cands" by (rule inv) simp
  then show ?thesis using assms by (auto simp: order_by_hints_def Let_def)
qed

text \<open>An address an earlier or the present resolution of the host gave.\<close>

definition answered :: "resolver_env \<Rightarrow> string set" where
  "answered env = set (rs_system env) \<union> (\<Union>a \<in> set (doh_answers env @ ecs_answers env). set (snd a))"

definition cache_sound :: "nat \<Rightarrow> resolver_cache \<Rightarrow> (string \<Rightarrow> string set) \<Rightarrow> bool" where
  "cache_sound t cache known \<longleftrightarrow> bt_wf cache \<and> (\<forall>h since cs. bt_get cache h = Some (since, cs) \<longrightarrow>
     distinct (cs_ips cs) \<and> (t - since < resolver_cache_ttl \<longrightarrow> set (cs_ips cs) \<subseteq> known h))"

lemma resolve_sound:
  assumes "cache_sound t cache known" "resolve_candidates t host env cache = (cs, cache')"
  shows "distinct (cs_ips cs)" "set (cs_ips cs) \<subseteq> known host \<union> answered env"
proof -
  let ?m = "merge_candidates (rs_system env) (doh_answers env @ ecs_answers env)"
  have m: "distinct (cs_ips ?m)" "set (cs_ips ?m) = answered env" using merge_ips by (simp_all add: answered_def)
  have "distinct (cs_ips cs) \<and> set (cs_ips cs) \<subseteq> known host \<union> answered env"
  proof (cases "bt_get cache host")
    case None
    then show ?thesis using assms m by (auto simp: resolve_candidates_def Let_def)
  next
    case (Some x)
    obtain since c0 where x: "x = (since, c0)" by (cases x)
    have "distinct (cs_ips c0)" "t - since < resolver_cache_ttl \<Longrightarrow> set (cs_ips c0) \<subseteq> known host"
      using assms(1) Some unfolding cache_sound_def x by blast+
    then show ?thesis using assms(2) m Some by (auto simp: x resolve_candidates_def Let_def split: if_splits)
  qed
  then show "distinct (cs_ips cs)" "set (cs_ips cs) \<subseteq> known host \<union> answered env" by simp_all
qed

lemma bt_get_filtered: "bt_wf m \<Longrightarrow> bt_get (filter P m) k = Some v \<Longrightarrow> bt_get m k = Some v"
proof -
  assume "bt_wf m" and g: "bt_get (filter P m) k = Some v"
  then have "distinct (map fst m)" by (simp add: bt_wf_def strict_sorted_iff)
  then show ?thesis using g by (simp add: bt_get_map_of map_of_eq_Some_iff distinct_map_filter)
qed

lemma resolve_cache_sound:
  assumes "cache_sound t cache known" "resolve_candidates t host env cache = (cs, cache')"
  shows "cache_sound t cache' (\<lambda>h. known h \<union> answered env)"
proof -
  let ?m = "merge_candidates (rs_system env) (doh_answers env @ ecs_answers env)"
  have m: "distinct (cs_ips ?m)" "set (cs_ips ?m) = answered env" using merge_ips by (simp_all add: answered_def)
  have w: "bt_wf cache" using assms(1) by (simp add: cache_sound_def)
  have "cache_sound t (bt_insert host (t, ?m) (filter (\<lambda>(h, since, _). t - since < resolver_cache_ttl) cache)) (\<lambda>h. known h \<union> answered env)"
    using assms(1) m w
    by (auto simp: cache_sound_def bt_wf_insert bt_wf_filter bt_get_insert dest!: bt_get_filtered[OF w])
  moreover have "cache_sound t cache (\<lambda>h. known h \<union> answered env)"
    using assms(1) by (auto simp: cache_sound_def)
  ultimately show ?thesis
    using assms(2) by (auto simp: resolve_candidates_def Let_def split: option.splits if_splits)
qed

lemma auto_max_nodes_le: "auto_max_nodes total_bytes cap \<le> max_nodes_limit"
  unfolding auto_max_nodes_def Let_def max_nodes_limit_def by (intro max.boundedI min.cobounded1) simp

lemma two_nodes: "2 \<le> max_nodes_limit"
  by (simp add: max_nodes_limit_def)

section \<open>The property\<close>

text \<open>
  C22.  A pool pins only addresses that the local resolution of the host gave and that accepted a
  connection, each once and at most eight; the hints of the cloud bring in none.  It pins at all only
  for a verified HTTPS download from a named host that is neither limited to one connection nor marked
  against aggregation.  The cache of resolutions stays truthful.
\<close>

theorem pool_pins_only_resolved:
  assumes "cache_sound t cache known" "task_pool t now env rq (cache, hs) = (p, cache')"
  shows "(\<exists>ips. map ns_ip (np_slots p) = None # map Some ips \<and> distinct ips \<and> length ips \<le> max_nodes_limit
      \<and> (ips \<noteq> [] \<longrightarrow> 2 \<le> length ips \<and> pr_enabled rq \<and> pr_range_verified rq \<and> ae_cap env \<noteq> Some 1
          \<and> (\<exists>u host. pr_url rq = Some u \<and> pu_scheme u = ''https'' \<and> pu_host u = Some host \<and> \<not> ae_is_ip env host
               \<and> \<not> is_no_aggregate now host hs
               \<and> (\<forall>ip \<in> set ips. ae_alive env ip \<and> ip \<in> known host \<union> answered (ae_resolver env)))))
    \<and> cache_sound t cache' (\<lambda>h. known h \<union> answered (ae_resolver env))"
proof (cases "aggregation_gates_open (pr_enabled rq) (pr_range_verified rq) (pr_url rq) (ae_is_ip env) (ae_cap env) now hs")
  case None
  then have "p = single_pool (pr_client rq)" "cache' = cache" using assms(2) by (simp_all add: task_pool_def)
  then show ?thesis using assms(1) by (auto simp: single_pool_def pool_of_def fresh_slot_def cache_sound_def)
next
  case (Some hp)
  obtain host port where hp: "hp = (host, port)" by (cases hp)
  obtain cs c1 where r: "resolve_candidates t host (ae_resolver env) cache = (cs, c1)" by fastforce
  obtain ips origins where a: "aggregate cs (ae_hints env) (ae_alive env) = (ips, origins)" by fastforce
  have gates: "pr_enabled rq" "pr_range_verified rq" "ae_cap env \<noteq> Some 1" "\<not> is_no_aggregate now host hs"
      "\<not> ae_is_ip env host" "\<exists>u. pr_url rq = Some u \<and> pu_scheme u = ''https'' \<and> pu_host u = Some host"
    using Some unfolding hp aggregation_gates_open_def
    by (auto split: if_splits simp: Option.bind_eq_Some_conv)
  have d: "distinct ips" "set ips \<subseteq> {ip \<in> known host \<union> answered (ae_resolver env). ae_alive env ip}"
    using a resolve_sound[OF assms(1) r] order_by_hints_perm[of "cs_ips cs" "ae_hints env"]
    by (auto simp: aggregate_def distinct_filter dest!: in_set_takeD split: if_splits)
  have c1: "cache' = c1" using assms(2) Some by (simp add: task_pool_def hp r a)
  let ?ips = "take (max (if pr_max_nodes rq = 0 then auto_max_nodes (pr_total rq) (pr_segments rq)
      else min (pr_max_nodes rq) max_nodes_limit) 2) ips"
  have p: "p = single_pool (pr_client rq) \<or> 2 \<le> length ?ips \<and> p = multi_pool now host ?ips (bt_get origins) (pr_client rq) hs"
    using assms(2) Some by (auto simp: task_pool_def hp r a finish_pool_def Let_def split: if_splits)
  have n: "length ?ips \<le> max_nodes_limit"
    using auto_max_nodes_le[of "pr_total rq" "pr_segments rq"] two_nodes by (simp add: min_le_iff_disj)
  have multi: "map ns_ip (np_slots (multi_pool now host xs f c hs)) = None # map Some xs" for xs f c
    by (simp add: multi_pool_def pool_of_def fresh_slot_def comp_def)
  have snd: "cache_sound t cache' (\<lambda>h. known h \<union> answered (ae_resolver env))"
    using resolve_cache_sound[OF assms(1) r] by (simp add: c1)
  from p show ?thesis
  proof
    assume "p = single_pool (pr_client rq)"
    then show ?thesis using snd by (auto simp: single_pool_def pool_of_def fresh_slot_def)
  next
    assume P: "2 \<le> length ?ips \<and> p = multi_pool now host ?ips (bt_get origins) (pr_client rq) hs"
    have all: "\<forall>ip \<in> set ?ips. ae_alive env ip \<and> ip \<in> known host \<union> answered (ae_resolver env)"
      using d(2) set_take_subset[of _ ips] by blast
    have "distinct ?ips" using d(1) by (rule distinct_take)
    then show ?thesis using snd P n gates all multi by (intro conjI exI[of _ ?ips]) blast+
  qed
qed

text \<open>The hint for an address that nobody resolved is without effect.\<close>

definition demo_aggregation :: aggregation_env where
  "demo_aggregation =
     \<lparr> ae_resolver = \<lparr> rs_system = [''a'', ''b''], rs_doh = (\<lambda>_ _ _. [''b'', ''c'']), rs_host = id, rs_dynamic = [], rs_subnets = [] \<rparr>,
       ae_hints = [''x'', ''c''], ae_alive = (\<lambda>ip. ip \<noteq> ''b''), ae_joined = True, ae_is_ip = (\<lambda>_. False), ae_cap = None \<rparr>"

definition demo_request :: pool_request where
  "demo_request =
     \<lparr> pr_enabled = True, pr_max_nodes = 0, pr_range_verified = True,
       pr_url = Some \<lparr> pu_scheme = ''https'', pu_host = Some ''h'', pu_port = Some 443 \<rparr>,
       pr_client = 7, pr_total = 1000, pr_segments = 4 \<rparr>"

lemma pool_pins_only_resolved_witness:
  "\<exists>p c. task_pool 0 5 demo_aggregation demo_request ([], \<lparr> hs_hosts = [], hs_last_persist = 0, hs_stored = None \<rparr>) = (p, c)
     \<and> map ns_ip (np_slots p) = [None, Some ''c'', Some ''a'']
     \<and> cache_sound 0 c (\<lambda>_. answered (ae_resolver demo_aggregation))"
proof -
  let ?hs = "\<lparr> hs_hosts = [], hs_last_persist = 0, hs_stored = None \<rparr>"
  let ?r = "task_pool 0 5 demo_aggregation demo_request ([], ?hs)"
  have "cache_sound 0 [] (\<lambda>_. {})" by (simp add: cache_sound_def bt_wf_def)
  from pool_pins_only_resolved[OF this, of 5 demo_aggregation demo_request ?hs "fst ?r" "snd ?r"]
  have "cache_sound 0 (snd ?r) (\<lambda>_. answered (ae_resolver demo_aggregation))" by simp
  moreover have "map ns_ip (np_slots (fst ?r)) = [None, Some ''c'', Some ''a'']"
    by (simp add: task_pool_def demo_request_def demo_aggregation_def aggregation_gates_open_def is_no_aggregate_def
        resolve_candidates_def merge_candidates_def add_source_def no_candidates_def doh_answers_def ecs_answers_def
        effective_endpoints_def builtin_endpoints_def aggregate_def order_by_hints_def finish_pool_def
        auto_max_nodes_def max_nodes_limit_def multi_pool_def pool_of_def fresh_slot_def Let_def)
  ultimately show ?thesis by (intro exI[of _ "fst ?r"] exI[of _ "snd ?r"]) simp
qed

end
