(* ===== verification/Route_Health.thy ===== *)
theory Route_Health
  imports Node_Health
begin

text \<open>
  What automatic proxy mode remembers of a host across restarts (\<^verbatim>\<open>native/engine/src/route_health.rs\<close>):
  proxy wins, samples without advantage, versions that differed.  Times are Unix seconds; every
  operation takes the clock and the fingerprint of the network at its time (empty: the network is not
  ready).  A write to the configuration row is a task of its own: it checks its number, then its
  statement waits for the database, then it lands.  The row is what \<^verbatim>\<open>serde_json\<close> reads back, \<open>None\<close>
  when it is missing or cannot be parsed.
\<close>

section \<open>State\<close>

definition route_format_version :: nat where "route_format_version = 1"
definition route_ttl :: nat where "route_ttl = 24 * 3600"
definition route_max_hosts :: nat where "route_max_hosts = 512"
definition cooldown_base_secs :: nat where "cooldown_base_secs = 300"
definition cooldown_max_shift :: nat where "cooldown_max_shift = 8"
definition proxy_confirm_gap_secs :: nat where "proxy_confirm_gap_secs = 12 * 3600"
definition proxy_ttl_max_secs :: nat where "proxy_ttl_max_secs = 7 * 24 * 3600"
definition adopt_min_confirms :: nat where "adopt_min_confirms = 2"
definition win_revalidate_secs :: nat where "win_revalidate_secs = 72 * 3600"

record host_route =
  hr_proxy_ts :: nat
  hr_proxy_bps :: real
  hr_proxy_n :: nat
  hr_confirm_ts :: nat
  hr_cool_n :: nat
  hr_cool_ts :: nat
  hr_nosw_ts :: nat
  hr_win_ts :: nat

definition no_route :: host_route where
  "no_route = \<lparr> hr_proxy_ts = 0, hr_proxy_bps = 0, hr_proxy_n = 0, hr_confirm_ts = 0, hr_cool_n = 0,
     hr_cool_ts = 0, hr_nosw_ts = 0, hr_win_ts = 0 \<rparr>"

type_synonym route_map = "(string, host_route) btree"

record route_file =
  rf_v :: nat
  rf_net :: string
  rf_hosts :: route_map

datatype route_hint = SuppressProbe | FastReeval | AdoptProxy

record route_st =
  rt_map :: route_map
  rt_epoch :: string
  rt_pending :: "route_file option"
  rt_seq :: nat
  rt_writes :: "(nat \<times> route_file) list"    \<comment> \<open>writes that have not checked their number yet\<close>
  rt_landing :: "route_file list"             \<comment> \<open>writes past the check, in the database's queue\<close>
  rt_disk :: "route_file option"

section \<open>Single entries\<close>

definition fresh_within :: "nat \<Rightarrow> nat \<Rightarrow> nat \<Rightarrow> bool" where
  "fresh_within recorded ttl now \<longleftrightarrow> 0 < recorded \<and> recorded \<le> now \<and> now - recorded < ttl"

definition route_fresh :: "nat \<Rightarrow> nat \<Rightarrow> bool" where
  "route_fresh recorded now = fresh_within recorded route_ttl now"

definition cooldown_window_secs :: "nat \<Rightarrow> nat" where
  "cooldown_window_secs n = min (sat_mul_u64 cooldown_base_secs (2 ^ min n cooldown_max_shift)) route_ttl"

definition proxy_ttl_secs :: "nat \<Rightarrow> nat" where
  "proxy_ttl_secs n = min (sat_mul_u64 route_ttl (2 ^ min (n - 1) 3)) proxy_ttl_max_secs"

definition sat_inc_u32 :: "nat \<Rightarrow> nat" where
  "sat_inc_u32 n = min (n + 1) (2 ^ 32 - 1)"

definition bump_proxy_confirm :: "nat \<Rightarrow> host_route \<Rightarrow> host_route" where
  "bump_proxy_confirm now e =
     (let e1 = (if hr_confirm_ts e = 0 \<or> proxy_confirm_gap_secs < now - hr_confirm_ts e
                then e\<lparr>hr_proxy_n := sat_inc_u32 (hr_proxy_n e), hr_confirm_ts := now\<rparr> else e)
      in e1\<lparr>hr_proxy_ts := now\<rparr>)"

definition hint_for :: "nat \<Rightarrow> host_route \<Rightarrow> route_hint option" where
  "hint_for now e =
     (if route_fresh (hr_nosw_ts e) now then Some SuppressProbe
      else if fresh_within (hr_cool_ts e) (cooldown_window_secs (hr_cool_n e)) now then Some SuppressProbe
      else if fresh_within (hr_proxy_ts e) (proxy_ttl_secs (hr_proxy_n e)) now then
        Some (if adopt_min_confirms \<le> hr_proxy_n e \<and> fresh_within (hr_win_ts e) win_revalidate_secs now
              then AdoptProxy else FastReeval)
      else None)"

definition drop_prior :: "host_route \<Rightarrow> host_route" where
  "drop_prior e = e\<lparr>hr_proxy_ts := 0, hr_proxy_bps := 0, hr_proxy_n := 0, hr_win_ts := 0, hr_confirm_ts := 0\<rparr>"

definition prune_route :: "nat \<Rightarrow> host_route \<Rightarrow> host_route" where
  "prune_route now e =
     (let e1 = (if fresh_within (hr_proxy_ts e) (proxy_ttl_secs (hr_proxy_n e)) now then e else drop_prior e);
          e2 = (if route_fresh (hr_cool_ts e1) now then e1 else e1\<lparr>hr_cool_n := 0, hr_cool_ts := 0\<rparr>)
      in (if route_fresh (hr_nosw_ts e2) now then e2 else e2\<lparr>hr_nosw_ts := 0\<rparr>))"

definition newest_route :: "host_route \<Rightarrow> nat" where
  "newest_route e = max (max (hr_proxy_ts e) (hr_cool_ts e)) (hr_nosw_ts e)"

definition route_prune :: "nat \<Rightarrow> route_map \<Rightarrow> route_map" where
  "route_prune now m =
     retain_newest route_max_hosts newest_route
       (filter (\<lambda>(h, e). hr_proxy_ts e \<noteq> 0 \<or> hr_cool_ts e \<noteq> 0 \<or> hr_nosw_ts e \<noteq> 0)
         (map (\<lambda>(h, e). (h, prune_route now e)) m))"

section \<open>The network\<close>

text \<open>\<^verbatim>\<open>map.entry(host).or_insert(entry)\<close> over the pruned entries of a file.\<close>

definition take_in :: "nat \<Rightarrow> route_map \<Rightarrow> route_map \<Rightarrow> route_map" where
  "take_in now hosts m =
     foldl (\<lambda>m (h, e). if bt_get m h = None then bt_insert h e m else m) m (route_prune now hosts)"

definition adopt_pending :: "nat \<Rightarrow> string \<Rightarrow> route_st \<Rightarrow> route_st" where
  "adopt_pending now fp s =
     (case rt_pending s of
        None \<Rightarrow> s
      | Some f \<Rightarrow>
          if rf_net f \<noteq> fp then s\<lparr>rt_pending := None\<rparr>
          else s\<lparr>rt_pending := None, rt_map := take_in now (rf_hosts f) (rt_map s)\<rparr>)"

definition ensure_net_epoch :: "nat \<Rightarrow> string \<Rightarrow> route_st \<Rightarrow> route_st" where
  "ensure_net_epoch now fp s =
     (if fp = [] \<or> rt_epoch s = fp then s
      else if rt_epoch s \<noteq> [] then s\<lparr>rt_epoch := fp, rt_map := [], rt_pending := None\<rparr>
      else adopt_pending now fp (s\<lparr>rt_epoch := fp\<rparr>))"

text \<open>Start of the engine, with the fingerprint at that time.\<close>

definition load_routes :: "nat \<Rightarrow> string \<Rightarrow> route_st \<Rightarrow> route_st" where
  "load_routes now fp s0 =
     (let s = s0\<lparr>rt_epoch := fp\<rparr> in
      case rt_disk s of
        None \<Rightarrow> s
      | Some f \<Rightarrow>
          if rf_v f \<noteq> route_format_version then s
          else if fp = [] then s\<lparr>rt_pending := Some f\<rparr>
          else if rf_net f \<noteq> fp then s
          else s\<lparr>rt_map := take_in now (rf_hosts f) (rt_map s)\<rparr>)"

section \<open>Operations\<close>

definition route_entry :: "string \<Rightarrow> route_map \<Rightarrow> host_route" where
  "route_entry host m = (case bt_get m host of Some e \<Rightarrow> e | None \<Rightarrow> no_route)"

definition spawn_write :: "route_file \<Rightarrow> route_st \<Rightarrow> route_st" where
  "spawn_write f s = s\<lparr>rt_seq := rt_seq s + 1, rt_writes := rt_writes s @ [(rt_seq s + 1, f)]\<rparr>"

definition route_persist :: "nat \<Rightarrow> route_st \<Rightarrow> route_st" where
  "route_persist now s =
     (if rt_epoch s = [] then s
      else let m = route_prune now (rt_map s)
           in spawn_write \<lparr> rf_v = route_format_version, rf_net = rt_epoch s, rf_hosts = m \<rparr> (s\<lparr>rt_map := m\<rparr>))"

definition edit_route :: "nat \<Rightarrow> string \<Rightarrow> string \<Rightarrow> (host_route \<Rightarrow> host_route) \<Rightarrow> route_st \<Rightarrow> route_st" where
  "edit_route now fp host f s0 =
     (let s = ensure_net_epoch now fp s0
      in route_persist now (s\<lparr>rt_map := bt_insert host (f (route_entry host (rt_map s))) (rt_map s)\<rparr>))"

definition startup_hint :: "nat \<Rightarrow> string \<Rightarrow> string \<Rightarrow> route_st \<Rightarrow> route_hint option \<times> route_st" where
  "startup_hint now fp host s0 =
     (let s = ensure_net_epoch now fp s0 in (Option.bind (bt_get (rt_map s) host) (hint_for now), s))"

definition no_switch_active :: "nat \<Rightarrow> string \<Rightarrow> string \<Rightarrow> route_st \<Rightarrow> bool \<times> route_st" where
  "no_switch_active now fp host s0 =
     (let s = ensure_net_epoch now fp s0
      in (case bt_get (rt_map s) host of Some e \<Rightarrow> route_fresh (hr_nosw_ts e) now | None \<Rightarrow> False, s))"

definition record_proxy_win :: "nat \<Rightarrow> string \<Rightarrow> string \<Rightarrow> real \<Rightarrow> route_st \<Rightarrow> route_st" where
  "record_proxy_win now fp host bps =
     edit_route now fp host
       (\<lambda>e. (bump_proxy_confirm now e)\<lparr>hr_win_ts := now, hr_proxy_bps := bps, hr_cool_n := 0, hr_cool_ts := 0\<rparr>)"

definition record_cooldown :: "nat \<Rightarrow> string \<Rightarrow> string \<Rightarrow> route_st \<Rightarrow> route_st" where
  "record_cooldown now fp host =
     edit_route now fp host (\<lambda>e. e\<lparr>hr_cool_n := sat_inc_u32 (hr_cool_n e), hr_cool_ts := now\<rparr>)"

definition record_no_switch :: "nat \<Rightarrow> string \<Rightarrow> string \<Rightarrow> route_st \<Rightarrow> route_st" where
  "record_no_switch now fp host = edit_route now fp host (\<lambda>e. e\<lparr>hr_nosw_ts := now\<rparr>)"

definition touch_proxy_route :: "nat \<Rightarrow> string \<Rightarrow> string \<Rightarrow> route_st \<Rightarrow> route_st" where
  "touch_proxy_route now fp host = edit_route now fp host (bump_proxy_confirm now)"

definition clear_proxy_prior :: "nat \<Rightarrow> string \<Rightarrow> string \<Rightarrow> route_st \<Rightarrow> route_st" where
  "clear_proxy_prior now fp host s0 =
     (let s = ensure_net_epoch now fp s0 in route_persist now (s\<lparr>rt_map := bt_adjust host drop_prior (rt_map s)\<rparr>))"

definition clear_all_routes :: "route_st \<Rightarrow> route_st" where
  "clear_all_routes s =
     spawn_write \<lparr> rf_v = route_format_version, rf_net = rt_epoch s, rf_hosts = [] \<rparr>
       (s\<lparr>rt_pending := None, rt_map := []\<rparr>)"

text \<open>The two halves of a write: the check of its number, and the statement taking effect.\<close>

definition write_checks :: "nat \<Rightarrow> route_st \<Rightarrow> route_st" where
  "write_checks i s =
     (if length (rt_writes s) \<le> i then s
      else let (n, f) = rt_writes s ! i;
               s1 = s\<lparr>rt_writes := take i (rt_writes s) @ drop (Suc i) (rt_writes s)\<rparr>
           in if rt_seq s \<noteq> n then s1 else s1\<lparr>rt_landing := rt_landing s @ [f]\<rparr>)"

definition write_lands :: "nat \<Rightarrow> route_st \<Rightarrow> route_st" where
  "write_lands i s =
     (if length (rt_landing s) \<le> i then s
      else s\<lparr>rt_disk := Some (rt_landing s ! i),
             rt_landing := take i (rt_landing s) @ drop (Suc i) (rt_landing s)\<rparr>)"

text \<open>The end of the process, and the next one: only the row survives.\<close>

definition route_boot :: "nat \<Rightarrow> string \<Rightarrow> route_st \<Rightarrow> route_st" where
  "route_boot now fp s =
     load_routes now fp
       \<lparr> rt_map = [], rt_epoch = [], rt_pending = None, rt_seq = 0, rt_writes = [], rt_landing = [], rt_disk = rt_disk s \<rparr>"

section \<open>Runs\<close>

datatype route_op =
    Win string real | Touch string | Cool string | NoSwitch string | Forget string | ForgetAll
  | Ask string | WriteChecks nat | WriteLands nat | Boot

type_synonym route_event = "nat \<times> string \<times> route_op"    \<comment> \<open>clock, fingerprint, operation\<close>

fun route_step :: "route_event \<Rightarrow> route_st \<Rightarrow> route_st" where
  "route_step (t, fp, Win h b) s = record_proxy_win t fp h b s"
| "route_step (t, fp, Touch h) s = touch_proxy_route t fp h s"
| "route_step (t, fp, Cool h) s = record_cooldown t fp h s"
| "route_step (t, fp, NoSwitch h) s = record_no_switch t fp h s"
| "route_step (t, fp, Forget h) s = clear_proxy_prior t fp h s"
| "route_step (t, fp, ForgetAll) s = clear_all_routes s"
| "route_step (t, fp, Ask h) s = snd (startup_hint t fp h s)"
| "route_step (t, fp, WriteChecks i) s = write_checks i s"
| "route_step (t, fp, WriteLands i) s = write_lands i s"
| "route_step (t, fp, Boot) s = route_boot t fp s"

definition route_run :: "route_event list \<Rightarrow> route_st \<Rightarrow> route_st" where
  "route_run es s = foldl (\<lambda>s e. route_step e s) s es"

definition new_routes :: route_st where
  "new_routes = \<lparr> rt_map = [], rt_epoch = [], rt_pending = None, rt_seq = 0, rt_writes = [], rt_landing = [], rt_disk = None \<rparr>"

end
