(* ===== verification/Route_Props.thy ===== *)
theory Route_Props
  imports Route_Health
begin

text \<open>
  When a task may start on a proxy because of what is remembered: only on evidence, across restarts,
  and after a failure only on new evidence.  And where the order of the writes breaks that promise.
\<close>

section \<open>Claims on every entry\<close>

text \<open>
  A claim on the entries of hosts that the operations without evidence keep: resets, expiry and
  samples without advantage.  Everything the store does with whole maps keeps it too.
\<close>

locale entry_claim =
  fixes ok :: "string \<Rightarrow> host_route \<Rightarrow> bool"
  assumes ok_none: "ok h no_route"
    and ok_drop: "ok h e \<Longrightarrow> ok h (drop_prior e)"
    and ok_cool: "ok h e \<Longrightarrow> ok h (e\<lparr>hr_cool_n := b, hr_cool_ts := a\<rparr>)"
    and ok_nosw: "ok h e \<Longrightarrow> ok h (e\<lparr>hr_nosw_ts := a\<rparr>)"
begin

definition held :: "route_map \<Rightarrow> bool" where
  "held m \<longleftrightarrow> (\<forall>h e. (h, e) \<in> set m \<longrightarrow> ok h e)"

definition held_file :: "route_file option \<Rightarrow> bool" where
  "held_file f \<longleftrightarrow> (case f of None \<Rightarrow> True | Some f \<Rightarrow> held (rf_hosts f))"

definition in_memory :: "route_st \<Rightarrow> bool" where
  "in_memory s \<longleftrightarrow> held (rt_map s) \<and> held_file (rt_pending s)"

definition in_store :: "route_st \<Rightarrow> bool" where
  "in_store s \<longleftrightarrow> held_file (rt_disk s) \<and> (\<forall>(n, f) \<in> set (rt_writes s). held (rf_hosts f))
     \<and> (\<forall>f \<in> set (rt_landing s). held (rf_hosts f))"

lemma held_empty: "held []"
  by (simp add: held_def)

lemma ok_prune: "ok h e \<Longrightarrow> ok h (prune_route now e)"
  by (simp add: prune_route_def Let_def ok_drop ok_cool ok_nosw)

lemma held_prune: "held m \<Longrightarrow> held (route_prune now m)"
  by (auto simp: held_def route_prune_def intro!: ok_prune dest!: subsetD[OF retain_newest_subset])

lemma held_insert: "held m \<Longrightarrow> ok h e \<Longrightarrow> held (bt_insert h e m)"
  unfolding held_def by (induction h e m rule: bt_insert.induct) auto

lemma held_adjust: "held m \<Longrightarrow> held (bt_adjust h drop_prior m)"
  by (auto simp: held_def bt_adjust_def ok_drop)

lemma ok_entry: "held m \<Longrightarrow> ok h (route_entry h m)"
  using ok_none by (auto simp: held_def route_entry_def bt_get_map_of split: option.split dest!: map_of_SomeD)

lemma held_take_in:
  assumes "held hosts" "held m"
  shows "held (take_in now hosts m)"
proof -
  have "held xs \<Longrightarrow> held m \<Longrightarrow> held (foldl (\<lambda>m (h, e). if bt_get m h = None then bt_insert h e m else m) m xs)" for xs m
  proof (induction xs arbitrary: m)
    case (Cons x xs)
    obtain h e where x: "x = (h, e)" by (cases x)
    have "ok h e" "held xs" using Cons.prems(1) by (simp_all add: held_def x)
    then show ?case using Cons.IH held_insert[OF Cons.prems(2)] Cons.prems(2) by (simp add: x)
  qed simp
  then show ?thesis unfolding take_in_def using assms held_prune by blast
qed

lemma memory_epoch: "in_memory s \<Longrightarrow> in_memory (ensure_net_epoch now fp s)"
  by (auto simp: in_memory_def ensure_net_epoch_def adopt_pending_def held_file_def held_empty held_take_in split: option.splits)

lemma store_epoch: "in_store (ensure_net_epoch now fp s) = in_store s"
  by (simp add: in_store_def ensure_net_epoch_def adopt_pending_def split: option.splits)

lemma memory_persist: "in_memory s \<Longrightarrow> in_memory (route_persist now s)"
  by (simp add: in_memory_def route_persist_def spawn_write_def Let_def held_prune)

lemma store_persist: "in_memory s \<Longrightarrow> in_store s \<Longrightarrow> in_store (route_persist now s)"
  by (auto simp: in_memory_def in_store_def route_persist_def spawn_write_def Let_def held_prune)

lemma memory_map: "in_memory s \<Longrightarrow> held m \<Longrightarrow> in_memory (s\<lparr>rt_map := m\<rparr>)"
  by (simp add: in_memory_def)

lemma store_map: "in_store (s\<lparr>rt_map := m\<rparr>) = in_store s"
  by (simp add: in_store_def)

lemma edited_entries:
  assumes "in_memory s" "\<And>e. ok host e \<Longrightarrow> ok host (f e)"
  shows "held (bt_insert host (f (route_entry host (rt_map s))) (rt_map s))"
  using assms by (simp add: in_memory_def held_insert ok_entry)

lemma memory_edit:
  assumes "in_memory s" "\<And>e. ok host e \<Longrightarrow> ok host (f e)"
  shows "in_memory (edit_route now fp host f s)"
  unfolding edit_route_def Let_def
  by (intro memory_persist memory_map edited_entries memory_epoch assms)

lemma store_edit:
  assumes "in_memory s" "in_store s" "\<And>e. ok host e \<Longrightarrow> ok host (f e)"
  shows "in_store (edit_route now fp host f s)"
proof -
  have "in_memory ((ensure_net_epoch now fp s)\<lparr>rt_map := bt_insert host (f (route_entry host (rt_map (ensure_net_epoch now fp s))))
      (rt_map (ensure_net_epoch now fp s))\<rparr>)"
    by (intro memory_map edited_entries memory_epoch assms)
  then show ?thesis unfolding edit_route_def Let_def by (rule store_persist) (simp only: store_map store_epoch assms(2))
qed

text \<open>One step: wins and confirmations are the only evidence that has to be accounted for.\<close>

lemma memory_step:
  assumes "in_memory s" "op \<noteq> Boot"
    and "\<And>h b e. op = Win h b \<Longrightarrow> ok h e \<Longrightarrow>
      ok h ((bump_proxy_confirm t e)\<lparr>hr_win_ts := t, hr_proxy_bps := b, hr_cool_n := 0, hr_cool_ts := 0\<rparr>)"
    and "\<And>h e. op = Touch h \<Longrightarrow> ok h e \<Longrightarrow> ok h (bump_proxy_confirm t e)"
  shows "in_memory (route_step (t, fp, op) s)"
proof (cases op)
  case (Cool h)
  show ?thesis unfolding Cool route_step.simps record_cooldown_def by (intro memory_edit[OF assms(1)] ok_cool)
next
  case (NoSwitch h)
  show ?thesis unfolding NoSwitch route_step.simps record_no_switch_def by (intro memory_edit[OF assms(1)] ok_nosw)
next
  case (Forget h)
  let ?s = "ensure_net_epoch t fp s"
  have "in_memory (?s\<lparr>rt_map := bt_adjust h drop_prior (rt_map ?s)\<rparr>)"
    using memory_epoch[OF assms(1), of t fp] by (simp add: in_memory_def held_adjust)
  then show ?thesis unfolding Forget route_step.simps clear_proxy_prior_def Let_def by (rule memory_persist)
next
  case (WriteChecks i)
  then show ?thesis using assms(1) by (simp add: in_memory_def write_checks_def Let_def split: prod.split)
qed (use assms memory_edit[OF assms(1)] memory_epoch[OF assms(1)] in
  \<open>simp_all add: record_proxy_win_def touch_proxy_route_def startup_hint_def Let_def clear_all_routes_def
     spawn_write_def in_memory_def held_empty held_file_def write_lands_def\<close>)

lemma store_checks: "in_store s \<Longrightarrow> in_store (write_checks i s)"
proof -
  assume s: "in_store s"
  obtain n f where x: "rt_writes s ! i = (n, f)" by (cases "rt_writes s ! i")
  have "held (rf_hosts f)" if "i < length (rt_writes s)"
    using s nth_mem[OF that] by (auto simp: in_store_def x)
  then show ?thesis using s
    by (auto simp: in_store_def write_checks_def Let_def x dest: in_set_takeD in_set_dropD)
qed

lemma store_lands: "in_store s \<Longrightarrow> in_store (write_lands i s)"
  using nth_mem[of i "rt_landing s"]
  by (auto simp: in_store_def write_lands_def held_file_def dest: in_set_takeD in_set_dropD)

lemma store_step:
  assumes "in_memory s" "in_store s"
    and "\<And>h b e. op = Win h b \<Longrightarrow> ok h e \<Longrightarrow>
      ok h ((bump_proxy_confirm t e)\<lparr>hr_win_ts := t, hr_proxy_bps := b, hr_cool_n := 0, hr_cool_ts := 0\<rparr>)"
    and "\<And>h e. op = Touch h \<Longrightarrow> ok h e \<Longrightarrow> ok h (bump_proxy_confirm t e)"
  shows "in_store (route_step (t, fp, op) s)"
proof (cases op)
  case (Cool h)
  show ?thesis unfolding Cool route_step.simps record_cooldown_def by (intro store_edit[OF assms(1,2)] ok_cool)
next
  case (NoSwitch h)
  show ?thesis unfolding NoSwitch route_step.simps record_no_switch_def by (intro store_edit[OF assms(1,2)] ok_nosw)
next
  case (Win h b)
  show ?thesis unfolding Win route_step.simps record_proxy_win_def by (rule store_edit[OF assms(1,2) assms(3)[OF Win]])
next
  case (Touch h)
  show ?thesis unfolding Touch route_step.simps touch_proxy_route_def by (rule store_edit[OF assms(1,2) assms(4)[OF Touch]])
next
  case (Forget h)
  let ?s = "ensure_net_epoch t fp s"
  have "in_memory (?s\<lparr>rt_map := bt_adjust h drop_prior (rt_map ?s)\<rparr>)"
    using memory_epoch[OF assms(1), of t fp] by (simp add: in_memory_def held_adjust)
  then show ?thesis unfolding Forget route_step.simps clear_proxy_prior_def Let_def
    by (rule store_persist) (simp only: store_map store_epoch assms(2))
next
  case (WriteChecks i)
  then show ?thesis using store_checks[OF assms(2)] by simp
next
  case (WriteLands i)
  then show ?thesis using store_lands[OF assms(2)] by simp
next
  case (Ask h)
  then show ?thesis using assms(2) by (simp add: startup_hint_def Let_def store_epoch)
next
  case Boot
  then show ?thesis using assms(2) by (auto simp: route_boot_def load_routes_def in_store_def Let_def split: option.split)
next
  case ForgetAll
  then show ?thesis using assms(2) by (auto simp: clear_all_routes_def spawn_write_def in_store_def held_empty)
qed

lemma memory_boot: "in_store s \<Longrightarrow> in_memory (route_boot now fp s)"
  by (auto simp: in_store_def in_memory_def route_boot_def load_routes_def held_empty held_file_def Let_def
      intro!: held_take_in split: option.splits)

end

section \<open>Evidence\<close>

definition won :: "string \<Rightarrow> route_event list \<Rightarrow> nat set" where
  "won host es = {t. \<exists>fp b. (t, fp, Win host b) \<in> set es}"

definition confirmed :: "string \<Rightarrow> route_event list \<Rightarrow> nat set" where
  "confirmed host es = won host es \<union> {t. \<exists>fp. (t, fp, Touch host) \<in> set es}"

text \<open>A sampled win in the last 72 hours, and two confirmations more than 12 hours apart.\<close>

definition evidence :: "nat \<Rightarrow> string \<Rightarrow> route_event list \<Rightarrow> bool" where
  "evidence now host es \<longleftrightarrow>
     (\<exists>w \<in> won host es. w \<le> now \<and> now - w < win_revalidate_secs)
     \<and> (\<exists>c \<in> confirmed host es. \<exists>c' \<in> confirmed host es. c + proxy_confirm_gap_secs < c')"

definition justified :: "string \<Rightarrow> route_event list \<Rightarrow> string \<Rightarrow> host_route \<Rightarrow> bool" where
  "justified host es h e \<longleftrightarrow> h = host \<longrightarrow>
     (hr_confirm_ts e = 0 \<and> hr_proxy_n e = 0 \<or> 0 < hr_confirm_ts e \<and> hr_confirm_ts e \<in> confirmed host es)
     \<and> (2 \<le> hr_proxy_n e \<longrightarrow> (\<exists>c \<in> confirmed host es. c + proxy_confirm_gap_secs < hr_confirm_ts e))
     \<and> (hr_win_ts e \<noteq> 0 \<longrightarrow> hr_win_ts e \<in> won host es)"

interpretation je: entry_claim "justified host es" for host es
  by unfold_locales (auto simp: justified_def no_route_def drop_prior_def)

lemma evidence_mono: "won host es \<subseteq> won host (es @ xs)" "confirmed host es \<subseteq> confirmed host (es @ xs)"
  by (auto simp: won_def confirmed_def)

lemma justified_mono: "justified host es h e \<Longrightarrow> justified host (es @ xs) h e"
  using evidence_mono[of host es xs] unfolding justified_def by blast

lemma memory_mono: "je.in_memory host es s \<Longrightarrow> je.in_memory host (es @ xs) s"
  using justified_mono
  by (auto simp: je.in_memory_def je.held_def je.held_file_def split: option.splits)

lemma store_mono: "je.in_store host es s \<Longrightarrow> je.in_store host (es @ xs) s"
  using justified_mono
  by (fastforce simp: je.in_store_def je.held_def je.held_file_def split: option.splits)

lemma bump_justified:
  assumes "justified host es h e" "0 < t" "h = host \<Longrightarrow> t \<in> confirmed host es"
  shows "justified host es h (bump_proxy_confirm t e)"
proof (cases "h = host \<and> hr_confirm_ts e \<noteq> 0 \<and> proxy_confirm_gap_secs < t - hr_confirm_ts e")
  case True
  then have "hr_confirm_ts e + proxy_confirm_gap_secs < t" by linarith
  then have "\<exists>c \<in> confirmed host es. c + proxy_confirm_gap_secs < t" using True assms(1) by (auto simp: justified_def)
  then show ?thesis using True assms by (auto simp: justified_def bump_proxy_confirm_def Let_def)
next
  case False
  then show ?thesis using assms by (auto simp: justified_def bump_proxy_confirm_def sat_inc_u32_def Let_def)
qed

lemma step_edits:
  assumes "0 < t"
  shows "op = Win h b \<Longrightarrow> justified host (es @ [(t, fp, op)]) h e \<Longrightarrow>
      justified host (es @ [(t, fp, op)]) h ((bump_proxy_confirm t e)\<lparr>hr_win_ts := t, hr_proxy_bps := b, hr_cool_n := 0, hr_cool_ts := 0\<rparr>)"
    and "op = Touch h \<Longrightarrow> justified host (es @ [(t, fp, op)]) h e \<Longrightarrow> justified host (es @ [(t, fp, op)]) h (bump_proxy_confirm t e)"
proof -
  assume "op = Win h b" "justified host (es @ [(t, fp, op)]) h e"
  moreover from this have "justified host (es @ [(t, fp, op)]) h (bump_proxy_confirm t e)"
    using assms by (intro bump_justified) (auto simp: confirmed_def won_def)
  ultimately show "justified host (es @ [(t, fp, op)]) h ((bump_proxy_confirm t e)\<lparr>hr_win_ts := t, hr_proxy_bps := b, hr_cool_n := 0, hr_cool_ts := 0\<rparr>)"
    by (auto simp: justified_def won_def)
next
  assume "op = Touch h" "justified host (es @ [(t, fp, op)]) h e"
  then show "justified host (es @ [(t, fp, op)]) h (bump_proxy_confirm t e)"
    using assms by (intro bump_justified) (auto simp: confirmed_def)
qed

lemma route_run_snoc: "route_run (es @ [e]) s = route_step e (route_run es s)"
  by (simp add: route_run_def)

lemma run_memory:
  assumes "je.in_memory host [] s" "\<forall>e \<in> set es. 0 < fst e \<and> snd (snd e) \<noteq> Boot"
  shows "je.in_memory host es (route_run es s)"
  using assms(2)
proof (induction es rule: rev_induct)
  case Nil
  then show ?case using assms(1) by (simp add: route_run_def)
next
  case (snoc e es)
  obtain t fp op where e: "e = (t, fp, op)" by (cases e)
  have "je.in_memory host (es @ [e]) (route_run es s)" using snoc by (intro memory_mono) simp
  then show ?case
    unfolding route_run_snoc e using snoc.prems step_edits[of t] by (intro je.memory_step) (auto simp: e)
qed

lemma run_everywhere:
  assumes "\<forall>e \<in> set es. 0 < fst e"
  shows "je.in_memory host es (route_run es new_routes) \<and> je.in_store host es (route_run es new_routes)"
  using assms
proof (induction es rule: rev_induct)
  case Nil
  show ?case by (simp add: route_run_def new_routes_def je.in_memory_def je.in_store_def je.held_def je.held_file_def)
next
  case (snoc e es)
  obtain t fp op where e: "e = (t, fp, op)" by (cases e)
  have m: "je.in_memory host (es @ [e]) (route_run es new_routes)" "je.in_store host (es @ [e]) (route_run es new_routes)"
    using snoc by (auto intro: memory_mono store_mono)
  have t: "0 < t" using snoc.prems by (simp add: e)
  have "je.in_store host (es @ [e]) (route_step e (route_run es new_routes))"
    using m step_edits[OF t] unfolding e by (intro je.store_step) auto
  moreover have "je.in_memory host (es @ [e]) (route_step e (route_run es new_routes))"
  proof (cases "op = Boot")
    case True
    then show ?thesis using m(2) by (simp add: e je.memory_boot)
  next
    case False
    then show ?thesis using m(1) step_edits[OF t] unfolding e by (intro je.memory_step) auto
  qed
  ultimately show ?case by (simp add: route_run_snoc)
qed

lemma adopt_evidence:
  assumes "je.in_memory host es s" "fst (startup_hint now fp host s) = Some AdoptProxy"
  shows "evidence now host es"
proof -
  let ?s = "ensure_net_epoch now fp s"
  obtain e where g: "bt_get (rt_map ?s) host = Some e" and h: "hint_for now e = Some AdoptProxy"
    using assms(2) by (auto simp: startup_hint_def Let_def Option.bind_eq_Some_conv)
  have "justified host es host e"
    using je.memory_epoch[OF assms(1), of now fp] map_of_SomeD[of "rt_map ?s" host e] g
    by (auto simp: je.in_memory_def je.held_def bt_get_map_of)
  moreover have "2 \<le> hr_proxy_n e" "fresh_within (hr_win_ts e) win_revalidate_secs now"
    using h by (auto simp: hint_for_def adopt_min_confirms_def split: if_splits)
  ultimately show ?thesis by (auto simp: justified_def evidence_def fresh_within_def)
qed

text \<open>What waits for the network waits only while there is none.\<close>

definition waits_offline :: "route_st \<Rightarrow> bool" where
  "waits_offline s \<longleftrightarrow> (rt_epoch s \<noteq> [] \<longrightarrow> rt_pending s = None)"

lemma waits_epoch: "waits_offline s \<Longrightarrow> waits_offline (ensure_net_epoch now fp s)"
  by (auto simp: waits_offline_def ensure_net_epoch_def adopt_pending_def split: option.splits)

lemma waits_persist: "waits_offline (route_persist now s) = waits_offline s"
  by (simp add: waits_offline_def route_persist_def spawn_write_def Let_def)

lemma waits_step: "waits_offline s \<Longrightarrow> waits_offline (route_step e s)"
proof -
  assume w: "waits_offline s"
  obtain t fp op where e: "e = (t, fp, op)" by (cases e)
  have m: "waits_offline (s\<lparr>rt_map := m\<rparr>) = waits_offline s" for s m by (simp add: waits_offline_def)
  have ed: "waits_offline (edit_route t fp h f s)" for h f
    using waits_epoch[OF w] by (simp add: edit_route_def Let_def waits_persist m)
  show ?thesis
  proof (cases op)
    case Boot
    then show ?thesis by (auto simp: e route_boot_def load_routes_def waits_offline_def Let_def split: option.split)
  next
    case (WriteChecks i)
    then show ?thesis using w by (simp add: e write_checks_def waits_offline_def Let_def split: prod.split)
  qed (use w ed waits_epoch[OF w] in \<open>simp_all add: e record_proxy_win_def touch_proxy_route_def record_cooldown_def
      record_no_switch_def startup_hint_def clear_proxy_prior_def Let_def waits_persist m\<close>,
      simp_all add: waits_offline_def clear_all_routes_def spawn_write_def write_lands_def)
qed

lemma waits_run: "waits_offline (route_run es new_routes)"
proof (induction es rule: rev_induct)
  case (snoc e es)
  then show ?case by (simp add: route_run_snoc waits_step)
qed (simp add: route_run_def new_routes_def waits_offline_def)

lemma forgotten:
  assumes "waits_offline s" "fp \<noteq> []"
  shows "je.in_memory host [] (clear_proxy_prior t fp host s)"
proof -
  let ?s = "ensure_net_epoch t fp s"
  have "rt_epoch ?s \<noteq> []" using assms(2) by (simp add: ensure_net_epoch_def adopt_pending_def split: option.split)
  then have p: "rt_pending ?s = None" using waits_epoch[OF assms(1)] by (simp add: waits_offline_def)
  have "je.held host [] (bt_adjust host drop_prior (rt_map ?s))"
    by (auto simp: je.held_def bt_adjust_def justified_def drop_prior_def)
  then show ?thesis
    using p by (auto simp: clear_proxy_prior_def Let_def je.in_memory_def je.held_file_def
        route_persist_def spawn_write_def intro: je.held_prune)
qed

section \<open>The properties\<close>



section \<open>Writes out of order\<close>

lemma prune_route_idem: "prune_route t (prune_route t e) = prune_route t e"
proof -
  have z: "\<not> fresh_within 0 n t" for n by (simp add: fresh_within_def)
  show ?thesis
    unfolding prune_route_def Let_def route_fresh_def
    by (cases "fresh_within (hr_proxy_ts e) (proxy_ttl_secs (hr_proxy_n e)) t"; cases "fresh_within (hr_cool_ts e) route_ttl t";
        cases "fresh_within (hr_nosw_ts e) route_ttl t") (simp_all add: drop_prior_def z)
qed

lemma retain_newest_bounded: "length m \<le> cap \<Longrightarrow> retain_newest cap ts m = m"
  by (simp add: retain_newest_def)

lemma pruned_entry:
  assumes "(h, e) \<in> set (route_prune t m)"
  shows "prune_route t e = e" "hr_proxy_ts e \<noteq> 0 \<or> hr_cool_ts e \<noteq> 0 \<or> hr_nosw_ts e \<noteq> 0"
  using assms by (auto simp: route_prune_def prune_route_idem dest!: subsetD[OF retain_newest_subset])

lemma route_prune_idem: "route_prune t (route_prune t m) = route_prune t m"
proof -
  have "map (\<lambda>(h, e). (h, prune_route t e)) (route_prune t m) = route_prune t m"
    using pruned_entry(1) by (intro map_idI) auto
  moreover have "filter (\<lambda>(h, e). hr_proxy_ts e \<noteq> 0 \<or> hr_cool_ts e \<noteq> 0 \<or> hr_nosw_ts e \<noteq> 0) (route_prune t m) = route_prune t m"
  proof (intro filter_True ballI)
    fix x assume x: "x \<in> set (route_prune t m)"
    obtain h e where "x = (h, e)" by (cases x)
    then show "case x of (h, e) \<Rightarrow> hr_proxy_ts e \<noteq> 0 \<or> hr_cool_ts e \<noteq> 0 \<or> hr_nosw_ts e \<noteq> 0"
      using pruned_entry(2)[of h e t m] x by simp
  qed
  moreover have "length (route_prune t m) \<le> route_max_hosts" by (simp add: route_prune_def retain_newest_length)
  ultimately show ?thesis unfolding route_prune_def[of t "route_prune t m"] by (simp only: retain_newest_bounded)
qed

lemma bt_wf_prune: "bt_wf m \<Longrightarrow> bt_wf (route_prune t m)"
proof -
  assume "bt_wf m"
  then have "bt_wf (map (\<lambda>(h, e). (h, prune_route t e)) m)" by (simp add: bt_wf_def comp_def split_beta)
  then show ?thesis by (simp add: route_prune_def bt_wf_retain bt_wf_filter)
qed

lemma take_in_empty:
  assumes "bt_wf m"
  shows "bt_get (take_in t m []) h = bt_get (route_prune t m) h"
proof -
  have "bt_wf m0 \<Longrightarrow> bt_get (foldl (\<lambda>m (h, e). if bt_get m h = None then bt_insert h e m else m) m0 xs) h
      = (case bt_get m0 h of Some e \<Rightarrow> Some e | None \<Rightarrow> bt_get xs h)" for m0 xs
  proof (induction xs arbitrary: m0)
    case (Cons x xs)
    obtain k e where x: "x = (k, e)" by (cases x)
    show ?case using Cons.IH[of "bt_insert k e m0"] Cons.IH[of m0] Cons.prems
      by (auto simp: x bt_wf_insert bt_get_insert split: option.split)
  qed (simp split: option.split)
  from this[of "[]" "route_prune t m"] show ?thesis by (simp add: take_in_def bt_wf_def)
qed

text \<open>
  C35.  The number of a write is checked before its statement waits for the database, not when it takes
  effect.  A write that passed the check just before the priors were invalidated (the proxy settings
  changed, or the proxy failed) may land after the write that invalidates them; the next start of the
  engine adopts the proxy again.
\<close>

theorem stale_write_revives:
  assumes "rt_epoch s = fp" "fp \<noteq> []" "rt_writes s = []" "rt_landing s = []" "bt_wf (rt_map s)"
    and "bt_get (rt_map s) other = None" "bt_get (route_prune t (rt_map s)) host = Some e" "hint_for t e = Some AdoptProxy"
    and "clear = ForgetAll \<or> clear = Forget host"
  shows "fst (startup_hint t fp host
    (route_run (map (\<lambda>op. (t, fp, op))
       [Forget other, WriteChecks 0, clear, WriteChecks 0, WriteLands 1, WriteLands 0, Boot]) s)) = Some AdoptProxy"
proof -
  let ?m = "route_prune t (rt_map s)"
  let ?f = "\<lparr> rf_v = route_format_version, rf_net = fp, rf_hosts = ?m \<rparr>"
  have "\<And>v. (other, v) \<notin> set (rt_map s)" using assms(6) unfolding bt_get_map_of map_of_eq_None_iff by (metis fst_conv image_eqI)
  then have same: "bt_adjust other drop_prior (rt_map s) = rt_map s"
    unfolding bt_adjust_def by (intro map_idI) auto
  have ep: "ensure_net_epoch t fp s' = s'" if "rt_epoch s' = fp" for s' using that by (simp add: ensure_net_epoch_def)
  let ?s1 = "s\<lparr>rt_map := ?m, rt_seq := rt_seq s + 1, rt_landing := [?f]\<rparr>"
  have s1: "route_run (map (\<lambda>op. (t, fp, op)) [Forget other, WriteChecks 0]) s = ?s1"
    using assms(1-4) by (simp add: route_run_def clear_proxy_prior_def ep same route_persist_def spawn_write_def Let_def write_checks_def)
  obtain s2 g where s2: "route_step (t, fp, clear) ?s1 = s2" "rt_landing s2 = [?f]" "rt_writes s2 = [(rt_seq s2, g)]"
  proof -
    have "\<exists>g. rt_landing (route_step (t, fp, clear) ?s1) = [?f]
        \<and> rt_writes (route_step (t, fp, clear) ?s1) = [(rt_seq (route_step (t, fp, clear) ?s1), g)]"
      using assms(1,2,3,9) by (auto simp: clear_all_routes_def clear_proxy_prior_def spawn_write_def route_persist_def ensure_net_epoch_def Let_def)
    then show ?thesis using that by blast
  qed
  have d: "rt_disk (route_run (map (\<lambda>op. (t, fp, op)) [WriteChecks 0, WriteLands 1, WriteLands 0]) s2) = Some ?f"
    using s2(2,3) by (simp add: route_run_def write_checks_def write_lands_def)
  let ?s3 = "route_run (map (\<lambda>op. (t, fp, op)) [WriteChecks 0, WriteLands 1, WriteLands 0]) s2"
  have run: "route_run (map (\<lambda>op. (t, fp, op))
       [Forget other, WriteChecks 0, clear, WriteChecks 0, WriteLands 1, WriteLands 0, Boot]) s = route_boot t fp ?s3"
    using s1 s2(1) by (simp add: route_run_def)
  have b: "rt_epoch (route_boot t fp ?s3) = fp" "rt_map (route_boot t fp ?s3) = take_in t ?m []"
    using d assms(2) by (simp_all add: route_boot_def load_routes_def Let_def)
  have "bt_get (take_in t ?m []) host = Some e"
    using take_in_empty[OF bt_wf_prune[OF assms(5)]] assms(7) by (simp add: route_prune_idem)
  then show ?thesis unfolding run startup_hint_def Let_def ep[OF b(1)] b(2) by (simp add: assms(8))
qed

definition proven_route :: host_route where
  "proven_route = no_route\<lparr>hr_proxy_ts := 50000, hr_proxy_n := 2, hr_confirm_ts := 50000, hr_win_ts := 1000\<rparr>"

lemma stale_write_revives_witness:
  "let s = new_routes\<lparr>rt_map := [(''h'', proven_route)], rt_epoch := ''n''\<rparr> in
   fst (startup_hint 50000 ''n'' ''h'' (route_run (map (\<lambda>op. (50000, ''n'', op))
       [Forget ''o'', WriteChecks 0, ForgetAll, WriteChecks 0, WriteLands 1, WriteLands 0, Boot]) s)) = Some AdoptProxy"
proof -
  have p: "prune_route 50000 proven_route = proven_route" "hint_for 50000 proven_route = Some AdoptProxy"
    by (simp_all add: prune_route_def hint_for_def proven_route_def no_route_def fresh_within_def route_fresh_def
        proxy_ttl_secs_def sat_mul_u64_def u64_max_def route_ttl_def proxy_ttl_max_secs_def adopt_min_confirms_def win_revalidate_secs_def Let_def)
  have "route_prune 50000 [(''h'', proven_route)] = [(''h'', proven_route)]"
    using p(1) by (simp add: route_prune_def retain_newest_def route_max_hosts_def) (simp add: proven_route_def)
  then show ?thesis
    unfolding Let_def by (intro stale_write_revives[where e = proven_route and t = 50000])
      (simp_all add: new_routes_def bt_wf_def p(2))
qed

end
