(* ===== verification/Proxy_Config.thy ===== *)
theory Proxy_Config
  imports Task_Policy File_Names
begin

text \<open>
  Proxy settings (\<^verbatim>\<open>native/engine/src/proxy_config.rs\<close>): modes and types with their names, the
  address of a proxy as text and back, the system settings of Windows, and what a setting means for a
  target.  The detection of the system proxy is a parameter, a registry value its content.
\<close>

section \<open>Modes and types\<close>

datatype proxy_mode = ModeNone | ModeSystem | ModeManual | ModeAuto

definition parse_proxy_mode :: "string \<Rightarrow> proxy_mode" where
  "parse_proxy_mode s =
     (if s = ''system'' then ModeSystem else if s = ''manual'' then ModeManual
      else if s = ''auto'' then ModeAuto else ModeNone)"

fun proxy_mode_str :: "proxy_mode \<Rightarrow> string" where
  "proxy_mode_str ModeNone = ''none''"
| "proxy_mode_str ModeSystem = ''system''"
| "proxy_mode_str ModeManual = ''manual''"
| "proxy_mode_str ModeAuto = ''auto''"

datatype proxy_type = PHttp | PHttps | PSocks4 | PSocks4a | PSocks5

definition parse_proxy_type :: "string \<Rightarrow> proxy_type option" where
  "parse_proxy_type s =
     (if s = ''http'' then Some PHttp else if s = ''https'' then Some PHttps
      else if s = ''socks4'' then Some PSocks4 else if s = ''socks4a'' then Some PSocks4a
      else if s = ''socks5'' \<or> s = ''socks5h'' then Some PSocks5 else None)"

fun proxy_type_str :: "proxy_type \<Rightarrow> string" where
  "proxy_type_str PHttp = ''http''"
| "proxy_type_str PHttps = ''https''"
| "proxy_type_str PSocks4 = ''socks4''"
| "proxy_type_str PSocks4a = ''socks4a''"
| "proxy_type_str PSocks5 = ''socks5''"

fun proxy_scheme :: "proxy_type \<Rightarrow> string" where
  "proxy_scheme PSocks5 = ''socks5h''"
| "proxy_scheme t = proxy_type_str t"

definition is_socks :: "proxy_type \<Rightarrow> bool" where
  "is_socks t \<longleftrightarrow> t = PSocks4 \<or> t = PSocks4a \<or> t = PSocks5"

record proxy_config =
  px_mode :: proxy_mode
  px_type :: proxy_type
  px_host :: string
  px_port :: nat
  px_user :: string
  px_pass :: string
  px_bypass :: string

definition no_proxy :: proxy_config where
  "no_proxy = \<lparr> px_mode = ModeNone, px_type = PHttp, px_host = [], px_port = 0, px_user = [], px_pass = [], px_bypass = [] \<rparr>"

definition proxy_from_config_map :: "(string \<Rightarrow> string option) \<Rightarrow> proxy_config" where
  "proxy_from_config_map m =
     (let str = (\<lambda>k. case m k of Some v \<Rightarrow> v | None \<Rightarrow> []) in
      \<lparr> px_mode = (case m ''proxy_mode'' of Some v \<Rightarrow> parse_proxy_mode v | None \<Rightarrow> ModeNone),
        px_type = (case Option.bind (m ''proxy_type'') parse_proxy_type of Some t \<Rightarrow> t | None \<Rightarrow> PHttp),
        px_host = str ''proxy_host'',
        px_port = (case Option.bind (m ''proxy_port'') (parse_unsigned 65535) of Some p \<Rightarrow> p | None \<Rightarrow> 0),
        px_user = str ''proxy_username'', px_pass = str ''proxy_password'', px_bypass = str ''proxy_no_list'' \<rparr>)"

section \<open>Credentials in an address\<close>

definition upper_hex :: "nat \<Rightarrow> char" where
  "upper_hex n = char_of (if n < 10 then 48 + n else 55 + n)"

definition userinfo_safe :: "char \<Rightarrow> bool" where
  "userinfo_safe c \<longleftrightarrow> (let n = (of_char c :: nat) in
     65 \<le> n \<and> n \<le> 90 \<or> 97 \<le> n \<and> n \<le> 122 \<or> 48 \<le> n \<and> n \<le> 57 \<or> n \<in> set [45, 46, 95, 126]
     \<or> n \<in> set [33, 36, 38, 39, 40, 41, 42, 43, 44, 59, 61])"

definition percent_encode_userinfo :: "string \<Rightarrow> string" where
  "percent_encode_userinfo s =
     concat (map (\<lambda>c. if userinfo_safe c then [c]
                    else [CHR ''%'', upper_hex (of_char c div 16), upper_hex (of_char c mod 16)]) s)"

definition percent_decode :: "string \<Rightarrow> string" where
  "percent_decode s =
     (let r = percent_bytes (map of_char s) in if utf8_decode r = None then s else map char_of r)"

section \<open>Addresses\<close>

text \<open>\<^verbatim>\<open>find\<close> of a text with the two parts around it; \<^verbatim>\<open>rfind\<close> of a character.\<close>

fun split_text :: "string \<Rightarrow> string \<Rightarrow> (string \<times> string) option" where
  "split_text p [] = (if p = [] then Some ([], []) else None)"
| "split_text p (c # cs) =
     (if starts_with (c # cs) p then Some ([], drop (length p) (c # cs))
      else map_option (\<lambda>(a, b). (c # a, b)) (split_text p cs))"

definition rsplit_once :: "char \<Rightarrow> string \<Rightarrow> (string \<times> string) option" where
  "rsplit_once sep s = map_option (\<lambda>(a, b). (rev b, rev a)) (split_once sep (rev s))"

definition port_or_default :: "string \<Rightarrow> nat" where
  "port_or_default s = (case parse_unsigned 65535 s of Some p \<Rightarrow> p | None \<Rightarrow> 8080)"

definition parse_host_port :: "string \<Rightarrow> string \<times> nat" where
  "parse_host_port addr =
     (case split_once (CHR '']'') addr of
        Some (h, rest) \<Rightarrow>
          (h @ [CHR '']''], case rest of c # p \<Rightarrow> if c = CHR '':'' then port_or_default p else 8080 | [] \<Rightarrow> 8080)
      | None \<Rightarrow>
          (case rsplit_once (CHR '':'') addr of
             Some (h, p) \<Rightarrow> if h \<noteq> [] then (h, port_or_default p) else (addr, 8080)
           | None \<Rightarrow> if addr \<noteq> [] then (addr, 8080) else ([], 0)))"

definition to_proxy_url :: "proxy_config \<Rightarrow> string option" where
  "to_proxy_url c =
     (if px_mode c \<noteq> ModeManual \<or> px_host c = [] \<or> px_port c = 0 then None
      else Some (proxy_scheme (px_type c) @ ''://''
        @ (if px_user c \<noteq> [] then percent_encode_userinfo (px_user c) @ '':'' @ percent_encode_userinfo (px_pass c) @ ''@'' else [])
        @ px_host c @ '':'' @ show_nat (px_port c)))"

definition direct_sentinel :: string where "direct_sentinel = ''direct://''"
definition system_sentinel :: string where "system_sentinel = ''system://''"

definition from_proxy_url :: "string \<Rightarrow> proxy_config" where
  "from_proxy_url url =
     (if url = [] \<or> url = direct_sentinel then no_proxy
      else if url = system_sentinel then no_proxy\<lparr>px_mode := ModeSystem\<rparr>
      else
        let (scheme, rest) = (case split_text ''://'' url of Some x \<Rightarrow> x | None \<Rightarrow> (''http'', url));
            t = (case parse_proxy_type scheme of Some t \<Rightarrow> t | None \<Rightarrow> PHttp);
            (auth, addr) = (case rsplit_once (CHR ''@'') rest of Some x \<Rightarrow> x | None \<Rightarrow> ([], rest));
            (user, pass) = (if auth = [] then ([], [])
                            else case split_once (CHR '':'') auth of
                              Some (a, b) \<Rightarrow> (percent_decode a, percent_decode b)
                            | None \<Rightarrow> (percent_decode auth, []));
            (host, port) = parse_host_port addr
        in \<lparr> px_mode = ModeManual, px_type = t, px_host = host, px_port = port, px_user = user, px_pass = pass, px_bypass = [] \<rparr>)"

section \<open>The system's settings\<close>

text \<open>
  The entries of \<^verbatim>\<open>http=h:p;socks=h:p\<close>.  The code takes \<^emph>\<open>some\<close> entry of the map when none of the known
  names is there, here the first in order.
\<close>

definition parse_multi_protocol_proxy :: "string \<Rightarrow> (string, string \<times> nat) btree" where
  "parse_multi_protocol_proxy server =
     foldl (\<lambda>m entry.
        let e = trim entry in
        case (if e = [] then None else split_once (CHR ''='') e) of
          None \<Rightarrow> m
        | Some (p, addr) \<Rightarrow>
            (let (h, port) = parse_host_port (trim addr)
             in if h \<noteq> [] then bt_insert (to_lowercase (trim p)) (h, port) m else m))
       [] (split_on (CHR '';'') server)"

definition parse_windows_proxy_server :: "string \<Rightarrow> proxy_type \<times> string \<times> nat" where
  "parse_windows_proxy_server server =
     (let simple = (PHttp, parse_host_port server);
          m = parse_multi_protocol_proxy server in
      if CHR ''='' \<notin> set server then simple
      else case bt_get m ''socks'' of
        Some hp \<Rightarrow> (PSocks5, hp)
      | None \<Rightarrow> (case bt_get m ''https'' of
          Some hp \<Rightarrow> (PHttp, hp)
        | None \<Rightarrow> (case bt_get m ''http'' of
            Some hp \<Rightarrow> (PHttp, hp)
          | None \<Rightarrow> (case m of (_, hp) # _ \<Rightarrow> (PHttp, hp) | [] \<Rightarrow> simple))))"

text \<open>\<^verbatim>\<open>str::replace\<close>\<close>

function replace_text :: "string \<Rightarrow> string \<Rightarrow> string \<Rightarrow> string" where
  "replace_text p q [] = []"
| "replace_text p q (c # cs) =
     (if p \<noteq> [] \<and> starts_with (c # cs) p then q @ replace_text p q (drop (length p) (c # cs))
      else c # replace_text p q cs)"
  by pat_completeness auto
termination by (relation "measure (\<lambda>(p, q, s). length s)") auto

definition static_system_proxy :: "nat \<Rightarrow> string \<Rightarrow> string \<Rightarrow> proxy_config option" where
  "static_system_proxy enabled server bypass =
     (if enabled = 0 \<or> server = [] then None
      else let (t, h, p) = parse_windows_proxy_server server in
        Some \<lparr> px_mode = ModeManual, px_type = t, px_host = h, px_port = p, px_user = [], px_pass = [],
               px_bypass = replace_text ''<local>'' ''localhost'' (replace_text '';'' '','' bypass) \<rparr>)"

section \<open>What a setting means\<close>

definition resolve_for :: "proxy_config option \<Rightarrow> proxy_config \<Rightarrow> proxy_config" where
  "resolve_for system c =
     (case px_mode c of
        ModeSystem \<Rightarrow> (case system of Some r \<Rightarrow> r | None \<Rightarrow> no_proxy)
      | ModeAuto \<Rightarrow> no_proxy
      | _ \<Rightarrow> c)"

definition resolve_for_tool :: "proxy_config option \<Rightarrow> proxy_config \<Rightarrow> proxy_config" where
  "resolve_for_tool system c =
     (if px_mode c = ModeAuto then
        (if px_host c \<noteq> [] \<and> px_port c \<noteq> 0 then c\<lparr>px_mode := ModeManual\<rparr>
         else case system of Some r \<Rightarrow> r | None \<Rightarrow> no_proxy)
      else resolve_for system c)"

text \<open>The candidates of automatic mode (\<^verbatim>\<open>auto_proxy.rs\<close>).\<close>

record proxy_candidate =
  pc_config :: proxy_config
  pc_source :: candidate_source

definition resolve_proxy_candidates :: "proxy_config option \<Rightarrow> proxy_config \<Rightarrow> proxy_candidate list" where
  "resolve_proxy_candidates system c =
     (if px_mode c \<noteq> ModeAuto then []
      else
        let manual = (if px_host c \<noteq> [] \<and> px_port c \<noteq> 0
                      then [\<lparr> pc_config = c\<lparr>px_mode := ModeManual\<rparr>, pc_source = ManualFields \<rparr>] else [])
        in case system of
             None \<Rightarrow> manual
           | Some s \<Rightarrow>
               if list_ex (\<lambda>m. to_proxy_url (pc_config m) = to_proxy_url s) manual then manual
               else manual @ [\<lparr> pc_config = s, pc_source = SystemProxy \<rparr>])"

end
