(* ===== verification/Proxy_Props.thy ===== *)
theory Proxy_Props
  imports Proxy_Config
begin

text \<open>The address of a proxy as text and back.\<close>

section \<open>Credentials\<close>

lemma percent_plain: "b \<noteq> 37 \<Longrightarrow> percent_bytes (b # bs) = b # percent_bytes bs"
  by (simp split: list.split option.split)

lemma percent_pair:
  assumes "hex_nibble h = Some a" "hex_nibble l = Some b"
  shows "percent_bytes (37 # h # l # rest) = (a * 16 + b) # percent_bytes rest"
  using assms by simp

lemma hex_digit: "n < 16 \<Longrightarrow> hex_nibble (of_char (upper_hex n)) = Some n"
  by (auto simp: upper_hex_def of_char_of hex_nibble_def)

lemma of_char_256: "(of_char c :: nat) < 256"
  by (rule nat_of_char_less_256)

lemma percent_roundtrip: "percent_bytes (map of_char (percent_encode_userinfo s)) = map of_char s"
proof (induction s)
  case (Cons c s)
  let ?n = "of_char c :: nat"
  show ?case
  proof (cases "userinfo_safe c")
    case True
    then have "?n \<noteq> 37" by (auto simp: userinfo_safe_def Let_def)
    then show ?thesis using True Cons.IH by (simp add: percent_encode_userinfo_def percent_plain del: percent_bytes.simps)
  next
    case False
    have "(of_char (CHR ''%'') :: nat) = 37" by simp
    moreover have "?n div 16 < 16" using of_char_256[of c] by (simp add: less_mult_imp_div_less)
    ultimately show ?thesis
      using False Cons.IH
      by (simp add: percent_encode_userinfo_def percent_pair[OF hex_digit hex_digit] del: percent_bytes.simps)
  qed
qed (simp add: percent_encode_userinfo_def)

definition valid_text :: "string \<Rightarrow> bool" where
  "valid_text s \<longleftrightarrow> utf8_decode (map of_char s) \<noteq> None"

lemma percent_decode_encode: "valid_text s \<Longrightarrow> percent_decode (percent_encode_userinfo s) = s"
  by (auto simp: percent_decode_def percent_roundtrip valid_text_def comp_def Let_def)

lemma encoded_chars:
  assumes "c \<in> set (percent_encode_userinfo s)"
  shows "c \<noteq> CHR '':''" "c \<noteq> CHR ''@''"
proof -
  have hex: "upper_hex n \<noteq> CHR '':'' \<and> upper_hex n \<noteq> CHR ''@''" if "n < 16" for n
  proof -
    have "hex_nibble (of_char (upper_hex n)) \<noteq> None" using hex_digit[OF that] by simp
    moreover have "hex_nibble (of_char (CHR '':'')) = None" "hex_nibble (of_char (CHR ''@'')) = None" by (simp_all add: hex_nibble_def)
    ultimately show ?thesis by metis
  qed
  have d: "(of_char x :: nat) div 16 < 16" for x using of_char_256[of x] by (simp add: less_mult_imp_div_less)
  obtain x where x: "x \<in> set s"
      "c \<in> set (if userinfo_safe x then [x] else [CHR ''%'', upper_hex (of_char x div 16), upper_hex (of_char x mod 16)])"
    using assms unfolding percent_encode_userinfo_def set_concat set_map by blast
  have u: "\<not> userinfo_safe (CHR '':'')" "\<not> userinfo_safe (CHR ''@'')" by (simp_all add: userinfo_safe_def Let_def)
  have m: "(of_char x :: nat) mod 16 < 16" by simp
  have "c \<noteq> CHR '':'' \<and> c \<noteq> CHR ''@''"
  proof (cases "userinfo_safe x")
    case True
    then have "c = x" using x(2) by simp
    then show ?thesis using True u by (intro conjI notI) simp_all
  next
    case False
    then consider "c = CHR ''%''" | "c = upper_hex (of_char x div 16)" | "c = upper_hex (of_char x mod 16)" using x(2) by auto
    then show ?thesis
    proof cases
      case 2 then show ?thesis using hex[OF d] by (simp only: not_False_eq_True simp_thms)
    next
      case 3 then show ?thesis using hex[OF m] by (simp only: not_False_eq_True simp_thms)
    qed simp
  qed
  then show "c \<noteq> CHR '':''" "c \<noteq> CHR ''@''" by simp_all
qed

section \<open>Splitting\<close>

lemma split_once_first: "sep \<notin> set a \<Longrightarrow> split_once sep (a @ sep # b) = Some (a, b)"
  by (induction a) auto

lemma split_once_none: "sep \<notin> set a \<Longrightarrow> split_once sep a = None"
  by (induction a) auto

lemma rsplit_once_last: "sep \<notin> set b \<Longrightarrow> rsplit_once sep (a @ sep # b) = Some (a, b)"
  by (simp add: rsplit_once_def split_once_first)

lemma rsplit_once_none: "sep \<notin> set a \<Longrightarrow> rsplit_once sep a = None"
  by (simp add: rsplit_once_def split_once_none)

lemma split_text_first:
  assumes "c \<notin> set a"
  shows "split_text (c # p) (a @ c # p @ b) = Some (a, b)"
  using assms by (induction a) (auto simp: starts_with_def)

lemma scheme_parses: "parse_proxy_type (proxy_scheme t) = Some t"
  by (cases t) (simp_all add: parse_proxy_type_def)

lemma scheme_chars: "CHR '':'' \<notin> set (proxy_scheme t)"
  by (cases t) simp_all

lemma scheme_no_sentinel:
  "proxy_scheme t @ ''://'' @ r \<noteq> []" "proxy_scheme t @ ''://'' @ r \<noteq> direct_sentinel" "proxy_scheme t @ ''://'' @ r \<noteq> system_sentinel"
  by (cases t; simp add: direct_sentinel_def system_sentinel_def)+

lemma port_back: "p \<le> 65535 \<Longrightarrow> port_or_default (show_nat p) = p"
  by (simp add: port_or_default_def parse_show_unsigned)

lemma show_nat_excludes: "\<not> is_digit c \<Longrightarrow> c \<notin> set (show_nat n)"
  using show_nat_digits[of n] by (auto simp: all_digits_def list_all_iff)

text \<open>Hosts that can be written in an address: a name or an address, an IPv6 address in brackets.\<close>

definition plain_host :: "string \<Rightarrow> bool" where
  "plain_host h \<longleftrightarrow> h \<noteq> [] \<and> CHR ''@'' \<notin> set h \<and> CHR '']'' \<notin> set (butlast h)"

lemma host_port_back:
  assumes "plain_host h" "p \<le> 65535"
  shows "parse_host_port (h @ '':'' @ show_nat p) = (h, p)"
proof (cases "CHR '']'' \<in> set h")
  case True
  then have l: "last h = CHR '']''" using assms(1) append_butlast_last_id[of h] unfolding plain_host_def
    by (metis Un_iff empty_iff list.set(1) set_ConsD set_append)
  have h: "h = butlast h @ [CHR '']'']" using assms(1) l append_butlast_last_id[of h] by (simp add: plain_host_def)
  have "split_once (CHR '']'') (h @ '':'' @ show_nat p) = split_once (CHR '']'') (butlast h @ CHR '']'' # '':'' @ show_nat p)"
    by (subst h) simp
  also have "\<dots> = Some (butlast h, '':'' @ show_nat p)" using assms(1) by (intro split_once_first) (simp add: plain_host_def)
  finally show ?thesis using assms(2) h by (simp add: parse_host_port_def port_back)
next
  case False
  have "CHR '']'' \<notin> set (show_nat p)" "CHR '':'' \<notin> set (show_nat p)" by (intro show_nat_excludes, simp add: is_digit_def)+
  then show ?thesis
    using False assms rsplit_once_last[of "CHR '':''" "show_nat p" h]
    by (simp add: parse_host_port_def split_once_none port_back plain_host_def)
qed

section \<open>The property\<close>

text \<open>
  C23.  The address written for a proxy is read back as the same proxy: type, host, port and
  credentials, whatever characters the credentials hold.  Only the list of hosts to bypass and a
  password without a user are not in an address.
\<close>

theorem proxy_url_roundtrip:
  assumes "px_mode c = ModeManual" "plain_host (px_host c)" "0 < px_port c" "px_port c \<le> 65535"
    and "valid_text (px_user c)" "valid_text (px_pass c)"
  shows "\<exists>url. to_proxy_url c = Some url
    \<and> from_proxy_url url = c\<lparr>px_bypass := [], px_pass := if px_user c = [] then [] else px_pass c\<rparr>"
proof -
  let ?hp = "px_host c @ '':'' @ show_nat (px_port c)"
  let ?eu = "percent_encode_userinfo (px_user c)" and ?ep = "percent_encode_userinfo (px_pass c)"
  let ?auth = "if px_user c \<noteq> [] then ?eu @ '':'' @ ?ep @ ''@'' else []"
  let ?url = "proxy_scheme (px_type c) @ ''://'' @ ?auth @ ?hp"
  have t: "to_proxy_url c = Some ?url" using assms(1-3) by (simp add: to_proxy_url_def plain_host_def)
  have sp: "split_text ''://'' ?url = Some (proxy_scheme (px_type c), ?auth @ ?hp)"
    using split_text_first[OF scheme_chars[of "px_type c"], of "''//''" "?auth @ ?hp"] by simp
  have at: "CHR ''@'' \<notin> set ?hp"
    using assms(2) show_nat_excludes[of "CHR ''@''"] by (simp add: plain_host_def is_digit_def)
  have hp: "parse_host_port ?hp = (px_host c, px_port c)" by (rule host_port_back[OF assms(2,4)])
  have "from_proxy_url ?url = c\<lparr>px_bypass := [], px_pass := if px_user c = [] then [] else px_pass c\<rparr>"
  proof (cases "px_user c = []")
    case True
    then show ?thesis using assms(1) sp at hp scheme_no_sentinel[of "px_type c" ?hp]
      by (simp add: from_proxy_url_def rsplit_once_none scheme_parses)
  next
    case False
    have eu: "?eu \<noteq> []" using False by (cases "px_user c") (auto simp: percent_encode_userinfo_def)
    have "rsplit_once (CHR ''@'') ((?eu @ '':'' @ ?ep) @ CHR ''@'' # ?hp) = Some (?eu @ '':'' @ ?ep, ?hp)"
      by (rule rsplit_once_last[OF at])
    moreover have "split_once (CHR '':'') (?eu @ CHR '':'' # ?ep) = Some (?eu, ?ep)"
      using encoded_chars(1) by (intro split_once_first) blast
    ultimately show ?thesis
      using False eu assms(1) sp hp scheme_no_sentinel[of "px_type c" "?auth @ ?hp"]
      by (simp add: from_proxy_url_def scheme_parses percent_decode_encode assms(5,6))
  qed
  then show ?thesis using t by blast
qed

definition demo_proxy :: proxy_config where
  "demo_proxy = \<lparr> px_mode = ModeManual, px_type = PSocks5, px_host = ''[::1]'', px_port = 1080,
     px_user = ''u@d'', px_pass = ''p:/%'', px_bypass = [] \<rparr>"

lemma proxy_url_roundtrip_witness:
  "\<exists>url. to_proxy_url demo_proxy = Some url \<and> from_proxy_url url = demo_proxy"
proof -
  have "valid_text ''u@d''" "valid_text ''p:/%''" by (simp_all add: valid_text_def)
  then have "\<exists>url. to_proxy_url demo_proxy = Some url
      \<and> from_proxy_url url = demo_proxy\<lparr>px_bypass := [], px_pass := if px_user demo_proxy = [] then [] else px_pass demo_proxy\<rparr>"
    by (intro proxy_url_roundtrip) (simp_all add: demo_proxy_def plain_host_def)
  then show ?thesis by (simp add: demo_proxy_def)
qed

end
