(* ===== verification/Proxy_Tunnel.thy ===== *)
theory Proxy_Tunnel
  imports Proxy_Config
begin

text \<open>
  Tunnels through a proxy for connections the engine makes itself
  (\<^verbatim>\<open>native/engine/src/proxy_config.rs\<close>): SOCKS5 with its authentication, SOCKS4 and 4a, and HTTP
  CONNECT.  A connection is the bytes written so far and the bytes the proxy has sent or will send;
  a read that finds too few is an error, as with \<^verbatim>\<open>read_exact\<close> on a stream that ends or times out.
\<close>

section \<open>Connections\<close>

datatype tunnel_error =
    StreamEnded | BadVersion nat | AuthRequired | NoAcceptableMethod | UnsupportedMethod nat
  | UserTooLong | PasswordTooLong | AuthFailed | HostTooLong | ReplyVersion nat | ConnectFailed nat
  | BadAddressType nat | BadTargetHost | NoConnection | NoIpv4 | HeaderTooLong | BadStatus nat | NotSocks

type_synonym conn = "nat list \<times> nat list"    \<comment> \<open>written, still to be read\<close>
type_synonym 'a io = "conn \<Rightarrow> conn \<times> (tunnel_error + 'a)"

definition give :: "'a \<Rightarrow> 'a io" where "give x = (\<lambda>s. (s, Inr x))"
definition fail :: "tunnel_error \<Rightarrow> 'a io" where "fail e = (\<lambda>s. (s, Inl e))"

definition io_bind :: "'a io \<Rightarrow> ('a \<Rightarrow> 'b io) \<Rightarrow> 'b io" where
  "io_bind m f = (\<lambda>s. case m s of (s', Inl e) \<Rightarrow> (s', Inl e) | (s', Inr x) \<Rightarrow> f x s')"

definition write_all :: "nat list \<Rightarrow> unit io" where
  "write_all bs = (\<lambda>(w, r). ((w @ bs, r), Inr ()))"

definition read_exact :: "nat \<Rightarrow> nat list io" where
  "read_exact n = (\<lambda>(w, r). if length r < n then ((w, []), Inl StreamEnded) else ((w, drop n r), Inr (take n r)))"

definition bytes_of :: "string \<Rightarrow> nat list" where
  "bytes_of s = map of_char s"

definition port_bytes :: "nat \<Rightarrow> nat list" where
  "port_bytes p = [p div 256 mod 256, p mod 256]"

section \<open>SOCKS5\<close>

definition socks5_auth :: "string \<Rightarrow> string \<Rightarrow> unit io" where
  "socks5_auth user pass =
     (if 255 < length user then fail UserTooLong
      else if 255 < length pass then fail PasswordTooLong
      else io_bind (write_all ([1, length user] @ bytes_of user @ [length pass] @ bytes_of pass)) (\<lambda>_.
        io_bind (read_exact 2) (\<lambda>r.
          if r ! 1 \<noteq> 0 then fail AuthFailed else give ())))"

definition socks5_method :: "string \<Rightarrow> string \<Rightarrow> nat list \<Rightarrow> unit io" where
  "socks5_method user pass r =
     (if r ! 0 \<noteq> 5 then fail (BadVersion (r ! 0))
      else if r ! 1 = 0 then give ()
      else if r ! 1 = 2 then (if user = [] then fail AuthRequired else socks5_auth user pass)
      else if r ! 1 = 255 then fail NoAcceptableMethod
      else fail (UnsupportedMethod (r ! 1)))"

definition socks5_bound :: "nat list \<Rightarrow> unit io" where
  "socks5_bound h =
     (if h ! 3 = 1 then io_bind (read_exact 6) (\<lambda>_. give ())
      else if h ! 3 = 3 then io_bind (read_exact 1) (\<lambda>l. io_bind (read_exact (l ! 0 + 2)) (\<lambda>_. give ()))
      else if h ! 3 = 4 then io_bind (read_exact 18) (\<lambda>_. give ())
      else fail (BadAddressType (h ! 3)))"

definition socks5_request :: "string \<Rightarrow> nat \<Rightarrow> unit io" where
  "socks5_request host port =
     (if 255 < length host then fail HostTooLong
      else io_bind (write_all ([5, 1, 0, 3, length host] @ bytes_of host @ port_bytes port)) (\<lambda>_.
        io_bind (read_exact 4) (\<lambda>h.
          if h ! 0 \<noteq> 5 then fail (ReplyVersion (h ! 0))
          else if h ! 1 \<noteq> 0 then fail (ConnectFailed (h ! 1))
          else socks5_bound h)))"

definition socks5_handshake :: "string \<Rightarrow> nat \<Rightarrow> string \<Rightarrow> string \<Rightarrow> unit io" where
  "socks5_handshake host port user pass =
     io_bind (write_all (if user \<noteq> [] then [5, 2, 0, 2] else [5, 1, 0])) (\<lambda>_.
     io_bind (read_exact 2) (\<lambda>r.
     io_bind (socks5_method user pass r) (\<lambda>_.
     socks5_request host port)))"

section \<open>SOCKS4\<close>

text \<open>\<open>ipv4\<close> is the local resolution of the target to four bytes.\<close>

definition socks4_request :: "(string \<Rightarrow> nat list option) \<Rightarrow> string \<Rightarrow> nat \<Rightarrow> bool \<Rightarrow> unit io" where
  "socks4_request ipv4 host port remote_dns =
     (case (if remote_dns then Some [0, 0, 0, 1] else ipv4 host) of
        None \<Rightarrow> fail NoIpv4
      | Some ip \<Rightarrow>
          io_bind (write_all ([4, 1] @ port_bytes port @ ip @ [0] @ (if remote_dns then bytes_of host @ [0] else []))) (\<lambda>_.
          io_bind (read_exact 8) (\<lambda>r. if r ! 1 \<noteq> 0x5A then fail (ConnectFailed (r ! 1)) else give ())))"

definition socks4a_host_ok :: "string \<Rightarrow> bool" where
  "socks4a_host_ok host \<longleftrightarrow> host \<noteq> [] \<and> list_all (\<lambda>c. (of_char c :: nat) < 128 \<and> (of_char c :: nat) \<noteq> 0) host"

section \<open>HTTP CONNECT\<close>

text \<open>Standard base64 over groups of three bytes.\<close>

definition base64_digit :: "nat \<Rightarrow> nat" where
  "base64_digit n = (if n < 26 then 65 + n else if n < 52 then 71 + n else if n < 62 then n - 4
                     else if n = 62 then 43 else 47)"

fun base64_encode :: "nat list \<Rightarrow> nat list" where
  "base64_encode [] = []"
| "base64_encode [a] = [base64_digit (a div 4), base64_digit (a mod 4 * 16), 61, 61]"
| "base64_encode [a, b] =
     [base64_digit (a div 4), base64_digit (a mod 4 * 16 + b div 16), base64_digit (b mod 16 * 4), 61]"
| "base64_encode (a # b # c # rest) =
     [base64_digit (a div 4), base64_digit (a mod 4 * 16 + b div 16), base64_digit (b mod 16 * 4 + c div 64), base64_digit (c mod 64)]
     @ base64_encode rest"

definition crlf :: "nat list" where "crlf = [13, 10]"

definition connect_request :: "proxy_config \<Rightarrow> string \<Rightarrow> nat \<Rightarrow> nat list" where
  "connect_request c host port =
     (let target = bytes_of (host @ '':'' @ show_nat port) in
      bytes_of ''CONNECT '' @ target @ bytes_of '' HTTP/1.1'' @ crlf @ bytes_of ''Host: '' @ target @ crlf
      @ (if px_user c \<noteq> []
         then bytes_of ''Proxy-Authorization: Basic '' @ base64_encode (bytes_of (px_user c @ '':'' @ px_pass c)) @ crlf
         else [])
      @ crlf)"

definition max_connect_header :: nat where "max_connect_header = 64 * 1024"

definition header_ends :: "nat list \<Rightarrow> bool" where
  "header_ends h \<longleftrightarrow> 4 \<le> length h \<and> drop (length h - 4) h = crlf @ crlf"

text \<open>One byte at a time, up to the empty line.\<close>

fun read_header :: "nat list \<Rightarrow> nat list \<Rightarrow> nat list \<times> (tunnel_error + nat list)" where
  "read_header hdr [] = ([], Inl StreamEnded)"
| "read_header hdr (b # bs) =
     (let h = hdr @ [b] in
      if header_ends h then (bs, Inr h)
      else if max_connect_header \<le> length h then (bs, Inl HeaderTooLong)
      else read_header h bs)"

definition take_header :: "nat list io" where
  "take_header = (\<lambda>(w, r). let (r', x) = read_header [] r in ((w, r'), x))"

text \<open>
  \<^verbatim>\<open>String::from_utf8_lossy\<close>, but with one replacement character per stray byte where the library may
  put one for several; none of them is a space or a digit.
\<close>

definition first_scalar :: "nat list \<Rightarrow> (nat \<times> nat) option" where
  "first_scalar bs =
     (case find (\<lambda>n. n \<le> length bs \<and> (case utf8_decode (take n bs) of Some [c] \<Rightarrow> True | _ \<Rightarrow> False)) [1, 2, 3, 4] of
        Some n \<Rightarrow> (case utf8_decode (take n bs) of Some [c] \<Rightarrow> Some (c, n) | _ \<Rightarrow> None)
      | None \<Rightarrow> None)"

function lossy :: "nat list \<Rightarrow> ustr" where
  "lossy [] = []"
| "lossy (b # bs) =
     (case first_scalar (b # bs) of
        Some (c, n) \<Rightarrow> if n = 0 then [] else c # lossy (drop n (b # bs))
      | None \<Rightarrow> 0xFFFD # lossy bs)"
  by pat_completeness auto
termination by (relation "measure length") auto

fun words_of :: "ustr \<Rightarrow> ustr \<Rightarrow> ustr list" where
  "words_of acc [] = (if acc = [] then [] else [acc])"
| "words_of acc (c # cs) =
     (if white c then (if acc = [] then words_of [] cs else acc # words_of [] cs) else words_of (acc @ [c]) cs)"

definition status_number :: "ustr \<Rightarrow> nat" where
  "status_number w =
     (if list_all (\<lambda>c. c < 256) w then (case parse_unsigned 65535 (map char_of w) of Some n \<Rightarrow> n | None \<Rightarrow> 0) else 0)"

definition parse_connect_status_line :: "nat list \<Rightarrow> nat" where
  "parse_connect_status_line hdr =
     (case words_of [] (lossy (takeWhile (\<lambda>b. b \<noteq> 10) hdr)) of _ # w # _ \<Rightarrow> status_number w | _ \<Rightarrow> 0)"

definition http_connect :: "proxy_config \<Rightarrow> string \<Rightarrow> nat \<Rightarrow> unit io" where
  "http_connect c host port =
     io_bind (write_all (connect_request c host port)) (\<lambda>_.
     io_bind take_header (\<lambda>h.
       let status = parse_connect_status_line h in
       if status \<noteq> 200 then fail (BadStatus status) else give ()))"

section \<open>Any proxy\<close>

text \<open>\<open>dial\<close> is what the proxy sends on the connection, \<open>None\<close> when it cannot be reached.\<close>

definition on_connection :: "nat list option \<Rightarrow> unit io \<Rightarrow> conn \<times> (tunnel_error + unit)" where
  "on_connection dial m = (case dial of None \<Rightarrow> (([], []), Inl NoConnection) | Some input \<Rightarrow> m ([], input))"

definition socks_connect_sync ::
  "(string \<Rightarrow> nat list option) \<Rightarrow> nat list option \<Rightarrow> proxy_config \<Rightarrow> string \<Rightarrow> nat \<Rightarrow> conn \<times> (tunnel_error + unit)" where
  "socks_connect_sync ipv4 dial c host port =
     (case px_type c of
        PSocks5 \<Rightarrow> on_connection dial (socks5_handshake host port (px_user c) (px_pass c))
      | PSocks4 \<Rightarrow> on_connection dial (socks4_request ipv4 host port False)
      | PSocks4a \<Rightarrow> (if socks4a_host_ok host then on_connection dial (socks4_request ipv4 host port True)
                      else (([], []), Inl BadTargetHost))
      | _ \<Rightarrow> (([], []), Inl NotSocks))"

definition proxy_connect_sync ::
  "(string \<Rightarrow> nat list option) \<Rightarrow> nat list option \<Rightarrow> proxy_config \<Rightarrow> string \<Rightarrow> nat \<Rightarrow> conn \<times> (tunnel_error + unit)" where
  "proxy_connect_sync ipv4 dial c host port =
     (if is_socks (px_type c) then socks_connect_sync ipv4 dial c host port
      else on_connection dial (http_connect c host port))"

end
