(* ===== verification/Tunnel_Props.thy ===== *)
theory Tunnel_Props
  imports Proxy_Tunnel
begin

text \<open>
  A tunnel is up exactly when the proxy sent a reply of its protocol, and then exactly that reply has
  been read.
\<close>

section \<open>Steps that succeed\<close>

lemma io_bind_ok: "io_bind m f s = (s', Inr y) \<longleftrightarrow> (\<exists>s1 x. m s = (s1, Inr x) \<and> f x s1 = (s', Inr y))"
  by (auto simp: io_bind_def split: prod.splits sum.splits)

lemma give_ok: "give x s = (s', Inr y) \<longleftrightarrow> s' = s \<and> y = x"
  by (auto simp: give_def)

lemma fail_ok: "fail e s \<noteq> (s', Inr y)"
  by (simp add: fail_def)

lemma write_ok: "io_bind (write_all bs) f (w, r) = f () (w @ bs, r)"
  by (simp add: io_bind_def write_all_def)

lemma read_ok:
  "io_bind (read_exact n) f (w, r) = (s', Inr y) \<longleftrightarrow> (\<exists>x r1. length x = n \<and> r = x @ r1 \<and> f x (w, r1) = (s', Inr y))"
proof (cases "length r < n")
  case False
  have "\<exists>x r1. length x = n \<and> r = x @ r1 \<and> f x (w, r1) = (s', Inr y)" if "f (take n r) (w, drop n r) = (s', Inr y)"
    using False that by (intro exI[of _ "take n r"] exI[of _ "drop n r"]) simp
  then show ?thesis using False by (auto simp: io_bind_def read_exact_def)
qed (auto simp: io_bind_def read_exact_def)

lemma read_1: "io_bind (read_exact (Suc 0)) f (w, r) = (s', Inr y) \<longleftrightarrow> (\<exists>a r1. r = a # r1 \<and> f [a] (w, r1) = (s', Inr y))"
  by (fastforce simp: read_ok length_Suc_conv)

lemma read_2: "io_bind (read_exact 2) f (w, r) = (s', Inr y) \<longleftrightarrow> (\<exists>a b r1. r = a # b # r1 \<and> f [a, b] (w, r1) = (s', Inr y))"
  by (fastforce simp: read_ok length_Suc_conv numeral_eq_Suc)

lemma read_4: "io_bind (read_exact 4) f (w, r) = (s', Inr y)
    \<longleftrightarrow> (\<exists>a b c d r1. r = a # b # c # d # r1 \<and> f [a, b, c, d] (w, r1) = (s', Inr y))"
  by (fastforce simp: read_ok length_Suc_conv numeral_eq_Suc)

lemmas io_simps = give_ok fail_ok write_ok read_1 read_2 read_4

section \<open>The replies of SOCKS5\<close>

text \<open>RFC 1928 and 1929: the choice of a method, with the answer to the credentials; the bound address.\<close>

definition method_replies :: "string \<Rightarrow> nat list set" where
  "method_replies user = insert [5, 0] (if user = [] then {} else {[5, 2, v, 0] | v. True})"

definition bound_replies :: "nat list set" where
  "bound_replies = {[5, 0, x, 1] @ a | x a. length a = 6} \<union> {[5, 0, x, 3, l] @ a | x l a. length a = l + 2}
     \<union> {[5, 0, x, 4] @ a | x a. length a = 18}"

definition socks5_accepts :: "string \<Rightarrow> string \<Rightarrow> string \<Rightarrow> nat list \<Rightarrow> nat list \<Rightarrow> bool" where
  "socks5_accepts host user pass m b \<longleftrightarrow> m \<in> method_replies user \<and> b \<in> bound_replies \<and> length host \<le> 255
     \<and> (m \<noteq> [5, 0] \<longrightarrow> length user \<le> 255 \<and> length pass \<le> 255)"

definition socks5_sends :: "string \<Rightarrow> nat \<Rightarrow> string \<Rightarrow> string \<Rightarrow> nat list \<Rightarrow> nat list" where
  "socks5_sends host port user pass m =
     (if user \<noteq> [] then [5, 2, 0, 2] else [5, 1, 0])
     @ (if m = [5, 0] then [] else [1, length user] @ bytes_of user @ [length pass] @ bytes_of pass)
     @ [5, 1, 0, 3, length host] @ bytes_of host @ port_bytes port"

lemma socks5_auth_ok:
  "socks5_auth user pass (w, r) = ((w', r'), Inr y) \<longleftrightarrow> length user \<le> 255 \<and> length pass \<le> 255
     \<and> (\<exists>v. r = [v, 0] @ r') \<and> w' = w @ [1, length user] @ bytes_of user @ [length pass] @ bytes_of pass"
  by (auto simp: socks5_auth_def io_simps not_less split: if_splits)

lemma socks5_method_ok:
  "socks5_method user pass [a, b] (w, r) = ((w', r'), Inr y) \<longleftrightarrow> a = 5 \<and>
     (b = 0 \<and> w' = w \<and> r' = r
      \<or> b = 2 \<and> user \<noteq> [] \<and> socks5_auth user pass (w, r) = ((w', r'), Inr y))"
  by (auto simp: socks5_method_def io_simps)

lemma socks5_bound_ok:
  "socks5_bound [5, 0, x, t] (w, r) = ((w', r'), Inr y)
    \<longleftrightarrow> w' = w \<and> (\<exists>a. [5, 0, x, t] @ a \<in> bound_replies \<and> r = a @ r')"
proof -
  have b: "[5, 0, x, t] @ a \<in> bound_replies \<longleftrightarrow>
      t = 1 \<and> length a = 6 \<or> t = 3 \<and> (\<exists>l a'. a = l # a' \<and> length a' = l + 2) \<or> t = 4 \<and> length a = 18" for a
    by (auto simp: bound_replies_def)
  show ?thesis
  proof (cases "t = 3")
    case True
    then show ?thesis unfolding b by (auto simp: socks5_bound_def io_simps read_ok[of "Suc (Suc n)" for n])
  next
    case False
    then show ?thesis unfolding b by (auto simp: socks5_bound_def io_simps read_ok[of 6] read_ok[of 18])
  qed
qed

lemma bound_head: "b \<in> bound_replies \<Longrightarrow> \<exists>x t a. b = 5 # 0 # x # t # a"
  by (auto simp: bound_replies_def)

lemma socks5_request_ok:
  "socks5_request host port (w, r) = ((w', r'), Inr y)
    \<longleftrightarrow> length host \<le> 255 \<and> w' = w @ [5, 1, 0, 3, length host] @ bytes_of host @ port_bytes port
      \<and> (\<exists>b \<in> bound_replies. r = b @ r')"
proof (cases "length host \<le> 255")
  case True
  let ?w = "w @ [5, 1, 0, 3, length host] @ bytes_of host @ port_bytes port"
  have "socks5_request host port (w, r) = ((w', r'), Inr y)
      \<longleftrightarrow> (\<exists>x t r1. r = 5 # 0 # x # t # r1 \<and> socks5_bound [5, 0, x, t] (?w, r1) = ((w', r'), Inr y))"
    using True by (auto simp: socks5_request_def io_simps)
  also have "\<dots> \<longleftrightarrow> w' = ?w \<and> (\<exists>b \<in> bound_replies. r = b @ r')"
    unfolding socks5_bound_ok
  proof safe
    fix b assume "b \<in> bound_replies"
    moreover from this obtain x t a where "b = 5 # 0 # x # t # a" using bound_head by blast
    ultimately show "\<exists>x t r1. b @ r' = 5 # 0 # x # t # r1 \<and> ?w = ?w \<and> (\<exists>a. [5, 0, x, t] @ a \<in> bound_replies \<and> r1 = a @ r')"
      by simp
  qed auto
  finally show ?thesis using True by simp
qed (simp add: socks5_request_def fail_ok)

lemma socks5_ok:
  "socks5_handshake host port user pass ([], input) = ((w, rest), Inr y)
    \<longleftrightarrow> (\<exists>m b. input = m @ b @ rest \<and> socks5_accepts host user pass m b \<and> w = socks5_sends host port user pass m)"
proof -
  let ?g = "if user \<noteq> [] then [5, 2, 0, 2] else [5, 1, 0]"
  have "socks5_handshake host port user pass ([], input) = ((w, rest), Inr y) \<longleftrightarrow>
     (\<exists>a b r1 w2 r2 u. input = a # b # r1 \<and> socks5_method user pass [a, b] (?g, r1) = ((w2, r2), Inr u)
        \<and> socks5_request host port (w2, r2) = ((w, rest), Inr y))"
    by (simp add: socks5_handshake_def io_simps io_bind_ok[of "socks5_method _ _ _"])
  also have "\<dots> \<longleftrightarrow> (\<exists>m b. input = m @ b @ rest \<and> socks5_accepts host user pass m b \<and> w = socks5_sends host port user pass m)"
    (is "?L \<longleftrightarrow> ?R")
  proof
    assume ?L
    then obtain a b r1 w2 r2 v where L: "input = a # b # r1" "socks5_method user pass [a, b] (?g, r1) = ((w2, r2), Inr v)"
        "socks5_request host port (w2, r2) = ((w, rest), Inr y)" by blast
    obtain bd where bd: "bd \<in> bound_replies" "r2 = bd @ rest" "length host \<le> 255"
        "w = w2 @ [5, 1, 0, 3, length host] @ bytes_of host @ port_bytes port" using L(3) unfolding socks5_request_ok by blast
    consider "a = 5" "b = 0" "w2 = ?g" "r2 = r1"
      | x where "a = 5" "b = 2" "user \<noteq> []" "length user \<le> 255" "length pass \<le> 255" "r1 = [x, 0] @ r2"
          "w2 = ?g @ [1, length user] @ bytes_of user @ [length pass] @ bytes_of pass"
      using L(2) unfolding socks5_method_ok socks5_auth_ok by blast
    then show ?R
    proof cases
      case 1
      then show ?thesis using L(1) bd
        by (intro exI[of _ "[5, 0]"] exI[of _ bd]) (simp add: socks5_accepts_def method_replies_def socks5_sends_def)
    next
      case 2
      then show ?thesis using L(1) bd
        by (intro exI[of _ "[5, 2, x, 0]"] exI[of _ bd]) (simp add: socks5_accepts_def method_replies_def socks5_sends_def)
    qed
  next
    assume ?R
    then obtain m bd where R: "input = m @ bd @ rest" "m \<in> method_replies user" "bd \<in> bound_replies" "length host \<le> 255"
        "m \<noteq> [5, 0] \<longrightarrow> length user \<le> 255 \<and> length pass \<le> 255" "w = socks5_sends host port user pass m"
      by (auto simp: socks5_accepts_def)
    consider "m = [5, 0]" | x where "m = [5, 2, x, 0]" "user \<noteq> []" using R(2) by (auto simp: method_replies_def split: if_splits)
    then show ?L
    proof cases
      case 1
      then show ?thesis using R
        by (intro exI[of _ 5] exI[of _ 0] exI[of _ "bd @ rest"] exI[of _ ?g] exI[of _ "()"])
          (simp add: socks5_method_ok socks5_request_ok socks5_sends_def)
    next
      case 2
      let ?w2 = "?g @ [1, length user] @ bytes_of user @ [length pass] @ bytes_of pass"
      show ?thesis using R 2
        by (intro exI[of _ 5] exI[of _ 2] exI[of _ "[x, 0] @ bd @ rest"] exI[of _ ?w2] exI[of _ "bd @ rest"] exI[of _ "()"])
          (simp add: socks5_method_ok socks5_auth_ok socks5_request_ok socks5_sends_def)
    qed
  qed
  finally show ?thesis .
qed

section \<open>SOCKS4 and HTTP\<close>

lemma socks4_ok:
  "socks4_request ipv4 host port remote ([], input) = ((w, rest), Inr y)
    \<longleftrightarrow> (\<exists>ip reply. (if remote then Some [0, 0, 0, 1] else ipv4 host) = Some ip
        \<and> input = reply @ rest \<and> length reply = 8 \<and> reply ! 1 = 0x5A
        \<and> w = [4, 1] @ port_bytes port @ ip @ [0] @ (if remote then bytes_of host @ [0] else []))"
proof (cases "if remote then Some [0, 0, 0, 1] else ipv4 host")
  case (Some ip)
  then show ?thesis unfolding socks4_request_def by (auto simp: io_simps read_ok[of 8])
qed (simp add: socks4_request_def fail_ok)

text \<open>A header block: up to and with its first empty line, within the bound.\<close>

definition header_reply :: "nat list \<Rightarrow> bool" where
  "header_reply h \<longleftrightarrow> header_ends h \<and> (\<forall>k < length h. \<not> header_ends (take k h)) \<and> length h \<le> max_connect_header"

lemma read_header_ok:
  "read_header hdr input = (rest, Inr h) \<longleftrightarrow>
     (\<exists>p. p \<noteq> [] \<and> input = p @ rest \<and> h = hdr @ p \<and> header_ends h
        \<and> (\<forall>k. 0 < k \<and> k < length p \<longrightarrow> \<not> header_ends (hdr @ take k p) \<and> length hdr + k < max_connect_header))"
proof (induction input arbitrary: hdr)
  case (Cons b bs)
  let ?ok = "\<lambda>hdr p. \<forall>k. 0 < k \<and> k < length p \<longrightarrow> \<not> header_ends (hdr @ take k p) \<and> length hdr + k < max_connect_header"
  have one: "?ok hdr (b # p) \<longleftrightarrow> \<not> header_ends (hdr @ [b]) \<and> length hdr + 1 < max_connect_header \<and> ?ok (hdr @ [b]) p" if "p \<noteq> []" for p
  proof
    assume A: "?ok hdr (b # p)"
    have "\<not> header_ends ((hdr @ [b]) @ take k p) \<and> length (hdr @ [b]) + k < max_connect_header" if "0 < k" "k < length p" for k
      using A[rule_format, of "Suc k"] that by simp
    then show "\<not> header_ends (hdr @ [b]) \<and> length hdr + 1 < max_connect_header \<and> ?ok (hdr @ [b]) p"
      using A[rule_format, of 1] that by simp
  next
    assume B: "\<not> header_ends (hdr @ [b]) \<and> length hdr + 1 < max_connect_header \<and> ?ok (hdr @ [b]) p"
    show "?ok hdr (b # p)"
    proof (intro allI impI)
      fix k assume k: "0 < k \<and> k < length (b # p)"
      then obtain j where j: "k = Suc j" by (cases k) auto
      show "\<not> header_ends (hdr @ take k (b # p)) \<and> length hdr + k < max_connect_header"
        using B k by (cases j) (auto simp: j)
    qed
  qed
  show ?case
  proof (cases "header_ends (hdr @ [b])")
    case True
    have "p = [b]" if "p \<noteq> []" "b # bs = p @ rest" "?ok hdr p" for p
    proof -
      note t = that
      obtain p' where p: "p = b # p'" using t(1,2) by (cases p) auto
      then show ?thesis using one[of p'] t(3) True by (cases "p' = []") auto
    qed
    then have "(\<exists>p. p \<noteq> [] \<and> b # bs = p @ rest \<and> h = hdr @ p \<and> header_ends h \<and> ?ok hdr p) \<longleftrightarrow> rest = bs \<and> h = hdr @ [b]"
      using True by (intro iffI) (force intro!: exI[of _ "[b]"])+
    then show ?thesis using True by auto
  next
    case False
    have "(\<exists>p. p \<noteq> [] \<and> b # bs = p @ rest \<and> h = hdr @ p \<and> header_ends h \<and> ?ok hdr p)
        \<longleftrightarrow> (\<exists>p. p \<noteq> [] \<and> bs = p @ rest \<and> h = (hdr @ [b]) @ p \<and> header_ends h \<and> ?ok hdr (b # p))" (is "?A \<longleftrightarrow> ?B")
    proof
      assume ?A
      then obtain p where p: "p \<noteq> []" "b # bs = p @ rest" "h = hdr @ p" "header_ends h" "?ok hdr p" by blast
      then obtain p' where p': "p = b # p'" by (cases p) auto
      have "p' \<noteq> []" using p(3,4) False by (auto simp: p')
      then show ?B using p by (intro exI[of _ p']) (simp add: p')
    next
      assume ?B
      then obtain p where "p \<noteq> []" "bs = p @ rest" "h = (hdr @ [b]) @ p" "header_ends h" "?ok hdr (b # p)" by blast
      then show ?A by (intro exI[of _ "b # p"]) simp
    qed
    also have "\<dots> \<longleftrightarrow> length hdr + 1 < max_connect_header \<and> read_header (hdr @ [b]) bs = (rest, Inr h)"
      unfolding Cons.IH using one False by blast
    also have "\<dots> \<longleftrightarrow> read_header hdr (b # bs) = (rest, Inr h)" using False by (auto simp: Let_def not_le)
    finally show ?thesis by simp
  qed
qed simp

lemma take_header_ok:
  "read_header [] input = (rest, Inr h) \<longleftrightarrow> input = h @ rest \<and> header_reply h"
proof -
  have ne: "\<not> header_ends []" "h \<noteq> []" if "header_ends h" using that by (auto simp: header_ends_def)
  have "(\<forall>k. 0 < k \<and> k < length h \<longrightarrow> \<not> header_ends (take k h) \<and> k < max_connect_header)
      \<longleftrightarrow> (\<forall>k < length h. \<not> header_ends (take k h)) \<and> length h \<le> max_connect_header" if e: "header_ends h"
  proof -
    have l: "4 \<le> length h" using e by (simp add: header_ends_def)
    have "k = 0 \<Longrightarrow> \<not> header_ends (take k h)" for k by (simp add: header_ends_def)
    moreover have "length h \<le> max_connect_header \<longleftrightarrow> (\<forall>k. 0 < k \<and> k < length h \<longrightarrow> k < max_connect_header)"
    proof
      assume "\<forall>k. 0 < k \<and> k < length h \<longrightarrow> k < max_connect_header"
      from this[rule_format, of "length h - 1"] show "length h \<le> max_connect_header" using l by linarith
    qed auto
    ultimately show ?thesis by (metis gr0I)
  qed
  then show ?thesis unfolding read_header_ok header_reply_def using ne by auto
qed

lemma http_ok:
  "http_connect c host port ([], input) = ((w, rest), Inr y) \<longleftrightarrow>
     (\<exists>h. input = h @ rest \<and> header_reply h \<and> parse_connect_status_line h = 200 \<and> w = connect_request c host port)"
proof -
  have "io_bind take_header f (w0, input) = ((w, rest), Inr y) \<longleftrightarrow>
      (\<exists>h r. input = h @ r \<and> header_reply h \<and> f h (w0, r) = ((w, rest), Inr y))" for f and w0
  proof -
    have "io_bind take_header f (w0, input) = ((w, rest), Inr y) \<longleftrightarrow>
        (\<exists>h r. read_header [] input = (r, Inr h) \<and> f h (w0, r) = ((w, rest), Inr y))"
      by (cases "read_header [] input") (auto simp: io_bind_def take_header_def Let_def split: sum.splits)
    then show ?thesis by (simp only: take_header_ok conj_assoc)
  qed
  then show ?thesis by (auto simp: http_connect_def io_simps Let_def split: if_splits)
qed

section \<open>The property\<close>

text \<open>The protocol of a proxy: a reply that grants the tunnel, and what the client has sent by then.\<close>

definition grants_tunnel ::
  "(string \<Rightarrow> nat list option) \<Rightarrow> proxy_config \<Rightarrow> string \<Rightarrow> nat \<Rightarrow> nat list \<Rightarrow> nat list \<Rightarrow> bool" where
  "grants_tunnel ipv4 c host port reply sent \<longleftrightarrow>
     (case px_type c of
        PSocks5 \<Rightarrow> (\<exists>m b. reply = m @ b \<and> socks5_accepts host (px_user c) (px_pass c) m b
          \<and> sent = socks5_sends host port (px_user c) (px_pass c) m)
      | PSocks4 \<Rightarrow> length reply = 8 \<and> reply ! 1 = 0x5A
          \<and> (\<exists>ip. ipv4 host = Some ip \<and> sent = [4, 1] @ port_bytes port @ ip @ [0])
      | PSocks4a \<Rightarrow> socks4a_host_ok host \<and> length reply = 8 \<and> reply ! 1 = 0x5A
          \<and> sent = [4, 1] @ port_bytes port @ [0, 0, 0, 1, 0] @ bytes_of host @ [0]
      | _ \<Rightarrow> header_reply reply \<and> parse_connect_status_line reply = 200 \<and> sent = connect_request c host port)"

text \<open>
  C40.  A tunnel is set up exactly when the proxy grants it by its protocol, whatever type it is of: the
  client has then sent the requests of the protocol and nothing else, and has read the reply and not a
  byte more, so a greeting of the target that arrives with the reply is left for the connection.
\<close>

theorem tunnel_is_exact:
  "proxy_connect_sync ipv4 dial c host port = ((sent, rest), Inr ()) \<longleftrightarrow>
     (\<exists>input reply. dial = Some input \<and> input = reply @ rest \<and> grants_tunnel ipv4 c host port reply sent)"
proof (cases dial)
  case None
  then show ?thesis by (simp add: proxy_connect_sync_def socks_connect_sync_def on_connection_def split: proxy_type.split)
next
  case (Some input)
  show ?thesis
  proof (cases "px_type c")
    case PSocks5
    have "(\<exists>reply. input = reply @ rest \<and> grants_tunnel ipv4 c host port reply sent)
        \<longleftrightarrow> (\<exists>m b. input = m @ b @ rest \<and> socks5_accepts host (px_user c) (px_pass c) m b
              \<and> sent = socks5_sends host port (px_user c) (px_pass c) m)"
      unfolding grants_tunnel_def PSocks5 proxy_type.case by (metis append.assoc)
    then show ?thesis
      using Some PSocks5 by (simp add: proxy_connect_sync_def socks_connect_sync_def on_connection_def is_socks_def socks5_ok)
  qed (use Some in \<open>auto simp: proxy_connect_sync_def socks_connect_sync_def on_connection_def is_socks_def
        grants_tunnel_def socks4_ok http_ok\<close>)
qed

text \<open>A proxy that sends the greeting of the target together with its reply.\<close>

lemma tunnel_demo:
  "proxy_connect_sync (\<lambda>_. None) (Some (bytes_of ''HTTP/1.1 200 OK'' @ crlf @ crlf @ bytes_of ''220 hi''))
       (no_proxy\<lparr>px_mode := ModeManual, px_host := ''p'', px_port := 8080\<rparr>) ''ftp'' 21
     = ((bytes_of ''CONNECT ftp:21 HTTP/1.1'' @ crlf @ bytes_of ''Host: ftp:21'' @ crlf @ crlf, bytes_of ''220 hi''), Inr ())"
proof -
  have "char_of (50 :: nat) = CHR ''2''" "char_of (48 :: nat) = CHR ''0''" by code_simp+
  then show ?thesis
    by (simp add: proxy_connect_sync_def is_socks_def on_connection_def http_connect_def io_simps io_bind_def write_all_def
      take_header_def header_ends_def crlf_def bytes_of_def max_connect_header_def parse_connect_status_line_def
      first_scalar_def white_def status_number_def parse_unsigned_def all_digits_def is_digit_def digits_val_def digit_val_def
      no_proxy_def connect_request_def show_nat.simps digit_char_def give_def Let_def)
qed

section \<open>Credentials of an HTTP proxy\<close>

definition base64_value :: "nat \<Rightarrow> nat" where
  "base64_value c = (if 65 \<le> c \<and> c \<le> 90 then c - 65 else if 97 \<le> c \<and> c \<le> 122 then c - 71
     else if 48 \<le> c \<and> c \<le> 57 then c + 4 else if c = 43 then 62 else 63)"

fun base64_decode :: "nat list \<Rightarrow> nat list" where
  "base64_decode (a # b # c # d # rest) =
     (let w = base64_value a; x = base64_value b; y = base64_value c; z = base64_value d in
      if c = 61 then [w * 4 + x div 16]
      else if d = 61 then [w * 4 + x div 16, x mod 16 * 16 + y div 4]
      else [w * 4 + x div 16, x mod 16 * 16 + y div 4, y mod 4 * 64 + z] @ base64_decode rest)"
| "base64_decode _ = []"

lemma base64_digit_value: "n < 64 \<Longrightarrow> base64_value (base64_digit n) = n" "n < 64 \<Longrightarrow> base64_digit n \<noteq> 61"
  by (auto simp: base64_value_def base64_digit_def)

lemma base64_roundtrip: "\<forall>b \<in> set bs. b < 256 \<Longrightarrow> base64_decode (base64_encode bs) = bs"
proof (induction bs rule: base64_encode.induct)
  case (2 a)
  then have "a div 4 < 64" "a mod 4 * 16 < 64" by auto
  then show ?case by (simp add: base64_digit_value)
next
  case (3 a b)
  then have "a div 4 < 64" "a mod 4 * 16 + b div 16 < 64" "b mod 16 * 4 < 64" by auto
  moreover have "(a mod 4 * 16 + b div 16) div 16 = a mod 4" "(a mod 4 * 16 + b div 16) mod 16 = b div 16"
    using 3 by auto
  ultimately show ?case by (simp add: base64_digit_value)
next
  case (4 a b c rest)
  then have "a div 4 < 64" "a mod 4 * 16 + b div 16 < 64" "b mod 16 * 4 + c div 64 < 64" "c mod 64 < 64" by auto
  moreover have "(a mod 4 * 16 + b div 16) div 16 = a mod 4" "(a mod 4 * 16 + b div 16) mod 16 = b div 16"
      "(b mod 16 * 4 + c div 64) div 4 = b mod 16" "(b mod 16 * 4 + c div 64) mod 4 = c div 64"
    using 4 by auto
  ultimately show ?case using 4 by (simp add: base64_digit_value)
qed simp

end
