(* ===== verification/Auto_Proxy.thy ===== *)
theory Auto_Proxy
  imports Node_Pool Route_Health Proxy_Config
begin

text \<open>
  Automatic proxy mode (\<^verbatim>\<open>native/engine/src/auto_proxy.rs\<close>): the shared cache of decisions per host,
  the sampling of all candidates, and the state machine of a running task, which ticks with the
  connection policy.  Instants are milliseconds.  What a sample received is a parameter; a client that
  was built is a number.
\<close>

section \<open>Decisions\<close>

definition proxy_lease_ttl :: nat where "proxy_lease_ttl = 600000"
definition cooldown_ttl :: nat where "cooldown_ttl = 300000"
definition no_switch_ttl :: nat where "no_switch_ttl = 1800000"

datatype decision = DProxy candidate_source | DCooldown | DNoSwitch

type_synonym decision_cache = "(string, decision \<times> nat) btree"

definition cache_lookup :: "nat \<Rightarrow> string \<Rightarrow> decision_cache \<Rightarrow> decision option \<times> decision_cache" where
  "cache_lookup t host c =
     (case bt_get c host of
        Some (d, until) \<Rightarrow> if t < until then (Some d, c) else (None, bt_remove host c)
      | None \<Rightarrow> (None, c))"

definition decision_ttl :: "decision \<Rightarrow> nat" where
  "decision_ttl d = (case d of DProxy _ \<Rightarrow> proxy_lease_ttl | DCooldown \<Rightarrow> cooldown_ttl | DNoSwitch \<Rightarrow> no_switch_ttl)"

definition cache_set :: "nat \<Rightarrow> string \<Rightarrow> decision \<Rightarrow> decision_cache \<Rightarrow> decision_cache" where
  "cache_set t host d c = bt_insert host (d, t + decision_ttl d) c"

definition cache_clear_host :: "string \<Rightarrow> decision_cache \<Rightarrow> decision_cache" where
  "cache_clear_host host c = bt_remove host c"

definition cache_clear :: "decision_cache \<Rightarrow> decision_cache" where
  "cache_clear c = []"

section \<open>Labels of routes\<close>

definition source_suffix :: "candidate_source \<Rightarrow> string" where
  "source_suffix src = (case src of SystemProxy \<Rightarrow> '':system'' | ManualFields \<Rightarrow> '':manual'')"

definition with_source :: "string \<Rightarrow> candidate_source \<Rightarrow> string" where
  "with_source base src =
     (if base \<in> set [''proxy:sampled'', ''proxy:cached'', ''proxy:failover''] then base @ source_suffix src else base)"

definition to_failover :: "string \<Rightarrow> string" where
  "to_failover label =
     (if \<not> starts_with label ''proxy'' then label
      else if ends_with label '':system'' then ''proxy:failover:system''
      else if ends_with label '':manual'' then ''proxy:failover:manual''
      else ''proxy:failover'')"

section \<open>Samples\<close>

record sample_reply =
  pb_status :: nat
  pb_etag :: string
  pb_modified :: string
  pb_received :: nat
  pb_first :: nat          \<comment> \<open>length of the first chunk\<close>
  pb_body_secs :: real     \<comment> \<open>since the first chunk\<close>
  pb_secs :: real

record probe_outcome =
  po_bps :: real
  po_valid :: bool

definition probe_transfer_bps :: "nat \<Rightarrow> nat \<Rightarrow> real \<Rightarrow> real \<Rightarrow> real" where
  "probe_transfer_bps received first body secs =
     (if 0 < received - first \<and> 0 < body then real (received - first) / body
      else real received / max secs (1 / 1000))"

definition validators_match :: "string \<Rightarrow> string \<Rightarrow> sample_reply \<Rightarrow> bool" where
  "validators_match etag modified r \<longleftrightarrow>
     (etag = [] \<or> etag = pb_etag r) \<and> (modified = [] \<or> modified = pb_modified r)"

text \<open>\<open>None\<close>: no client, a transport error, or the time-out.\<close>

definition probe_proxy :: "string \<Rightarrow> string \<Rightarrow> sample_reply option \<Rightarrow> probe_outcome" where
  "probe_proxy etag modified reply =
     (case reply of
        None \<Rightarrow> \<lparr> po_bps = 0, po_valid = True \<rparr>
      | Some r \<Rightarrow>
          if pb_status r div 100 \<noteq> 2 then \<lparr> po_bps = 0, po_valid = True \<rparr>
          else \<lparr> po_bps = probe_transfer_bps (pb_received r) (pb_first r) (pb_body_secs r) (max (pb_secs r) (1 / 1000)),
                 po_valid = validators_match etag modified r \<rparr>)"

type_synonym candidate_outcome = "proxy_candidate \<times> probe_outcome"

definition advantage_ratio :: real where "advantage_ratio = 2"
definition min_remaining_bytes :: int where "min_remaining_bytes = 4 * 1024 * 1024"
definition min_runtime :: nat where "min_runtime = 6000"
definition fast_reeval_min_runtime :: nat where "fast_reeval_min_runtime = 4000"

record auto_obs =
  ob_bps :: real
  ob_alive :: nat
  ob_remaining :: int
  ob_limited :: bool
  ob_sensitive :: bool

definition should_probe :: "nat \<Rightarrow> nat \<Rightarrow> auto_obs \<Rightarrow> bool" where
  "should_probe least runtime ob \<longleftrightarrow>
     least \<le> runtime \<and> 0 < ob_alive ob \<and> min_remaining_bytes \<le> ob_remaining ob \<and> \<not> ob_limited ob \<and> \<not> ob_sensitive ob"

definition proxy_wins :: "real \<Rightarrow> real \<Rightarrow> bool" where
  "proxy_wins bps baseline \<longleftrightarrow> 0 < bps \<and> baseline * advantage_ratio \<le> bps"

definition fastest_proxy_winner :: "candidate_outcome list \<Rightarrow> real \<Rightarrow> candidate_outcome option" where
  "fastest_proxy_winner outcomes baseline =
     max_by_key (\<lambda>r. po_bps (snd r)) (filter (\<lambda>r. po_valid (snd r) \<and> proxy_wins (po_bps (snd r)) baseline) outcomes)"

section \<open>The state machine of a task\<close>

record auto_ctx =
  ax_candidates :: "proxy_candidate list"
  ax_host :: string
  ax_fast :: bool
  ax_validate :: bool

datatype auto_phase = Idle | Probing "candidate_outcome list option" real | Settled

record auto_st =
  as_phase :: auto_phase
  as_started :: nat
  as_cache :: decision_cache
  as_pool :: node_pool
  as_routes :: route_st
  as_label :: string

datatype auto_effect = Sampled | Switched proxy_candidate nat | Published string

definition per_conn :: "auto_obs \<Rightarrow> real" where
  "per_conn ob = ob_bps ob / real (max (ob_alive ob) 1)"

definition publish_route :: "string \<Rightarrow> auto_st \<Rightarrow> auto_st \<times> auto_effect list" where
  "publish_route label s = (s\<lparr>as_label := label\<rparr>, [Published label])"

definition settle_auto :: "auto_st \<Rightarrow> auto_st" where "settle_auto s = s\<lparr>as_phase := Settled\<rparr>"

definition apply_switch ::
  "nat \<Rightarrow> (proxy_config \<Rightarrow> nat option) \<Rightarrow> auto_ctx \<Rightarrow> proxy_candidate \<Rightarrow> string \<Rightarrow> auto_st
   \<Rightarrow> (auto_st \<times> auto_effect list) \<times> bool" where
  "apply_switch t build ctx cand base s =
     (case build (pc_config cand) of
        Some c \<Rightarrow>
          (let (s1, es) = publish_route (with_source base (pc_source cand)) (s\<lparr>as_pool := switch_to_client c (as_pool s)\<rparr>)
           in ((settle_auto s1, Switched cand c # es), True))
      | None \<Rightarrow> ((settle_auto (s\<lparr>as_cache := cache_set t (ax_host ctx) DCooldown (as_cache s)\<rparr>), []), False))"

text \<open>The end of a round of samples.\<close>

definition judge ::
  "nat \<Rightarrow> nat \<Rightarrow> string \<Rightarrow> (proxy_config \<Rightarrow> nat option) \<Rightarrow> auto_ctx \<Rightarrow> real \<Rightarrow> candidate_outcome list \<Rightarrow> auto_st
   \<Rightarrow> auto_st \<times> auto_effect list" where
  "judge t now fp build ctx baseline outcomes s =
     (case fastest_proxy_winner outcomes baseline of
        Some (cand, outcome) \<Rightarrow>
          (let ((s1, es), switched) = apply_switch t build ctx cand ''proxy:sampled''
                 (s\<lparr>as_cache := cache_set t (ax_host ctx) (DProxy (pc_source cand)) (as_cache s)\<rparr>)
           in (if switched then s1\<lparr>as_routes := record_proxy_win now fp (ax_host ctx) (po_bps outcome) (as_routes s1)\<rparr> else s1, es))
      | None \<Rightarrow>
          (if outcomes \<noteq> [] \<and> list_all (\<lambda>r. \<not> po_valid (snd r)) outcomes
           then let (s1, es) = publish_route ''direct:pinned''
                      (s\<lparr>as_cache := cache_set t (ax_host ctx) DNoSwitch (as_cache s),
                         as_routes := record_no_switch now fp (ax_host ctx) (as_routes s)\<rparr>)
                in (settle_auto s1, es)
           else let (s1, es) = publish_route ''direct:sampled''
                      (s\<lparr>as_cache := cache_set t (ax_host ctx) DCooldown (as_cache s),
                         as_routes := record_cooldown now fp (ax_host ctx) (as_routes s)\<rparr>)
                in (settle_auto s1, es)))"

text \<open>An idle task past the guard: the decision of a sibling, or a round of samples.\<close>

definition leave_idle ::
  "nat \<Rightarrow> (proxy_config \<Rightarrow> nat option) \<Rightarrow> auto_ctx \<Rightarrow> auto_obs \<Rightarrow> auto_st \<Rightarrow> auto_st \<times> auto_effect list" where
  "leave_idle t build ctx ob s0 =
     (let (d, cache) = cache_lookup t (ax_host ctx) (as_cache s0);
          s = s0\<lparr>as_cache := cache\<rparr>;
          sample = (s\<lparr>as_phase := Probing None (per_conn ob)\<rparr>, [Sampled]) in
      case d of
        Some (DProxy src) \<Rightarrow>
          (if ax_validate ctx then sample
           else case find (\<lambda>c. pc_source c = src) (ax_candidates ctx) of
             Some cand \<Rightarrow> fst (apply_switch t build ctx cand ''proxy:cached'' s)
           | None \<Rightarrow> sample)
      | Some DCooldown \<Rightarrow> (settle_auto s, [])
      | Some DNoSwitch \<Rightarrow> (settle_auto s, [])
      | None \<Rightarrow> sample)"

definition auto_tick ::
  "nat \<Rightarrow> nat \<Rightarrow> string \<Rightarrow> (proxy_config \<Rightarrow> nat option) \<Rightarrow> auto_ctx \<Rightarrow> auto_obs \<Rightarrow> auto_st \<Rightarrow> auto_st \<times> auto_effect list" where
  "auto_tick t now fp build ctx ob s =
     (case as_phase s of
        Settled \<Rightarrow> (s, [])
      | Idle \<Rightarrow>
          if \<not> should_probe (if ax_fast ctx then fast_reeval_min_runtime else min_runtime) (t - as_started s) ob then (s, [])
          else leave_idle t build ctx ob s
      | Probing None _ \<Rightarrow> (s, [])
      | Probing (Some outcomes) b \<Rightarrow>
          judge t now fp build ctx (max b (per_conn ob)) outcomes (s\<lparr>as_phase := Probing None b\<rparr>))"

definition auto_begin :: "nat \<Rightarrow> decision_cache \<Rightarrow> node_pool \<Rightarrow> route_st \<Rightarrow> string \<Rightarrow> auto_st" where
  "auto_begin t cache pool routes label =
     \<lparr> as_phase = Idle, as_started = t, as_cache = cache, as_pool = pool, as_routes = routes, as_label = label \<rparr>"

text \<open>
  The background task delivers the outcomes of the samples that did not panic, in the order they
  ended; a reply comes with the position of its candidate.
\<close>

definition sample_outcomes :: "auto_ctx \<Rightarrow> string \<Rightarrow> string \<Rightarrow> (nat \<times> sample_reply option) list \<Rightarrow> candidate_outcome list" where
  "sample_outcomes ctx etag modified replies =
     map (\<lambda>(i, r). (ax_candidates ctx ! i, probe_proxy etag modified r))
       (filter (\<lambda>(i, _). i < length (ax_candidates ctx)) replies)"

definition samples_arrive :: "auto_ctx \<Rightarrow> string \<Rightarrow> string \<Rightarrow> (nat \<times> sample_reply option) list \<Rightarrow> auto_st \<Rightarrow> auto_st" where
  "samples_arrive ctx etag modified replies s =
     (case as_phase s of
        Probing None b \<Rightarrow> s\<lparr>as_phase := Probing (Some (sample_outcomes ctx etag modified replies)) b\<rparr>
      | _ \<Rightarrow> s)"

section \<open>The decision at the start of a task\<close>

text \<open>\<^verbatim>\<open>auto_route_decision\<close> of the manager: the setting, the label, and the context of the state machine.\<close>

record route_request =
  rq_mode_auto :: bool
  rq_candidates :: "proxy_candidate list"
  rq_host :: "string option"
  rq_partial :: bool
  rq_ignore_tls :: bool
  rq_forced :: "failover_target option"

type_synonym route_choice = "(proxy_config \<times> string \<times> auto_ctx option) option"

definition via_source :: "string \<Rightarrow> candidate_source \<Rightarrow> proxy_candidate list \<Rightarrow> route_choice option" where
  "via_source base src cands =
     map_option (\<lambda>c. Some (pc_config c, with_source base src, None)) (find (\<lambda>c. pc_source c = src) cands)"

definition hinted_choice :: "route_request \<Rightarrow> string \<Rightarrow> candidate_source option \<Rightarrow> route_hint option \<Rightarrow> route_choice" where
  "hinted_choice rq host cached hint =
     (if hint = Some SuppressProbe then Some (no_proxy, ''direct'', None)
      else if hint = Some AdoptProxy \<and> \<not> rq_partial rq \<and> length (rq_candidates rq) = 1
      then let c = hd (rq_candidates rq) in Some (pc_config c, with_source ''proxy:cached'' (pc_source c), None)
      else Some (no_proxy, ''direct'',
             if rq_ignore_tls rq then None
             else Some \<lparr> ax_candidates = rq_candidates rq, ax_host = host,
                         ax_fast = (cached \<noteq> None \<or> hint = Some FastReeval \<or> hint = Some AdoptProxy),
                         ax_validate = rq_partial rq \<rparr>))"

definition auto_route_decision ::
  "nat \<Rightarrow> nat \<Rightarrow> string \<Rightarrow> route_request \<Rightarrow> decision_cache \<times> route_st \<Rightarrow> route_choice \<times> decision_cache \<times> route_st" where
  "auto_route_decision t now fp rq = (\<lambda>(cache, routes).
     (if \<not> rq_mode_auto rq then (None, cache, routes)
      else if rq_forced rq = Some Direct then (Some (no_proxy, ''direct:failover'', None), cache, routes)
      else if rq_candidates rq = [] then (Some (no_proxy, ''direct'', None), cache, routes)
      else case rq_forced rq of
        Some (ViaProxy src) \<Rightarrow>
          (case via_source ''proxy:failover'' src (rq_candidates rq) of
             Some r \<Rightarrow> (r, cache, routes)
           | None \<Rightarrow> (Some (no_proxy, ''direct:failover'', None), cache, routes))
      | _ \<Rightarrow>
          (case rq_host rq of
             None \<Rightarrow> (Some (no_proxy, ''direct'', None), cache, routes)
           | Some host \<Rightarrow>
               let (d, cache1) = cache_lookup t host cache;
                   cached = (case d of Some (DProxy src) \<Rightarrow> Some src | _ \<Rightarrow> None);
                   leased = (if rq_partial rq then None
                             else Option.bind cached (\<lambda>src. via_source ''proxy:cached'' src (rq_candidates rq)))
               in case leased of
                    Some r \<Rightarrow> (r, cache1, routes)
                  | None \<Rightarrow>
                      let (hint, routes1) = startup_hint now fp host routes
                      in (hinted_choice rq host cached hint, cache1, routes1))))"

end
