(* ===== verification/Auto_Props.thy ===== *)
theory Auto_Props
  imports Auto_Proxy Pool_Props "HOL-Library.Sublist"
begin

text \<open>
  Runs of automatic proxy mode: the ticks of a task, the arrival of its samples, and what other tasks
  and the task's own workers do to the shared state in between.  Each run samples at most once and
  switches at most once, and a switch has a reason that can be named.
\<close>

section \<open>Runs\<close>

datatype auto_event =
    Ticked nat nat string auto_obs
  | Answered "(nat \<times> sample_reply option) list"
  | Meanwhile decision_cache node_pool route_st

record auto_env =
  ae_build :: "proxy_config \<Rightarrow> nat option"
  ae_ctx :: auto_ctx
  ae_etag :: string
  ae_modified :: string

fun auto_step :: "auto_env \<Rightarrow> auto_event \<Rightarrow> auto_st \<Rightarrow> auto_st \<times> auto_effect list" where
  "auto_step E (Ticked t now fp ob) s = auto_tick t now fp (ae_build E) (ae_ctx E) ob s"
| "auto_step E (Answered replies) s = (samples_arrive (ae_ctx E) (ae_etag E) (ae_modified E) replies s, [])"
| "auto_step E (Meanwhile cache pool routes) s = (s\<lparr>as_cache := cache, as_pool := pool, as_routes := routes\<rparr>, [])"

fun auto_run :: "auto_env \<Rightarrow> auto_event list \<Rightarrow> auto_st \<Rightarrow> auto_st \<times> auto_effect list" where
  "auto_run E [] s = (s, [])"
| "auto_run E (e # evs) s =
     (let (s1, es) = auto_step E e s; (s2, es2) = auto_run E evs s1 in (s2, es @ es2))"

lemma auto_run_append:
  "auto_run E (evs @ fvs) s =
     (let (s1, es) = auto_run E evs s; (s2, es2) = auto_run E fvs s1 in (s2, es @ es2))"
  by (induction evs arbitrary: s) (auto simp: Let_def split: prod.splits)

section \<open>The two reasons for a switch\<close>

definition may_probe :: "auto_env \<Rightarrow> nat \<Rightarrow> nat \<Rightarrow> auto_obs \<Rightarrow> bool" where
  "may_probe E started t ob \<longleftrightarrow>
     should_probe (if ax_fast (ae_ctx E) then fast_reeval_min_runtime else min_runtime) (t - started) ob"

text \<open>A sibling task holds the lease of the host at the tick.\<close>

definition leased_at :: "auto_env \<Rightarrow> auto_event list \<Rightarrow> auto_st \<Rightarrow> proxy_candidate \<Rightarrow> nat \<Rightarrow> bool" where
  "leased_at E evs s0 cand c \<longleftrightarrow>
     \<not> ax_validate (ae_ctx E) \<and> cand \<in> set (ax_candidates (ae_ctx E)) \<and> ae_build E (pc_config cand) = Some c \<and>
     (\<exists>pre t now fp ob post. evs = pre @ Ticked t now fp ob # post \<and> may_probe E (as_started s0) t ob
        \<and> fst (cache_lookup t (ax_host (ae_ctx E)) (as_cache (fst (auto_run E pre s0)))) = Some (DProxy (pc_source cand)))"

text \<open>
  A tick at which the task may sample, then the answers, then a tick at which the candidate is twice as
  fast as a direct connection was at either tick; its answer carries the validators of the task.
\<close>

definition sampled_win :: "auto_env \<Rightarrow> nat \<Rightarrow> auto_event list \<Rightarrow> proxy_candidate \<Rightarrow> nat \<Rightarrow> bool" where
  "sampled_win E started evs cand c \<longleftrightarrow>
     ae_build E (pc_config cand) = Some c \<and>
     (\<exists>t now fp ob rs t' now' fp' ob' i r.
        subseq [Ticked t now fp ob, Answered rs, Ticked t' now' fp' ob'] evs \<and> may_probe E started t ob
        \<and> (i, Some r) \<in> set rs \<and> i < length (ax_candidates (ae_ctx E)) \<and> cand = ax_candidates (ae_ctx E) ! i
        \<and> pb_status r div 100 = 2 \<and> validators_match (ae_etag E) (ae_modified E) r
        \<and> (let bps = po_bps (probe_proxy (ae_etag E) (ae_modified E) (Some r))
           in 0 < bps \<and> 2 * per_conn ob \<le> bps \<and> 2 * per_conn ob' \<le> bps))"

section \<open>The invariant of a run\<close>

definition outcome_shape :: "auto_env \<Rightarrow> auto_event list \<Rightarrow> auto_st \<Rightarrow> auto_effect list \<Rightarrow> bool" where
  "outcome_shape E evs s0 es \<longleftrightarrow>
     es \<in> {[], [Sampled], [Sampled, Published ''direct:sampled''], [Sampled, Published ''direct:pinned'']}
   \<or> (\<exists>cand c. es = [Switched cand c, Published (with_source ''proxy:cached'' (pc_source cand))] \<and> leased_at E evs s0 cand c)
   \<or> (\<exists>cand c. es = [Sampled, Switched cand c, Published (with_source ''proxy:sampled'' (pc_source cand))]
        \<and> sampled_win E (as_started s0) evs cand c)"

definition probing_since :: "auto_env \<Rightarrow> auto_event list \<Rightarrow> nat \<Rightarrow> candidate_outcome list option \<Rightarrow> real \<Rightarrow> bool" where
  "probing_since E evs started slot b \<longleftrightarrow>
     (\<exists>t now fp ob. may_probe E started t ob \<and> b = per_conn ob \<and>
        (case slot of None \<Rightarrow> subseq [Ticked t now fp ob] evs
         | Some os \<Rightarrow> \<exists>rs. subseq [Ticked t now fp ob, Answered rs] evs
             \<and> os = sample_outcomes (ae_ctx E) (ae_etag E) (ae_modified E) rs))"

definition auto_inv :: "auto_env \<Rightarrow> auto_event list \<Rightarrow> auto_st \<Rightarrow> auto_st \<Rightarrow> auto_effect list \<Rightarrow> bool" where
  "auto_inv E evs s0 s es \<longleftrightarrow> as_started s = as_started s0 \<and>
     (case as_phase s of
        Idle \<Rightarrow> es = []
      | Probing slot b \<Rightarrow> es = [Sampled] \<and> probing_since E evs (as_started s0) slot b
      | Settled \<Rightarrow> outcome_shape E evs s0 es)"

lemma subseq_grow: "subseq xs evs \<Longrightarrow> subseq xs (evs @ fvs)"
  by (rule subseq_order.trans[OF _ list_emb_prefix]) auto

lemma sampled_winI:
  assumes "ae_build E (pc_config cand) = Some c" "subseq [Ticked t now fp ob, Answered rs, Ticked t' now' fp' ob'] evs"
    "may_probe E started t ob" "(i, Some r) \<in> set rs" "i < length (ax_candidates (ae_ctx E))"
    "cand = ax_candidates (ae_ctx E) ! i" "pb_status r div 100 = 2" "validators_match (ae_etag E) (ae_modified E) r"
    "out = probe_proxy (ae_etag E) (ae_modified E) (Some r)" "0 < po_bps out" "2 * per_conn ob \<le> po_bps out \<and> 2 * per_conn ob' \<le> po_bps out"
  shows "sampled_win E started evs cand c"
  unfolding sampled_win_def Let_def using assms by blast

lemma leased_at_mono: "leased_at E evs s0 cand c \<Longrightarrow> leased_at E (evs @ fvs) s0 cand c"
  by (force simp: leased_at_def)

lemma sampled_win_mono: "sampled_win E n evs cand c \<Longrightarrow> sampled_win E n (evs @ fvs) cand c"
  unfolding sampled_win_def by (blast intro: subseq_grow)

lemma outcome_shape_mono: "outcome_shape E evs s0 es \<Longrightarrow> outcome_shape E (evs @ fvs) s0 es"
  unfolding outcome_shape_def by (blast intro: leased_at_mono sampled_win_mono)

lemma probing_since_mono: "probing_since E evs n slot b \<Longrightarrow> probing_since E (evs @ fvs) n slot b"
  unfolding probing_since_def by (cases slot) (simp_all, (blast intro: subseq_grow)+)

lemma apply_switch_cases:
  "apply_switch t build ctx cand base s =
     (case build (pc_config cand) of
        Some c \<Rightarrow> ((s\<lparr>as_phase := Settled, as_pool := switch_to_client c (as_pool s),
                     as_label := with_source base (pc_source cand)\<rparr>,
                   [Switched cand c, Published (with_source base (pc_source cand))]), True)
      | None \<Rightarrow> ((s\<lparr>as_phase := Settled, as_cache := cache_set t (ax_host ctx) DCooldown (as_cache s)\<rparr>, []), False))"
  by (simp add: apply_switch_def publish_route_def settle_auto_def split: option.split)

lemma winner_sampled:
  assumes "fastest_proxy_winner (sample_outcomes ctx etag modified rs) b = Some (cand, out)"
  obtains i r where "(i, Some r) \<in> set rs" "i < length (ax_candidates ctx)" "cand = ax_candidates ctx ! i"
    "pb_status r div 100 = 2" "validators_match etag modified r" "out = probe_proxy etag modified (Some r)"
    "0 < po_bps out" "2 * b \<le> po_bps out"
proof -
  have "(cand, out) \<in> set (sample_outcomes ctx etag modified rs)" "po_valid out" "proxy_wins (po_bps out) b"
    using max_by_key_Some[OF assms[unfolded fastest_proxy_winner_def]] by auto
  then obtain i x where i: "(i, x) \<in> set rs" "i < length (ax_candidates ctx)" "cand = ax_candidates ctx ! i"
      "out = probe_proxy etag modified x" "po_valid out" "0 < po_bps out" "2 * b \<le> po_bps out"
    by (auto simp: sample_outcomes_def proxy_wins_def advantage_ratio_def)
  then obtain r where "x = Some r" "pb_status r div 100 = 2" "validators_match etag modified r"
    by (auto simp: probe_proxy_def split: option.splits if_splits)
  with i show thesis by (auto intro: that)
qed

lemma judge_inv:
  assumes p: "probing_since E evs (as_started s0) (Some os) b" and j: "judge t now fp (ae_build E) (ae_ctx E) (max b (per_conn ob)) os s = (s', es)"
    and "as_started s = as_started s0"
  shows "auto_inv E (evs @ [Ticked t now fp ob]) s0 s' (Sampled # es)"
proof -
  let ?evs = "evs @ [Ticked t now fp ob]"
  obtain t1 n1 fp1 ob1 rs where q: "may_probe E (as_started s0) t1 ob1" "b = per_conn ob1"
      "subseq [Ticked t1 n1 fp1 ob1, Answered rs] evs" "os = sample_outcomes (ae_ctx E) (ae_etag E) (ae_modified E) rs"
    using p by (auto simp: probing_since_def)
  show ?thesis
  proof (cases "fastest_proxy_winner os (max b (per_conn ob))")
    case None
    then show ?thesis
      using j assms(3) by (auto simp: judge_def publish_route_def settle_auto_def auto_inv_def outcome_shape_def Let_def split: if_splits)
  next
    case (Some w)
    obtain cand out where w: "w = (cand, out)" by fastforce
    obtain i r where r: "(i, Some r) \<in> set rs" "i < length (ax_candidates (ae_ctx E))" "cand = ax_candidates (ae_ctx E) ! i"
      "pb_status r div 100 = 2" "validators_match (ae_etag E) (ae_modified E) r" "out = probe_proxy (ae_etag E) (ae_modified E) (Some r)"
      "0 < po_bps out" "2 * max b (per_conn ob) \<le> po_bps out"
      using winner_sampled Some w q(4) by metis
    have "subseq ([Ticked t1 n1 fp1 ob1, Answered rs] @ [Ticked t now fp ob]) ?evs"
      using q(3) by (intro list_emb_append_mono) auto
    then have s: "subseq [Ticked t1 n1 fp1 ob1, Answered rs, Ticked t now fp ob] ?evs" by simp
    have "sampled_win E (as_started s0) ?evs cand c" if "ae_build E (pc_config cand) = Some c" for c
      by (rule sampled_winI[OF that s q(1) r(1-7)]) (use r(8) q(2) in auto)
    then show ?thesis
      using j Some w assms(3) by (auto simp: judge_def apply_switch_cases auto_inv_def outcome_shape_def split: option.splits)
  qed
qed

lemma leave_idle_inv:
  assumes j: "leave_idle t (ae_build E) (ae_ctx E) ob s = (s', es)" and g: "may_probe E (as_started s0) t ob"
    and st: "as_started s = as_started s0" "s = fst (auto_run E evs s0)"
  shows "auto_inv E (evs @ [Ticked t now fp ob]) s0 s' es"
proof -
  let ?evs = "evs @ [Ticked t now fp ob]"
  obtain d cache where d: "cache_lookup t (ax_host (ae_ctx E)) (as_cache s) = (d, cache)" by fastforce
  have p: "probing_since E ?evs (as_started s0) None (per_conn ob)"
    unfolding probing_since_def using g
    by - (rule exI[of _ t], rule exI[of _ now], rule exI[of _ fp], rule exI[of _ ob], auto intro: list_emb_append2)
  have l: "leased_at E ?evs s0 cand c"
    if "d = Some (DProxy src)" "\<not> ax_validate (ae_ctx E)" "ae_build E (pc_config cand) = Some c"
      "find (\<lambda>c. pc_source c = src) (ax_candidates (ae_ctx E)) = Some cand" for src cand c
    unfolding leased_at_def using that g d st(2) by (auto simp: find_Some_iff) (metis fst_conv)
  note j' = j[unfolded leave_idle_def d, simplified, symmetric]
  show ?thesis
  proof (cases "\<exists>src. d = Some (DProxy src) \<and> \<not> ax_validate (ae_ctx E) \<and> find (\<lambda>c. pc_source c = src) (ax_candidates (ae_ctx E)) \<noteq> None")
    case True
    then obtain src cand where "d = Some (DProxy src)" "\<not> ax_validate (ae_ctx E)"
      "find (\<lambda>c. pc_source c = src) (ax_candidates (ae_ctx E)) = Some cand" by auto
    note pc = this
    show ?thesis
      using j' l st(1) pc by (auto simp: Let_def apply_switch_cases auto_inv_def outcome_shape_def split: option.splits)
  next
    case False
    then show ?thesis
      using j' p st(1) by (auto simp: Let_def auto_inv_def outcome_shape_def settle_auto_def split: option.splits decision.splits if_splits)
  qed
qed

lemma auto_run_inv: "auto_inv E evs s0 (fst (auto_run E evs s0)) (snd (auto_run E evs s0))" if "as_phase s0 = Idle"
proof (induction evs rule: rev_induct)
  case Nil
  then show ?case using that by (simp add: auto_inv_def)
next
  case (snoc e evs)
  define s where "s = fst (auto_run E evs s0)"
  define es where "es = snd (auto_run E evs s0)"
  obtain s' es' where step: "auto_step E e s = (s', es')" by fastforce
  have run: "auto_run E (evs @ [e]) s0 = (s', es @ es')"
    using step by (cases "auto_run E evs s0") (simp add: auto_run_append s_def es_def)
  have inv: "auto_inv E evs s0 s es" using snoc by (simp add: s_def es_def)
  have grow: "auto_inv E (evs @ [e]) s0 s es"
    using inv by (auto simp: auto_inv_def split: auto_phase.splits intro: outcome_shape_mono probing_since_mono)
  have "auto_inv E (evs @ [e]) s0 s' (es @ es')"
  proof (cases e)
    case (Meanwhile cache pool routes)
    then show ?thesis using step grow by (auto simp: auto_inv_def split: auto_phase.splits)
  next
    case (Answered replies)
    show ?thesis
    proof (cases "\<exists>b. as_phase s = Probing None b")
      case True
      then obtain b where b: "as_phase s = Probing None b" by blast
      then obtain t now fp ob where q: "may_probe E (as_started s0) t ob" "b = per_conn ob" "subseq [Ticked t now fp ob] evs"
        using inv by (auto simp: auto_inv_def probing_since_def)
      have "subseq ([Ticked t now fp ob] @ [Answered replies]) (evs @ [e])"
        using q(3) Answered by (intro list_emb_append_mono) auto
      then have "probing_since E (evs @ [e]) (as_started s0) (Some (sample_outcomes (ae_ctx E) (ae_etag E) (ae_modified E) replies)) b"
        unfolding probing_since_def using q(1,2) by (simp only: option.case append.simps) blast
      then show ?thesis using step inv b Answered by (auto simp: auto_inv_def samples_arrive_def)
    next
      case False
      then have "samples_arrive (ae_ctx E) (ae_etag E) (ae_modified E) replies s = s"
        by (auto simp: samples_arrive_def split: auto_phase.splits option.splits)
      then show ?thesis using step grow Answered by simp
    qed
  next
    case (Ticked t now fp ob)
    note tick = step[unfolded Ticked, simplified, unfolded auto_tick_def]
    have st: "as_started s = as_started s0" using inv by (simp add: auto_inv_def)
    show ?thesis
    proof (cases "as_phase s")
      case Idle
      then have "es = []" using inv by (simp add: auto_inv_def)
      show ?thesis
      proof (cases "may_probe E (as_started s0) t ob")
        case True
        then have "leave_idle t (ae_build E) (ae_ctx E) ob s = (s', es')" using tick Idle st by (simp add: may_probe_def)
        then show ?thesis using leave_idle_inv True st s_def \<open>es = []\<close> Ticked by simp
      qed (use tick Idle st grow in \<open>simp add: may_probe_def\<close>)
    next
      case (Probing slot b)
      show ?thesis
      proof (cases slot)
        case None
        then show ?thesis using tick Probing grow by simp
      next
        case (Some os)
        have "probing_since E evs (as_started s0) (Some os) b" "es = [Sampled]" using inv Probing Some by (auto simp: auto_inv_def)
        moreover have "judge t now fp (ae_build E) (ae_ctx E) (max b (per_conn ob)) os (s\<lparr>as_phase := Probing None b\<rparr>) = (s', es')"
          using tick Probing Some by simp
        ultimately show ?thesis using judge_inv[of E evs s0 os b] st Ticked by auto
      qed
    next
      case Settled
      then show ?thesis using tick grow by simp
    qed
  qed
  then show ?case by (simp add: run)
qed

section \<open>What a run can do\<close>

lemma explained: "outcome_shape E evs s0 (snd (auto_run E evs s0))" if "as_phase s0 = Idle"
  using auto_run_inv[OF that, of E evs] by (auto simp: auto_inv_def outcome_shape_def split: auto_phase.splits)

text \<open>
  C12.  A task samples at most one round and changes its route at most once, whatever other tasks do to
  the shared decisions meanwhile: a run has no effect but one round of samples, one switch with its
  label, or one verdict for the direct connection.  A switch is either the lease of a sibling, never
  for a task that must validate, or a sampled candidate that answered with the task's validators and
  was twice as fast as the direct connection before and after the sampling.
\<close>

theorem auto_switch_explained:
  "outcome_shape E evs (auto_begin t cache pool routes label) (snd (auto_run E evs (auto_begin t cache pool routes label)))"
  by (rule explained) (simp add: auto_begin_def)

text \<open>A round that was answered is decided at the next tick; then the task does nothing more.\<close>

lemma answered_round_decides:
  assumes "as_phase s = Probing None b"
  shows "as_phase (fst (auto_run E [Answered rs, Ticked t now fp ob] s)) = Settled"
  using assms by (simp add: samples_arrive_def auto_tick_def judge_def apply_switch_cases publish_route_def settle_auto_def Let_def
      split: option.split prod.split)

lemma settled_is_quiet: "as_phase s = Settled \<Longrightarrow> snd (auto_run E evs s) = []"
proof (induction evs arbitrary: s)
  case (Cons e evs)
  then show ?case by (cases e) (simp_all add: auto_tick_def samples_arrive_def split: prod.splits)
qed simp

text \<open>
  A candidate that does not answer counts as one without a conflict, so it turns the verdict on a
  conflict of all others, which should hold for \<open>no_switch_ttl\<close>, into a cool-down.
\<close>

lemma dead_candidate_hides_conflict:
  assumes "\<not> po_valid out" "bt_wf (as_cache s)"
  shows "bt_get (as_cache (fst (judge t now fp build ctx b [(x, probe_proxy etag modified None), (y, out)] s))) (ax_host ctx)
      = Some (DCooldown, t + cooldown_ttl)"
    and "bt_get (as_cache (fst (judge t now fp build ctx b [(y, out)] s))) (ax_host ctx) = Some (DNoSwitch, t + no_switch_ttl)"
  using assms by (simp_all add: judge_def fastest_proxy_winner_def probe_proxy_def proxy_wins_def publish_route_def settle_auto_def
      cache_set_def decision_ttl_def bt_get_map_of map_of_bt_insert Let_def)

section \<open>A resumed task\<close>

lemma resumed_choice:
  assumes "rq_mode_auto rq" "rq_partial rq" "rq_forced rq = None"
    and "auto_route_decision t now fp rq (cache, routes) = (Some (cfg, label, ctx), st)"
  shows "cfg = no_proxy \<and> label = ''direct'' \<and> (\<forall>x. ctx = Some x \<longrightarrow> ax_validate x \<and> ax_candidates x = rq_candidates rq)"
  using assms by (auto simp: auto_route_decision_def hinted_choice_def Let_def split: if_splits option.splits prod.splits)

text \<open>
  C11.  A task with data on disk never changes its route unsampled.  Unless the failover chain forces a
  route, it starts direct, whatever leases and priors the host has, and if it switches later, then to
  a proxy of the settings that answered a sample with the validators of that data.
\<close>

theorem resumed_switch_validated:
  assumes "rq_mode_auto rq" "rq_partial rq" "rq_forced rq = None"
    and "auto_route_decision t now fp rq (cache, routes) = (Some (cfg, label, ctx), st)"
  shows "cfg = no_proxy \<and> label = ''direct'' \<and>
    (\<forall>x evs pool cand c cache' routes' t'. ctx = Some x \<longrightarrow>
       (let E = \<lparr> ae_build = build, ae_ctx = x, ae_etag = etag, ae_modified = modified \<rparr>;
            es = snd (auto_run E evs (auto_begin t' cache' pool routes' label))
        in Switched cand c \<in> set es \<longrightarrow> cand \<in> set (rq_candidates rq) \<and> sampled_win E t' evs cand c))"
proof -
  have c: "cfg = no_proxy" "label = ''direct''" "ctx = Some x \<Longrightarrow> ax_validate x \<and> ax_candidates x = rq_candidates rq" for x
    using resumed_choice[OF assms] by auto
  have "cand \<in> set (rq_candidates rq) \<and> sampled_win E t' evs cand c"
    if x: "ctx = Some x" and E: "E = \<lparr> ae_build = build, ae_ctx = x, ae_etag = etag, ae_modified = modified \<rparr>"
      and s: "Switched cand c \<in> set (snd (auto_run E evs (auto_begin t' cache' pool routes' label)))"
    for x E evs pool cand c cache' routes' t'
  proof -
    have "outcome_shape E evs (auto_begin t' cache' pool routes' label) (snd (auto_run E evs (auto_begin t' cache' pool routes' label)))"
      by (rule explained) (simp add: auto_begin_def)
    then have "sampled_win E t' evs cand c"
      using s c(3)[OF x] E by (auto simp: outcome_shape_def leased_at_def auto_begin_def)
    moreover from this have "cand \<in> set (rq_candidates rq)"
      using c(3)[OF x] E by (auto simp: sampled_win_def)
    ultimately show ?thesis by blast
  qed
  with c show ?thesis by (simp add: Let_def)
qed

text \<open>A resumed task that ignores the lease of its host, samples, and switches.\<close>

definition auto_demo_cand :: proxy_candidate where
  "auto_demo_cand = \<lparr> pc_config = no_proxy\<lparr>px_mode := ModeManual, px_host := ''p'', px_port := 8080\<rparr>, pc_source = ManualFields \<rparr>"

definition auto_demo_request :: route_request where
  "auto_demo_request = \<lparr> rq_mode_auto = True, rq_candidates = [auto_demo_cand], rq_host = Some ''h'', rq_partial = True,
     rq_ignore_tls = False, rq_forced = None \<rparr>"

definition auto_demo_routes :: route_st where
  "auto_demo_routes = \<lparr> rt_map = [], rt_epoch = [], rt_pending = None, rt_seq = 0, rt_writes = [], rt_landing = [], rt_disk = None \<rparr>"

definition auto_demo_cache :: decision_cache where "auto_demo_cache = [(''h'', (DProxy ManualFields, 600000))]"

definition auto_demo_obs :: auto_obs where
  "auto_demo_obs = \<lparr> ob_bps = 1000, ob_alive = 4, ob_remaining = 10000000, ob_limited = False, ob_sensitive = False \<rparr>"

definition auto_demo_reply :: sample_reply where
  "auto_demo_reply = \<lparr> pb_status = 206, pb_etag = ''e'', pb_modified = [], pb_received = 262144, pb_first = 1024, pb_body_secs = 2, pb_secs = 3 \<rparr>"

definition auto_demo_ctx :: auto_ctx where
  "auto_demo_ctx = \<lparr> ax_candidates = [auto_demo_cand], ax_host = ''h'', ax_fast = True, ax_validate = True \<rparr>"

definition auto_demo_env :: auto_env where
  "auto_demo_env = \<lparr> ae_build = \<lambda>_. Some 9, ae_ctx = auto_demo_ctx, ae_etag = ''e'', ae_modified = [] \<rparr>"

definition auto_demo_events :: "auto_event list" where
  "auto_demo_events = [Ticked 4000 0 [] auto_demo_obs, Answered [(0, Some auto_demo_reply)], Ticked 5000 0 [] auto_demo_obs]"

lemma auto_demo_run:
  "snd (auto_run auto_demo_env auto_demo_events (auto_begin 0 auto_demo_cache pool auto_demo_routes ''direct''))
     = [Sampled, Switched auto_demo_cand 9, Published ''proxy:sampled:manual'']"
proof -
  have win: "fastest_proxy_winner [(auto_demo_cand, probe_proxy ''e'' [] (Some auto_demo_reply))] 250
      = Some (auto_demo_cand, probe_proxy ''e'' [] (Some auto_demo_reply))"
    by (simp add: fastest_proxy_winner_def probe_proxy_def auto_demo_reply_def proxy_wins_def advantage_ratio_def
        probe_transfer_bps_def validators_match_def)
  have obs: "should_probe fast_reeval_min_runtime 4000 auto_demo_obs" "per_conn auto_demo_obs = 250"
    by (simp_all add: auto_demo_obs_def should_probe_def fast_reeval_min_runtime_def min_remaining_bytes_def per_conn_def)
  have src: "pc_source auto_demo_cand = ManualFields" by (simp add: auto_demo_cand_def)
  have hit: "cache_lookup 4000 ''h'' auto_demo_cache = (Some (DProxy ManualFields), auto_demo_cache)"
    by (simp add: cache_lookup_def auto_demo_cache_def)
  show ?thesis
    by (simp add: auto_demo_events_def auto_demo_env_def auto_demo_ctx_def auto_begin_def auto_tick_def leave_idle_def obs hit
        samples_arrive_def sample_outcomes_def judge_def win apply_switch_cases with_source_def src source_suffix_def Let_def)
qed

lemma resumed_switch_validated_witness:
  "Switched auto_demo_cand 9 \<in> set (snd (auto_run auto_demo_env auto_demo_events (auto_begin 0 auto_demo_cache demo_pool auto_demo_routes ''direct'')))
   \<and> sampled_win auto_demo_env 0 auto_demo_events auto_demo_cand 9"
proof -
  have d: "auto_route_decision 0 0 [] auto_demo_request (auto_demo_cache, auto_demo_routes)
      = (Some (no_proxy, ''direct'', Some auto_demo_ctx), auto_demo_cache, auto_demo_routes)"
    by (simp add: auto_route_decision_def auto_demo_request_def cache_lookup_def auto_demo_cache_def startup_hint_def
        ensure_net_epoch_def auto_demo_routes_def hinted_choice_def auto_demo_ctx_def Let_def)
  have "Switched auto_demo_cand 9 \<in> set (snd (auto_run auto_demo_env auto_demo_events (auto_begin 0 auto_demo_cache demo_pool auto_demo_routes ''direct'')))"
    by (simp add: auto_demo_run)
  moreover from this have "sampled_win auto_demo_env 0 auto_demo_events auto_demo_cand 9"
    using resumed_switch_validated[OF _ _ _ d, of "\<lambda>_. Some 9" "''e''" "[]"] by (simp add: auto_demo_request_def auto_demo_env_def Let_def)
  ultimately show ?thesis by blast
qed

end
